(* ===== verification/Step_Systems.thy ===== *)
theory Step_Systems
  imports Main
begin

text \<open>
  The two arguments every state machine of the development uses, stated once as contracts: an
  invariant that holds at the start and survives every step holds in every reachable state, and a
  relation whose steps all do some of a bounded amount of work, and that is stuck only when it is
  finished, always finishes. The components interpret them on their own step relations.
\<close>

section \<open>Invariants\<close>

locale step_system =
  fixes step :: "'s \<Rightarrow> 's \<Rightarrow> bool" and initial :: "'s \<Rightarrow> bool" and inv :: "'s \<Rightarrow> bool"
  assumes initial_inv: "initial s \<Longrightarrow> inv s"
    and step_inv: "inv s \<Longrightarrow> step s t \<Longrightarrow> inv t"
begin

lemma steps_inv: "step\<^sup>*\<^sup>* s t \<Longrightarrow> inv s \<Longrightarrow> inv t"
  by (induction rule: rtranclp_induct) (auto intro: step_inv)

lemma reachable_inv: "initial s \<Longrightarrow> step\<^sup>*\<^sup>* s t \<Longrightarrow> inv t"
  using steps_inv initial_inv by blast

end

lemma three_steps: "R a b \<Longrightarrow> R b c \<Longrightarrow> R c d \<Longrightarrow> R\<^sup>*\<^sup>* a d"
  by (meson converse_rtranclp_into_rtranclp r_into_rtranclp)

section \<open>Runs that end\<close>

locale ending_system = step_system +
  fixes work :: "'s \<Rightarrow> nat" and finished :: "'s \<Rightarrow> bool"
  assumes step_works: "inv s \<Longrightarrow> step s t \<Longrightarrow> work t < work s"
    and not_stuck: "inv s \<Longrightarrow> \<not> finished s \<Longrightarrow> \<exists>t. step s t"
begin

lemma run_bounded: "(step ^^ n) s t \<Longrightarrow> inv s \<Longrightarrow> n + work t \<le> work s"
proof (induction n arbitrary: t)
  case (Suc n)
  then obtain m where m: "(step ^^ n) s m" "step m t" by auto
  then have "inv m" using steps_inv[OF relpowp_imp_rtranclp] Suc.prems(2) by blast
  from step_works[OF this m(2)] Suc.IH[OF m(1) Suc.prems(2)] show ?case by linarith
qed simp

lemma run_finishes: "inv s \<Longrightarrow> \<exists>t. step\<^sup>*\<^sup>* s t \<and> finished t"
proof (induction "work s" arbitrary: s rule: less_induct)
  case less
  show ?case
  proof (cases "finished s")
    case False
    then obtain t where t: "step s t" using not_stuck less.prems by blast
    with less.hyps[OF step_works[OF less.prems t] step_inv[OF less.prems t]]
    show ?thesis by (meson converse_rtranclp_into_rtranclp)
  qed blast
qed

lemma stuck_is_finished: "inv s \<Longrightarrow> step\<^sup>*\<^sup>* s t \<Longrightarrow> (\<And>u. \<not> step t u) \<Longrightarrow> finished t"
  using steps_inv not_stuck by blast

end

end
