(* ===== verification/Prelude.thy ===== *)
theory Prelude
  imports Main Step_Systems "HOL-Library.Char_ord" "HOL-Library.List_Lexorder"
    "HOL-Library.Product_Lexorder" "HOL-Library.Multiset"
begin

text \<open>
  Shared vocabulary of the development: the result type of fallible Go functions, the
  sequencing operator for early returns, in-place updates of the first matching element of a
  slice of pointers, the collections of the program's string constants, and the generic list and
  map lemmas the components use.
\<close>

text \<open>
  The program marks states, modes and operations with string constants. Each family is a
  collection, filled where the constants are declared; a proof that compares two of them unfolds
  the collection.
\<close>

named_theorems proto_defs "the protocols of a forward"
named_theorems mode_defs "the firewall modes"
named_theorems rule_state_defs "the states of a firewall rule"
named_theorems agent_state_defs "the states of the agent as the server shows them"
named_theorems update_state_defs "the states of a client update"
named_theorems op_defs "the operations of the agent"

section \<open>Fallible computations\<close>

text \<open>
  A Go function that returns \<open>(T, error)\<close> is a function into \<open>'e + 'a\<close>: \<open>Inl\<close>
  is the error return, \<open>Inr\<close> the value. \<open>rbind\<close> is the pattern
  \<open>if err != nil { return err }\<close>.
\<close>

type_synonym ('e, 'a) result = "'e + 'a"

fun rbind :: "('e, 'a) result \<Rightarrow> ('a \<Rightarrow> ('e, 'b) result) \<Rightarrow> ('e, 'b) result" where
  "rbind (Inl e) k = Inl e"
| "rbind (Inr x) k = k x"

definition require :: "bool \<Rightarrow> 'e \<Rightarrow> ('e, unit) result" where
  "require b e = (if b then Inr () else Inl e)"

lemma rbind_eq_Inr [simp]: "rbind m k = Inr y \<longleftrightarrow> (\<exists>x. m = Inr x \<and> k x = Inr y)"
  by (cases m) auto

lemma rbind_eq_Inl: "rbind m k = Inl e \<longleftrightarrow> m = Inl e \<or> (\<exists>x. m = Inr x \<and> k x = Inl e)"
  by (cases m) auto

lemma require_eq_Inr [simp]: "require b e = Inr u \<longleftrightarrow> b"
  by (auto simp: require_def)

lemma require_True [simp]: "b \<Longrightarrow> require b e = Inr ()"
  by (simp add: require_def)

lemma require_False [simp]: "\<not> b \<Longrightarrow> require b e = Inl e"
  by (simp add: require_def)

lemma require_eq_Inl [simp]: "require b e = Inl e' \<longleftrightarrow> \<not> b \<and> e' = e"
  by (auto simp: require_def)

section \<open>Slices of pointers\<close>

text \<open>
  \<open>for _, x := range xs { if P(x) { return x } }\<close> is \<open>List.find P xs\<close>; a later
  assignment through the returned pointer is \<open>update_first P f xs\<close>.
\<close>

fun update_first :: "('a \<Rightarrow> bool) \<Rightarrow> ('a \<Rightarrow> 'a) \<Rightarrow> 'a list \<Rightarrow> 'a list" where
  "update_first P f [] = []"
| "update_first P f (x # xs) = (if P x then f x # xs else x # update_first P f xs)"

lemma length_update_first [simp]: "length (update_first P f xs) = length xs"
  by (induction xs) auto

lemma map_update_first_same:
  "(\<And>x. P x \<Longrightarrow> g (f x) = g x) \<Longrightarrow> map g (update_first P f xs) = map g xs"
  by (induction xs) auto

lemma set_update_first_subset: "set (update_first P f xs) \<subseteq> set xs \<union> f ` {x \<in> set xs. P x}"
  by (induction xs) auto

lemma update_first_none: "\<forall>x\<in>set xs. \<not> P x \<Longrightarrow> update_first P f xs = xs"
  by (induction xs) auto

lemma find_Some_set: "List.find P xs = Some x \<Longrightarrow> x \<in> set xs \<and> P x"
  by (induction xs) (auto split: if_splits)

lemma find_None_all: "List.find P xs = None \<longleftrightarrow> (\<forall>x\<in>set xs. \<not> P x)"
  by (induction xs) auto

lemma find_key_unique:
  assumes "distinct (map k xs)" and "x \<in> set xs"
  shows "List.find (\<lambda>y. k y = k x) xs = Some x"
  using assms by (induction xs) auto

lemma update_first_key:
  assumes "distinct (map k xs)"
  shows "update_first (\<lambda>y. k y = i) f xs = map (\<lambda>y. if k y = i then f y else y) xs"
  using assms
proof (induction xs)
  case Nil
  then show ?case by simp
next
  case (Cons x xs)
  show ?case
  proof (cases "k x = i")
    case True
    with Cons.prems have "\<forall>y\<in>set xs. k y \<noteq> i" by (metis distinct.simps(2) image_eqI list.set_map list.simps(9))
    then have "map (\<lambda>y. if k y = i then f y else y) xs = xs" by (simp add: map_idI)
    with True show ?thesis by simp
  next
    case False
    with Cons show ?thesis by simp
  qed
qed

section \<open>Pairwise properties of lists\<close>

lemma sorted_wrt_sym_perm:
  assumes "sorted_wrt R xs" and "mset xs = mset ys" and sym: "\<And>x y. R x y \<Longrightarrow> R y x"
  shows "sorted_wrt R ys"
  using assms(1,2)
proof (induction xs arbitrary: ys)
  case Nil
  then show ?case by simp
next
  case (Cons x xs)
  from Cons.prems(2) have "x \<in> set ys"
    by (metis list.set_intros(1) set_mset_mset)
  then obtain as bs where ys: "ys = as @ x # bs" by (auto simp: in_set_conv_decomp)
  with Cons.prems(2) have m: "mset xs = mset (as @ bs)" by simp
  with Cons have "sorted_wrt R (as @ bs)" by simp
  moreover have "set xs = set (as @ bs)" using m by (rule mset_eq_setD)
  ultimately show ?case
    using Cons.prems(1) sym by (auto simp: ys sorted_wrt_append)
qed

lemma sorted_wrt_sym_mem:
  assumes "sorted_wrt R xs" and "\<And>x y. R x y \<Longrightarrow> R y x" and "x \<in> set xs" and "y \<in> set xs"
    and "x \<noteq> y"
  shows "R x y"
  using assms by (induction xs) auto

end
