(* ===== verification/Go_Strings.thy ===== *)
theory Go_Strings
  imports Prelude
begin

text \<open>
  The parts of the Go standard library packages \<open>strings\<close> and \<open>strconv\<close> that the
  program's own parsers and validators call. A Go string is a sequence of bytes, here
  \<^typ>\<open>string\<close> (a list of 8-bit characters). Case mapping and white space are those of the
  ASCII range; the Unicode cases of \<open>ToLower\<close>, \<open>EqualFold\<close>, \<open>TrimSpace\<close> and
  \<open>Fields\<close> are not modelled, so a byte above 127 is neither a letter nor a space here.
\<close>

section \<open>Characters\<close>

definition is_space :: "char \<Rightarrow> bool" where
  "is_space c \<longleftrightarrow> c = CHR 0x20 \<or> c = CHR 0x09 \<or> c = CHR 0x0A \<or> c = CHR 0x0B \<or> c = CHR 0x0C \<or> c = CHR 0x0D"

definition is_digit :: "char \<Rightarrow> bool" where
  "is_digit c \<longleftrightarrow> 48 \<le> (of_char c :: nat) \<and> (of_char c :: nat) \<le> 57"

definition lower_char :: "char \<Rightarrow> char" where
  "lower_char c = (let n = (of_char c :: nat) in if 65 \<le> n \<and> n \<le> 90 then char_of (n + 32) else c)"

section \<open>Package strings\<close>

definition to_lower :: "string \<Rightarrow> string" where
  "to_lower s = map lower_char s"

definition equal_fold :: "string \<Rightarrow> string \<Rightarrow> bool" where
  "equal_fold a b \<longleftrightarrow> to_lower a = to_lower b"

definition trim_space :: "string \<Rightarrow> string" where
  "trim_space s = rev (dropWhile is_space (rev (dropWhile is_space s)))"

definition has_prefix :: "string \<Rightarrow> string \<Rightarrow> bool" where
  "has_prefix p s \<longleftrightarrow> take (length p) s = p"

definition trim_prefix :: "string \<Rightarrow> string \<Rightarrow> string" where
  "trim_prefix p s = (if has_prefix p s then drop (length p) s else s)"

definition contains_any :: "string \<Rightarrow> string \<Rightarrow> bool" where
  "contains_any s cs \<longleftrightarrow> (\<exists>c\<in>set s. c \<in> set cs)"

fun contains :: "string \<Rightarrow> string \<Rightarrow> bool" where
  "contains [] p = (p = [])"
| "contains (c # s) p = (has_prefix p (c # s) \<or> contains s p)"

text \<open>\<open>FieldsFunc\<close>: the maximal runs of characters that are not separators.\<close>

function fields_func :: "(char \<Rightarrow> bool) \<Rightarrow> string \<Rightarrow> string list" where
  "fields_func p s =
     (let s' = dropWhile p s in
      if s' = [] then []
      else takeWhile (\<lambda>c. \<not> p c) s' # fields_func p (dropWhile (\<lambda>c. \<not> p c) s'))"
  by pat_completeness auto
termination
proof (relation "measure (\<lambda>(p, s). length s)", goal_cases)
  case 1
  then show ?case by simp
next
  case (2 p s x)
  then obtain c cs where eq: "dropWhile p s = c # cs" and c: "\<not> p c"
    by (metis hd_dropWhile list.exhaust_sel)
  have "length (dropWhile (\<lambda>c. \<not> p c) (c # cs)) \<le> length cs"
    using c by (simp add: length_dropWhile_le)
  also have "\<dots> < length (dropWhile p s)" using eq by simp
  also have "\<dots> \<le> length s" by (rule length_dropWhile_le)
  finally show ?case using 2 eq by simp
qed

declare fields_func.simps [simp del]

definition fields :: "string \<Rightarrow> string list" where
  "fields s = fields_func is_space s"

text \<open>\<open>Split\<close> at a one-byte separator: always at least one piece.\<close>

fun split_on :: "char \<Rightarrow> string \<Rightarrow> string list" where
  "split_on c [] = [[]]"
| "split_on c (x # xs) =
     (if x = c then [] # split_on c xs
      else (case split_on c xs of [] \<Rightarrow> [[x]] | w # ws \<Rightarrow> (x # w) # ws))"

text \<open>\<open>Cut\<close> at a one-byte separator: the part before, the part after, and whether it occurs.\<close>

definition cut :: "char \<Rightarrow> string \<Rightarrow> string \<times> string \<times> bool" where
  "cut c s = (let b = takeWhile (\<lambda>x. x \<noteq> c) s; r = dropWhile (\<lambda>x. x \<noteq> c) s in
     case r of [] \<Rightarrow> (s, [], False) | _ # t \<Rightarrow> (b, t, True))"

fun join :: "string \<Rightarrow> string list \<Rightarrow> string" where
  "join sep [] = []"
| "join sep [w] = w"
| "join sep (w # v # ws) = w @ sep @ join sep (v # ws)"

section \<open>Package strconv\<close>

definition digit_val :: "char \<Rightarrow> int" where
  "digit_val c = int (of_char c :: nat) - 48"

definition digits_val :: "string \<Rightarrow> int" where
  "digits_val s = foldl (\<lambda>n c. 10 * n + digit_val c) 0 s"

text \<open>
  \<open>Atoi\<close> returns the value and whether there was no error; out of range it returns the
  nearest 64-bit value together with the error, on a syntax error zero.
\<close>

definition atoi :: "string \<Rightarrow> int \<times> bool" where
  "atoi s =
     (let neg = (s \<noteq> [] \<and> hd s = CHR ''-'');
          ds = (if s \<noteq> [] \<and> (hd s = CHR ''-'' \<or> hd s = CHR ''+'') then tl s else s);
          n = digits_val ds
      in if ds = [] \<or> \<not> list_all is_digit ds then (0, False)
         else if neg then (if n > 2 ^ 63 then (- (2 ^ 63), False) else (- n, True))
         else if n \<ge> 2 ^ 63 then (2 ^ 63 - 1, False) else (n, True))"

definition digit_char :: "nat \<Rightarrow> char" where
  "digit_char n = char_of (48 + n)"

fun nat_digits :: "nat \<Rightarrow> string" where
  "nat_digits n = (if n < 10 then [digit_char n] else nat_digits (n div 10) @ [digit_char (n mod 10)])"

declare nat_digits.simps [simp del]

definition itoa :: "int \<Rightarrow> string" where
  "itoa i = (if i < 0 then CHR ''-'' # nat_digits (nat (- i)) else nat_digits (nat i))"

section \<open>Facts about the string functions\<close>

lemma is_digit_digit_char [simp]: "n < 10 \<Longrightarrow> is_digit (digit_char n)"
  by (simp add: is_digit_def digit_char_def)

lemma digit_val_digit_char [simp]: "n < 10 \<Longrightarrow> digit_val (digit_char n) = int n"
  by (simp add: digit_val_def digit_char_def of_char_of)

lemma lower_char_digit [simp]: "is_digit c \<Longrightarrow> lower_char c = c"
  by (auto simp: is_digit_def lower_char_def Let_def)

lemma nat_digits_not_Nil [simp]: "nat_digits n \<noteq> []"
  by (subst nat_digits.simps) simp

lemma nat_digits_all_digits: "c \<in> set (nat_digits n) \<Longrightarrow> is_digit c"
proof (induction n rule: nat_digits.induct)
  case (1 n)
  then show ?case by (subst (asm) (2) nat_digits.simps) (auto split: if_splits)
qed

lemma digits_val_snoc [simp]: "digits_val (s @ [c]) = 10 * digits_val s + digit_val c"
  by (simp add: digits_val_def)

lemma digits_val_nat_digits [simp]: "digits_val (nat_digits n) = int n"
proof (induction n rule: nat_digits.induct)
  case (1 n)
  show ?case
  proof (cases "n < 10")
    case True
    then show ?thesis by (subst nat_digits.simps) (simp add: digits_val_def)
  next
    case False
    with 1 have "digits_val (nat_digits (n div 10)) = int (n div 10)" by simp
    with False show ?thesis by (subst nat_digits.simps) (simp add: zdiv_int zmod_int)
  qed
qed

lemma length_nat_digits: "n < 10 ^ Suc k \<Longrightarrow> length (nat_digits n) \<le> Suc k"
proof (induction k arbitrary: n)
  case 0
  then show ?case by (subst nat_digits.simps) simp
next
  case (Suc k)
  then have "n div 10 < 10 ^ Suc k" by (simp add: less_mult_imp_div_less mult.commute)
  with Suc.IH have "length (nat_digits (n div 10)) \<le> Suc k" by blast
  then show ?case by (subst nat_digits.simps) simp
qed

lemma itoa_nonneg: "0 \<le> i \<Longrightarrow> itoa i = nat_digits (nat i)"
  by (simp add: itoa_def)

lemma atoi_nat_digits: "int n < 2 ^ 63 \<Longrightarrow> atoi (nat_digits n) = (int n, True)"
proof -
  assume n: "int n < 2 ^ 63"
  have d: "list_all is_digit (nat_digits n)"
    using nat_digits_all_digits by (auto simp: list_all_iff)
  have "is_digit (hd (nat_digits n))"
    by (rule nat_digits_all_digits[of _ n]) simp
  then have "hd (nat_digits n) \<noteq> CHR ''-''" "hd (nat_digits n) \<noteq> CHR ''+''"
    by (auto simp: is_digit_def)
  with n d show ?thesis by (simp add: atoi_def)
qed

lemma nat_digits_inj: "nat_digits m = nat_digits n \<longleftrightarrow> m = n"
  by (metis digits_val_nat_digits of_nat_eq_iff)

lemma itoa_chars: "c \<in> set (itoa i) \<Longrightarrow> is_digit c \<or> c = CHR ''-''"
  by (auto simp: itoa_def split: if_splits dest: nat_digits_all_digits)

lemma itoa_inj [simp]: "itoa i = itoa j \<longleftrightarrow> i = j"
proof
  assume e: "itoa i = itoa j"
  have m: "nat_digits n \<noteq> CHR ''-'' # s" for n s
    using nat_digits_all_digits[of "CHR ''-''" n] by (auto simp: is_digit_def)
  with e m[THEN not_sym] show "i = j" by (auto simp: itoa_def nat_digits_inj nat_eq_iff split: if_splits)
qed simp

lemma takeWhile_append_stop:
  "\<lbrakk>\<forall>x\<in>set xs. P x; ys \<noteq> [] \<Longrightarrow> \<not> P (hd ys)\<rbrakk> \<Longrightarrow> takeWhile P (xs @ ys) = xs"
  by (induction xs) (cases ys; auto)+

lemma dropWhile_append_stop:
  "\<lbrakk>\<forall>x\<in>set xs. P x; ys \<noteq> [] \<Longrightarrow> \<not> P (hd ys)\<rbrakk> \<Longrightarrow> dropWhile P (xs @ ys) = ys"
  by (induction xs) (cases ys; auto)+

text \<open>A joined list of words splits back into the words.\<close>

lemma fields_func_Nil [simp]: "fields_func p [] = []"
  by (simp add: fields_func.simps)

lemma fields_func_sep: "p c \<Longrightarrow> fields_func p (c # s) = fields_func p s"
  by (subst (1 2) fields_func.simps) simp

lemma fields_func_seps: "\<forall>c\<in>set sep. p c \<Longrightarrow> fields_func p (sep @ s) = fields_func p s"
  by (induction sep) (auto simp: fields_func_sep)

lemma fields_func_word:
  assumes "w \<noteq> []" and "\<forall>c\<in>set w. \<not> p c" and "s \<noteq> [] \<Longrightarrow> p (hd s)"
  shows "fields_func p (w @ s) = w # fields_func p s"
proof -
  have dw: "dropWhile p (w @ s) = w @ s" using assms(1,2) by (cases w) auto
  have "takeWhile (\<lambda>c. \<not> p c) (w @ s) = w" "dropWhile (\<lambda>c. \<not> p c) (w @ s) = s"
    using assms(2,3) by (intro takeWhile_append_stop dropWhile_append_stop; auto)+
  with dw assms(1) show ?thesis by (subst fields_func.simps) (simp add: Let_def)
qed

lemma fields_func_join:
  assumes "\<forall>w\<in>set ws. w \<noteq> [] \<and> (\<forall>c\<in>set w. \<not> p c)" and "sep \<noteq> []" and "\<forall>c\<in>set sep. p c"
  shows "fields_func p (join sep ws) = ws"
  using assms
proof (induction sep ws rule: join.induct)
  case (2 sep w)
  then show ?case using fields_func_word[of w p "[]"] by simp
next
  case (3 sep w v ws)
  then have "fields_func p (w @ sep @ join sep (v # ws)) = w # fields_func p (sep @ join sep (v # ws))"
    by (intro fields_func_word) auto
  with 3 show ?case by (simp add: fields_func_seps)
qed simp

lemma split_on_no_sep: "c \<notin> set s \<Longrightarrow> split_on c s = [s]"
  by (induction c s rule: split_on.induct) auto

lemma split_on_append: "c \<notin> set s \<Longrightarrow> split_on c (s @ c # t) = s # split_on c t"
  by (induction s) auto

lemma split_on_join: "\<forall>w\<in>set ws. c \<notin> set w \<Longrightarrow> ws \<noteq> [] \<Longrightarrow> split_on c (join [c] ws) = ws"
  by (induction "[c]" ws rule: join.induct) (auto simp: split_on_no_sep split_on_append)

lemma has_prefix_append [simp]: "has_prefix p (p @ s)"
  by (simp add: has_prefix_def)

lemma trim_prefix_append [simp]: "trim_prefix p (p @ s) = s"
  by (simp add: trim_prefix_def)

lemma to_lower_append [simp]: "to_lower (a @ b) = to_lower a @ to_lower b"
  by (simp add: to_lower_def)

lemma to_lower_digits [simp]: "\<forall>c\<in>set s. is_digit c \<Longrightarrow> to_lower s = s"
  by (simp add: to_lower_def map_idI)

lemma lower_char_idem [simp]: "lower_char (lower_char c) = lower_char c"
  by (auto simp: lower_char_def Let_def of_char_of)

lemma to_lower_idem [simp]: "to_lower (to_lower s) = to_lower s"
  by (simp add: to_lower_def)

lemma equal_fold_refl [simp]: "equal_fold a a"
  by (simp add: equal_fold_def)

lemma equal_fold_sym: "equal_fold a b \<Longrightarrow> equal_fold b a"
  by (simp add: equal_fold_def)

lemma equal_fold_trans: "equal_fold a b \<Longrightarrow> equal_fold b c \<Longrightarrow> equal_fold a c"
  by (simp add: equal_fold_def)

lemma trim_space_idem [simp]: "trim_space (trim_space s) = trim_space s"
proof -
  define t where "t = dropWhile is_space s"
  define u where "u = rev (dropWhile is_space (rev t))"
  have "u = [] \<or> \<not> is_space (hd u)"
  proof (cases "u = []")
    case False
    have "t = u @ rev (takeWhile is_space (rev t))"
      unfolding u_def by (metis rev_append rev_rev_ident takeWhile_dropWhile_id)
    then have "hd t = hd u" "t \<noteq> []" using False by (metis hd_append, auto)
    then show ?thesis using hd_dropWhile[of is_space s] by (auto simp: t_def)
  qed simp
  then have a: "dropWhile is_space u = u" by (cases u) auto
  have "dropWhile is_space (rev u) = rev u" by (simp add: u_def)
  then show ?thesis using a by (simp add: trim_space_def t_def u_def)
qed

end
