(* ===== verification/Errors.thy ===== *)
theory Errors
  imports Prelude
begin

text \<open>
  The errors of the store and of the management API. \<open>internal/store/store.go\<close> declares
  three sentinel errors; every error of the handlers wraps one of them with a message
  (\<open>fmt.Errorf("%w: ...")\<close>) or comes from the operating system. An error is a pair of the
  sentinel (\<open>err_kind\<close>, what \<open>errors.Is\<close> sees) and the message (\<open>reason\<close>, one
  constructor per message of the code, carrying the values the message prints).
\<close>

datatype err_kind = ErrNotFound | ErrConflict | ErrValidation | ErrInternal

datatype reason =
    BadProtocol
  | PortsRequired
  | EntryInvalid string
  | EntryPortRange string
  | EntryReversed string
  | EntryTargetRange string
  | TooManyPorts
  | DuplicatePort string int string
  | NameRequired
  | NameTooLong
  | PublicPortRange
  | TargetPortRange
  | TargetHostRequired
  | TargetHostInvalid
  | TunnelPortReserved int
  | AdminPortReserved int
  | UnknownClientRef
  | PortInUse int string
  | CannotListen string int
  | ForwardNotFound
  | GroupNotFound
  | ClientNotFound
  | TokenNotFound
  | MoveGroupInstead
  | ClientNameTaken string
  | BadPublicHost
  | BadFirewallMode
  | WrongPassword
  | SaveFailed
  | IndexOutOfRange

type_synonym error = "err_kind \<times> reason"

text \<open>The HTTP status \<open>writeStoreError\<close> answers with.\<close>

definition store_error_status :: "error \<Rightarrow> nat" where
  "store_error_status e =
     (case fst e of
        ErrNotFound \<Rightarrow> 404
      | ErrConflict \<Rightarrow> 409
      | ErrValidation \<Rightarrow> 400
      | ErrInternal \<Rightarrow> 500)"

lemma store_error_status_not_ok: "400 \<le> store_error_status e"
  by (simp add: store_error_status_def split: err_kind.splits)

end
