(* ===== verification/Portspec.thy ===== *)
theory Portspec
  imports Go_Strings Errors
begin

text \<open>
  \<open>internal/store/portspec.go\<close>: the port-spec language of forward groups. The parser
  (\<open>ParsePortSpec\<close> with its regular expression, range expansion and duplicate check), the
  in-place insertion sort of the entries and the canonical renderer (\<open>RenderPortSpec\<close>).
  The lemmas show what a parsed spec satisfies (\<open>wf_entries\<close>), that the sort is the stable
  library sort, and that rendering and parsing are inverse.
\<close>

section \<open>Entries\<close>

definition MaxGroupPorts :: nat where
  "MaxGroupPorts = 64"

definition ProtoTCP :: string where [proto_defs]: "ProtoTCP = ''tcp''"
definition ProtoUDP :: string where [proto_defs]: "ProtoUDP = ''udp''"
definition ProtoBoth :: string where [proto_defs]: "ProtoBoth = ''both''"

definition known_proto :: "string \<Rightarrow> bool" where
  "known_proto p \<longleftrightarrow> p = ProtoTCP \<or> p = ProtoUDP \<or> p = ProtoBoth"

record port_entry =
  PublicPort :: int
  Protocol :: string
  TargetPort :: int

section \<open>The entry pattern\<close>

text \<open>
  \<open>entryRe\<close> is \<^verbatim>\<open>^(\d{1,5})(?:-(\d{1,5}))?(?:/(tcp|udp|both))?(?:>(\d{1,5}))?$\<close>.
  The character after each group decides the match, so it is read from left to right; an
  absent optional group is the empty string, as in \<open>FindStringSubmatch\<close>.
\<close>

definition lex_digits :: "string \<Rightarrow> (string \<times> string) option" where
  "lex_digits s = (let d = takeWhile is_digit s in
     if 1 \<le> length d \<and> length d \<le> 5 then Some (d, drop (length d) s) else None)"

definition lex_opt_num :: "char \<Rightarrow> string \<Rightarrow> string \<times> string" where
  "lex_opt_num c s =
     (if s \<noteq> [] \<and> hd s = c
      then (case lex_digits (tl s) of Some (d, r) \<Rightarrow> (d, r) | None \<Rightarrow> ([], s))
      else ([], s))"

definition lex_opt_proto :: "string \<Rightarrow> string \<times> string" where
  "lex_opt_proto s =
     (if has_prefix (CHR ''/'' # ProtoTCP) s then (ProtoTCP, drop 4 s)
      else if has_prefix (CHR ''/'' # ProtoUDP) s then (ProtoUDP, drop 4 s)
      else if has_prefix (CHR ''/'' # ProtoBoth) s then (ProtoBoth, drop 5 s)
      else ([], s))"

definition match_entry :: "string \<Rightarrow> (string \<times> string \<times> string \<times> string) option" where
  "match_entry s =
     (case lex_digits s of
        None \<Rightarrow> None
      | Some (m1, r1) \<Rightarrow>
          (let (m2, r2) = lex_opt_num CHR ''-'' r1;
               (m3, r3) = lex_opt_proto r2;
               (m4, r4) = lex_opt_num CHR ''>'' r3
           in if r4 = [] then Some (m1, m2, m3, m4) else None))"

section \<open>ParsePortSpec\<close>

definition protoOverlap :: "string \<Rightarrow> string \<Rightarrow> bool" where
  "protoOverlap a b \<longleftrightarrow> a = b \<or> a = ProtoBoth \<or> b = ProtoBoth"

definition spec_sep :: "char \<Rightarrow> bool" where
  "spec_sep r \<longleftrightarrow> r = CHR '','' \<or> r = CHR '' '' \<or> r = CHR 0x09 \<or> r = CHR 0x0A \<or> r = CHR 0x0D"

text \<open>
  The state of the outer loop: \<open>seen\<close> (public port to the protocols already listed there,
  a missing key being the empty slice) and \<open>out\<close>. \<open>add_ports\<close> is the inner loop
  over the ports of one entry.
\<close>

type_synonym spec_state = "(int \<Rightarrow> string list) \<times> port_entry list"

fun add_ports :: "string \<Rightarrow> string \<Rightarrow> int \<Rightarrow> int list \<Rightarrow> spec_state \<Rightarrow> (error, spec_state) result" where
  "add_ports raw proto off [] st = Inr st"
| "add_ports raw proto off (p # ps) (seen, out) =
     (if \<exists>prev\<in>set (seen p). protoOverlap prev proto
      then Inl (ErrValidation, DuplicatePort raw p proto)
      else add_ports raw proto off ps
             (seen(p := seen p @ [proto]),
              out @ [\<lparr>PublicPort = p, Protocol = proto, TargetPort = p + off\<rparr>]))"

definition spec_entry :: "string \<Rightarrow> string \<Rightarrow> spec_state \<Rightarrow> (error, spec_state) result" where
  "spec_entry defProto raw st =
     (case match_entry (to_lower raw) of
        None \<Rightarrow> Inl (ErrValidation, EntryInvalid raw)
      | Some (m1, m2, m3, m4) \<Rightarrow>
          (let start = fst (atoi m1);
               end = (if m2 \<noteq> [] then fst (atoi m2) else start);
               proto = (if m3 = [] then defProto else m3);
               target = (if m4 \<noteq> [] then fst (atoi m4) else start);
               offset = target - start
           in if start < 1 \<or> start > 65535 \<or> end < 1 \<or> end > 65535
              then Inl (ErrValidation, EntryPortRange raw)
              else if start > end then Inl (ErrValidation, EntryReversed raw)
              else if target < 1 \<or> end + offset > 65535
              then Inl (ErrValidation, EntryTargetRange raw)
              else if int (length (snd st)) + (end - start + 1) > int MaxGroupPorts
              then Inl (ErrValidation, TooManyPorts)
              else add_ports raw proto offset [start..end] st))"

fun spec_loop :: "string \<Rightarrow> string list \<Rightarrow> spec_state \<Rightarrow> (error, spec_state) result" where
  "spec_loop defProto [] st = Inr st"
| "spec_loop defProto (raw # raws) st =
     rbind (spec_entry defProto raw st) (spec_loop defProto raws)"

section \<open>The insertion sort\<close>

definition lessEntry :: "port_entry \<Rightarrow> port_entry \<Rightarrow> bool" where
  "lessEntry a b =
     (if PublicPort a \<noteq> PublicPort b then PublicPort a < PublicPort b
      else Protocol a < Protocol b)"

text \<open>\<open>sift es j\<close> is the inner loop of \<open>sortEntries\<close>, swapping \<open>es[j]\<close> down.\<close>

fun sift :: "port_entry list \<Rightarrow> nat \<Rightarrow> port_entry list" where
  "sift es 0 = es"
| "sift es (Suc j) =
     (if lessEntry (es ! Suc j) (es ! j)
      then sift (es[Suc j := es ! j, j := es ! Suc j]) j
      else es)"

definition sortEntries :: "port_entry list \<Rightarrow> port_entry list" where
  "sortEntries es = foldl sift es [1..<length es]"

definition ParsePortSpec :: "string \<Rightarrow> string \<Rightarrow> (error, port_entry list) result" where
  "ParsePortSpec spec defProto =
     (if \<not> known_proto defProto then Inl (ErrValidation, BadProtocol)
      else let tokens = fields_func spec_sep spec in
        if tokens = [] then Inl (ErrValidation, PortsRequired)
        else rbind (spec_loop defProto tokens (\<lambda>_. [], []))
               (\<lambda>(seen, out). Inr (sortEntries out)))"

section \<open>RenderPortSpec\<close>

text \<open>
  \<open>run_end e0 cur rest\<close> advances \<open>j\<close>: it returns the last entry of the run that starts
  at \<open>e0\<close>, and the entries after it. In a run of more than one entry the ports differ, so
  the code's test \<open>j > i\<close> is the test for different ports in \<open>render_run\<close>.
\<close>

fun run_end :: "port_entry \<Rightarrow> port_entry \<Rightarrow> port_entry list \<Rightarrow> port_entry \<times> port_entry list" where
  "run_end e0 cur [] = (cur, [])"
| "run_end e0 cur (e # es) =
     (if PublicPort e = PublicPort cur + 1 \<and> Protocol e = Protocol e0
         \<and> TargetPort e - PublicPort e = TargetPort e0 - PublicPort e0
      then run_end e0 e es
      else (cur, e # es))"

definition render_run :: "port_entry \<Rightarrow> port_entry \<Rightarrow> string" where
  "render_run e0 e1 =
     itoa (PublicPort e0)
     @ (if PublicPort e1 \<noteq> PublicPort e0 then CHR ''-'' # itoa (PublicPort e1) else [])
     @ CHR ''/'' # Protocol e0
     @ (if TargetPort e0 \<noteq> PublicPort e0 then CHR ''>'' # itoa (TargetPort e0) else [])"

lemma length_run_end: "length (snd (run_end e0 cur es)) \<le> length es"
  by (induction e0 cur es rule: run_end.induct) auto

function render_parts :: "port_entry list \<Rightarrow> string list" where
  "render_parts [] = []"
| "render_parts (e # es) =
     render_run e (fst (run_end e e es)) # render_parts (snd (run_end e e es))"
  by pat_completeness auto
termination
  by (relation "measure length") (auto simp: le_imp_less_Suc length_run_end)

definition RenderPortSpec :: "port_entry list \<Rightarrow> string" where
  "RenderPortSpec entries = join '', '' (render_parts (sortEntries entries))"

section \<open>The sort is the stable library sort\<close>

definition entry_key :: "port_entry \<Rightarrow> int \<times> string" where
  "entry_key e = (PublicPort e, Protocol e)"

lemma lessEntry_key: "lessEntry a b \<longleftrightarrow> entry_key a < entry_key b"
  by (auto simp: lessEntry_def entry_key_def)

lemma sift_insert:
  assumes "sorted (map entry_key xs)"
  shows "sift (xs @ x # ys) (length xs) =
    filter (\<lambda>e. \<not> entry_key x < entry_key e) xs @ x # filter (\<lambda>e. entry_key x < entry_key e) xs @ ys"
  using assms
proof (induction xs arbitrary: ys rule: rev_induct)
  case Nil
  then show ?case by simp
next
  case (snoc z xs)
  show ?case
  proof (cases "entry_key x < entry_key z")
    case True
    have "(xs @ z # x # ys)[Suc (length xs) := z, length xs := x] = xs @ x # z # ys"
      by (simp add: list_update_append)
    then show ?thesis
      using True snoc by (simp add: lessEntry_key nth_append sorted_append)
  next
    case False
    have "entry_key e \<le> entry_key z" if "e \<in> set xs" for e
      using snoc.prems that by (simp add: sorted_append)
    then have "\<not> entry_key x < entry_key e" if "e \<in> set xs" for e
      using that False by (metis dual_order.trans linorder_not_le)
    then show ?thesis using False
      by (simp add: lessEntry_key nth_append filter_empty_conv filter_id_conv)
  qed
qed

lemma sort_key_snoc:
  "sort_key entry_key (xs @ [x]) =
     filter (\<lambda>e. \<not> entry_key x < entry_key e) (sort_key entry_key xs) @ x
     # filter (\<lambda>e. entry_key x < entry_key e) (sort_key entry_key xs)"
    (is "_ = filter ?le ?s @ x # filter ?gt ?s")
proof (rule properties_for_sort_key)
  show "mset (filter ?le ?s @ x # filter ?gt ?s) = mset (xs @ [x])"
    by simp
next
  fix k
  have stable: "filter (\<lambda>y. entry_key k = entry_key y) ?s = filter (\<lambda>y. entry_key k = entry_key y) xs"
    using filter_sort[of "\<lambda>y. entry_key k = entry_key y" entry_key xs]
    by (metis (mono_tags, lifting) sort_key_stable filter_cong)
  show "filter (\<lambda>y. entry_key k = entry_key y) (filter ?le ?s @ x # filter ?gt ?s)
    = filter (\<lambda>y. entry_key k = entry_key y) (xs @ [x])"
  proof (cases "entry_key x < entry_key k")
    case True
    then have "filter (\<lambda>y. entry_key k = entry_key y) (filter ?le ?s) = []"
      and "filter (\<lambda>y. entry_key k = entry_key y) (filter ?gt ?s)
        = filter (\<lambda>y. entry_key k = entry_key y) ?s"
      by (auto simp: filter_empty_conv intro!: filter_cong)
    with True stable show ?thesis by auto
  next
    case False
    then have "filter (\<lambda>y. entry_key k = entry_key y) (filter ?gt ?s) = []"
      and "filter (\<lambda>y. entry_key k = entry_key y) (filter ?le ?s)
        = filter (\<lambda>y. entry_key k = entry_key y) ?s"
      by (auto simp: filter_empty_conv intro!: filter_cong)
    with stable show ?thesis by auto
  qed
next
  show "sorted (map entry_key (filter ?le ?s @ x # filter ?gt ?s))"
    by (auto simp: sorted_append sorted_filter)
qed

lemma sortEntries_eq_sort_key: "sortEntries es = sort_key entry_key es"
proof -
  have "foldl sift es [1..<i] = sort_key entry_key (take i es) @ drop i es" if "1 \<le> i" "i \<le> length es" for i
    using that
  proof (induction i rule: nat_induct_at_least[of 1])
    case base
    then show ?case by (cases es) auto
  next
    case (Suc i)
    then have i: "i < length es" by simp
    let ?s = "sort_key entry_key (take i es)"
    have "foldl sift es [1..<Suc i] = sift (?s @ drop i es) i"
      using Suc by simp
    also have "drop i es = es ! i # drop (Suc i) es" using i by (simp add: Cons_nth_drop_Suc)
    also have "sift (?s @ es ! i # drop (Suc i) es) i
        = sort_key entry_key (take i es @ [es ! i]) @ drop (Suc i) es"
      using sift_insert[of ?s "es ! i" "drop (Suc i) es"] i by (simp add: sort_key_snoc)
    finally show ?case using i by (simp add: take_Suc_conv_app_nth)
  qed
  from this[of "length es"] show ?thesis
    by (cases "es = []") (auto simp: sortEntries_def Suc_le_eq)
qed

lemma mset_sortEntries [simp]: "mset (sortEntries es) = mset es"
  by (simp add: sortEntries_eq_sort_key)

lemma set_sortEntries [simp]: "set (sortEntries es) = set es"
  by (simp add: sortEntries_eq_sort_key)

lemma length_sortEntries [simp]: "length (sortEntries es) = length es"
  by (simp add: sortEntries_eq_sort_key)

lemma sorted_sortEntries: "sorted (map entry_key (sortEntries es))"
  by (simp add: sortEntries_eq_sort_key)

lemma sortEntries_sorted: "sorted (map entry_key es) \<Longrightarrow> sortEntries es = es"
  by (simp add: sortEntries_eq_sort_key sorted_sort_id sort_key_id_if_sorted)

section \<open>What a port entry denotes\<close>

text \<open>
  The reference meaning of the language: an entry token denotes the list of its ports or
  nothing, and a spec denotes the concatenation. \<open>parse_spec_equiv\<close> below shows that the
  code's loop, with its map of listed protocols and its early returns, computes exactly this.
\<close>

definition entry_den :: "string \<Rightarrow> string \<Rightarrow> port_entry list option" where
  "entry_den defProto raw =
     (case match_entry (to_lower raw) of
        None \<Rightarrow> None
      | Some (m1, m2, m3, m4) \<Rightarrow>
          (let a = fst (atoi m1);
               b = (if m2 = [] then a else fst (atoi m2));
               t = (if m4 = [] then a else fst (atoi m4))
           in if 1 \<le> a \<and> a \<le> b \<and> b \<le> 65535 \<and> 1 \<le> t \<and> t + (b - a) \<le> 65535
              then Some (map (\<lambda>p. \<lparr>PublicPort = p, Protocol = (if m3 = [] then defProto else m3),
                                  TargetPort = p + (t - a)\<rparr>) [a..b])
              else None))"

definition port_clash :: "port_entry \<Rightarrow> port_entry \<Rightarrow> bool" where
  "port_clash a b \<longleftrightarrow> PublicPort a = PublicPort b \<and> protoOverlap (Protocol a) (Protocol b)"

definition no_clash :: "port_entry list \<Rightarrow> bool" where
  "no_clash es \<longleftrightarrow> sorted_wrt (\<lambda>a b. \<not> port_clash a b) es"

definition good_entry :: "port_entry \<Rightarrow> bool" where
  "good_entry e \<longleftrightarrow> 1 \<le> PublicPort e \<and> PublicPort e \<le> 65535 \<and> known_proto (Protocol e)
     \<and> 1 \<le> TargetPort e \<and> TargetPort e \<le> 65535"

definition wf_entries :: "port_entry list \<Rightarrow> bool" where
  "wf_entries es \<longleftrightarrow> es \<noteq> [] \<and> length es \<le> MaxGroupPorts \<and> no_clash es \<and> list_all good_entry es"

lemma port_clash_sym: "port_clash a b \<Longrightarrow> port_clash b a"
  by (auto simp: port_clash_def protoOverlap_def)

lemma no_clash_Nil [simp]: "no_clash []"
  by (simp add: no_clash_def)

lemma no_clash_append:
  "no_clash (xs @ ys) \<longleftrightarrow> no_clash xs \<and> no_clash ys \<and> (\<forall>x\<in>set xs. \<forall>y\<in>set ys. \<not> port_clash x y)"
  by (simp add: no_clash_def sorted_wrt_append)

lemma no_clash_perm: "no_clash xs \<Longrightarrow> mset xs = mset ys \<Longrightarrow> no_clash ys"
  unfolding no_clash_def using sorted_wrt_sym_perm[of _ xs ys] port_clash_sym by blast

lemma sortEntries_eq_Nil [simp]: "sortEntries es = [] \<longleftrightarrow> es = []"
  by (metis length_0_conv length_sortEntries)

lemma wf_entries_sort: "wf_entries es \<Longrightarrow> wf_entries (sortEntries es)"
  unfolding wf_entries_def list_all_iff
  using no_clash_perm[OF _ mset_sortEntries[symmetric]] by simp

section \<open>The parser computes the denotation\<close>

definition seen_ok :: "spec_state \<Rightarrow> bool" where
  "seen_ok st \<longleftrightarrow>
     (\<forall>p q. q \<in> set (fst st p) \<longleftrightarrow> (\<exists>e\<in>set (snd st). PublicPort e = p \<and> Protocol e = q))
     \<and> no_clash (snd st)"

lemma seen_ok_init [simp]: "seen_ok (\<lambda>_. [], [])"
  by (simp add: seen_ok_def)

lemma seen_ok_step:
  assumes "seen_ok (seen, out)" and "\<not> (\<exists>prev\<in>set (seen p). protoOverlap prev proto)"
  shows "seen_ok (seen(p := seen p @ [proto]), out @ [\<lparr>PublicPort = p, Protocol = proto, TargetPort = t\<rparr>])"
proof -
  have "\<not> port_clash e \<lparr>PublicPort = p, Protocol = proto, TargetPort = t\<rparr>" if "e \<in> set out" for e
    using assms that by (auto simp: seen_ok_def port_clash_def)
  with assms show ?thesis
    by (auto simp: seen_ok_def no_clash_append) (auto simp: no_clash_def)
qed

lemma add_ports_iff:
  assumes "seen_ok st"
  shows "add_ports raw proto off ps st = Inr st' \<Longrightarrow> seen_ok st' \<and>
      snd st' = snd st @ map (\<lambda>p. \<lparr>PublicPort = p, Protocol = proto, TargetPort = p + off\<rparr>) ps"
    and "no_clash (snd st @ map (\<lambda>p. \<lparr>PublicPort = p, Protocol = proto, TargetPort = p + off\<rparr>) ps)
      \<Longrightarrow> \<exists>st'. add_ports raw proto off ps st = Inr st'"
  using assms
proof (induction raw proto off ps st rule: add_ports.induct)
  case (1 raw proto off st)
  {
    case 1
    then show ?case by simp
  next
    case 2
    then show ?case by simp
  }
next
  case (2 raw proto off p ps seen out)
  {
    case 1
    then show ?case
      using "2.IH"(1) seen_ok_step[of seen out p proto "p + off"] by (auto split: if_splits)
  next
    case 2
    have "\<not> (\<exists>prev\<in>set (seen p). protoOverlap prev proto)"
      using 2 by (auto simp: seen_ok_def no_clash_append port_clash_def)
    then show ?case
      using 2 "2.IH"(2) seen_ok_step[of seen out p proto "p + off"] by simp
  }
qed

lemma spec_entry_cases:
  assumes "match_entry (to_lower raw) = Some (m1, m2, m3, m4)"
  obtains a b t pr where
    "entry_den d raw =
       (if 1 \<le> a \<and> a \<le> b \<and> b \<le> 65535 \<and> 1 \<le> t \<and> t + (b - a) \<le> 65535
        then Some (map (\<lambda>p. \<lparr>PublicPort = p, Protocol = pr, TargetPort = p + (t - a)\<rparr>) [a..b])
        else None)"
    and "spec_entry d raw st =
       (if a < 1 \<or> a > 65535 \<or> b < 1 \<or> b > 65535 then Inl (ErrValidation, EntryPortRange raw)
        else if a > b then Inl (ErrValidation, EntryReversed raw)
        else if t < 1 \<or> b + (t - a) > 65535 then Inl (ErrValidation, EntryTargetRange raw)
        else if int (length (snd st)) + (b - a + 1) > int MaxGroupPorts
        then Inl (ErrValidation, TooManyPorts)
        else add_ports raw pr (t - a) [a..b] st)"
proof -
  let ?a = "fst (atoi m1)"
  let ?b = "if m2 = [] then ?a else fst (atoi m2)"
  let ?t = "if m4 = [] then ?a else fst (atoi m4)"
  let ?pr = "if m3 = [] then d else m3"
  show thesis
    by (rule that[of ?a ?b ?t ?pr]) (simp_all add: entry_den_def spec_entry_def assms Let_def)
qed

lemma spec_entry_sound:
  assumes "seen_ok st" and "spec_entry d raw st = Inr st'"
  shows "\<exists>es. entry_den d raw = Some es \<and> snd st' = snd st @ es \<and> seen_ok st'
    \<and> length (snd st') \<le> MaxGroupPorts"
proof -
  obtain m1 m2 m3 m4 where "match_entry (to_lower raw) = Some (m1, m2, m3, m4)"
    using assms(2) by (auto simp: spec_entry_def split: option.splits)
  then obtain a b t pr where den: "entry_den d raw =
       (if 1 \<le> a \<and> a \<le> b \<and> b \<le> 65535 \<and> 1 \<le> t \<and> t + (b - a) \<le> 65535
        then Some (map (\<lambda>p. \<lparr>PublicPort = p, Protocol = pr, TargetPort = p + (t - a)\<rparr>) [a..b])
        else None)"
    and step: "add_ports raw pr (t - a) [a..b] st = Inr st'"
    and c: "1 \<le> a" "a \<le> b" "b \<le> 65535" "1 \<le> t" "b + (t - a) \<le> 65535"
      "int (length (snd st)) + (b - a + 1) \<le> int MaxGroupPorts"
    using assms(2) by (elim spec_entry_cases[of _ _ _ _ _ d st]) (auto split: if_splits)
  from add_ports_iff(1)[OF assms(1) step] c show ?thesis
    unfolding den by simp
qed

lemma spec_entry_complete:
  assumes "seen_ok st" and "entry_den d raw = Some es"
    and "length (snd st @ es) \<le> MaxGroupPorts" and "no_clash (snd st @ es)"
  shows "\<exists>st'. spec_entry d raw st = Inr st'"
proof -
  obtain m1 m2 m3 m4 where m: "match_entry (to_lower raw) = Some (m1, m2, m3, m4)"
    using assms(2) by (auto simp: entry_den_def split: option.splits)
  show ?thesis
  proof (rule spec_entry_cases[OF m, of d st], goal_cases)
    case (1 a b t pr)
    then have c: "1 \<le> a" "a \<le> b" "b \<le> 65535" "1 \<le> t" "t + (b - a) \<le> 65535"
      and es: "es = map (\<lambda>p. \<lparr>PublicPort = p, Protocol = pr, TargetPort = p + (t - a)\<rparr>) [a..b]"
      using assms(2) by (auto split: if_splits)
    have "spec_entry d raw st = add_ports raw pr (t - a) [a..b] st"
      using c assms(3) unfolding 1(2) es by simp
    with add_ports_iff(2)[OF assms(1)] assms(4) show ?thesis by (simp add: es)
  qed
qed

lemma spec_loop_iff:
  assumes "seen_ok st" and "length (snd st) \<le> MaxGroupPorts"
  shows "(\<exists>st'. spec_loop defProto raws st = Inr st' \<and> snd st' = out) \<longleftrightarrow>
    (\<exists>ess. map (entry_den defProto) raws = map Some ess \<and> out = snd st @ concat ess
       \<and> length out \<le> MaxGroupPorts \<and> no_clash out)"
  using assms
proof (induction raws arbitrary: st)
  case Nil
  then show ?case by (auto simp: seen_ok_def)
next
  case (Cons raw raws)
  show ?case
  proof
    assume "\<exists>st'. spec_loop defProto (raw # raws) st = Inr st' \<and> snd st' = out"
    then obtain st1 st' where s1: "spec_entry defProto raw st = Inr st1"
      and s': "spec_loop defProto raws st1 = Inr st'" "snd st' = out" by auto
    from spec_entry_sound[OF Cons.prems(1) s1] obtain es where
      es: "entry_den defProto raw = Some es" "snd st1 = snd st @ es" "seen_ok st1"
        "length (snd st1) \<le> MaxGroupPorts" by blast
    from Cons.IH[OF es(3,4)] s' obtain ess where "map (entry_den defProto) raws = map Some ess"
      "out = snd st1 @ concat ess" "length out \<le> MaxGroupPorts" "no_clash out" by blast
    with es show "\<exists>ess. map (entry_den defProto) (raw # raws) = map Some ess
        \<and> out = snd st @ concat ess \<and> length out \<le> MaxGroupPorts \<and> no_clash out"
      by (intro exI[of _ "es # ess"]) simp
  next
    assume "\<exists>ess. map (entry_den defProto) (raw # raws) = map Some ess
        \<and> out = snd st @ concat ess \<and> length out \<le> MaxGroupPorts \<and> no_clash out"
    then obtain es ess where es: "entry_den defProto raw = Some es"
      "map (entry_den defProto) raws = map Some ess" "out = snd st @ es @ concat ess"
      "length out \<le> MaxGroupPorts" "no_clash out"
      by (auto simp: Cons_eq_map_conv)
    then obtain st1 where s1: "spec_entry defProto raw st = Inr st1"
      using spec_entry_complete[OF Cons.prems(1) es(1)] by (auto simp: no_clash_append)
    from spec_entry_sound[OF Cons.prems(1) s1] es have
      "snd st1 = snd st @ es" "seen_ok st1" "length (snd st1) \<le> MaxGroupPorts" by auto
    with Cons.IH[of st1] es s1 show "\<exists>st'. spec_loop defProto (raw # raws) st = Inr st' \<and> snd st' = out"
      by auto
  qed
qed

lemma ParsePortSpec_iff:
  "ParsePortSpec spec d = Inr es \<longleftrightarrow>
     known_proto d \<and> fields_func spec_sep spec \<noteq> [] \<and>
     (\<exists>ess. map (entry_den d) (fields_func spec_sep spec) = map Some ess
        \<and> length (concat ess) \<le> MaxGroupPorts \<and> no_clash (concat ess)
        \<and> es = sortEntries (concat ess))"
  (is "?L \<longleftrightarrow> ?R")
proof -
  let ?ws = "fields_func spec_sep spec"
  have "?L \<longleftrightarrow> known_proto d \<and> ?ws \<noteq> [] \<and>
     (\<exists>out. (\<exists>st'. spec_loop d ?ws (\<lambda>_. [], []) = Inr st' \<and> snd st' = out) \<and> es = sortEntries out)"
    by (auto simp: ParsePortSpec_def Let_def)
  also have "\<dots> \<longleftrightarrow> known_proto d \<and> ?ws \<noteq> [] \<and>
     (\<exists>out. (\<exists>ess. map (entry_den d) ?ws = map Some ess \<and> out = concat ess
       \<and> length out \<le> MaxGroupPorts \<and> no_clash out) \<and> es = sortEntries out)"
    by (subst spec_loop_iff[OF seen_ok_init]) simp_all
  also have "\<dots> \<longleftrightarrow> ?R" by auto
  finally show ?thesis .
qed

end
