(* ===== verification/Portspec_Roundtrip.thy ===== *)
theory Portspec_Roundtrip
  imports Portspec
begin

text \<open>
  The proof that rendering and parsing port specs are inverse: each rendered run is one token
  without separators, the token is read back by the entry pattern into the run's first port,
  last port, protocol and target, and the runs of a sorted list concatenate to the list.
\<close>

section \<open>Reading back one rendered entry\<close>

definition port_digits :: "string \<Rightarrow> bool" where
  "port_digits d \<longleftrightarrow> d \<noteq> [] \<and> length d \<le> 5 \<and> (\<forall>c\<in>set d. is_digit c)"

lemma port_digits_itoa: "0 \<le> i \<Longrightarrow> i \<le> 65535 \<Longrightarrow> port_digits (itoa i)"
  using length_nat_digits[of "nat i" 4] by (auto simp: port_digits_def itoa_nonneg nat_digits_all_digits)

lemma atoi_itoa: "0 \<le> i \<Longrightarrow> i \<le> 65535 \<Longrightarrow> fst (atoi (itoa i)) = i"
  by (simp add: itoa_nonneg atoi_nat_digits)

lemma lex_digits_app:
  assumes "port_digits d" and "r \<noteq> [] \<Longrightarrow> \<not> is_digit (hd r)"
  shows "lex_digits (d @ r) = Some (d, r)"
  using assms takeWhile_append_stop[of d is_digit r]
  by (cases d) (auto simp: lex_digits_def port_digits_def Let_def)

lemma lex_opt_num_app:
  assumes "port_digits d" and "r \<noteq> [] \<Longrightarrow> \<not> is_digit (hd r)"
  shows "lex_opt_num c (c # d @ r) = (d, r)"
  using lex_digits_app[OF assms] by (simp add: lex_opt_num_def)

lemma lex_opt_num_skip: "s = [] \<or> hd s \<noteq> c \<Longrightarrow> lex_opt_num c s = ([], s)"
  by (auto simp: lex_opt_num_def)

lemma lex_opt_proto_app: "known_proto p \<Longrightarrow> lex_opt_proto (CHR ''/'' # p @ r) = (p, r)"
  by (auto simp: known_proto_def lex_opt_proto_def proto_defs has_prefix_def)

lemma known_proto_not_Nil [simp]: "known_proto p \<Longrightarrow> p \<noteq> []"
  by (auto simp: known_proto_def proto_defs)

lemma to_lower_known_proto: "known_proto p \<Longrightarrow> to_lower p = p"
  by (auto simp: known_proto_def proto_defs to_lower_def lower_char_def)

lemma match_entry_rendered:
  assumes "port_digits a" and "b = [] \<or> port_digits b" and "known_proto p" and "t = [] \<or> port_digits t"
  shows "match_entry (a @ (if b = [] then [] else CHR ''-'' # b) @ CHR ''/'' # p
           @ (if t = [] then [] else CHR ''>'' # t)) = Some (a, b, p, t)"
proof -
  let ?r4 = "if t = [] then [] else CHR ''>'' # t"
  let ?r3 = "CHR ''/'' # p @ ?r4"
  let ?r2 = "(if b = [] then [] else CHR ''-'' # b) @ ?r3"
  have "lex_digits (a @ ?r2) = Some (a, ?r2)"
    using assms(1) by (rule lex_digits_app) (auto simp: is_digit_def)
  moreover have "lex_opt_num CHR ''-'' ?r2 = (b, ?r3)"
  proof (cases "b = []")
    case False
    then show ?thesis
      using assms(2) lex_opt_num_app[of b ?r3 "CHR ''-''"] by (auto simp: is_digit_def)
  qed (simp add: lex_opt_num_skip)
  moreover have "lex_opt_proto ?r3 = (p, ?r4)"
    using assms(3) by (rule lex_opt_proto_app)
  moreover have "lex_opt_num CHR ''>'' ?r4 = (t, [])"
    using assms(4) lex_opt_num_app[of t "[]" "CHR ''>''"] by (auto simp: lex_opt_num_skip)
  ultimately show ?thesis unfolding match_entry_def by simp
qed

lemma to_lower_port_digits: "port_digits d \<Longrightarrow> to_lower d = d"
  by (simp add: port_digits_def)

lemma entry_den_render_run:
  assumes "good_entry e" and "PublicPort e \<le> PublicPort l" and "PublicPort l \<le> 65535"
    and "TargetPort e + (PublicPort l - PublicPort e) \<le> 65535"
  shows "entry_den d (render_run e l) =
    Some (map (\<lambda>p. \<lparr>PublicPort = p, Protocol = Protocol e,
                    TargetPort = p + (TargetPort e - PublicPort e)\<rparr>) [PublicPort e..PublicPort l])"
proof -
  let ?a = "itoa (PublicPort e)"
  let ?b = "if PublicPort l = PublicPort e then [] else itoa (PublicPort l)"
  let ?t = "if TargetPort e = PublicPort e then [] else itoa (TargetPort e)"
  have pd: "port_digits ?a" "?b = [] \<or> port_digits ?b" "known_proto (Protocol e)" "?t = [] \<or> port_digits ?t"
    using assms by (auto simp: good_entry_def intro!: port_digits_itoa)
  have nn: "itoa (PublicPort l) \<noteq> []" "itoa (TargetPort e) \<noteq> []"
    using assms by (auto simp: good_entry_def itoa_nonneg)
  have eq: "render_run e l = ?a @ (if ?b = [] then [] else CHR ''-'' # ?b) @ CHR ''/'' # Protocol e
      @ (if ?t = [] then [] else CHR ''>'' # ?t)"
    using nn by (simp add: render_run_def)
  have low: "to_lower (render_run e l) = render_run e l"
    using pd to_lower_known_proto[of "Protocol e"] unfolding eq
    by (auto simp: to_lower_port_digits to_lower_def[of "_ # _"] lower_char_def simp flip: to_lower_def)
  have m: "match_entry (to_lower (render_run e l)) = Some (?a, ?b, Protocol e, ?t)"
    unfolding low using match_entry_rendered[OF pd] by (simp only: eq)
  have v: "fst (atoi ?a) = PublicPort e" "(if ?b = [] then PublicPort e else fst (atoi ?b)) = PublicPort l"
    "(if ?t = [] then PublicPort e else fst (atoi ?t)) = TargetPort e"
    using assms nn by (auto simp: good_entry_def atoi_itoa)
  show ?thesis
    using assms pd(3) unfolding entry_den_def m
    by (simp only: option.case prod.case Let_def v) (simp add: good_entry_def)
qed

section \<open>Runs of a sorted list\<close>

lemma run_end_split:
  assumes "Protocol cur = Protocol e0" and "TargetPort cur - PublicPort cur = TargetPort e0 - PublicPort e0"
  shows "\<exists>us. es = us @ snd (run_end e0 cur es) \<and> PublicPort cur \<le> PublicPort (fst (run_end e0 cur es))
    \<and> fst (run_end e0 cur es) \<in> set (cur # us)
    \<and> cur # us = map (\<lambda>p. \<lparr>PublicPort = p, Protocol = Protocol e0,
                            TargetPort = p + (TargetPort e0 - PublicPort e0)\<rparr>)
                      [PublicPort cur..PublicPort (fst (run_end e0 cur es))]"
  using assms
proof (induction e0 cur es rule: run_end.induct)
  case (1 e0 cur)
  then show ?case by (cases cur) auto
next
  case (2 e0 cur e es)
  show ?case
  proof (cases "PublicPort e = PublicPort cur + 1 \<and> Protocol e = Protocol e0
      \<and> TargetPort e - PublicPort e = TargetPort e0 - PublicPort e0")
    case True
    let ?l = "fst (run_end e0 e es)"
    have p: "Protocol e = Protocol e0" and o: "TargetPort e - PublicPort e = TargetPort e0 - PublicPort e0"
      using True by simp_all
    from 2(1)[OF True p o] obtain us where us: "es = us @ snd (run_end e0 e es)" "PublicPort e \<le> PublicPort ?l"
      "?l \<in> set (e # us)" "e # us = map (\<lambda>p. \<lparr>PublicPort = p, Protocol = Protocol e0,
          TargetPort = p + (TargetPort e0 - PublicPort e0)\<rparr>) [PublicPort e..PublicPort ?l]"
      by (elim exE conjE) (rule that)
    have up: "[PublicPort cur..PublicPort ?l] = PublicPort cur # [PublicPort e..PublicPort ?l]"
      using True us(2) by (simp add: upto_rec1)
    have cur: "cur = \<lparr>PublicPort = PublicPort cur, Protocol = Protocol e0,
        TargetPort = PublicPort cur + (TargetPort e0 - PublicPort e0)\<rparr>"
      using 2(2,3) by (cases cur) simp
    have step: "run_end e0 cur (e # es) = run_end e0 e es" using True by simp
    show ?thesis unfolding step
    proof (intro exI[of _ "e # us"] conjI)
      show "e # es = (e # us) @ snd (run_end e0 e es)" using us(1) by simp
      show "PublicPort cur \<le> PublicPort ?l" using us(2) True by simp
      show "?l \<in> set (cur # e # us)" using us(3) by simp
      show "cur # e # us = map (\<lambda>p. \<lparr>PublicPort = p, Protocol = Protocol e0,
          TargetPort = p + (TargetPort e0 - PublicPort e0)\<rparr>) [PublicPort cur..PublicPort ?l]"
        unfolding up us(4) using cur by simp
    qed
  next
    case False
    then show ?thesis using 2(2,3) by (cases cur) auto
  qed
qed

lemma render_parts_denote:
  assumes "list_all good_entry es"
  shows "\<exists>ess. map (entry_den d) (render_parts es) = map Some ess \<and> concat ess = es"
  using assms
proof (induction es rule: render_parts.induct)
  case 1
  then show ?case by simp
next
  case (2 e es)
  let ?l = "fst (run_end e e es)" and ?rest = "snd (run_end e e es)"
  obtain us where us: "es = us @ ?rest" "PublicPort e \<le> PublicPort ?l" "?l \<in> set (e # us)"
    "e # us = map (\<lambda>p. \<lparr>PublicPort = p, Protocol = Protocol e,
          TargetPort = p + (TargetPort e - PublicPort e)\<rparr>) [PublicPort e..PublicPort ?l]"
    using run_end_split[of e e es] by auto
  have good: "good_entry e" "good_entry ?l" "list_all good_entry ?rest"
    using 2(2) us(1,3) by (auto simp: list_all_iff) (metis Un_iff set_append)+
  have "TargetPort ?l = PublicPort ?l + (TargetPort e - PublicPort e)"
    using us(3) unfolding us(4) by auto
  then have run: "entry_den d (render_run e ?l) = Some (e # us)"
    using good us(2) entry_den_render_run[of e ?l d] us(4) by (simp add: good_entry_def)
  from 2(1)[OF good(3)] obtain ess where "map (entry_den d) (render_parts ?rest) = map Some ess"
    "concat ess = ?rest" by blast
  with run us(1) show ?case by (intro exI[of _ "(e # us) # ess"]) simp
qed

lemma render_parts_tokens:
  assumes "list_all good_entry es"
  shows "\<forall>w\<in>set (render_parts es). w \<noteq> [] \<and> (\<forall>c\<in>set w. \<not> spec_sep c)"
proof
  fix w assume w: "w \<in> set (render_parts es)"
  have run: "w \<noteq> [] \<and> (\<forall>c\<in>set w. \<not> spec_sep c)"
    if "good_entry e" "good_entry l" "w = render_run e l" for e l
  proof -
    have "\<not> spec_sep c" if "is_digit c" for c
      using that by (auto simp: spec_sep_def is_digit_def)
    moreover have "\<forall>c\<in>set (Protocol e). \<not> spec_sep c"
      using \<open>good_entry e\<close> by (auto simp: good_entry_def known_proto_def proto_defs spec_sep_def)
    moreover have "port_digits (itoa (PublicPort e))" "port_digits (itoa (PublicPort l))"
      "port_digits (itoa (TargetPort e))"
      using that by (auto simp: good_entry_def intro!: port_digits_itoa)
    ultimately show ?thesis
      using that(3) by (auto simp: render_run_def port_digits_def) (auto simp: spec_sep_def)
  qed
  show "w \<noteq> [] \<and> (\<forall>c\<in>set w. \<not> spec_sep c)"
    using assms w
  proof (induction es rule: render_parts.induct)
    case (2 e es)
    obtain us where us: "es = us @ snd (run_end e e es)" "fst (run_end e e es) \<in> set (e # us)"
      using run_end_split[of e e es] by auto
    then have good: "good_entry e" "good_entry (fst (run_end e e es))"
      "list_all good_entry (snd (run_end e e es))"
      using 2(2) by (auto simp: list_all_iff) (metis Un_iff set_append)+
    then show ?case
      using run[OF good(1,2)] 2(1)[OF good(3)] 2(3) by auto
  qed simp
qed

lemma render_parts_eq_Nil [simp]: "render_parts es = [] \<longleftrightarrow> es = []"
  by (cases es) auto

lemma parse_rendered:
  assumes "wf_entries es" and "known_proto d"
  shows "ParsePortSpec (RenderPortSpec es) d = Inr (sortEntries es)"
proof -
  let ?s = "sortEntries es"
  have wf: "wf_entries ?s" using assms(1) by (rule wf_entries_sort)
  then have good: "list_all good_entry ?s" by (simp add: wf_entries_def)
  have tok: "fields_func spec_sep (RenderPortSpec es) = render_parts ?s"
    unfolding RenderPortSpec_def
    by (rule fields_func_join[OF render_parts_tokens[OF good]]) (auto simp: spec_sep_def)
  from render_parts_denote[OF good, of d] obtain ess
    where "map (entry_den d) (render_parts ?s) = map Some ess" "concat ess = ?s" by blast
  with wf assms(2) show ?thesis
    unfolding ParsePortSpec_iff tok
    by (auto simp: wf_entries_def sortEntries_sorted sorted_sortEntries intro!: exI[of _ ess])
qed

lemma entry_den_good:
  assumes "entry_den d raw = Some es" and "known_proto d"
  shows "list_all good_entry es \<and> es \<noteq> []"
proof -
  have proto: "known_proto m3 \<or> m3 = []" if "lex_opt_proto s = (m3, r)" for s m3 r
    using that by (auto simp: lex_opt_proto_def known_proto_def split: if_splits)
  show ?thesis
    using assms proto
    by (fastforce simp: entry_den_def match_entry_def Let_def list_all_iff good_entry_def
        split: option.splits prod.splits if_splits)
qed

lemma parse_wf:
  assumes "ParsePortSpec spec d = Inr es"
  shows "wf_entries es \<and> sorted (map entry_key es)"
proof -
  from assms obtain ess where k: "known_proto d" "fields_func spec_sep spec \<noteq> []"
    and e: "map (entry_den d) (fields_func spec_sep spec) = map Some ess"
    and "length (concat ess) \<le> MaxGroupPorts" "no_clash (concat ess)" "es = sortEntries (concat ess)"
    by (auto simp: ParsePortSpec_iff)
  moreover have "list_all good_entry xs \<and> xs \<noteq> []" if "xs \<in> set ess" for xs
  proof -
    from that e have "Some xs \<in> set (map (entry_den d) (fields_func spec_sep spec))" by simp
    then obtain raw where "entry_den d raw = Some xs" by (metis imageE list.set_map)
    then show ?thesis using entry_den_good[OF _ k(1)] by blast
  qed
  then have "list_all good_entry (concat ess)" "concat ess \<noteq> []"
    using e k(2) by (auto simp: list_all_iff)
  ultimately have "wf_entries (concat ess)" by (simp add: wf_entries_def)
  then show ?thesis
    unfolding \<open>es = _\<close> by (simp add: wf_entries_sort sorted_sortEntries)
qed

section \<open>Properties\<close>

text \<open>
  C17: what \<open>RenderPortSpec\<close> prints for a list of well-formed entries (one to 64 entries, ports
  and targets in range, no two entries on one port with overlapping protocols) is parsed by
  \<open>ParsePortSpec\<close>, under any default protocol, back into those entries in canonical order.
\<close>

theorem render_parse_roundtrip:
  assumes "wf_entries es" and "known_proto d"
  shows "ParsePortSpec (RenderPortSpec es) d = Inr (sortEntries es)"
  using assms by (rule parse_rendered)

theorem render_parse_roundtrip_witness:
  "ParsePortSpec (RenderPortSpec
      [\<lparr>PublicPort = 9000, Protocol = ''udp'', TargetPort = 9000\<rparr>,
       \<lparr>PublicPort = 81, Protocol = ''tcp'', TargetPort = 91\<rparr>,
       \<lparr>PublicPort = 80, Protocol = ''tcp'', TargetPort = 90\<rparr>]) ''both''
   = Inr [\<lparr>PublicPort = 80, Protocol = ''tcp'', TargetPort = 90\<rparr>,
          \<lparr>PublicPort = 81, Protocol = ''tcp'', TargetPort = 91\<rparr>,
          \<lparr>PublicPort = 9000, Protocol = ''udp'', TargetPort = 9000\<rparr>]"
proof -
  let ?es = "[\<lparr>PublicPort = 9000, Protocol = ''udp'', TargetPort = 9000\<rparr>,
       \<lparr>PublicPort = 81, Protocol = ''tcp'', TargetPort = 91\<rparr>,
       \<lparr>PublicPort = 80, Protocol = ''tcp'', TargetPort = 90\<rparr>]"
  have "wf_entries ?es" by code_simp
  moreover have "known_proto ''both''" by code_simp
  moreover have "sortEntries ?es = rev (map id [?es ! 0, ?es ! 1, ?es ! 2])" by code_simp
  ultimately show ?thesis using render_parse_roundtrip[of ?es "''both''"] by simp
qed

text \<open>
  A spec that parses yields one to 64 entries, every public and target port in 1-65535 and
  every protocol one of the three, no port listed twice with overlapping protocols, sorted by
  port and protocol; and rendering the result gives a canonical spec that parses to the same
  entries again whatever the default protocol.
\<close>

theorem parse_canonical:
  assumes "ParsePortSpec spec d = Inr es" and "known_proto d'"
  shows "wf_entries es \<and> sorted (map entry_key es) \<and> ParsePortSpec (RenderPortSpec es) d' = Inr es"
  using parse_wf[OF assms(1)] parse_rendered[of es d'] assms(2) by (simp add: sortEntries_sorted)

theorem parse_canonical_witness:
  "ParsePortSpec (RenderPortSpec
      [\<lparr>PublicPort = 80, Protocol = ''tcp'', TargetPort = 80\<rparr>,
       \<lparr>PublicPort = 7780, Protocol = ''udp'', TargetPort = 7780\<rparr>,
       \<lparr>PublicPort = 7781, Protocol = ''udp'', TargetPort = 7781\<rparr>]) ''udp''
   = Inr [\<lparr>PublicPort = 80, Protocol = ''tcp'', TargetPort = 80\<rparr>,
       \<lparr>PublicPort = 7780, Protocol = ''udp'', TargetPort = 7780\<rparr>,
       \<lparr>PublicPort = 7781, Protocol = ''udp'', TargetPort = 7781\<rparr>]"
proof -
  have "ParsePortSpec ''7780-7781/UDP, 80'' ''tcp'' = Inr
      [\<lparr>PublicPort = 80, Protocol = ''tcp'', TargetPort = 80\<rparr>,
       \<lparr>PublicPort = 7780, Protocol = ''udp'', TargetPort = 7780\<rparr>,
       \<lparr>PublicPort = 7781, Protocol = ''udp'', TargetPort = 7781\<rparr>]" by code_simp
  moreover have "known_proto ''udp''" by code_simp
  ultimately show ?thesis using parse_canonical by blast
qed

text \<open>
  C34: \<open>ParsePortSpec\<close> accepts a spec exactly when the default protocol is known, there is at
  least one token, every token denotes a valid range of ports, the ranges together have at most
  64 ports and no two of them clash; the result is then the sorted concatenation. So the
  incremental duplicate map and the early exits of the loop reject nothing else, whatever the
  order of the tokens.
\<close>

theorem parse_accepts_exactly:
  "ParsePortSpec spec d = Inr es \<longleftrightarrow>
     known_proto d \<and> fields_func spec_sep spec \<noteq> [] \<and>
     (\<exists>ess. map (entry_den d) (fields_func spec_sep spec) = map Some ess
        \<and> length (concat ess) \<le> MaxGroupPorts \<and> no_clash (concat ess)
        \<and> es = sortEntries (concat ess))"
  by (rule ParsePortSpec_iff)

text \<open>
  C35: the hand-written in-place insertion sort of the entries is the stable sort by public
  port, then protocol.
\<close>

theorem sortEntries_is_stable_sort:
  "sortEntries es = sort_key (\<lambda>e. (PublicPort e, Protocol e)) es"
  using sortEntries_eq_sort_key[of es] by (simp add: entry_key_def[abs_def])

end
