(* ===== verification/Store.thy ===== *)
theory Store
  imports Portspec
begin

text \<open>
  \<open>internal/store/store.go\<close>: the configuration document (clients, forwards, API tokens,
  admin credentials, settings), the mutex-guarded store with its atomic save, the password
  check, the lookups and the validation rules. Times are nanoseconds since the epoch. The
  JSON codec is not modelled: the disk holds the document that was last written.
\<close>

section \<open>The document\<close>

type_synonym time = int

record client =
  c_ID :: string
  c_Name :: string
  c_Token :: string
  c_CreatedAt :: time
  c_UpdatedAt :: time
  c_LastSeenAt :: "time option"
  c_LastAddr :: string
  c_Hostname :: string
  c_OS :: string
  c_Arch :: string
  c_ClientVersion :: string

record forward =
  f_ID :: string
  f_ClientID :: string
  f_GroupID :: string
  f_Name :: string
  f_Protocol :: string
  f_PublicPort :: int
  f_TargetHost :: string
  f_TargetPort :: int
  f_Enabled :: bool
  f_CreatedAt :: time
  f_UpdatedAt :: time

record api_token =
  t_ID :: string
  t_Name :: string
  t_Prefix :: string
  t_TokenHash :: string
  t_CreatedAt :: time
  t_LastUsedAt :: "time option"

record admin =
  a_Username :: string
  a_PasswordHash :: string
  a_Salt :: string
  a_Iterations :: int

record settings =
  s_PublicHost :: string
  s_Firewall :: string
  s_AutoUpdateClients :: bool

record state =
  st_Admin :: admin
  st_Settings :: settings
  st_Clients :: "client list"
  st_Forwards :: "forward list"
  st_Tokens :: "api_token list"

definition ClientTokenPrefix :: string where "ClientTokenPrefix = ''sr_c_''"
definition APITokenPrefix :: string where "APITokenPrefix = ''sr_api_''"

section \<open>Forwards\<close>

definition Target :: "forward \<Rightarrow> string" where
  "Target f = f_TargetHost f @ CHR '':'' # itoa (f_TargetPort f)"

definition HasTCP :: "forward \<Rightarrow> bool" where
  "HasTCP f \<longleftrightarrow> f_Protocol f = ProtoTCP \<or> f_Protocol f = ProtoBoth"

definition HasUDP :: "forward \<Rightarrow> bool" where
  "HasUDP f \<longleftrightarrow> f_Protocol f = ProtoUDP \<or> f_Protocol f = ProtoBoth"

definition Same :: "forward \<Rightarrow> forward \<Rightarrow> bool" where
  "Same f g \<longleftrightarrow> f_ClientID f = f_ClientID g \<and> f_Protocol f = f_Protocol g
     \<and> f_PublicPort f = f_PublicPort g \<and> f_TargetHost f = f_TargetHost g
     \<and> f_TargetPort f = f_TargetPort g \<and> f_Enabled f = f_Enabled g"

definition Entry :: "forward \<Rightarrow> port_entry" where
  "Entry f = \<lparr>PublicPort = f_PublicPort f, Protocol = f_Protocol f, TargetPort = f_TargetPort f\<rparr>"

definition GroupSpec :: "forward list \<Rightarrow> string" where
  "GroupSpec fs = RenderPortSpec (map Entry fs)"

section \<open>The store\<close>

text \<open>
  \<open>normalize\<close> runs once after the document is loaded. \<open>Open\<close> is given what reading the
  file returned; creating an empty document can fail too.
\<close>

definition normalize :: "state \<Rightarrow> state" where
  "normalize st = st\<lparr>st_Forwards :=
     map (\<lambda>f. if f_GroupID f = [] then f\<lparr>f_GroupID := f_ID f\<rparr> else f) (st_Forwards st)\<rparr>"

datatype file_read = NotExist | ReadFailed | BadJSON | Contents state

record store =
  sto_mem :: state
  sto_disk :: "state option"

definition empty_state :: state where
  "empty_state = \<lparr>
     st_Admin = \<lparr>a_Username = [], a_PasswordHash = [], a_Salt = [], a_Iterations = 0\<rparr>,
     st_Settings = \<lparr>s_PublicHost = [], s_Firewall = [], s_AutoUpdateClients = False\<rparr>,
     st_Clients = [], st_Forwards = [], st_Tokens = []\<rparr>"

text \<open>
  \<open>saveLocked\<close> writes a temporary file and renames it over the document: on failure the
  document on disk is the old one. \<open>ok\<close> is whether the write and the rename succeed.
\<close>

definition saveLocked :: "bool \<Rightarrow> store \<Rightarrow> (error, unit) result \<times> store" where
  "saveLocked ok s =
     (if ok then (Inr (), s\<lparr>sto_disk := Some (sto_mem s)\<rparr>) else (Inl (ErrInternal, SaveFailed), s))"

definition Open :: "file_read \<Rightarrow> bool \<Rightarrow> (error, store) result" where
  "Open rd ok =
     (case rd of
        NotExist \<Rightarrow>
          (case saveLocked ok \<lparr>sto_mem = empty_state, sto_disk = None\<rparr> of
             (Inl e, _) \<Rightarrow> Inl e
           | (Inr _, s) \<Rightarrow> Inr (s\<lparr>sto_mem := normalize (sto_mem s)\<rparr>))
      | ReadFailed \<Rightarrow> Inl (ErrInternal, SaveFailed)
      | BadJSON \<Rightarrow> Inl (ErrInternal, SaveFailed)
      | Contents st \<Rightarrow> Inr \<lparr>sto_mem = normalize st, sto_disk = Some st\<rparr>)"

text \<open>
  \<open>Update\<close> runs a closure on the document in memory and saves when it succeeds. The closure
  mutates the document in place, so what it changed before an error return, and what it changed
  before a failed save, stays in memory.
\<close>

definition Update ::
  "bool \<Rightarrow> (state \<Rightarrow> (error, 'a) result \<times> state) \<Rightarrow> store \<Rightarrow> (error, 'a) result \<times> store" where
  "Update ok fn s =
     (case fn (sto_mem s) of
        (Inl e, st) \<Rightarrow> (Inl e, s\<lparr>sto_mem := st\<rparr>)
      | (Inr x, st) \<Rightarrow>
          (case saveLocked ok (s\<lparr>sto_mem := st\<rparr>) of
             (Inl e, s') \<Rightarrow> (Inl e, s')
           | (Inr _, s') \<Rightarrow> (Inr x, s')))"

section \<open>Secrets\<close>

text \<open>
  Hexadecimal text and the password hash. The key derivation function of
  \<open>crypto/pbkdf2\<close> is the parameter \<open>kdf password salt iterations length\<close>; its error
  return is \<open>None\<close>. Byte strings are \<^typ>\<open>string\<close>s.
\<close>

definition hex_char :: "nat \<Rightarrow> char" where
  "hex_char n = (if n < 10 then char_of (48 + n) else char_of (87 + n))"

definition hex_encode :: "string \<Rightarrow> string" where
  "hex_encode bs = concat (map (\<lambda>b. [hex_char (of_char b div 16), hex_char (of_char b mod 16)]) bs)"

definition hex_val :: "char \<Rightarrow> nat option" where
  "hex_val c = (let n = (of_char c :: nat) in
     if 48 \<le> n \<and> n \<le> 57 then Some (n - 48)
     else if 97 \<le> n \<and> n \<le> 102 then Some (n - 87)
     else if 65 \<le> n \<and> n \<le> 70 then Some (n - 55)
     else None)"

fun hex_decode :: "string \<Rightarrow> string option" where
  "hex_decode [] = Some []"
| "hex_decode [c] = None"
| "hex_decode (a # b # s) =
     (case (hex_val a, hex_val b, hex_decode s) of
        (Some x, Some y, Some r) \<Rightarrow> Some (char_of (16 * x + y) # r)
      | _ \<Rightarrow> None)"

definition pbkdfIterations :: int where
  "pbkdfIterations = 210000"

type_synonym kdf = "string \<Rightarrow> string \<Rightarrow> int \<Rightarrow> nat \<Rightarrow> string option"

text \<open>
  Fresh identifiers and tokens are random bytes \<open>b\<close> (6 or 24 of them) in hexadecimal; the
  SHA-256 digest is the parameter \<open>sha\<close>. \<open>RandomPassword\<close> maps 20 random bytes into
  its alphabet.
\<close>

definition randomHex :: "string \<Rightarrow> string" where
  "randomHex b = hex_encode b"

definition NewID :: "string \<Rightarrow> string" where
  "NewID b = randomHex b"

definition NewClientToken :: "string \<Rightarrow> string" where
  "NewClientToken b = ClientTokenPrefix @ randomHex b"

definition NewAPIToken :: "string \<Rightarrow> string" where
  "NewAPIToken b = APITokenPrefix @ randomHex b"

definition HashToken :: "(string \<Rightarrow> string) \<Rightarrow> string \<Rightarrow> string" where
  "HashToken sha tok = hex_encode (sha tok)"

definition password_alphabet :: string where
  "password_alphabet = ''abcdefghjkmnpqrstuvwxyzABCDEFGHJKMNPQRSTUVWXYZ23456789''"

definition RandomPassword :: "string \<Rightarrow> string" where
  "RandomPassword b = map (\<lambda>c. password_alphabet ! (of_char c mod length password_alphabet)) b"

text \<open>\<open>salt\<close> is what \<open>rand.Read\<close> returned; the key is 32 bytes.\<close>

definition SetPassword :: "kdf \<Rightarrow> string \<Rightarrow> string \<Rightarrow> admin \<Rightarrow> (error, admin) result" where
  "SetPassword kdf salt password a =
     (case kdf password salt pbkdfIterations 32 of
        None \<Rightarrow> Inl (ErrInternal, SaveFailed)
      | Some key \<Rightarrow> Inr (a\<lparr>a_Salt := hex_encode salt, a_PasswordHash := hex_encode key,
                           a_Iterations := pbkdfIterations\<rparr>))"

definition CheckPassword :: "kdf \<Rightarrow> admin \<Rightarrow> string \<Rightarrow> bool" where
  "CheckPassword kdf a password =
     (if a_PasswordHash a = [] \<or> a_Salt a = [] then False
      else case hex_decode (a_Salt a) of None \<Rightarrow> False
      | Some salt \<Rightarrow>
          (case hex_decode (a_PasswordHash a) of None \<Rightarrow> False
           | Some want \<Rightarrow>
               (let iters = (if a_Iterations a \<le> 0 then pbkdfIterations else a_Iterations a) in
                case kdf password salt iters (length want) of None \<Rightarrow> False
                | Some got \<Rightarrow> got = want)))"

section \<open>Lookups\<close>

definition ClientByID :: "state \<Rightarrow> string \<Rightarrow> client option" where
  "ClientByID st i = List.find (\<lambda>c. c_ID c = i) (st_Clients st)"

definition ClientByToken :: "state \<Rightarrow> string \<Rightarrow> client option" where
  "ClientByToken st tok =
     (if tok = [] then None else List.find (\<lambda>c. c_Token c = tok) (st_Clients st))"

definition ForwardByID :: "state \<Rightarrow> string \<Rightarrow> forward option" where
  "ForwardByID st i = List.find (\<lambda>f. f_ID f = i) (st_Forwards st)"

definition TokenByHash :: "state \<Rightarrow> string \<Rightarrow> api_token option" where
  "TokenByHash st h = List.find (\<lambda>t. t_TokenHash t = h) (st_Tokens st)"

definition TokenByID :: "state \<Rightarrow> string \<Rightarrow> api_token option" where
  "TokenByID st i = List.find (\<lambda>t. t_ID t = i) (st_Tokens st)"

text \<open>
  \<open>sortForwards\<close> orders by public port, then protocol. \<open>sort.Slice\<close> leaves the order of
  equal keys open; the model keeps their order, and forwards with equal keys conflict.
\<close>

definition forward_key :: "forward \<Rightarrow> int \<times> string" where
  "forward_key f = (f_PublicPort f, f_Protocol f)"

definition sortForwards :: "forward list \<Rightarrow> forward list" where
  "sortForwards fs = sort_key forward_key fs"

definition ForwardsInGroup :: "state \<Rightarrow> string \<Rightarrow> forward list" where
  "ForwardsInGroup st gid = sortForwards (filter (\<lambda>f. f_GroupID f = gid) (st_Forwards st))"

definition ForwardsForClient :: "state \<Rightarrow> string \<Rightarrow> forward list" where
  "ForwardsForClient st i = sortForwards (filter (\<lambda>f. f_ClientID f = i) (st_Forwards st))"

fun group_ids_loop :: "forward list \<Rightarrow> (string \<rightharpoonup> int) \<Rightarrow> string list \<Rightarrow> (string \<rightharpoonup> int) \<times> string list" where
  "group_ids_loop [] lowest ids = (lowest, ids)"
| "group_ids_loop (f # fs) lowest ids =
     (case lowest (f_GroupID f) of
        None \<Rightarrow> group_ids_loop fs (lowest(f_GroupID f \<mapsto> f_PublicPort f)) (ids @ [f_GroupID f])
      | Some p \<Rightarrow>
          (if f_PublicPort f < p
           then group_ids_loop fs (lowest(f_GroupID f \<mapsto> f_PublicPort f)) ids
           else group_ids_loop fs lowest ids))"

definition GroupIDs :: "state \<Rightarrow> string list" where
  "GroupIDs st =
     (case group_ids_loop (st_Forwards st) Map.empty [] of
        (lowest, ids) \<Rightarrow> sort_key (\<lambda>i. case lowest i of Some p \<Rightarrow> p | None \<Rightarrow> 0) ids)"

section \<open>Validation\<close>

definition ValidateName :: "string \<Rightarrow> (error, unit) result" where
  "ValidateName name0 =
     (let name = trim_space name0 in
      if name = [] then Inl (ErrValidation, NameRequired)
      else if length name > 64 then Inl (ErrValidation, NameTooLong)
      else Inr ())"

definition Validate :: "forward \<Rightarrow> (error, unit) result" where
  "Validate f =
     rbind (ValidateName (f_Name f)) (\<lambda>_.
     if \<not> (f_Protocol f = ProtoTCP \<or> f_Protocol f = ProtoUDP \<or> f_Protocol f = ProtoBoth)
     then Inl (ErrValidation, BadProtocol)
     else if f_PublicPort f < 1 \<or> f_PublicPort f > 65535 then Inl (ErrValidation, PublicPortRange)
     else if f_TargetPort f < 1 \<or> f_TargetPort f > 65535 then Inl (ErrValidation, TargetPortRange)
     else if trim_space (f_TargetHost f) = [] then Inl (ErrValidation, TargetHostRequired)
     else if contains_any (f_TargetHost f) [CHR '' '', CHR ''/'', CHR 0x5C, CHR 0x09, CHR 0x0A]
     then Inl (ErrValidation, TargetHostInvalid)
     else Inr ())"

definition ports_overlap :: "forward \<Rightarrow> forward \<Rightarrow> bool" where
  "ports_overlap f g \<longleftrightarrow> (HasTCP f \<and> HasTCP g) \<or> (HasUDP f \<and> HasUDP g)"

definition PortConflict :: "state \<Rightarrow> forward \<Rightarrow> forward option" where
  "PortConflict st f =
     List.find (\<lambda>g. \<not> (f_ID g = f_ID f \<or> f_PublicPort g \<noteq> f_PublicPort f) \<and> ports_overlap f g)
       (st_Forwards st)"

section \<open>Facts about the store\<close>

lemma Same_refl [simp]: "Same f f"
  by (simp add: Same_def)

lemma Same_sym: "Same f g \<Longrightarrow> Same g f"
  by (simp add: Same_def)

lemma Same_trans: "Same f g \<Longrightarrow> Same g h \<Longrightarrow> Same f h"
  by (simp add: Same_def)

lemma Same_sockets: "Same f g \<Longrightarrow> HasTCP f = HasTCP g \<and> HasUDP f = HasUDP g \<and> f_PublicPort f = f_PublicPort g"
  by (simp add: Same_def HasTCP_def HasUDP_def)

lemma ports_overlap_sym: "ports_overlap f g \<longleftrightarrow> ports_overlap g f"
  by (auto simp: ports_overlap_def)

lemma known_proto_HasTCP_HasUDP: "known_proto (f_Protocol f) \<Longrightarrow> HasTCP f \<or> HasUDP f"
  by (auto simp: known_proto_def HasTCP_def HasUDP_def)

lemma ports_overlap_protoOverlap:
  "known_proto (f_Protocol f) \<Longrightarrow> known_proto (f_Protocol g) \<Longrightarrow>
     ports_overlap f g \<longleftrightarrow> protoOverlap (f_Protocol f) (f_Protocol g)"
  by (auto simp: ports_overlap_def protoOverlap_def HasTCP_def HasUDP_def known_proto_def proto_defs)

lemma Validate_ok:
  "Validate f = Inr () \<longleftrightarrow>
     ValidateName (f_Name f) = Inr () \<and> known_proto (f_Protocol f)
     \<and> 1 \<le> f_PublicPort f \<and> f_PublicPort f \<le> 65535 \<and> 1 \<le> f_TargetPort f \<and> f_TargetPort f \<le> 65535
     \<and> trim_space (f_TargetHost f) \<noteq> []
     \<and> \<not> contains_any (f_TargetHost f) [CHR '' '', CHR ''/'', CHR 0x5C, CHR 0x09, CHR 0x0A]"
  by (auto simp: Validate_def known_proto_def)

lemma Validate_kind: "Validate f = Inl e \<Longrightarrow> fst e = ErrValidation"
  by (auto simp: Validate_def rbind_eq_Inl ValidateName_def Let_def split: if_splits)

lemma PortConflict_None:
  "PortConflict st f = None \<longleftrightarrow>
     (\<forall>g\<in>set (st_Forwards st). f_ID g \<noteq> f_ID f \<longrightarrow> f_PublicPort g = f_PublicPort f \<longrightarrow> \<not> ports_overlap f g)"
  by (auto simp: PortConflict_def find_None_all)

lemma ClientByID_Some: "ClientByID st i = Some c \<Longrightarrow> c \<in> set (st_Clients st) \<and> c_ID c = i"
  by (auto simp: ClientByID_def dest: find_Some_set)

lemma ForwardByID_Some: "ForwardByID st i = Some f \<Longrightarrow> f \<in> set (st_Forwards st) \<and> f_ID f = i"
  by (auto simp: ForwardByID_def dest: find_Some_set)

lemma ClientByID_None: "ClientByID st i = None \<longleftrightarrow> i \<notin> c_ID ` set (st_Clients st)"
  by (auto simp: ClientByID_def find_None_all)

lemma ForwardByID_None: "ForwardByID st i = None \<longleftrightarrow> i \<notin> f_ID ` set (st_Forwards st)"
  by (auto simp: ForwardByID_def find_None_all)

lemma set_sortForwards [simp]: "set (sortForwards fs) = set fs"
  by (simp add: sortForwards_def)

lemma mset_sortForwards [simp]: "mset (sortForwards fs) = mset fs"
  by (simp add: sortForwards_def)

lemma set_ForwardsInGroup: "set (ForwardsInGroup st g) = {f \<in> set (st_Forwards st). f_GroupID f = g}"
  by (auto simp: ForwardsInGroup_def)

lemma set_ForwardsForClient: "set (ForwardsForClient st g) = {f \<in> set (st_Forwards st). f_ClientID f = g}"
  by (auto simp: ForwardsForClient_def)

lemma saveLocked_True [simp]: "saveLocked True s = (Inr (), s\<lparr>sto_disk := Some (sto_mem s)\<rparr>)"
  by (simp add: saveLocked_def)

lemma saveLocked_False [simp]: "saveLocked False s = (Inl (ErrInternal, SaveFailed), s)"
  by (simp add: saveLocked_def)

lemma Update_ok_iff:
  "Update ok fn s = (Inr x, s') \<longleftrightarrow>
     ok \<and> (\<exists>st. fn (sto_mem s) = (Inr x, st) \<and> s' = s\<lparr>sto_mem := st, sto_disk := Some st\<rparr>)"
  by (cases ok) (auto simp: Update_def split: prod.splits sum.splits)

lemma Update_disk_of_failure:
  "Update ok fn s = (Inl e, s') \<Longrightarrow> sto_disk s' = sto_disk s"
  by (cases ok) (auto simp: Update_def split: prod.splits sum.splits)

lemma Update_mem: "sto_mem (snd (Update ok fn s)) = snd (fn (sto_mem s))"
  by (cases ok) (auto simp: Update_def split: prod.splits sum.splits)

lemma hex_val_hex_char: "n < 16 \<Longrightarrow> hex_val (hex_char n) = Some n"
  by (auto simp: hex_val_def hex_char_def Let_def of_char_of)

lemma hex_decode_encode [simp]: "hex_decode (hex_encode bs) = Some bs"
proof (induction bs)
  case Nil
  then show ?case by (simp add: hex_encode_def)
next
  case (Cons b bs)
  have "(of_char b :: nat) div 16 < 16" "(of_char b :: nat) mod 16 < 16"
    using nat_of_char_less_256[of b] by (simp_all del: nat_of_char_less_256)
  moreover have "16 * ((of_char b :: nat) div 16) + of_char b mod 16 = of_char b" by simp
  ultimately show ?case using Cons by (simp add: hex_encode_def hex_val_hex_char)
qed

lemma length_hex_encode: "length (hex_encode bs) = 2 * length bs"
  by (induction bs) (auto simp: hex_encode_def)

lemma hex_encode_eq_Nil [simp]: "hex_encode bs = [] \<longleftrightarrow> bs = []"
  using length_hex_encode[of bs] by (cases bs) (auto simp: hex_encode_def)

section \<open>Group ids\<close>

text \<open>
  What the loop of \<open>GroupIDs\<close> keeps: the ids are distinct and are the keys of the map, and
  the map holds the lowest port of each group.
\<close>

definition lowest_of :: "forward list \<Rightarrow> string \<Rightarrow> int" where
  "lowest_of fs g = Min (f_PublicPort ` {f \<in> set fs. f_GroupID f = g})"

lemma group_ids_loop_inv:
  assumes "group_ids_loop fs lowest ids = (lowest', ids')"
    and "distinct ids" "set ids = f_GroupID ` set done" "dom lowest = set ids"
    and "\<And>g. g \<in> set ids \<Longrightarrow> lowest g = Some (lowest_of done g)"
  shows "distinct ids' \<and> set ids' = f_GroupID ` set (done @ fs)
    \<and> (\<forall>g\<in>set ids'. lowest' g = Some (lowest_of (done @ fs) g))"
  using assms
proof (induction fs lowest ids arbitrary: "done" rule: group_ids_loop.induct)
  case (1 lowest ids)
  then show ?case by auto
next
  case (2 f fs lowest ids)
  have split: "{x \<in> set (done @ [f]). f_GroupID x = g} =
      {x \<in> set done. f_GroupID x = g} \<union> (if f_GroupID f = g then {f} else {})" for g
    by auto
  have other: "lowest_of (done @ [f]) g = lowest_of done g" if "g \<noteq> f_GroupID f" for g
    unfolding lowest_of_def split using that by simp
  have app: "(done @ [f]) @ fs = done @ f # fs" by simp
  show ?case
  proof (cases "lowest (f_GroupID f)")
    case None
    then have new: "f_GroupID f \<notin> set ids" using 2(7) by auto
    then have "f_GroupID f \<notin> f_GroupID ` set done" using 2(6) by simp
    then have e: "{x \<in> set done. f_GroupID x = f_GroupID f} = {}"
      by (metis (mono_tags, lifting) Collect_empty_eq image_eqI)
    have l: "lowest_of (done @ [f]) (f_GroupID f) = f_PublicPort f"
      unfolding lowest_of_def split e by simp
    have run: "group_ids_loop fs (lowest(f_GroupID f \<mapsto> f_PublicPort f)) (ids @ [f_GroupID f]) = (lowest', ids')"
      using 2(4) None by simp
    have low: "(lowest(f_GroupID f \<mapsto> f_PublicPort f)) h = Some (lowest_of (done @ [f]) h)"
      if "h \<in> set (ids @ [f_GroupID f])" for h
      using that 2(8)[of h] other[of h] l by (cases "h = f_GroupID f") auto
    have dom: "dom (lowest(f_GroupID f \<mapsto> f_PublicPort f)) = set (ids @ [f_GroupID f])"
      using 2(7) by (simp only: dom_fun_upd) simp
    show ?thesis
      by (rule 2(1)[OF None run _ _ dom low, unfolded app]) (use 2(5,6) new in simp_all)
  next
    case (Some p)
    then have g: "f_GroupID f \<in> set ids" and p: "p = lowest_of done (f_GroupID f)"
      using 2(7,8) by (auto simp: dom_def) (metis (mono_tags, lifting) 2(8) mem_Collect_eq option.inject)+
    let ?S = "{x \<in> set done. f_GroupID x = f_GroupID f}"
    have ne: "?S \<noteq> {}" using g 2(6) by auto
    have low: "lowest_of (done @ [f]) (f_GroupID f) = min p (f_PublicPort f)"
      using ne unfolding lowest_of_def split p by (simp add: Un_commute min.commute)
    show ?thesis
    proof (cases "f_PublicPort f < p")
      case True
      with low have l: "lowest_of (done @ [f]) (f_GroupID f) = f_PublicPort f" by simp
      have run: "group_ids_loop fs (lowest(f_GroupID f \<mapsto> f_PublicPort f)) ids = (lowest', ids')"
        using 2(4) Some True by simp
      have dom: "dom (lowest(f_GroupID f \<mapsto> f_PublicPort f)) = set ids"
        using 2(7) g by (simp only: dom_fun_upd) (simp add: insert_absorb)
      have low': "(lowest(f_GroupID f \<mapsto> f_PublicPort f)) h = Some (lowest_of (done @ [f]) h)"
        if "h \<in> set ids" for h
        using that 2(8)[of h] other[of h] l by (cases "h = f_GroupID f") auto
      show ?thesis
        by (rule 2(2)[OF Some True run _ _ dom low', unfolded app])
          (use 2(5,6) g in \<open>simp_all add: insert_absorb\<close>)
    next
      case False
      with low have l: "lowest_of (done @ [f]) (f_GroupID f) = p" by simp
      have run: "group_ids_loop fs lowest ids = (lowest', ids')"
        using 2(4) Some False by simp
      have low': "lowest h = Some (lowest_of (done @ [f]) h)" if "h \<in> set ids" for h
        using 2(8)[OF that] other[of h] l p by (cases "h = f_GroupID f") auto
      show ?thesis
        by (rule 2(3)[OF Some False run _ _ _ low', unfolded app]) (use 2(5-7) g in \<open>simp_all add: insert_absorb\<close>)
    qed
  qed
qed

lemma GroupIDs_correct:
  "distinct (GroupIDs st) \<and> set (GroupIDs st) = f_GroupID ` set (st_Forwards st)
    \<and> sorted (map (lowest_of (st_Forwards st)) (GroupIDs st))"
proof -
  obtain lowest ids where r: "group_ids_loop (st_Forwards st) Map.empty [] = (lowest, ids)"
    by fastforce
  from group_ids_loop_inv[OF r, of "[]"] have i: "distinct ids" "set ids = f_GroupID ` set (st_Forwards st)"
    "\<forall>g\<in>set ids. lowest g = Some (lowest_of (st_Forwards st) g)" by auto
  let ?k = "\<lambda>i. case lowest i of Some p \<Rightarrow> p | None \<Rightarrow> 0"
  have eq: "map (lowest_of (st_Forwards st)) (sort_key ?k ids) = map ?k (sort_key ?k ids)"
    using i(3) by auto
  have "sorted (map (lowest_of (st_Forwards st)) (sort_key ?k ids))"
    unfolding eq by (rule sorted_sort_key)
  with i(1,2) r show ?thesis by (simp add: GroupIDs_def)
qed

end
