(* ===== verification/Listeners.thy ===== *)
theory Listeners
  imports Store "HOL-Library.AList"
begin

text \<open>
  The public listeners of \<open>internal/server/tunnel.go\<close>: one runner per forward id, started and
  stopped by \<open>Apply\<close>, \<open>Remove\<close>, \<open>ApplyGroup\<close>, \<open>SyncAll\<close> and \<open>Shutdown\<close>.
  The operating system is the set of bound sockets and a predicate \<open>deny\<close> of the sockets it
  refuses for other reasons (privileged ports, address families). The interface between a single
  listener and the group operations is the locale \<open>listener_table\<close>.
\<close>

section \<open>Sockets and runners\<close>

type_synonym socket = "string \<times> int"

record udp_peer =
  up_stream :: nat
  up_last :: time

record runner =
  r_f :: forward
  r_tcpLn :: bool
  r_udpPC :: bool
  r_activeTCP :: int
  r_totalConns :: int
  r_bytesIn :: int
  r_bytesOut :: int
  r_peers :: "(string \<times> udp_peer) list"

record listeners =
  l_bound :: "socket set"
  l_runners :: "(string \<times> runner) list"

text \<open>Go maps are association lists with distinct keys; \<open>runner_of L i\<close> is the map read.\<close>

definition runner_of :: "listeners \<Rightarrow> string \<Rightarrow> runner option" where
  "runner_of L i = map_of (l_runners L) i"

definition newRunner :: "forward \<Rightarrow> runner" where
  "newRunner f = \<lparr>r_f = f, r_tcpLn = False, r_udpPC = False, r_activeTCP = 0, r_totalConns = 0,
     r_bytesIn = 0, r_bytesOut = 0, r_peers = []\<rparr>"

text \<open>\<open>net.Listen\<close> and \<open>net.ListenPacket\<close> on the wildcard address.\<close>

definition listen :: "(socket \<Rightarrow> bool) \<Rightarrow> socket \<Rightarrow> socket set \<Rightarrow> socket set option" where
  "listen deny sk b = (if deny sk \<or> sk \<in> b then None else Some (insert sk b))"

text \<open>
  \<open>start\<close> binds TCP, then UDP; when UDP cannot be bound it closes the TCP listener again.
  The error is the socket that could not be bound.
\<close>

definition start :: "(socket \<Rightarrow> bool) \<Rightarrow> runner \<Rightarrow> socket set \<Rightarrow> (socket, runner) result \<times> socket set" where
  "start deny r b =
     (let p = f_PublicPort (r_f r) in
      case (if HasTCP (r_f r) then listen deny (ProtoTCP, p) b else Some b) of
        None \<Rightarrow> (Inl (ProtoTCP, p), b)
      | Some b1 \<Rightarrow>
          (let r1 = (if HasTCP (r_f r) then r\<lparr>r_tcpLn := True\<rparr> else r) in
           case (if HasUDP (r_f r) then listen deny (ProtoUDP, p) b1 else Some b1) of
             None \<Rightarrow> (Inl (ProtoUDP, p), if r_tcpLn r1 then b1 - {(ProtoTCP, p)} else b1)
           | Some b2 \<Rightarrow>
               (let r2 = (if HasUDP (r_f r) then r1\<lparr>r_udpPC := True\<rparr> else r1) in (Inr r2, b2))))"

definition runner_socks :: "runner \<Rightarrow> socket set" where
  "runner_socks r =
     (if r_tcpLn r then {(ProtoTCP, f_PublicPort (r_f r))} else {})
     \<union> (if r_udpPC r then {(ProtoUDP, f_PublicPort (r_f r))} else {})"

text \<open>\<open>stop\<close> closes the sockets; the runner (with its peers) is dropped by the callers.\<close>

definition stop :: "runner \<Rightarrow> socket set \<Rightarrow> socket set" where
  "stop r b = b - runner_socks r"

section \<open>Apply and Remove\<close>

definition Apply :: "(socket \<Rightarrow> bool) \<Rightarrow> forward \<Rightarrow> listeners \<Rightarrow> (socket, unit) result \<times> listeners" where
  "Apply deny f L =
     (let old = runner_of L (f_ID f) in
      if (case old of Some r \<Rightarrow> Same (r_f r) f | None \<Rightarrow> False) then (Inr (), L)
      else
        let L1 = (case old of
                    Some r \<Rightarrow> L\<lparr>l_bound := stop r (l_bound L), l_runners := AList.delete (f_ID f) (l_runners L)\<rparr>
                  | None \<Rightarrow> L)
        in if \<not> f_Enabled f then (Inr (), L1)
        else case start deny (newRunner f) (l_bound L1) of
               (Inr r, b) \<Rightarrow> (Inr (), L1\<lparr>l_bound := b, l_runners := AList.update (f_ID f) r (l_runners L1)\<rparr>)
             | (Inl e, b) \<Rightarrow>
                 (case old of
                    None \<Rightarrow> (Inl e, L1\<lparr>l_bound := b\<rparr>)
                  | Some r \<Rightarrow>
                      (case start deny (newRunner (r_f r)) b of
                         (Inr r', b') \<Rightarrow>
                           (Inl e, L1\<lparr>l_bound := b', l_runners := AList.update (f_ID f) r' (l_runners L1)\<rparr>)
                       | (Inl _, b') \<Rightarrow> (Inl e, L1\<lparr>l_bound := b'\<rparr>))))"

definition Remove :: "string \<Rightarrow> listeners \<Rightarrow> listeners" where
  "Remove i L =
     (case runner_of L i of
        None \<Rightarrow> L
      | Some r \<Rightarrow> L\<lparr>l_bound := stop r (l_bound L), l_runners := AList.delete i (l_runners L)\<rparr>)"

section \<open>ApplyGroup\<close>

text \<open>
  The group operation is written over the two operations it calls, so that its correctness can
  be stated against their contract; \<open>ApplyGroup\<close> below is the instance on this tunnel.
\<close>

type_synonym 'l apply_op = "forward \<Rightarrow> 'l \<Rightarrow> (socket, unit) result \<times> 'l"

definition prev_by_id :: "forward list \<Rightarrow> string \<rightharpoonup> forward" where
  "prev_by_id prev = foldl (\<lambda>m f. m(f_ID f \<mapsto> f)) Map.empty prev"

definition dropped :: "forward list \<Rightarrow> forward list \<Rightarrow> forward list" where
  "dropped next prev = filter (\<lambda>f. f_ID f \<notin> f_ID ` set next) prev"

definition remove_dropped :: "(string \<Rightarrow> 'l \<Rightarrow> 'l) \<Rightarrow> forward list \<Rightarrow> 'l \<Rightarrow> 'l" where
  "remove_dropped remove fs L = foldl (\<lambda>L f. remove (f_ID f) L) L fs"

definition undo_applied ::
  "'l apply_op \<Rightarrow> (string \<Rightarrow> 'l \<Rightarrow> 'l) \<Rightarrow> (string \<rightharpoonup> forward) \<Rightarrow> forward list \<Rightarrow> 'l \<Rightarrow> 'l" where
  "undo_applied apply remove prevByID applied L =
     foldl (\<lambda>L a. case prevByID (f_ID a) of
                    Some old \<Rightarrow> snd (apply old L)
                  | None \<Rightarrow> remove (f_ID a) L) L applied"

definition reapply_removed :: "'l apply_op \<Rightarrow> forward list \<Rightarrow> 'l \<Rightarrow> 'l" where
  "reapply_removed apply removed L = foldl (\<lambda>L r. snd (apply r L)) L removed"

fun apply_members ::
  "'l apply_op \<Rightarrow> ('l \<Rightarrow> forward list \<Rightarrow> 'l) \<Rightarrow> forward list \<Rightarrow> forward list \<Rightarrow> 'l
    \<Rightarrow> (socket, unit) result \<times> 'l" where
  "apply_members apply rollback [] applied L = (Inr (), L)"
| "apply_members apply rollback (f # fs) applied L =
     (case apply f L of
        (Inl e, L') \<Rightarrow> (Inl e, rollback L' applied)
      | (Inr _, L') \<Rightarrow> apply_members apply rollback fs (applied @ [f]) L')"

definition apply_group_with ::
  "'l apply_op \<Rightarrow> (string \<Rightarrow> 'l \<Rightarrow> 'l) \<Rightarrow> forward list \<Rightarrow> forward list \<Rightarrow> 'l
    \<Rightarrow> (socket, unit) result \<times> 'l" where
  "apply_group_with apply remove next prev L =
     (let removed = dropped next prev;
          rollback = (\<lambda>L applied.
            reapply_removed apply removed (undo_applied apply remove (prev_by_id prev) applied L))
      in apply_members apply rollback next [] (remove_dropped remove removed L))"

definition ApplyGroup ::
  "(socket \<Rightarrow> bool) \<Rightarrow> forward list \<Rightarrow> forward list \<Rightarrow> listeners \<Rightarrow> (socket, unit) result \<times> listeners" where
  "ApplyGroup deny = apply_group_with (Apply deny) Remove"

section \<open>SyncAll and Shutdown\<close>

fun sync_forwards ::
  "(socket \<Rightarrow> bool) \<Rightarrow> forward list \<Rightarrow> (string \<rightharpoonup> socket) \<Rightarrow> listeners \<Rightarrow> (string \<rightharpoonup> socket) \<times> listeners" where
  "sync_forwards deny [] errs L = (errs, L)"
| "sync_forwards deny (f # fs) errs L =
     (case Apply deny f L of
        (Inl e, L') \<Rightarrow> sync_forwards deny fs (errs(f_ID f \<mapsto> e)) L'
      | (Inr _, L') \<Rightarrow> sync_forwards deny fs errs L')"

text \<open>\<open>for id, r := range t.runners\<close>, stopping and deleting the ids that are not live.\<close>

definition drop_runners :: "(string \<Rightarrow> bool) \<Rightarrow> listeners \<Rightarrow> listeners" where
  "drop_runners live L =
     foldl (\<lambda>L' (i, r). if live i then L'
        else L'\<lparr>l_bound := stop r (l_bound L'), l_runners := AList.delete i (l_runners L')\<rparr>) L (l_runners L)"

definition SyncAll :: "(socket \<Rightarrow> bool) \<Rightarrow> forward list \<Rightarrow> listeners \<Rightarrow> (string \<rightharpoonup> socket) \<times> listeners" where
  "SyncAll deny forwards L =
     (case sync_forwards deny forwards Map.empty L of
        (errs, L') \<Rightarrow> (errs, drop_runners (\<lambda>i. i \<in> f_ID ` set forwards) L'))"

definition Shutdown_runners :: "listeners \<Rightarrow> listeners" where
  "Shutdown_runners L = drop_runners (\<lambda>_. False) L"

section \<open>Live counters\<close>

record forward_stats =
  fs_Listening :: bool
  fs_ActiveTCP :: int
  fs_ActiveUDP :: int
  fs_TotalConnections :: int
  fs_BytesIn :: int
  fs_BytesOut :: int
  fs_Error :: string

definition no_stats :: forward_stats where
  "no_stats = \<lparr>fs_Listening = False, fs_ActiveTCP = 0, fs_ActiveUDP = 0, fs_TotalConnections = 0,
     fs_BytesIn = 0, fs_BytesOut = 0, fs_Error = []\<rparr>"

definition ForwardStats :: "listeners \<Rightarrow> string \<Rightarrow> forward_stats" where
  "ForwardStats L i =
     (case runner_of L i of
        None \<Rightarrow> no_stats
      | Some r \<Rightarrow> \<lparr>fs_Listening = True, fs_ActiveTCP = r_activeTCP r,
          fs_ActiveUDP = int (length (r_peers r)), fs_TotalConnections = r_totalConns r,
          fs_BytesIn = r_bytesIn r, fs_BytesOut = r_bytesOut r, fs_Error = []\<rparr>)"

section \<open>What a table of listeners promises\<close>

text \<open>
  A listener is described by the fields \<open>Same\<close> compares; \<open>wanted f\<close> is the listener a
  forward should have, and \<open>socks f\<close> the sockets its listener occupies.
\<close>

type_synonym listen_spec = "string \<times> string \<times> int \<times> string \<times> int"

definition spec_of :: "forward \<Rightarrow> listen_spec" where
  "spec_of f = (f_ClientID f, f_Protocol f, f_PublicPort f, f_TargetHost f, f_TargetPort f)"

definition wanted :: "forward \<Rightarrow> listen_spec option" where
  "wanted f = (if f_Enabled f then Some (spec_of f) else None)"

definition proto_socks :: "string \<Rightarrow> int \<Rightarrow> socket set" where
  "proto_socks proto p =
     (if proto = ProtoTCP \<or> proto = ProtoBoth then {(ProtoTCP, p)} else {})
     \<union> (if proto = ProtoUDP \<or> proto = ProtoBoth then {(ProtoUDP, p)} else {})"

definition socks :: "forward \<Rightarrow> socket set" where
  "socks f = proto_socks (f_Protocol f) (f_PublicPort f)"

definition spec_socks :: "listen_spec \<Rightarrow> socket set" where
  "spec_socks s = (case s of (_, proto, p, _, _) \<Rightarrow> proto_socks proto p)"

lemma spec_socks_spec_of [simp]: "spec_socks (spec_of f) = socks f"
  by (simp add: spec_socks_def spec_of_def socks_def)

lemma socks_alt:
  "socks f = (if HasTCP f then {(ProtoTCP, f_PublicPort f)} else {})
     \<union> (if HasUDP f then {(ProtoUDP, f_PublicPort f)} else {})"
  by (simp add: socks_def proto_socks_def HasTCP_def HasUDP_def)

lemma Same_spec: "Same f g \<longleftrightarrow> spec_of f = spec_of g \<and> f_Enabled f = f_Enabled g"
  by (auto simp: Same_def spec_of_def)

lemma socks_overlap: "socks f \<inter> socks g = {} \<longleftrightarrow> f_PublicPort f \<noteq> f_PublicPort g \<or> \<not> ports_overlap f g"
  by (auto simp: socks_alt ports_overlap_def proto_defs)

locale listener_table =
  fixes app :: "forward \<Rightarrow> 'l \<Rightarrow> (socket, unit) result \<times> 'l"
    and rem :: "string \<Rightarrow> 'l \<Rightarrow> 'l"
    and view :: "'l \<Rightarrow> string \<rightharpoonup> listen_spec"
    and foreign :: "'l \<Rightarrow> socket set"
    and ok :: "'l \<Rightarrow> bool"
  assumes remove_ok: "ok L \<Longrightarrow> ok (rem i L)"
    and view_remove: "ok L \<Longrightarrow> view (rem i L) = (view L)(i := None)"
    and foreign_remove: "ok L \<Longrightarrow> foreign (rem i L) = foreign L"
    and apply_ok: "ok L \<Longrightarrow> ok (snd (app f L))"
    and foreign_apply: "ok L \<Longrightarrow> foreign (snd (app f L)) = foreign L"
    and apply_Inr: "ok L \<Longrightarrow> fst (app f L) = Inr u \<Longrightarrow> view (snd (app f L)) = (view L)(f_ID f := wanted f)"
    and apply_Inl: "ok L \<Longrightarrow> fst (app f L) = Inl e \<Longrightarrow> view (snd (app f L)) = view L"
    and apply_disabled: "ok L \<Longrightarrow> \<not> f_Enabled f \<Longrightarrow> fst (app f L) = Inr ()"
    and apply_free: "ok L \<Longrightarrow> socks f \<inter> foreign L = {} \<Longrightarrow>
       (\<And>j s. j \<noteq> f_ID f \<Longrightarrow> view L j = Some s \<Longrightarrow> spec_socks s \<inter> socks f = {}) \<Longrightarrow>
       fst (app f L) = Inr ()"
    and view_foreign: "ok L \<Longrightarrow> view L i = Some s \<Longrightarrow> spec_socks s \<inter> foreign L = {}"
    and view_disjoint: "ok L \<Longrightarrow> view L i = Some s \<Longrightarrow> view L j = Some t \<Longrightarrow> i \<noteq> j \<Longrightarrow>
       spec_socks s \<inter> spec_socks t = {}"

lemma prev_by_id_foldl:
  "foldl (\<lambda>m f. m(f_ID f \<mapsto> f)) m prev i = (case List.find (\<lambda>f. f_ID f = i) (rev prev) of Some f \<Rightarrow> Some f | None \<Rightarrow> m i)"
  by (induction prev rule: rev_induct) auto

lemma prev_by_id_Some: "prev_by_id prev i = Some f \<Longrightarrow> f \<in> set prev \<and> f_ID f = i"
  by (auto simp: prev_by_id_def prev_by_id_foldl dest: find_Some_set split: option.splits)

lemma prev_by_id_None: "prev_by_id prev i = None \<longleftrightarrow> i \<notin> f_ID ` set prev"
proof -
  have "prev_by_id prev i = List.find (\<lambda>f. f_ID f = i) (rev prev)"
    by (simp add: prev_by_id_def prev_by_id_foldl split: option.splits)
  then show ?thesis by (auto simp: find_None_all)
qed

lemma set_dropped: "set (dropped nxt prev) = {f \<in> set prev. f_ID f \<notin> f_ID ` set nxt}"
  by (auto simp: dropped_def)

lemma distinct_dropped: "distinct (map f_ID prev) \<Longrightarrow> distinct (map f_ID (dropped nxt prev))"
  by (simp add: dropped_def distinct_map_filter)

text \<open>
  A change of a group from \<open>prev\<close> to \<open>nxt\<close> that can be rolled back: the listeners of
  \<open>prev\<close> are what the forwards want, new ids are unused, a kept id keeps its sockets, and the
  members of \<open>nxt\<close> clash neither with each other nor with listeners outside the group.
\<close>

definition group_change :: "(string \<rightharpoonup> listen_spec) \<Rightarrow> forward list \<Rightarrow> forward list \<Rightarrow> bool" where
  "group_change V nxt prev \<longleftrightarrow>
     distinct (map f_ID nxt) \<and> distinct (map f_ID prev)
     \<and> (\<forall>g\<in>set prev. V (f_ID g) = wanted g)
     \<and> (\<forall>f\<in>set nxt. f_ID f \<notin> f_ID ` set prev \<longrightarrow> V (f_ID f) = None)
     \<and> (\<forall>f\<in>set nxt. \<forall>g\<in>set prev. f_ID f = f_ID g \<longrightarrow> socks f = socks g)
     \<and> (\<forall>f\<in>set nxt. \<forall>g\<in>set nxt. f_ID f \<noteq> f_ID g \<longrightarrow> socks f \<inter> socks g = {})
     \<and> (\<forall>f\<in>set nxt. \<forall>j s. j \<notin> f_ID ` set prev \<longrightarrow> V j = Some s \<longrightarrow> spec_socks s \<inter> socks f = {})"

context listener_table
begin

lemma ok_remove_dropped: "ok L \<Longrightarrow> ok (remove_dropped rem fs L)"
  by (induction fs arbitrary: L) (auto simp: remove_dropped_def remove_ok)

lemma foreign_remove_dropped: "ok L \<Longrightarrow> foreign (remove_dropped rem fs L) = foreign L"
  by (induction fs arbitrary: L) (auto simp: remove_dropped_def remove_ok foreign_remove)

lemma view_remove_dropped:
  "ok L \<Longrightarrow> view (remove_dropped rem fs L) = (\<lambda>i. if i \<in> f_ID ` set fs then None else view L i)"
proof (induction fs arbitrary: L)
  case Nil
  then show ?case by (simp add: remove_dropped_def)
next
  case (Cons f fs)
  then have "view (remove_dropped rem fs (rem (f_ID f) L))
      = (\<lambda>i. if i \<in> f_ID ` set fs then None else view (rem (f_ID f) L) i)"
    using remove_ok by blast
  with Cons.prems show ?case by (auto simp: remove_dropped_def view_remove)
qed

text \<open>
  The rollback puts every listener back, provided each previous listener's sockets are still
  its own: it was listening before (\<open>V\<close> is the view before the change), so no outsider
  holds them, and no other new member wants them.
\<close>

lemma apply_restore:
  assumes "ok L" and "\<And>j s. j \<noteq> f_ID f \<Longrightarrow> view L j = Some s \<Longrightarrow> f_Enabled f \<Longrightarrow> spec_socks s \<inter> socks f = {}"
    and "f_Enabled f \<Longrightarrow> socks f \<inter> foreign L = {}"
  shows "ok (snd (app f L)) \<and> foreign (snd (app f L)) = foreign L
    \<and> view (snd (app f L)) = (view L)(f_ID f := wanted f)"
proof -
  have "fst (app f L) = Inr ()"
    using assms apply_disabled[of L f] apply_free[of L f] by (cases "f_Enabled f") blast+
  with assms(1) show ?thesis by (simp add: apply_ok foreign_apply apply_Inr)
qed

lemma undo_applied_view:
  assumes "ok L" and "distinct (map f_ID as)"
    and "\<And>a. a \<in> set as \<Longrightarrow>
          (case prevByID (f_ID a) of
             Some old \<Rightarrow> f_ID old = f_ID a \<and> V (f_ID a) = wanted old \<and> socks old = socks a
               \<and> (f_Enabled old \<longrightarrow> socks old \<inter> foreign L = {})
           | None \<Rightarrow> V (f_ID a) = None)"
    and "\<And>a j s. a \<in> set as \<Longrightarrow> j \<noteq> f_ID a \<Longrightarrow> view L j = Some s \<Longrightarrow> spec_socks s \<inter> socks a = {}"
    and "\<And>a b s. a \<in> set as \<Longrightarrow> b \<in> set as \<Longrightarrow> f_ID a \<noteq> f_ID b \<Longrightarrow> V (f_ID a) = Some s \<Longrightarrow>
          spec_socks s \<inter> socks b = {}"
  shows "ok (undo_applied app rem prevByID as L)
    \<and> foreign (undo_applied app rem prevByID as L) = foreign L
    \<and> view (undo_applied app rem prevByID as L) = (\<lambda>i. if i \<in> f_ID ` set as then V i else view L i)"
  using assms
proof (induction as arbitrary: L)
  case Nil
  then show ?case by (simp add: undo_applied_def)
next
  case (Cons a as)
  let ?L1 = "case prevByID (f_ID a) of Some old \<Rightarrow> snd (app old L) | None \<Rightarrow> rem (f_ID a) L"
  have step: "ok ?L1 \<and> foreign ?L1 = foreign L \<and> view ?L1 = (view L)(f_ID a := V (f_ID a))"
  proof (cases "prevByID (f_ID a)")
    case None
    then have "V (f_ID a) = None" using Cons.prems(3)[of a] by simp
    with None Cons.prems(1) show ?thesis by (simp add: remove_ok foreign_remove view_remove)
  next
    case (Some old)
    then have old: "f_ID old = f_ID a" "V (f_ID a) = wanted old" "socks old = socks a"
      "f_Enabled old \<longrightarrow> socks old \<inter> foreign L = {}" using Cons.prems(3)[of a] by auto
    have "spec_socks s \<inter> socks old = {}" if "j \<noteq> f_ID old" "view L j = Some s" for j s
      using Cons.prems(4)[of a j s] that old by simp
    then have "ok (snd (app old L)) \<and> foreign (snd (app old L)) = foreign L
        \<and> view (snd (app old L)) = (view L)(f_ID old := wanted old)"
      using old(4) by (intro apply_restore Cons.prems(1)) auto
    with Some old show ?thesis by simp
  qed
  have fold1: "undo_applied app rem prevByID (a # as) L = undo_applied app rem prevByID as ?L1"
    by (simp add: undo_applied_def)
  have "ok (undo_applied app rem prevByID as ?L1)
    \<and> foreign (undo_applied app rem prevByID as ?L1) = foreign ?L1
    \<and> view (undo_applied app rem prevByID as ?L1) = (\<lambda>i. if i \<in> f_ID ` set as then V i else view ?L1 i)"
  proof (rule Cons.IH)
    show "ok ?L1" using step by blast
    show "distinct (map f_ID as)" using Cons.prems(2) by simp
    have fgn: "foreign ?L1 = foreign L" using step by blast
    show "case prevByID (f_ID b) of
             Some old \<Rightarrow> f_ID old = f_ID b \<and> V (f_ID b) = wanted old \<and> socks old = socks b
               \<and> (f_Enabled old \<longrightarrow> socks old \<inter> foreign ?L1 = {})
           | None \<Rightarrow> V (f_ID b) = None" if "b \<in> set as" for b
      unfolding fgn using Cons.prems(3)[of b] that by simp
    show "spec_socks s \<inter> socks b = {}" if "b \<in> set as" "j \<noteq> f_ID b" "view ?L1 j = Some s" for b j s
    proof (cases "j = f_ID a")
      case True
      with that step show ?thesis using Cons.prems(5)[of a b s] by auto
    next
      case False
      with that step show ?thesis using Cons.prems(4)[of b j s] by auto
    qed
    show "spec_socks s \<inter> socks c = {}"
      if "b \<in> set as" "c \<in> set as" "f_ID b \<noteq> f_ID c" "V (f_ID b) = Some s" for b c s
      using Cons.prems(5)[of b c s] that by simp
  qed
  with step Cons.prems(2) show ?case unfolding fold1 by auto
qed

lemma reapply_removed_view:
  assumes "ok L" and "distinct (map f_ID rs)"
    and "\<And>r. r \<in> set rs \<Longrightarrow> f_Enabled r \<Longrightarrow> socks r \<inter> foreign L = {}"
    and "\<And>r j s. r \<in> set rs \<Longrightarrow> f_Enabled r \<Longrightarrow> j \<noteq> f_ID r \<Longrightarrow> view L j = Some s \<Longrightarrow> spec_socks s \<inter> socks r = {}"
    and "\<And>r q. r \<in> set rs \<Longrightarrow> q \<in> set rs \<Longrightarrow> f_ID r \<noteq> f_ID q \<Longrightarrow> f_Enabled r \<Longrightarrow> f_Enabled q \<Longrightarrow> socks r \<inter> socks q = {}"
  shows "ok (reapply_removed app rs L) \<and> foreign (reapply_removed app rs L) = foreign L
    \<and> (\<forall>i. i \<notin> f_ID ` set rs \<longrightarrow> view (reapply_removed app rs L) i = view L i)
    \<and> (\<forall>r\<in>set rs. view (reapply_removed app rs L) (f_ID r) = wanted r)"
  using assms
proof (induction rs arbitrary: L)
  case Nil
  then show ?case by (simp add: reapply_removed_def)
next
  case (Cons r rs)
  let ?L1 = "snd (app r L)"
  have step: "ok ?L1 \<and> foreign ?L1 = foreign L \<and> view ?L1 = (view L)(f_ID r := wanted r)"
    using Cons.prems(3,4)[of r] by (intro apply_restore Cons.prems(1)) auto
  have fold1: "reapply_removed app (r # rs) L = reapply_removed app rs ?L1"
    by (simp add: reapply_removed_def)
  have "ok (reapply_removed app rs ?L1) \<and> foreign (reapply_removed app rs ?L1) = foreign ?L1
    \<and> (\<forall>i. i \<notin> f_ID ` set rs \<longrightarrow> view (reapply_removed app rs ?L1) i = view ?L1 i)
    \<and> (\<forall>r\<in>set rs. view (reapply_removed app rs ?L1) (f_ID r) = wanted r)"
  proof (rule Cons.IH)
    show "ok ?L1" using step by blast
    show "distinct (map f_ID rs)" using Cons.prems(2) by simp
    show "socks q \<inter> foreign ?L1 = {}" if "q \<in> set rs" "f_Enabled q" for q
      using Cons.prems(3)[of q] that step by simp
    show "spec_socks s \<inter> socks q = {}" if "q \<in> set rs" "f_Enabled q" "j \<noteq> f_ID q" "view ?L1 j = Some s" for q j s
    proof (cases "j = f_ID r")
      case True
      with that step have "wanted r = Some s" by simp
      then have "f_Enabled r" "s = spec_of r" by (auto simp: wanted_def split: if_splits)
      then show ?thesis using Cons.prems(5)[of r q] that True by auto
    next
      case False
      with that step show ?thesis using Cons.prems(4)[of q j s] by auto
    qed
    show "socks q \<inter> socks p = {}"
      if "q \<in> set rs" "p \<in> set rs" "f_ID q \<noteq> f_ID p" "f_Enabled q" "f_Enabled p" for q p
      using Cons.prems(5)[of q p] that by simp
  qed
  with step Cons.prems(2) show ?case unfolding fold1 by auto
qed

definition partly_applied :: "forward list \<Rightarrow> forward list \<Rightarrow> 'l \<Rightarrow> forward list \<Rightarrow> 'l \<Rightarrow> bool" where
  "partly_applied nxt prev L as L1 \<longleftrightarrow> ok L1 \<and> foreign L1 = foreign L
     \<and> (\<forall>r\<in>set (dropped nxt prev). view L1 (f_ID r) = None)
     \<and> (\<forall>a\<in>set as. view L1 (f_ID a) = wanted a)
     \<and> (\<forall>i. i \<notin> f_ID ` set (dropped nxt prev) \<longrightarrow> i \<notin> f_ID ` set as \<longrightarrow> view L1 i = view L i)"

lemma group_changeD:
  assumes "group_change (view L) nxt prev"
  shows "distinct (map f_ID nxt)" and "distinct (map f_ID prev)"
    and "g \<in> set prev \<Longrightarrow> view L (f_ID g) = wanted g"
    and "f \<in> set nxt \<Longrightarrow> f_ID f \<notin> f_ID ` set prev \<Longrightarrow> view L (f_ID f) = None"
    and "f \<in> set nxt \<Longrightarrow> g \<in> set prev \<Longrightarrow> f_ID f = f_ID g \<Longrightarrow> socks f = socks g"
    and "f \<in> set nxt \<Longrightarrow> g \<in> set nxt \<Longrightarrow> f_ID f \<noteq> f_ID g \<Longrightarrow> socks f \<inter> socks g = {}"
    and "f \<in> set nxt \<Longrightarrow> j \<notin> f_ID ` set prev \<Longrightarrow> view L j = Some s \<Longrightarrow> spec_socks s \<inter> socks f = {}"
  using assms unfolding group_change_def by blast+

lemma prev_view_socks:
  assumes gc: "group_change (view L) nxt prev" and a: "a \<in> set nxt" and v: "view L (f_ID a) = Some s"
  shows "spec_socks s = socks a"
proof -
  have "f_ID a \<in> f_ID ` set prev" using group_changeD(4)[OF gc a] v by auto
  then obtain g where g: "g \<in> set prev" "f_ID a = f_ID g" by blast
  have "wanted g = Some s" using group_changeD(3)[OF gc g(1)] v g(2) by simp
  then have "s = spec_of g" by (auto simp: wanted_def split: if_splits)
  then show ?thesis using group_changeD(5)[OF gc a g] by simp
qed

lemma partly_applied_disjoint:
  assumes gc: "group_change (view L) nxt prev" and pa: "partly_applied nxt prev L as L1"
    and "set as \<subseteq> set nxt" and a: "a \<in> set nxt" and ja: "j \<noteq> f_ID a" and j: "view L1 j = Some s"
  shows "spec_socks s \<inter> socks a = {}"
proof -
  have nd: "j \<notin> f_ID ` set (dropped nxt prev)"
    using pa j by (auto simp: partly_applied_def)
  show ?thesis
  proof (cases "j \<in> f_ID ` set nxt")
    case True
    then obtain b where b: "b \<in> set nxt" "j = f_ID b" by auto
    have "spec_socks s = socks b"
    proof (cases "j \<in> f_ID ` set as")
      case True
      then obtain b' where b': "b' \<in> set as" "j = f_ID b'" by auto
      have "inj_on f_ID (set nxt)" using gc by (simp add: group_change_def distinct_map)
      then have "b' = b" using b b' assms(3) by (auto dest: inj_onD)
      then have "wanted b = Some s" using pa b' j by (auto simp: partly_applied_def)
      then show ?thesis by (auto simp: wanted_def split: if_splits)
    next
      case False
      then have "view L j = Some s" using pa j nd by (auto simp: partly_applied_def)
      then show ?thesis using prev_view_socks[OF gc b(1)] b(2) by simp
    qed
    then show ?thesis using group_changeD(6)[OF gc b(1) a] b(2) ja by simp
  next
    case False
    then have "j \<notin> f_ID ` set prev" using nd by (auto simp: set_dropped)
    moreover have "view L j = Some s"
      using pa j nd subsetD[OF image_mono[OF assms(3), of f_ID], of j] False
      by (auto simp: partly_applied_def)
    ultimately show ?thesis using group_changeD(7)[OF gc a] by blast
  qed
qed

text \<open>Undoing the started members gives every one of them the listener it had before.\<close>

lemma rollback_undo:
  assumes L: "ok L" and gc: "group_change (view L) nxt prev" and pa: "partly_applied nxt prev L as L1"
    and sub: "set as \<subseteq> set nxt" "distinct (map f_ID as)"
  defines "U \<equiv> undo_applied app rem (prev_by_id prev) as L1"
  shows "ok U \<and> foreign U = foreign L1 \<and> view U = (\<lambda>i. if i \<in> f_ID ` set as then view L i else view L1 i)"
proof -
  have L1: "ok L1" "foreign L1 = foreign L" using pa by (auto simp: partly_applied_def)
  show ?thesis
    unfolding U_def
  proof (rule undo_applied_view[OF L1(1) sub(2)])
    fix a assume a: "a \<in> set as"
    show "case prev_by_id prev (f_ID a) of
             Some old \<Rightarrow> f_ID old = f_ID a \<and> view L (f_ID a) = wanted old \<and> socks old = socks a
               \<and> (f_Enabled old \<longrightarrow> socks old \<inter> foreign L1 = {})
           | None \<Rightarrow> view L (f_ID a) = None"
    proof (cases "prev_by_id prev (f_ID a)")
      case None
      then have "f_ID a \<notin> f_ID ` set prev" by (simp add: prev_by_id_None)
      then have "view L (f_ID a) = None" using group_changeD(4)[OF gc] a sub(1) by blast
      with None show ?thesis by simp
    next
      case (Some old)
      then have old: "old \<in> set prev" "f_ID old = f_ID a" by (auto dest: prev_by_id_Some)
      have "a \<in> set nxt" using a sub(1) by blast
      then have v: "view L (f_ID a) = wanted old" "socks old = socks a"
        using group_changeD(3)[OF gc old(1)] group_changeD(5)[OF gc _ old(1)] old(2) by simp_all
      have "f_Enabled old \<longrightarrow> socks old \<inter> foreign L1 = {}"
        using view_foreign[OF L, of "f_ID a" "spec_of old"] v(1) L1(2) by (simp add: wanted_def)
      with Some old v show ?thesis by simp
    qed
  next
    fix a j s assume "a \<in> set as" "j \<noteq> f_ID a" "view L1 j = Some s"
    then show "spec_socks s \<inter> socks a = {}"
      using partly_applied_disjoint[OF gc pa sub(1), of a j s] sub(1) by blast
  next
    fix a b s assume ab: "a \<in> set as" "b \<in> set as" "f_ID a \<noteq> f_ID b" "view L (f_ID a) = Some s"
    then have "a \<in> set nxt" "b \<in> set nxt" using sub(1) by auto
    moreover have "spec_socks s = socks a" using prev_view_socks[OF gc] ab(4) calculation(1) by blast
    ultimately show "spec_socks s \<inter> socks b = {}" using group_changeD(6)[OF gc] ab(3) by simp
  qed
qed

lemma rollback_restores:
  assumes L: "ok L" and gc: "group_change (view L) nxt prev" and pa: "partly_applied nxt prev L as L1"
    and sub: "set as \<subseteq> set nxt" "distinct (map f_ID as)"
  defines "L2 \<equiv> reapply_removed app (dropped nxt prev) (undo_applied app rem (prev_by_id prev) as L1)"
  shows "ok L2 \<and> foreign L2 = foreign L \<and> view L2 = view L"
proof -
  let ?rs = "dropped nxt prev" and ?U = "undo_applied app rem (prev_by_id prev) as L1"
  have L1: "ok L1" "foreign L1 = foreign L" using pa by (auto simp: partly_applied_def)
  note U = rollback_undo[OF L gc pa sub]
  have viewU: "view ?U i = (if i \<in> f_ID ` set ?rs then None else view L i)" for i
  proof (cases "i \<in> f_ID ` set ?rs")
    case True
    then have "i \<notin> f_ID ` set as" using sub(1) by (auto simp: set_dropped)
    with U True pa show ?thesis by (auto simp: partly_applied_def)
  next
    case False
    with U pa show ?thesis by (auto simp: partly_applied_def)
  qed
  have in_prev: "r \<in> set prev \<and> view L (f_ID r) = wanted r" if "r \<in> set ?rs" for r
    using that gc by (auto simp: set_dropped group_change_def)
  have R: "ok L2 \<and> foreign L2 = foreign ?U
    \<and> (\<forall>i. i \<notin> f_ID ` set ?rs \<longrightarrow> view L2 i = view ?U i) \<and> (\<forall>r\<in>set ?rs. view L2 (f_ID r) = wanted r)"
    unfolding L2_def
  proof (rule reapply_removed_view)
    show "ok ?U" using U by blast
    show "distinct (map f_ID ?rs)" using gc by (simp add: group_change_def distinct_dropped)
    show "socks r \<inter> foreign ?U = {}" if "r \<in> set ?rs" "f_Enabled r" for r
      using view_foreign[OF L, of "f_ID r" "spec_of r"] in_prev[OF that(1)] that(2) U L1(2)
      by (simp add: wanted_def)
    show "spec_socks s \<inter> socks r = {}"
      if "r \<in> set ?rs" "f_Enabled r" "j \<noteq> f_ID r" "view ?U j = Some s" for r j s
      using view_disjoint[OF L, of j s "f_ID r" "spec_of r"] in_prev[OF that(1)] that viewU[of j]
      by (simp add: wanted_def split: if_splits)
    show "socks r \<inter> socks q = {}"
      if "r \<in> set ?rs" "q \<in> set ?rs" "f_ID r \<noteq> f_ID q" "f_Enabled r" "f_Enabled q" for r q
      using view_disjoint[OF L, of "f_ID r" "spec_of r" "f_ID q" "spec_of q"]
        in_prev[OF that(1)] in_prev[OF that(2)] that by (simp add: wanted_def)
  qed
  have "view L2 i = view L i" for i
    using R viewU[of i] in_prev by (cases "i \<in> f_ID ` set ?rs") auto
  with R U L1(2) show ?thesis by auto
qed

lemma apply_members_result:
  assumes "ok L" and "group_change (view L) nxt prev"
    and "partly_applied nxt prev L as L1" and "nxt = as @ fs"
    and "apply_members app
           (\<lambda>L as. reapply_removed app (dropped nxt prev) (undo_applied app rem (prev_by_id prev) as L))
           fs as L1 = (res, L2)"
  shows "ok L2 \<and> foreign L2 = foreign L
    \<and> (case res of Inl _ \<Rightarrow> view L2 = view L | Inr _ \<Rightarrow> partly_applied nxt prev L nxt L2)"
  using assms(3-5)
proof (induction fs arbitrary: as L1)
  case Nil
  then show ?case by (auto simp: partly_applied_def)
next
  case (Cons f fs)
  obtain r L' where step: "app f L1 = (r, L')" by fastforce
  have L1: "ok L1" "foreign L1 = foreign L" using Cons.prems(1) by (auto simp: partly_applied_def)
  then have L': "ok L'" "foreign L' = foreign L"
    using apply_ok[of L1 f] foreign_apply[of L1 f] step by auto
  have d: "distinct (map f_ID (as @ f # fs))" using assms(2) Cons.prems(2) by (simp add: group_change_def)
  show ?case
  proof (cases r)
    case (Inl e)
    then have "view L' = view L1" using apply_Inl[OF L1(1), of f e] step by simp
    with Cons.prems(1) L' have "partly_applied nxt prev L as L'"
      by (simp add: partly_applied_def)
    moreover have "set as \<subseteq> set nxt" "distinct (map f_ID as)" using Cons.prems(2) d by auto
    ultimately have R: "ok L2' \<and> foreign L2' = foreign L \<and> view L2' = view L"
      if "L2' = reapply_removed app (dropped nxt prev) (undo_applied app rem (prev_by_id prev) as L')" for L2'
      unfolding that by (rule rollback_restores[OF assms(1,2)])
    have "res = Inl e" "L2 = reapply_removed app (dropped nxt prev) (undo_applied app rem (prev_by_id prev) as L')"
      using Cons.prems(3) by (simp_all add: step Inl)
    with R[OF this(2)] show ?thesis by simp
  next
    case (Inr u)
    then have v: "view L' = (view L1)(f_ID f := wanted f)" using apply_Inr[OF L1(1), of f u] step by simp
    have nf: "f_ID f \<notin> f_ID ` set (dropped nxt prev)" "f_ID f \<notin> f_ID ` set as"
      using Cons.prems(2) d by (auto simp: set_dropped)
    have "partly_applied nxt prev L (as @ [f]) L'"
      using Cons.prems(1) L' nf unfolding partly_applied_def v by (auto simp: image_iff)
    moreover have "nxt = (as @ [f]) @ fs" using Cons.prems(2) by simp
    ultimately show ?thesis using Cons.IH[of "as @ [f]" L'] Cons.prems(3) step Inr by simp
  qed
qed

lemma apply_group_result:
  assumes "ok L" and "group_change (view L) nxt prev" and "apply_group_with app rem nxt prev L = (res, L')"
  shows "ok L' \<and> foreign L' = foreign L \<and>
    (case res of
       Inl _ \<Rightarrow> view L' = view L
     | Inr _ \<Rightarrow> (\<forall>f\<in>set nxt. view L' (f_ID f) = wanted f)
         \<and> (\<forall>i. i \<notin> f_ID ` set nxt \<longrightarrow> view L' i = (if i \<in> f_ID ` set prev then None else view L i)))"
proof -
  let ?L1 = "remove_dropped rem (dropped nxt prev) L"
  have "partly_applied nxt prev L [] ?L1"
    using assms(1) by (auto simp: partly_applied_def ok_remove_dropped foreign_remove_dropped view_remove_dropped)
  from apply_members_result[OF assms(1,2) this, of nxt res L'] assms(3)
  have "ok L' \<and> foreign L' = foreign L
    \<and> (case res of Inl _ \<Rightarrow> view L' = view L | Inr _ \<Rightarrow> partly_applied nxt prev L nxt L')"
    by (simp add: apply_group_with_def Let_def)
  then have L': "ok L'" "foreign L' = foreign L"
    and c: "case res of Inl _ \<Rightarrow> view L' = view L | Inr _ \<Rightarrow> partly_applied nxt prev L nxt L'" by blast+
  show ?thesis
  proof (cases res)
    case (Inl e)
    with L' c show ?thesis by simp
  next
    case (Inr u)
    with c have pa: "partly_applied nxt prev L nxt L'" by simp
    have "view L' i = (if i \<in> f_ID ` set prev then None else view L i)" if i: "i \<notin> f_ID ` set nxt" for i
    proof (cases "i \<in> f_ID ` set prev")
      case True
      with i have "i \<in> f_ID ` set (dropped nxt prev)" by (auto simp: set_dropped)
      then have "view L' i = None" using pa by (auto simp: partly_applied_def)
      with True show ?thesis by simp
    next
      case False
      then have "i \<notin> f_ID ` set (dropped nxt prev)" by (auto simp: set_dropped)
      then show ?thesis using pa i False unfolding partly_applied_def by simp
    qed
    moreover have "\<forall>f\<in>set nxt. view L' (f_ID f) = wanted f" using pa unfolding partly_applied_def by blast
    ultimately show ?thesis using L' Inr by simp
  qed
qed

end

section \<open>The tunnel is a table of listeners\<close>

definition l_view :: "listeners \<Rightarrow> string \<rightharpoonup> listen_spec" where
  "l_view L i = map_option (\<lambda>r. spec_of (r_f r)) (runner_of L i)"

definition held :: "listeners \<Rightarrow> socket set" where
  "held L = {sk. \<exists>i r. runner_of L i = Some r \<and> sk \<in> socks (r_f r)}"

definition l_foreign :: "(socket \<Rightarrow> bool) \<Rightarrow> listeners \<Rightarrow> socket set" where
  "l_foreign deny L = {sk. deny sk} \<union> (l_bound L - held L)"

definition runner_ok :: "(socket \<Rightarrow> bool) \<Rightarrow> socket set \<Rightarrow> string \<Rightarrow> runner \<Rightarrow> bool" where
  "runner_ok deny b i r \<longleftrightarrow> f_ID (r_f r) = i \<and> f_Enabled (r_f r) \<and> r_tcpLn r = HasTCP (r_f r)
     \<and> r_udpPC r = HasUDP (r_f r) \<and> socks (r_f r) \<subseteq> b \<and> (\<forall>sk\<in>socks (r_f r). \<not> deny sk)"

definition l_ok :: "(socket \<Rightarrow> bool) \<Rightarrow> listeners \<Rightarrow> bool" where
  "l_ok deny L \<longleftrightarrow>
     distinct (map fst (l_runners L))
     \<and> (\<forall>i r. runner_of L i = Some r \<longrightarrow> runner_ok deny (l_bound L) i r)
     \<and> (\<forall>i j r s. runner_of L i = Some r \<longrightarrow> runner_of L j = Some s \<longrightarrow> i \<noteq> j \<longrightarrow>
          socks (r_f r) \<inter> socks (r_f s) = {})"

lemma runner_socks_ok: "runner_ok deny b i r \<Longrightarrow> runner_socks r = socks (r_f r)"
  by (simp add: runner_ok_def runner_socks_def socks_alt)

lemma l_okD:
  assumes "l_ok deny L"
  shows "runner_of L i = Some r \<Longrightarrow> runner_ok deny (l_bound L) i r"
    and "runner_of L i = Some r \<Longrightarrow> runner_of L j = Some s \<Longrightarrow> i \<noteq> j \<Longrightarrow> socks (r_f r) \<inter> socks (r_f s) = {}"
    and "distinct (map fst (l_runners L))"
  using assms unfolding l_ok_def by blast+

lemma start_free:
  assumes "socks f \<inter> ({sk. deny sk} \<union> b) = {}"
  shows "start deny (newRunner f) b = (Inr ((newRunner f)\<lparr>r_tcpLn := HasTCP f, r_udpPC := HasUDP f\<rparr>), b \<union> socks f)"
  using assms
  by (cases "HasTCP f"; cases "HasUDP f")
    (auto simp: start_def listen_def newRunner_def socks_alt Let_def proto_defs)

lemma start_busy:
  assumes "socks f \<inter> ({sk. deny sk} \<union> b) \<noteq> {}"
  shows "\<exists>e\<in>socks f. start deny (newRunner f) b = (Inl e, b)"
  using assms
  by (cases "HasTCP f"; cases "HasUDP f")
    (auto simp: start_def listen_def newRunner_def socks_alt Let_def proto_defs)

lemma runner_of_update [simp]:
  "runner_of (L\<lparr>l_bound := b, l_runners := AList.update i r rs\<rparr>) j = (if j = i then Some r else map_of rs j)"
  by (simp add: runner_of_def update_conv')

lemma runner_of_bound [simp]: "runner_of (L\<lparr>l_bound := b\<rparr>) = runner_of L"
  by (simp add: runner_of_def fun_eq_iff)

lemma runner_of_Remove: "runner_of (Remove i L) = (runner_of L)(i := None)"
  by (auto simp: Remove_def runner_of_def fun_eq_iff delete_conv' split: option.splits)

lemma bound_Remove: "l_ok deny L \<Longrightarrow>
  l_bound (Remove i L) = l_bound L - (case runner_of L i of None \<Rightarrow> {} | Some r \<Rightarrow> socks (r_f r))"
  using runner_socks_ok[OF l_okD(1)] by (simp add: Remove_def stop_def split: option.splits)

lemma Remove_ok:
  assumes "l_ok deny L"
  shows "l_ok deny (Remove i L)"
  unfolding l_ok_def
proof (intro conjI allI impI)
  fix j r assume "runner_of (Remove i L) j = Some r"
  then have r: "runner_of L j = Some r" "j \<noteq> i" by (auto simp: runner_of_Remove split: if_splits)
  then have "socks (r_f r) \<subseteq> l_bound (Remove i L)"
    using l_okD(1)[OF assms r(1)] l_okD(2)[OF assms r(1) _ r(2)]
    by (auto simp: bound_Remove[OF assms] runner_ok_def split: option.splits)
  with l_okD(1)[OF assms r(1)] show "runner_ok deny (l_bound (Remove i L)) j r"
    by (simp add: runner_ok_def)
next
  show "distinct (map fst (l_runners (Remove i L)))"
    using l_okD(3)[OF assms] by (auto simp: Remove_def distinct_delete split: option.splits)
next
  fix j k r s
  assume "runner_of (Remove i L) j = Some r" "runner_of (Remove i L) k = Some s" "j \<noteq> k"
  then show "socks (r_f r) \<inter> socks (r_f s) = {}"
    using l_okD(2)[OF assms, of j r k s] by (simp add: runner_of_Remove split: if_splits)
qed

lemma held_Remove:
  assumes "l_ok deny L"
  shows "held (Remove i L) = held L - (case runner_of L i of None \<Rightarrow> {} | Some r \<Rightarrow> socks (r_f r))"
proof (cases "runner_of L i")
  case None
  then have "runner_of (Remove i L) = runner_of L" by (auto simp: runner_of_Remove)
  with None show ?thesis by (simp add: held_def)
next
  case (Some r)
  have "sk \<in> held (Remove i L) \<longleftrightarrow> sk \<in> held L - socks (r_f r)" for sk
  proof
    assume "sk \<in> held (Remove i L)"
    then obtain j s where s: "runner_of L j = Some s" "j \<noteq> i" "sk \<in> socks (r_f s)"
      by (auto simp: held_def runner_of_Remove split: if_splits)
    then show "sk \<in> held L - socks (r_f r)"
      using l_okD(2)[OF assms s(1) Some s(2)] by (auto simp: held_def)
  next
    assume "sk \<in> held L - socks (r_f r)"
    then obtain j s where s: "runner_of L j = Some s" "sk \<in> socks (r_f s)" "sk \<notin> socks (r_f r)"
      by (auto simp: held_def)
    with Some have "runner_of (Remove i L) j = Some s" by (auto simp: runner_of_Remove)
    with s show "sk \<in> held (Remove i L)" by (auto simp: held_def)
  qed
  with Some show ?thesis by auto
qed

lemma foreign_Remove:
  assumes "l_ok deny L"
  shows "l_foreign deny (Remove i L) = l_foreign deny L"
proof -
  have "(case runner_of L i of None \<Rightarrow> {} | Some r \<Rightarrow> socks (r_f r)) \<subseteq> held L"
    by (auto simp: held_def split: option.splits)
  then show ?thesis
    unfolding l_foreign_def held_Remove[OF assms] bound_Remove[OF assms] by blast
qed

lemma view_Remove: "l_view (Remove i L) = (l_view L)(i := None)"
  by (auto simp: l_view_def runner_of_Remove fun_eq_iff)

lemma held_bound: "l_ok deny L \<Longrightarrow> held L \<subseteq> l_bound L \<inter> {sk. \<not> deny sk}"
  by (fastforce simp: held_def l_ok_def runner_ok_def)

text \<open>\<open>Apply\<close> past the shortcut for an unchanged forward is a \<open>Remove\<close> followed by \<open>start\<close>.\<close>

definition add_runner :: "forward \<Rightarrow> listeners \<Rightarrow> listeners" where
  "add_runner f L = L\<lparr>l_bound := l_bound L \<union> socks f,
     l_runners := AList.update (f_ID f) ((newRunner f)\<lparr>r_tcpLn := HasTCP f, r_udpPC := HasUDP f\<rparr>) (l_runners L)\<rparr>"

lemma runner_of_add: "runner_of (add_runner f L) =
  (runner_of L)(f_ID f \<mapsto> (newRunner f)\<lparr>r_tcpLn := HasTCP f, r_udpPC := HasUDP f\<rparr>)"
  by (auto simp: add_runner_def runner_of_def update_conv')

lemma add_runner_facts:
  assumes "l_ok deny L" and "runner_of L (f_ID f) = None" and "f_Enabled f"
    and "socks f \<inter> ({sk. deny sk} \<union> l_bound L) = {}"
  shows "l_ok deny (add_runner f L)" and "l_view (add_runner f L) = (l_view L)(f_ID f \<mapsto> spec_of f)"
    and "l_foreign deny (add_runner f L) = l_foreign deny L"
proof -
  have b: "l_bound (add_runner f L) = l_bound L \<union> socks f" by (simp add: add_runner_def)
  have disj: "socks (r_f r) \<inter> socks f = {}" if "runner_of L j = Some r" for j r
    using assms(1,4) that by (fastforce simp: l_ok_def runner_ok_def)
  show "l_view (add_runner f L) = (l_view L)(f_ID f \<mapsto> spec_of f)"
    by (auto simp: l_view_def runner_of_add newRunner_def)
  have h: "held (add_runner f L) = held L \<union> socks f"
  proof -
    have "sk \<in> held (add_runner f L) \<longleftrightarrow> sk \<in> held L \<or> sk \<in> socks f" for sk
      unfolding held_def runner_of_add mem_Collect_eq fun_upd_apply newRunner_def
      using assms(2) by (metis (no_types, lifting) option.distinct(1) option.inject runner.select_convs(1) runner.update_convs(2,3))
    then show ?thesis by blast
  qed
  show "l_foreign deny (add_runner f L) = l_foreign deny L"
    using assms(4) unfolding l_foreign_def b h by blast
  show "l_ok deny (add_runner f L)"
    unfolding l_ok_def runner_of_add b
  proof (intro conjI allI impI)
    show "distinct (map fst (l_runners (add_runner f L)))"
      using l_okD(3)[OF assms(1)] by (simp add: add_runner_def distinct_update)
  next
    fix i r assume "((runner_of L)(f_ID f \<mapsto> (newRunner f)\<lparr>r_tcpLn := HasTCP f, r_udpPC := HasUDP f\<rparr>)) i = Some r"
    then show "runner_ok deny (l_bound L \<union> socks f) i r"
      using assms(1,3,4) by (auto simp: l_ok_def runner_ok_def newRunner_def split: if_splits)
  next
    fix i j r s
    assume "((runner_of L)(f_ID f \<mapsto> (newRunner f)\<lparr>r_tcpLn := HasTCP f, r_udpPC := HasUDP f\<rparr>)) i = Some r"
      and "((runner_of L)(f_ID f \<mapsto> (newRunner f)\<lparr>r_tcpLn := HasTCP f, r_udpPC := HasUDP f\<rparr>)) j = Some s" and "i \<noteq> j"
    then show "socks (r_f r) \<inter> socks (r_f s) = {}"
      using l_okD(2)[OF assms(1), of i r j s] disj[of i r] disj[of j s]
      by (simp add: newRunner_def Int_commute split: if_splits) (hypsubst, simp add: Int_commute)+
  qed
qed

lemma Apply_cases:
  assumes ok: "l_ok deny L"
  obtains (same) r where "runner_of L (f_ID f) = Some r" "Same (r_f r) f" "Apply deny f L = (Inr (), L)"
  | (off) "\<not> f_Enabled f" "Apply deny f L = (Inr (), Remove (f_ID f) L)"
  | (on) "f_Enabled f" "socks f \<inter> ({sk. deny sk} \<union> l_bound (Remove (f_ID f) L)) = {}"
      "Apply deny f L = (Inr (), add_runner f (Remove (f_ID f) L))"
  | (fresh) e where "f_Enabled f" "socks f \<inter> ({sk. deny sk} \<union> l_bound (Remove (f_ID f) L)) \<noteq> {}"
      "runner_of L (f_ID f) = None" "e \<in> socks f" "Apply deny f L = (Inl e, L)"
  | (restore) e r where "f_Enabled f" "socks f \<inter> ({sk. deny sk} \<union> l_bound (Remove (f_ID f) L)) \<noteq> {}"
      "runner_of L (f_ID f) = Some r" "e \<in> socks f"
      "Apply deny f L = (Inl e, add_runner (r_f r) (Remove (f_ID f) L))"
      "socks (r_f r) \<inter> ({sk. deny sk} \<union> l_bound (Remove (f_ID f) L)) = {}" "f_ID (r_f r) = f_ID f" "f_Enabled (r_f r)"
proof (cases "\<exists>r. runner_of L (f_ID f) = Some r \<and> Same (r_f r) f")
  case True
  then show ?thesis using same by (auto simp: Apply_def)
next
  case ns: False
  let ?R = "Remove (f_ID f) L"
  have R: "?R = (case runner_of L (f_ID f) of
      Some r \<Rightarrow> L\<lparr>l_bound := stop r (l_bound L), l_runners := AList.delete (f_ID f) (l_runners L)\<rparr>
    | None \<Rightarrow> L)" by (simp add: Remove_def split: option.splits)
  have A: "Apply deny f L =
      (if \<not> f_Enabled f then (Inr (), ?R)
       else case start deny (newRunner f) (l_bound ?R) of
              (Inr r, b) \<Rightarrow> (Inr (), ?R\<lparr>l_bound := b, l_runners := AList.update (f_ID f) r (l_runners ?R)\<rparr>)
            | (Inl e, b) \<Rightarrow>
                (case runner_of L (f_ID f) of
                   None \<Rightarrow> (Inl e, ?R\<lparr>l_bound := b\<rparr>)
                 | Some r \<Rightarrow>
                     (case start deny (newRunner (r_f r)) b of
                        (Inr r', b') \<Rightarrow>
                          (Inl e, ?R\<lparr>l_bound := b', l_runners := AList.update (f_ID f) r' (l_runners ?R)\<rparr>)
                      | (Inl _, b') \<Rightarrow> (Inl e, ?R\<lparr>l_bound := b'\<rparr>))))"
    using ns unfolding Apply_def Let_def R by (auto split: option.splits)
  show ?thesis
  proof (cases "f_Enabled f")
    case False
    with A off show ?thesis by simp
  next
    case en: True
    show ?thesis
    proof (cases "socks f \<inter> ({sk. deny sk} \<union> l_bound ?R) = {}")
      case True
      with A en on show ?thesis by (simp add: start_free add_runner_def)
    next
      case False
      from start_busy[OF False] obtain e where e: "e \<in> socks f" "start deny (newRunner f) (l_bound ?R) = (Inl e, l_bound ?R)"
        by blast
      show ?thesis
      proof (cases "runner_of L (f_ID f)")
        case None
        with A en e R have "Apply deny f L = (Inl e, L)" by simp
        with fresh en False None e show ?thesis by blast
      next
        case (Some r)
        then have r: "runner_ok deny (l_bound L) (f_ID f) r" using ok by (auto simp: l_ok_def)
        have free: "socks (r_f r) \<inter> ({sk. deny sk} \<union> l_bound ?R) = {}"
          using r Some by (auto simp: bound_Remove[OF ok] runner_ok_def)
        have "f_ID (r_f r) = f_ID f" "f_Enabled (r_f r)" using r by (auto simp: runner_ok_def)
        moreover have "Apply deny f L = (Inl e, add_runner (r_f r) ?R)"
          using A en e Some free calculation(1) by (simp add: start_free add_runner_def)
        ultimately show ?thesis using restore en False Some e(1) free by blast
      qed
    qed
  qed
qed

lemma Remove_restore_view:
  assumes "runner_of L i = Some r"
  shows "(l_view (Remove i L))(i \<mapsto> spec_of (r_f r)) = l_view L"
  using assms by (auto simp: view_Remove l_view_def fun_eq_iff)

lemma runner_of_Remove_self [simp]: "runner_of (Remove i L) i = None"
  by (simp add: runner_of_Remove)

lemma Apply_facts:
  assumes "l_ok deny L"
  shows "l_ok deny (snd (Apply deny f L))" and "l_foreign deny (snd (Apply deny f L)) = l_foreign deny L"
    and "fst (Apply deny f L) = Inr u \<Longrightarrow> l_view (snd (Apply deny f L)) = (l_view L)(f_ID f := wanted f)"
    and "fst (Apply deny f L) = Inl e \<Longrightarrow> l_view (snd (Apply deny f L)) = l_view L"
    and "\<not> f_Enabled f \<Longrightarrow> fst (Apply deny f L) = Inr ()"
    and "socks f \<inter> ({sk. deny sk} \<union> l_bound (Remove (f_ID f) L)) = {} \<Longrightarrow> fst (Apply deny f L) = Inr ()"
proof -
  have "l_ok deny (snd (Apply deny f L)) \<and> l_foreign deny (snd (Apply deny f L)) = l_foreign deny L
    \<and> (case fst (Apply deny f L) of
         Inr _ \<Rightarrow> l_view (snd (Apply deny f L)) = (l_view L)(f_ID f := wanted f)
       | Inl _ \<Rightarrow> l_view (snd (Apply deny f L)) = l_view L)
    \<and> (\<not> f_Enabled f \<longrightarrow> fst (Apply deny f L) = Inr ())
    \<and> (socks f \<inter> ({sk. deny sk} \<union> l_bound (Remove (f_ID f) L)) = {} \<longrightarrow> fst (Apply deny f L) = Inr ())"
    using assms
  proof (cases rule: Apply_cases[where f = f])
    case (same r)
    then have "runner_ok deny (l_bound L) (f_ID f) r" using assms by (auto simp: l_ok_def)
    then have "f_Enabled (r_f r)" by (simp add: runner_ok_def)
    with same have "l_view L = (l_view L)(f_ID f := wanted f)"
      by (auto simp: wanted_def Same_spec l_view_def fun_eq_iff)
    with same assms show ?thesis by simp
  next
    case off
    with assms show ?thesis by (simp add: Remove_ok foreign_Remove view_Remove wanted_def)
  next
    case on
    note F = add_runner_facts[OF Remove_ok[OF assms] runner_of_Remove_self on(1,2)]
    from on F show ?thesis by (simp add: foreign_Remove[OF assms] view_Remove wanted_def)
  next
    case (fresh e)
    with assms show ?thesis by simp
  next
    case (restore e r)
    have none: "runner_of (Remove (f_ID f) L) (f_ID (r_f r)) = None" using restore(7) by simp
    note F = add_runner_facts[OF Remove_ok[OF assms] none restore(8,6)]
    from restore F show ?thesis
      by (simp add: foreign_Remove[OF assms] Remove_restore_view)
  qed
  then show "l_ok deny (snd (Apply deny f L))" and "l_foreign deny (snd (Apply deny f L)) = l_foreign deny L"
    and "fst (Apply deny f L) = Inr u \<Longrightarrow> l_view (snd (Apply deny f L)) = (l_view L)(f_ID f := wanted f)"
    and "fst (Apply deny f L) = Inl e \<Longrightarrow> l_view (snd (Apply deny f L)) = l_view L"
    and "\<not> f_Enabled f \<Longrightarrow> fst (Apply deny f L) = Inr ()"
    and "socks f \<inter> ({sk. deny sk} \<union> l_bound (Remove (f_ID f) L)) = {} \<Longrightarrow> fst (Apply deny f L) = Inr ()"
    by auto
qed

lemma Apply_free:
  assumes ok: "l_ok deny L" and "socks f \<inter> l_foreign deny L = {}"
    and other: "\<And>j s. j \<noteq> f_ID f \<Longrightarrow> l_view L j = Some s \<Longrightarrow> spec_socks s \<inter> socks f = {}"
  shows "fst (Apply deny f L) = Inr ()"
proof (rule Apply_facts(6)[OF ok])
  have "sk \<notin> l_bound (Remove (f_ID f) L)" if "sk \<in> socks f" for sk
  proof
    assume b: "sk \<in> l_bound (Remove (f_ID f) L)"
    then have "sk \<in> l_bound L" by (auto simp: bound_Remove[OF ok])
    with that assms(2) have "sk \<in> held L" by (auto simp: l_foreign_def)
    then obtain i r where r: "runner_of L i = Some r" "sk \<in> socks (r_f r)" by (auto simp: held_def)
    show False
    proof (cases "i = f_ID f")
      case True
      with r b show False by (simp add: bound_Remove[OF ok])
    next
      case False
      then show False using other[of i "spec_of (r_f r)"] r that by (auto simp: l_view_def)
    qed
  qed
  then show "socks f \<inter> ({sk. deny sk} \<union> l_bound (Remove (f_ID f) L)) = {}"
    using assms(2) by (auto simp: l_foreign_def)
qed

interpretation tl: listener_table "Apply deny" Remove l_view "l_foreign deny" "l_ok deny" for deny
proof
  fix L i j s t assume ok: "l_ok deny L"
  show "l_ok deny (Remove i L)" using ok by (rule Remove_ok)
  show "l_view (Remove i L) = (l_view L)(i := None)" by (rule view_Remove)
  show "l_foreign deny (Remove i L) = l_foreign deny L" using ok by (rule foreign_Remove)
  show "spec_socks s \<inter> l_foreign deny L = {}" if "l_view L i = Some s"
    using that held_bound[OF ok] by (fastforce simp: l_view_def l_foreign_def held_def)
  show "spec_socks s \<inter> spec_socks t = {}" if "l_view L i = Some s" "l_view L j = Some t" "i \<noteq> j"
  proof -
    from that obtain r q where "runner_of L i = Some r" "s = spec_of (r_f r)"
      "runner_of L j = Some q" "t = spec_of (r_f q)" by (auto simp: l_view_def)
    with l_okD(2)[OF ok] that(3) show ?thesis by simp
  qed
qed (auto simp: Apply_facts Apply_free)

section \<open>Reconciling with the configuration\<close>

lemma Apply_error:
  assumes "l_ok deny L" and "fst (Apply deny f L) = Inl e"
  shows "f_Enabled f \<and> e \<in> socks f"
  using assms by (cases rule: Apply_cases[OF assms(1), of f]) auto

lemma sync_forwards_result:
  assumes "l_ok deny L" and "distinct (map f_ID fs)" and "sync_forwards deny fs errs L = (errs', L')"
  shows "l_ok deny L' \<and> l_foreign deny L' = l_foreign deny L
    \<and> (\<forall>i. i \<notin> f_ID ` set fs \<longrightarrow> errs' i = errs i \<and> l_view L' i = l_view L i)
    \<and> (\<forall>f\<in>set fs. errs (f_ID f) = None \<longrightarrow>
         (case errs' (f_ID f) of
            None \<Rightarrow> l_view L' (f_ID f) = wanted f
          | Some e \<Rightarrow> f_Enabled f \<and> e \<in> socks f \<and> l_view L' (f_ID f) = l_view L (f_ID f)))"
  using assms
proof (induction fs arbitrary: L errs)
  case Nil
  then show ?case by simp
next
  case (Cons f fs)
  obtain r L1 where step: "Apply deny f L = (r, L1)" by fastforce
  define e1 where "e1 = (case r of Inl e \<Rightarrow> errs(f_ID f \<mapsto> e) | Inr _ \<Rightarrow> errs)"
  have L1: "l_ok deny L1" "l_foreign deny L1 = l_foreign deny L"
    using Apply_facts(1,2)[OF Cons.prems(1), of f] step by simp_all
  have "sync_forwards deny fs e1 L1 = (errs', L')"
    using Cons.prems(3) step by (cases r) (simp_all add: e1_def)
  from Cons.IH[OF L1(1) _ this] Cons.prems(2)
  have IH: "l_ok deny L'" "l_foreign deny L' = l_foreign deny L1"
    "\<And>i. i \<notin> f_ID ` set fs \<Longrightarrow> errs' i = e1 i \<and> l_view L' i = l_view L1 i"
    "\<And>g. g \<in> set fs \<Longrightarrow> e1 (f_ID g) = None \<Longrightarrow>
       (case errs' (f_ID g) of None \<Rightarrow> l_view L' (f_ID g) = wanted g
        | Some e \<Rightarrow> f_Enabled g \<and> e \<in> socks g \<and> l_view L' (f_ID g) = l_view L1 (f_ID g))"
    by simp_all
  have other: "e1 i = errs i \<and> l_view L1 i = l_view L i" if "i \<noteq> f_ID f" for i
    using that step Apply_facts(3,4)[OF Cons.prems(1), of f] by (cases r) (auto simp: e1_def)
  have here: "case e1 (f_ID f) of None \<Rightarrow> l_view L1 (f_ID f) = wanted f
      | Some e \<Rightarrow> f_Enabled f \<and> e \<in> socks f \<and> l_view L1 (f_ID f) = l_view L (f_ID f)"
    if "errs (f_ID f) = None"
    using that step Apply_facts(3,4)[OF Cons.prems(1), of f] Apply_error[OF Cons.prems(1), of f]
    by (cases r) (auto simp: e1_def)
  have nf: "f_ID f \<notin> f_ID ` set fs" using Cons.prems(2) by auto
  show ?case
  proof (intro conjI ballI impI allI)
    show "l_ok deny L'" "l_foreign deny L' = l_foreign deny L" using IH(1,2) L1(2) by simp_all
  next
    fix i assume "i \<notin> f_ID ` set (f # fs)"
    then show "errs' i = errs i" "l_view L' i = l_view L i" using IH(3)[of i] other[of i] by simp_all
  next
    fix g assume g: "g \<in> set (f # fs)" and n: "errs (f_ID g) = None"
    show "case errs' (f_ID g) of None \<Rightarrow> l_view L' (f_ID g) = wanted g
      | Some e \<Rightarrow> f_Enabled g \<and> e \<in> socks g \<and> l_view L' (f_ID g) = l_view L (f_ID g)"
    proof (cases "g = f")
      case True
      with here n IH(3)[OF nf] show ?thesis by (cases "e1 (f_ID f)") simp_all
    next
      case False
      with g have g: "g \<in> set fs" by simp
      then have "f_ID g \<noteq> f_ID f" using nf imageI[OF g, of f_ID] by (cases "f_ID g = f_ID f") simp_all
      with IH(4)[OF g] other[of "f_ID g"] n show ?thesis by (cases "errs' (f_ID g)") simp_all
    qed
  qed
qed

lemma drop_runners_remove:
  assumes "l_ok deny L"
  shows "drop_runners live L = remove_dropped Remove (map (r_f \<circ> snd) (filter (\<lambda>(i, _). \<not> live i) (l_runners L))) L"
proof -
  have "foldl (\<lambda>L' (i, r). if live i then L'
        else L'\<lparr>l_bound := stop r (l_bound L'), l_runners := AList.delete i (l_runners L')\<rparr>) M rs
      = remove_dropped Remove (map (r_f \<circ> snd) (filter (\<lambda>(i, _). \<not> live i) rs)) M"
    if "distinct (map fst rs)" "\<forall>(i, r)\<in>set rs. runner_of M i = Some r \<and> f_ID (r_f r) = i" for M rs
    using that
  proof (induction rs arbitrary: M)
    case Nil
    then show ?case by (simp add: remove_dropped_def)
  next
    case (Cons p rs)
    obtain i r where p: "p = (i, r)" by (cases p)
    show ?case
    proof (cases "live i")
      case True
      with Cons p show ?thesis by simp
    next
      case False
      have i: "runner_of M i = Some r" "f_ID (r_f r) = i" using Cons.prems(2) p by auto
      then have R: "M\<lparr>l_bound := stop r (l_bound M), l_runners := AList.delete i (l_runners M)\<rparr> = Remove i M"
        by (simp add: Remove_def)
      have "\<forall>(j, s)\<in>set rs. runner_of (Remove i M) j = Some s \<and> f_ID (r_f s) = j"
        using Cons.prems p by (force simp: runner_of_Remove)
      with Cons.IH[of "Remove i M"] Cons.prems(1) False p i show ?thesis
        by (simp add: R remove_dropped_def)
    qed
  qed
  moreover have "\<forall>(i, r)\<in>set (l_runners L). runner_of L i = Some r \<and> f_ID (r_f r) = i"
  proof clarify
    fix i r assume "(i, r) \<in> set (l_runners L)"
    then have "runner_of L i = Some r" using l_okD(3)[OF assms] by (simp add: runner_of_def)
    with l_okD(1)[OF assms this] show "runner_of L i = Some r \<and> f_ID (r_f r) = i" by (simp add: runner_ok_def)
  qed
  ultimately show ?thesis using l_okD(3)[OF assms] by (simp add: drop_runners_def)
qed

lemma drop_runners_facts:
  assumes "l_ok deny L"
  shows "l_ok deny (drop_runners live L)" and "l_foreign deny (drop_runners live L) = l_foreign deny L"
    and "l_view (drop_runners live L) i = (if live i then l_view L i else None)"
proof -
  let ?fs = "map (r_f \<circ> snd) (filter (\<lambda>(i, _). \<not> live i) (l_runners L))"
  show "l_ok deny (drop_runners live L)" and "l_foreign deny (drop_runners live L) = l_foreign deny L"
    using assms by (simp_all add: drop_runners_remove tl.ok_remove_dropped tl.foreign_remove_dropped)
  have ids: "f_ID (r_f r) = j \<and> map_of (l_runners L) j = Some r" if "(j, r) \<in> set (l_runners L)" for j r
    using that l_okD(1)[OF assms, of j r] l_okD(3)[OF assms] by (simp add: runner_of_def runner_ok_def)
  have "i \<in> f_ID ` set ?fs \<longleftrightarrow> \<not> live i \<and> l_view L i \<noteq> None"
  proof
    assume "i \<in> f_ID ` set ?fs"
    then show "\<not> live i \<and> l_view L i \<noteq> None" using ids by (force simp: l_view_def runner_of_def)
  next
    assume "\<not> live i \<and> l_view L i \<noteq> None"
    then obtain r where "\<not> live i" "(i, r) \<in> set (l_runners L)"
      by (auto simp: l_view_def runner_of_def dest: map_of_SomeD)
    with ids[of i r] show "i \<in> f_ID ` set ?fs" by (force simp: image_iff)
  qed
  then show "l_view (drop_runners live L) i = (if live i then l_view L i else None)"
    using assms by (auto simp: drop_runners_remove tl.view_remove_dropped)
qed

section \<open>Properties of the listener table\<close>

text \<open>
  Applying one forward either gives it exactly the listener it wants, or fails because one
  of its own sockets cannot be bound, and then every listener, the one it replaces included,
  is what it was.
\<close>

theorem Apply_replaces_or_restores:
  assumes "l_ok deny L" and "Apply deny f L = (res, L')"
  shows "l_ok deny L' \<and> l_foreign deny L' = l_foreign deny L
    \<and> (case res of
         Inr _ \<Rightarrow> l_view L' = (l_view L)(f_ID f := wanted f)
       | Inl e \<Rightarrow> f_Enabled f \<and> e \<in> socks f \<and> l_view L' = l_view L)"
  using Apply_facts(1-4)[OF assms(1), of f] Apply_error[OF assms(1), of f] assms(2)
  by (cases res) auto

definition no_listeners :: listeners where
  "no_listeners = \<lparr>l_bound = {}, l_runners = []\<rparr>"

lemma no_listeners_ok: "l_ok deny no_listeners"
  by (simp add: l_ok_def no_listeners_def runner_of_def)

definition demo_forward :: "string \<Rightarrow> string \<Rightarrow> int \<Rightarrow> forward" where
  "demo_forward i proto p = \<lparr>f_ID = i, f_ClientID = ''c1'', f_GroupID = ''g1'', f_Name = ''Minecraft'', f_Protocol = proto,
     f_PublicPort = p, f_TargetHost = [], f_TargetPort = p, f_Enabled = True, f_CreatedAt = 1, f_UpdatedAt = 1\<rparr>"

lemma Apply_replaces_or_restores_witness:
  "l_view (snd (Apply (\<lambda>sk. snd sk = 80) (demo_forward ''f'' ''both'' 80) no_listeners)) = l_view no_listeners
   \<and> fst (Apply (\<lambda>sk. snd sk = 80) (demo_forward ''f'' ''both'' 80) no_listeners) = Inl (''tcp'', 80)"
proof -
  have r: "fst (Apply (\<lambda>sk. snd sk = 80) (demo_forward ''f'' ''both'' 80) no_listeners) = Inl (''tcp'', 80)"
    by code_simp
  then obtain L' where A: "Apply (\<lambda>sk. snd sk = 80) (demo_forward ''f'' ''both'' 80) no_listeners = (Inl (''tcp'', 80), L')"
    by (metis prod.collapse)
  show ?thesis using Apply_replaces_or_restores[OF no_listeners_ok A] A by simp
qed

text \<open>
  C7: replacing a group's members is all or nothing. When any member cannot be bound, the call
  fails and every listener is back to what it was before: those of removed members, those of
  members already replaced, and those outside the group.
\<close>

theorem ApplyGroup_all_or_nothing:
  assumes "l_ok deny L" and "group_change (l_view L) nxt prev" and "ApplyGroup deny nxt prev L = (Inl e, L')"
  shows "l_ok deny L' \<and> l_view L' = l_view L \<and> l_foreign deny L' = l_foreign deny L"
  using tl.apply_group_result[OF assms(1,2)] assms(3) by (simp add: ApplyGroup_def)

text \<open>
  When \<open>ApplyGroup\<close> succeeds, every new member has exactly the listener it wants, the
  listeners of removed members are gone, and no other listener changed.
\<close>

theorem ApplyGroup_replaces:
  assumes "l_ok deny L" and "group_change (l_view L) nxt prev" and "ApplyGroup deny nxt prev L = (Inr u, L')"
  shows "l_ok deny L' \<and> (\<forall>f\<in>set nxt. l_view L' (f_ID f) = wanted f)
    \<and> (\<forall>i. i \<notin> f_ID ` set nxt \<longrightarrow> l_view L' i = (if i \<in> f_ID ` set prev then None else l_view L i))"
  using tl.apply_group_result[OF assms(1,2)] assms(3) by (simp add: ApplyGroup_def)

definition demo_listeners :: listeners where
  "demo_listeners = snd (Apply (\<lambda>sk. snd sk = 80) (demo_forward ''f1'' ''tcp'' 25565) no_listeners)"

lemma demo_listeners_ok: "l_ok (\<lambda>sk. snd sk = 80) demo_listeners"
  unfolding demo_listeners_def by (rule tl.apply_ok[OF no_listeners_ok])

lemma demo_listeners_view: "l_view demo_listeners = [''f1'' \<mapsto> spec_of (demo_forward ''f1'' ''tcp'' 25565)]"
proof -
  have "fst (Apply (\<lambda>sk. snd sk = 80) (demo_forward ''f1'' ''tcp'' 25565) no_listeners) = Inr ()" by code_simp
  from tl.apply_Inr[OF no_listeners_ok this] show ?thesis
    by (simp add: demo_listeners_def wanted_def demo_forward_def l_view_def runner_of_def no_listeners_def fun_eq_iff)
qed

lemma ApplyGroup_all_or_nothing_witness:
  "\<exists>L'. ApplyGroup (\<lambda>sk. snd sk = 80) [demo_forward ''f2'' ''tcp'' 25566, demo_forward ''f3'' ''tcp'' 80]
      [demo_forward ''f1'' ''tcp'' 25565] demo_listeners = (Inl (''tcp'', 80), L')
    \<and> l_view L' = l_view demo_listeners"
proof -
  let ?n = "[demo_forward ''f2'' ''tcp'' 25566, demo_forward ''f3'' ''tcp'' 80]"
  let ?p = "[demo_forward ''f1'' ''tcp'' 25565]"
  have "fst (ApplyGroup (\<lambda>sk. snd sk = 80) ?n ?p demo_listeners) = Inl (''tcp'', 80)" by code_simp
  then obtain L' where A: "ApplyGroup (\<lambda>sk. snd sk = 80) ?n ?p demo_listeners = (Inl (''tcp'', 80), L')"
    by (metis prod.collapse)
  have "group_change (l_view demo_listeners) ?n ?p"
    unfolding demo_listeners_view
    by (auto simp: group_change_def wanted_def demo_forward_def socks_alt HasTCP_def HasUDP_def proto_defs)
  from ApplyGroup_all_or_nothing[OF demo_listeners_ok this A] A show ?thesis by blast
qed

lemma ApplyGroup_replaces_witness:
  "\<exists>L'. ApplyGroup (\<lambda>sk. snd sk = 80) [demo_forward ''f2'' ''both'' 25566] [demo_forward ''f1'' ''tcp'' 25565]
      demo_listeners = (Inr (), L') \<and> l_view L' ''f1'' = None
    \<and> l_view L' ''f2'' = Some (''c1'', ''both'', 25566, [], 25566)"
proof -
  let ?n = "[demo_forward ''f2'' ''both'' 25566]"
  let ?p = "[demo_forward ''f1'' ''tcp'' 25565]"
  have "fst (ApplyGroup (\<lambda>sk. snd sk = 80) ?n ?p demo_listeners) = Inr ()" by code_simp
  then obtain L' where A: "ApplyGroup (\<lambda>sk. snd sk = 80) ?n ?p demo_listeners = (Inr (), L')"
    by (metis prod.collapse)
  have "group_change (l_view demo_listeners) ?n ?p"
    unfolding demo_listeners_view
    by (auto simp: group_change_def wanted_def demo_forward_def socks_alt HasTCP_def HasUDP_def proto_defs)
  from ApplyGroup_replaces[OF demo_listeners_ok this A] A show ?thesis
    by (simp add: demo_forward_def wanted_def spec_of_def)
qed

lemma SyncAll_result:
  assumes "l_ok deny L" and "distinct (map f_ID fs)" and "SyncAll deny fs L = (errs, L')"
  shows "l_ok deny L' \<and> dom errs \<subseteq> f_ID ` set fs
    \<and> (\<forall>f\<in>set fs. case errs (f_ID f) of
         None \<Rightarrow> l_view L' (f_ID f) = wanted f
       | Some e \<Rightarrow> f_Enabled f \<and> e \<in> socks f \<and> l_view L' (f_ID f) = l_view L (f_ID f))
    \<and> (\<forall>i. i \<notin> f_ID ` set fs \<longrightarrow> l_view L' i = None)"
proof -
  obtain L1 where s: "sync_forwards deny fs Map.empty L = (errs, L1)"
    and L': "L' = drop_runners (\<lambda>i. i \<in> f_ID ` set fs) L1"
    using assms(3) by (auto simp: SyncAll_def split: prod.splits)
  note S = sync_forwards_result[OF assms(1,2) s]
  then have ok: "l_ok deny L1" by blast
  have d: "dom errs \<subseteq> f_ID ` set fs" using S by (auto simp: domIff)
  have "l_view L' i = (if i \<in> f_ID ` set fs then l_view L1 i else None)" for i
    unfolding L' by (rule drop_runners_facts(3)[OF ok])
  then have "\<forall>f\<in>set fs. l_view L' (f_ID f) = l_view L1 (f_ID f)" "\<forall>i. i \<notin> f_ID ` set fs \<longrightarrow> l_view L' i = None"
    by simp_all
  moreover have "case errs (f_ID f) of None \<Rightarrow> l_view L' (f_ID f) = wanted f
      | Some e \<Rightarrow> f_Enabled f \<and> e \<in> socks f \<and> l_view L' (f_ID f) = l_view L (f_ID f)" if "f \<in> set fs" for f
    using S that calculation(1) by (cases "errs (f_ID f)") auto
  ultimately show ?thesis using d drop_runners_facts(1)[OF ok] unfolding L' by blast
qed

text \<open>
  C33: \<open>SyncAll\<close> reconciles the listeners with the configuration: a forward without a reported
  error has exactly the listener it wants, one with an error is enabled, the error names a
  socket of its own and its listener is what it was, and no runner of an unknown id is left.
\<close>

theorem SyncAll_reconciles:
  assumes "l_ok deny L" and "distinct (map f_ID fs)" and "SyncAll deny fs L = (errs, L')"
  shows "l_ok deny L' \<and> dom errs \<subseteq> f_ID ` set fs
    \<and> (\<forall>f\<in>set fs. case errs (f_ID f) of
         None \<Rightarrow> l_view L' (f_ID f) = wanted f
       | Some e \<Rightarrow> f_Enabled f \<and> e \<in> socks f \<and> l_view L' (f_ID f) = l_view L (f_ID f))
    \<and> (\<forall>i. i \<notin> f_ID ` set fs \<longrightarrow> l_view L' i = None)"
  using assms by (rule SyncAll_result)

lemma SyncAll_reconciles_witness:
  "\<exists>L'. SyncAll (\<lambda>sk. snd sk = 80) [demo_forward ''f2'' ''udp'' 25565, demo_forward ''f3'' ''tcp'' 80]
      demo_listeners = ([''f3'' \<mapsto> (''tcp'', 80)], L')
    \<and> l_view L' = [''f2'' \<mapsto> (''c1'', ''udp'', 25565, [], 25565)]"
proof -
  let ?fs = "[demo_forward ''f2'' ''udp'' 25565, demo_forward ''f3'' ''tcp'' 80]"
  obtain errs L' where A: "SyncAll (\<lambda>sk. snd sk = 80) ?fs demo_listeners = (errs, L')" by fastforce
  have ids: "f_ID ` set ?fs = {''f2'', ''f3''}" by (simp add: demo_forward_def)
  have "fst (SyncAll (\<lambda>sk. snd sk = 80) ?fs demo_listeners) ''f2'' = None"
    "fst (SyncAll (\<lambda>sk. snd sk = 80) ?fs demo_listeners) ''f3'' = Some (''tcp'', 80)"
    by code_simp+
  then have e: "errs ''f2'' = None" "errs ''f3'' = Some (''tcp'', 80)" using A by simp_all
  have d: "distinct (map f_ID ?fs)" by (simp add: demo_forward_def)
  note R = SyncAll_reconciles[OF demo_listeners_ok d A]
  have "errs = [''f3'' \<mapsto> (''tcp'', 80)]"
    using R e unfolding ids by (auto simp: fun_eq_iff domIff)
  moreover have "l_view L' i = [''f2'' \<mapsto> (''c1'', ''udp'', 25565, [], 25565)] i" for i
    using R e unfolding ids demo_listeners_view
    by (auto simp: demo_forward_def wanted_def spec_of_def)
  ultimately show ?thesis using A by auto
qed

lemma SyncAll_starts:
  assumes "l_ok deny L" and "l_view L = Map.empty" and "distinct (map f_ID fs)"
    and "\<And>f. f \<in> set fs \<Longrightarrow> f_Enabled f \<Longrightarrow> socks f \<inter> l_foreign deny L = {}"
    and "\<And>f g. f \<in> set fs \<Longrightarrow> g \<in> set fs \<Longrightarrow> f_ID f \<noteq> f_ID g \<Longrightarrow> f_Enabled f \<Longrightarrow> f_Enabled g \<Longrightarrow>
      socks f \<inter> socks g = {}"
    and "SyncAll deny fs L = (errs, L')"
  shows "errs = Map.empty \<and> (\<forall>f\<in>set fs. l_view L' (f_ID f) = wanted f)"
proof -
  have go: "sync_forwards deny gs Map.empty M = (errs, M') \<Longrightarrow> errs = Map.empty"
    if "l_ok deny M" "l_foreign deny M = l_foreign deny L" "set gs \<subseteq> set fs" "distinct (map f_ID gs)"
      "\<And>j s. l_view M j = Some s \<Longrightarrow> \<exists>f\<in>set fs. f_Enabled f \<and> f_ID f = j \<and> s = spec_of f"
    for gs M M' errs
    using that
  proof (induction gs arbitrary: M)
    case Nil
    then show ?case by simp
  next
    case (Cons g gs)
    obtain r M1 where step: "Apply deny g M = (r, M1)" by fastforce
    have "fst (Apply deny g M) = Inr ()"
    proof (cases "f_Enabled g")
      case True
      have g: "g \<in> set fs" using Cons.prems(4) by simp
      show ?thesis
      proof (rule Apply_free[OF Cons.prems(2)])
        show "socks g \<inter> l_foreign deny M = {}" using assms(4)[OF g True] Cons.prems(3) by simp
        fix j s assume "j \<noteq> f_ID g" "l_view M j = Some s"
        with Cons.prems(6) obtain f where "f \<in> set fs" "f_Enabled f" "f_ID f \<noteq> f_ID g" "s = spec_of f" by blast
        then show "spec_socks s \<inter> socks g = {}" using assms(5)[of f g] g True by simp
      qed
    qed (simp add: Apply_facts(5)[OF Cons.prems(2)])
    then have r: "r = Inr ()" using step by simp
    have M1: "l_ok deny M1" "l_foreign deny M1 = l_foreign deny L" "l_view M1 = (l_view M)(f_ID g := wanted g)"
      using Apply_facts(1-3)[OF Cons.prems(2), of g] step r Cons.prems(3) by simp_all
    have "\<exists>f\<in>set fs. f_Enabled f \<and> f_ID f = j \<and> s = spec_of f" if "l_view M1 j = Some s" for j s
      using that Cons.prems(4,6) by (auto simp: M1(3) wanted_def split: if_splits)
    with Cons.IH[of M1] Cons.prems(1,4,5) M1 step r show ?case by simp
  qed
  obtain L1 where s: "sync_forwards deny fs Map.empty L = (errs, L1)"
    using assms(6) by (auto simp: SyncAll_def split: prod.splits)
  have e: "errs = Map.empty" by (rule go[OF assms(1) refl _ assms(3) _ s]) (auto simp: assms(2))
  have L': "L' = drop_runners (\<lambda>i. i \<in> f_ID ` set fs) L1" using assms(6) s by (simp add: SyncAll_def)
  note S = sync_forwards_result[OF assms(1,3) s]
  then have "\<forall>f\<in>set fs. l_view L1 (f_ID f) = wanted f" using e by simp
  moreover have "l_ok deny L1" using S by blast
  ultimately show ?thesis using e unfolding L' by (simp add: drop_runners_facts(3))
qed

text \<open>
  At start-up nothing is lost: on a tunnel with no runners, forwards whose sockets are
  pairwise disjoint and available all come up, and no error is reported.
\<close>

theorem SyncAll_starts_everything:
  assumes "l_ok deny L" and "l_view L = Map.empty" and "distinct (map f_ID fs)"
    and "\<And>f. f \<in> set fs \<Longrightarrow> f_Enabled f \<Longrightarrow> socks f \<inter> l_foreign deny L = {}"
    and "\<And>f g. f \<in> set fs \<Longrightarrow> g \<in> set fs \<Longrightarrow> f_ID f \<noteq> f_ID g \<Longrightarrow> f_Enabled f \<Longrightarrow> f_Enabled g \<Longrightarrow>
      socks f \<inter> socks g = {}"
    and "SyncAll deny fs L = (errs, L')"
  shows "errs = Map.empty \<and> (\<forall>f\<in>set fs. l_view L' (f_ID f) = wanted f)"
  using assms by (rule SyncAll_starts)

lemma SyncAll_starts_everything_witness:
  "l_view (snd (SyncAll (\<lambda>_. False) [demo_forward ''f1'' ''tcp'' 53, demo_forward ''f2'' ''udp'' 53] no_listeners)) ''f2''
   = Some (''c1'', ''udp'', 53, [], 53)"
proof -
  let ?fs = "[demo_forward ''f1'' ''tcp'' 53, demo_forward ''f2'' ''udp'' 53]"
  obtain errs L' where A: "SyncAll (\<lambda>_. False) ?fs no_listeners = (errs, L')" by fastforce
  have v: "l_view no_listeners = Map.empty" by (simp add: l_view_def runner_of_def no_listeners_def fun_eq_iff)
  have "l_foreign (\<lambda>_. False) no_listeners = {}" by (simp add: l_foreign_def no_listeners_def)
  then have "errs = Map.empty \<and> (\<forall>f\<in>set ?fs. l_view L' (f_ID f) = wanted f)"
    by (intro SyncAll_starts_everything[OF no_listeners_ok v _ _ _ A])
      (auto simp: demo_forward_def socks_alt HasTCP_def HasUDP_def proto_defs)
  with A show ?thesis by (simp add: demo_forward_def wanted_def spec_of_def)
qed

text \<open>
  \<open>Shutdown\<close> stops every runner and closes every socket the tunnel had bound, and only those.
\<close>

theorem Shutdown_releases_all:
  assumes "l_ok deny L"
  shows "l_view (Shutdown_runners L) = Map.empty \<and> l_foreign deny (Shutdown_runners L) = l_foreign deny L
    \<and> held (Shutdown_runners L) = {}"
  using drop_runners_facts(2,3)[OF assms, of "\<lambda>_. False"]
  by (auto simp: Shutdown_runners_def fun_eq_iff held_def l_view_def)

lemma Shutdown_releases_all_witness: "l_view (Shutdown_runners demo_listeners) = Map.empty"
  using Shutdown_releases_all[OF demo_listeners_ok] by blast

end
