(* ===== verification/Protocol.thy ===== *)
theory Protocol
  imports Go_Strings "HOL-Library.Word"
begin

text \<open>
  \<open>internal/protocol/protocol.go\<close>: the messages of the tunnel, the newline-delimited control
  lines with their 64 KiB limit, and the length-prefixed datagram frames. Byte streams are
  \<^typ>\<open>string\<close>s. \<open>encoding/json\<close> is a parameter: \<open>marshal\<close> of a value and
  \<open>unmarshal\<close> of a line.
\<close>

section \<open>Messages\<close>

definition Version :: int where "Version = 1"
definition maxLine :: nat where "maxLine = 64 * 1024"
definition MaxDatagram :: nat where "MaxDatagram = 65535"

record hello =
  h_Version :: int
  h_Token :: string
  h_Hostname :: string
  h_OS :: string
  h_Arch :: string
  h_ClientVersion :: string
  h_AllowUpdate :: bool

record hello_response =
  hr_OK :: bool
  hr_Error :: string
  hr_ClientID :: string
  hr_ClientName :: string
  hr_ServerVersion :: string

record forward_info =
  fi_Name :: string
  fi_Protocol :: string
  fi_PublicPort :: int
  fi_Target :: string

record update_info =
  ui_Version :: string
  ui_Name :: string
  ui_Size :: int
  ui_SHA256 :: string

record control_message =
  cm_Type :: string
  cm_Message :: string
  cm_Forwards :: "forward_info list"
  cm_Update :: "update_info option"
  cm_Status :: string

record client_request =
  cr_Type :: string
  cr_Name :: string

record download_response =
  dr_OK :: bool
  dr_Error :: string
  dr_Size :: int
  dr_SHA256 :: string

record stream_header =
  sh_Type :: string
  sh_ForwardID :: string
  sh_Target :: string
  sh_Remote :: string

datatype wire_error = TooLarge nat | LineTooLong | UnexpectedEOF | FrameExceedsBuffer nat | BadJSON

section \<open>A framed stream\<close>

text \<open>
  The contract both framings share: what a writer appends, the reader takes off the front and
  leaves the rest. \<open>fits\<close> says which messages the format can carry.
\<close>

fun read_many :: "(string \<Rightarrow> (wire_error, 'm \<times> string) result) \<Rightarrow> nat \<Rightarrow> string \<Rightarrow> (wire_error, 'm list \<times> string) result" where
  "read_many rd 0 s = Inr ([], s)"
| "read_many rd (Suc n) s =
     rbind (rd s) (\<lambda>(m, s'). rbind (read_many rd n s') (\<lambda>(ms, s''). Inr (m # ms, s'')))"

fun write_many :: "('m \<Rightarrow> (wire_error, string) result) \<Rightarrow> 'm list \<Rightarrow> (wire_error, string) result" where
  "write_many wr [] = Inr []"
| "write_many wr (m # ms) = rbind (wr m) (\<lambda>b. rbind (write_many wr ms) (\<lambda>bs. Inr (b @ bs)))"

locale framing =
  fixes wr :: "'m \<Rightarrow> (wire_error, string) result"
    and rd :: "string \<Rightarrow> (wire_error, 'm \<times> string) result"
    and fits :: "'m \<Rightarrow> bool"
  assumes write_fits: "fits m \<Longrightarrow> \<exists>b. wr m = Inr b"
    and read_back: "fits m \<Longrightarrow> wr m = Inr b \<Longrightarrow> rd (b @ rest) = Inr (m, rest)"
begin

lemma write_many_fits: "\<forall>m\<in>set ms. fits m \<Longrightarrow> \<exists>b. write_many wr ms = Inr b"
  by (induction ms) (use write_fits in fastforce)+

lemma read_many_back:
  "\<forall>m\<in>set ms. fits m \<Longrightarrow> write_many wr ms = Inr b \<Longrightarrow> read_many rd (length ms) (b @ rest) = Inr (ms, rest)"
  by (induction ms arbitrary: b) (auto simp: read_back)

end

section \<open>Datagram frames\<close>

definition byte_hi :: "16 word \<Rightarrow> char" where
  "byte_hi w = char_of (unat (drop_bit 8 w))"

definition byte_lo :: "16 word \<Rightarrow> char" where
  "byte_lo w = char_of (unat (take_bit 8 w))"

text \<open>\<open>PutUint16\<close> and \<open>Uint16\<close> of \<open>binary.BigEndian\<close>.\<close>

definition PutUint16 :: "16 word \<Rightarrow> string" where
  "PutUint16 w = [byte_hi w, byte_lo w]"

definition Uint16 :: "char \<Rightarrow> char \<Rightarrow> 16 word" where
  "Uint16 a b = or (push_bit 8 (of_nat (of_char a))) (of_nat (of_char b))"

definition WriteFrame :: "string \<Rightarrow> (wire_error, string) result" where
  "WriteFrame payload =
     (if length payload > MaxDatagram then Inl (TooLarge (length payload))
      else Inr (PutUint16 (of_nat (length payload)) @ payload))"

text \<open>\<open>io.ReadFull\<close> takes exactly \<open>n\<close> bytes or fails.\<close>

definition read_full :: "nat \<Rightarrow> string \<Rightarrow> (wire_error, string \<times> string) result" where
  "read_full n s = (if length s < n then Inl UnexpectedEOF else Inr (take n s, drop n s))"

definition ReadFrame :: "nat \<Rightarrow> string \<Rightarrow> (wire_error, string \<times> string) result" where
  "ReadFrame buflen s =
     rbind (read_full 2 s) (\<lambda>(hdr, s1).
       let n = unat (Uint16 (hdr ! 0) (hdr ! 1)) in
       if n > buflen then Inl (FrameExceedsBuffer n)
       else read_full n s1)"

lemma Uint16_bytes: "Uint16 (byte_hi w) (byte_lo w) = w"
proof -
  have hi: "unat (drop_bit 8 w) < 256"
  proof -
    have "unat w < 65536" using unsigned_less[of w, where ?'a = nat] by simp
    moreover have "unat (drop_bit 8 w) = unat w div 256"
      unfolding unat_drop_bit_eq by (simp only: drop_bit_eq_div) simp
    ultimately show ?thesis by (simp only: less_mult_imp_div_less)
  qed
  have "unat (take_bit 8 w) = unat w mod 256"
    by (simp only: unsigned_take_bit_eq) (simp only: take_bit_eq_mod, simp)
  then have lo: "unat (take_bit 8 w) < 256" by simp
  have "(of_nat (of_char (byte_hi w)) :: 16 word) = drop_bit 8 w"
    using hi by (simp add: byte_hi_def)
  moreover have "(of_nat (of_char (byte_lo w)) :: 16 word) = take_bit 8 w"
    using lo by (simp add: byte_lo_def)
  ultimately show ?thesis
    unfolding Uint16_def by (simp add: bit_eq_iff bit_simps) auto
qed

lemma unat_of_length: "length p \<le> MaxDatagram \<Longrightarrow> unat (of_nat (length p) :: 16 word) = length p"
  by (simp add: MaxDatagram_def unsigned_of_nat take_bit_nat_eq_self)

lemma ReadFrame_WriteFrame:
  assumes "length p \<le> MaxDatagram" and "length p \<le> n"
  shows "ReadFrame n (PutUint16 (of_nat (length p)) @ p @ rest) = Inr (p, rest)"
  using assms by (simp add: ReadFrame_def read_full_def PutUint16_def Uint16_bytes unat_of_length Let_def)

interpretation frames: framing WriteFrame "ReadFrame MaxDatagram" "\<lambda>p. length p \<le> MaxDatagram"
  by unfold_locales (auto simp: WriteFrame_def ReadFrame_WriteFrame)

section \<open>Control lines\<close>

text \<open>
  \<open>ReadSlice('\n')\<close> on a reader with a buffer of \<open>maxLine\<close> bytes (\<open>NewReader\<close>) returns the
  bytes up to and including the first newline; when the buffer fills up first it fails.
  \<open>json.Unmarshal\<close> accepts the trailing newline, so the parameter is given the line without it.
\<close>

definition newline :: char where "newline = CHR 0x0A"

definition WriteJSONLine :: "('v \<Rightarrow> string option) \<Rightarrow> 'v \<Rightarrow> (wire_error, string) result" where
  "WriteJSONLine marshal v =
     (case marshal v of None \<Rightarrow> Inl BadJSON | Some b \<Rightarrow> Inr (b @ [newline]))"

definition read_slice :: "nat \<Rightarrow> string \<Rightarrow> (wire_error, string \<times> string) result" where
  "read_slice cap s =
     (let l = takeWhile (\<lambda>c. c \<noteq> newline) s in
      if length l < length s \<and> length l < cap then Inr (l, drop (length l + 1) s)
      else if length s \<ge> cap then Inl LineTooLong
      else Inl UnexpectedEOF)"

definition ReadJSONLine :: "(string \<Rightarrow> 'v option) \<Rightarrow> string \<Rightarrow> (wire_error, 'v \<times> string) result" where
  "ReadJSONLine unmarshal s =
     rbind (read_slice maxLine s) (\<lambda>(line, rest).
       case unmarshal line of None \<Rightarrow> Inl BadJSON | Some v \<Rightarrow> Inr (v, rest))"

lemma read_slice_line:
  assumes "newline \<notin> set b" and "length b < cap"
  shows "read_slice cap (b @ newline # rest) = Inr (b, rest)"
proof -
  have "takeWhile (\<lambda>c. c \<noteq> newline) (b @ newline # rest) = b"
    using assms(1) by (induction b) auto
  with assms(2) show ?thesis by (simp add: read_slice_def Let_def)
qed

lemma read_slice_long:
  assumes "newline \<notin> set b" and "cap \<le> length b"
  shows "read_slice cap (b @ newline # rest) = Inl LineTooLong"
proof -
  have "takeWhile (\<lambda>c. c \<noteq> newline) (b @ newline # rest) = b"
    using assms(1) by (induction b) auto
  with assms(2) show ?thesis by (simp add: read_slice_def Let_def)
qed

text \<open>
  What the lines rely on in \<open>encoding/json\<close>: an encoded value contains no raw newline (it
  is escaped in strings, and \<open>Marshal\<close> does not indent) and decodes to itself.
\<close>

definition json_codec :: "('v \<Rightarrow> string option) \<Rightarrow> (string \<Rightarrow> 'v option) \<Rightarrow> bool" where
  "json_codec marshal unmarshal \<longleftrightarrow>
     (\<forall>v b. marshal v = Some b \<longrightarrow> newline \<notin> set b \<and> unmarshal b = Some v)"

lemma json_framing:
  "json_codec marshal unmarshal \<Longrightarrow>
     framing (WriteJSONLine marshal) (ReadJSONLine unmarshal) (\<lambda>v. \<exists>b. marshal v = Some b \<and> length b < maxLine)"
  by unfold_locales (auto simp: json_codec_def WriteJSONLine_def ReadJSONLine_def read_slice_line)

section \<open>Properties of the wire format\<close>

text \<open>
  C37: datagrams of at most 65535 bytes written one after the other are read back in order and
  unchanged from the concatenated stream, whatever follows them.
\<close>

theorem datagram_stream_roundtrip:
  assumes "\<forall>p\<in>set ps. length p \<le> MaxDatagram"
  shows "\<exists>b. write_many WriteFrame ps = Inr b
    \<and> read_many (ReadFrame MaxDatagram) (length ps) (b @ rest) = Inr (ps, rest)"
  using frames.write_many_fits[OF assms] frames.read_many_back[OF assms] by blast

lemma datagram_stream_roundtrip_witness:
  "\<exists>b. write_many WriteFrame [''ping'', [], replicate 300 (CHR ''x'')] = Inr b
    \<and> read_many (ReadFrame MaxDatagram) (Suc (Suc (Suc 0))) (b @ ''tail'') = Inr ([''ping'', [], replicate 300 (CHR ''x'')], ''tail'')"
  using datagram_stream_roundtrip[of "[''ping'', [], replicate 300 (CHR ''x'')]" "''tail''"]
  by (simp add: MaxDatagram_def)

text \<open>
  Control lines written one after the other are read back in order, as long as every
  encoded message is shorter than 64 KiB.
\<close>

theorem control_lines_roundtrip:
  assumes "json_codec marshal unmarshal"
    and "\<forall>v\<in>set vs. \<exists>b. marshal v = Some b \<and> length b < maxLine"
  shows "\<exists>b. write_many (WriteJSONLine marshal) vs = Inr b
    \<and> read_many (ReadJSONLine unmarshal) (length vs) (b @ rest) = Inr (vs, rest)"
proof -
  note F = json_framing[OF assms(1)]
  from framing.write_many_fits[OF F assms(2)] framing.read_many_back[OF F assms(2)] show ?thesis by blast
qed

definition json_bool :: "bool \<Rightarrow> string option" where
  "json_bool b = Some (if b then ''true'' else ''false'')"

definition json_bool_parse :: "string \<Rightarrow> bool option" where
  "json_bool_parse s = (if s = ''true'' then Some True else if s = ''false'' then Some False else None)"

lemma json_bool_codec: "json_codec json_bool json_bool_parse"
  by (simp add: json_codec_def json_bool_def json_bool_parse_def newline_def)

lemma control_lines_roundtrip_witness:
  "\<exists>b. write_many (WriteJSONLine json_bool) [True, False] = Inr b
    \<and> read_many (ReadJSONLine json_bool_parse) (length [True, False]) (b @ ''rest'') = Inr ([True, False], ''rest'')"
  by (rule control_lines_roundtrip[OF json_bool_codec]) (simp add: json_bool_def maxLine_def)

text \<open>
  The writer does not enforce the limit: a message whose encoding is 64 KiB or longer is
  written without an error, and the reader at the other end rejects it.
\<close>

theorem long_control_line_unreadable:
  assumes "json_codec marshal unmarshal" and "marshal v = Some b" and "maxLine \<le> length b"
  shows "\<exists>s. WriteJSONLine marshal v = Inr s \<and> ReadJSONLine unmarshal (s @ rest) = Inl LineTooLong"
  using assms by (simp add: WriteJSONLine_def ReadJSONLine_def json_codec_def read_slice_long)

definition json_quote :: "string \<Rightarrow> string option" where
  "json_quote s = (if CHR 0x22 \<in> set s \<or> newline \<in> set s then None else Some (CHR 0x22 # s @ [CHR 0x22]))"

definition json_unquote :: "string \<Rightarrow> string option" where
  "json_unquote s = (if 2 \<le> length s then Some (butlast (tl s)) else None)"

lemma json_quote_codec: "json_codec json_quote json_unquote"
  by (auto simp: json_codec_def json_quote_def json_unquote_def newline_def)

lemma long_control_line_unreadable_witness:
  "\<exists>s. WriteJSONLine json_quote (replicate 65536 (CHR ''h'')) = Inr s
    \<and> ReadJSONLine json_unquote (s @ []) = Inl LineTooLong"
  by (rule long_control_line_unreadable[OF json_quote_codec])
    (auto simp: json_quote_def newline_def maxLine_def)

end
