(* ===== verification/Binaries.thy ===== *)
theory Binaries
  imports Go_Strings
begin

text \<open>
  The client binaries a server offers: the names of \<open>internal/server/api.go\<close>
  (\<open>downloadName\<close>, \<open>binaryPath\<close>) and \<open>internal/server/update.go\<close> (\<open>assetName\<close>), with the
  functions of \<open>path/filepath\<close> the server uses, on slash-separated paths.
\<close>

section \<open>Paths\<close>

text \<open>
  \<open>filepath.Clean\<close>: the elements between slashes are pushed on a stack, \<open>.\<close> and empty
  ones are dropped, \<open>..\<close> pops an element, and stays when there is none in a relative path.
\<close>

fun clean_elems :: "bool \<Rightarrow> string list \<Rightarrow> string list \<Rightarrow> string list" where
  "clean_elems rooted stack [] = rev stack"
| "clean_elems rooted stack (e # es) =
     (if e = [] \<or> e = ''.'' then clean_elems rooted stack es
      else if e = ''..'' then
        (case stack of
           [] \<Rightarrow> clean_elems rooted (if rooted then [] else [e]) es
         | t # rest \<Rightarrow> clean_elems rooted (if t = ''..'' then e # stack else rest) es)
      else clean_elems rooted (e # stack) es)"

definition path_clean :: "string \<Rightarrow> string" where
  "path_clean p =
     (let rooted = has_prefix ''/'' p;
          body = join ''/'' (clean_elems rooted [] (split_on CHR ''/'' p))
      in if rooted then CHR ''/'' # body else if body = [] then ''.'' else body)"

definition path_join :: "string list \<Rightarrow> string" where
  "path_join es =
     (case filter (\<lambda>e. e \<noteq> []) es of
        [] \<Rightarrow> []
      | ne \<Rightarrow> path_clean (join ''/'' ne))"

text \<open>\<open>filepath.Base\<close>: the last element, trailing slashes removed.\<close>

definition path_base :: "string \<Rightarrow> string" where
  "path_base p =
     (if p = [] then ''.''
      else case filter (\<lambda>e. e \<noteq> []) (split_on CHR ''/'' p) of
        [] \<Rightarrow> ''/''
      | es \<Rightarrow> last es)"

section \<open>Names\<close>

definition assetName :: "string \<Rightarrow> string \<Rightarrow> string" where
  "assetName goos goarch =
     (let name = ''spawnrelay_'' @ goos @ CHR ''_'' # goarch in
      if goos = ''windows'' then name @ ''.exe'' else name)"

text \<open>
  The regular expression is a finite set of names: the alternatives of its two groups and the
  optional extension. The submatches are the operating system and the architecture.
\<close>

definition download_oses :: "string list" where
  "download_oses = [''linux'', ''darwin'', ''windows'', ''freebsd'']"

definition download_arches :: "string list" where
  "download_arches = [''amd64'', ''arm64'', ''arm'', ''386'']"

definition downloadName :: "string \<Rightarrow> (string \<times> string) option" where
  "downloadName name =
     map_option (\<lambda>(goos, goarch, ext). (goos, goarch))
       (List.find (\<lambda>(goos, goarch, ext). name = ''spawnrelay_'' @ goos @ ''_'' @ goarch @ ext)
          [(goos, goarch, ext). goos \<leftarrow> download_oses, goarch \<leftarrow> download_arches, ext \<leftarrow> ['''', ''.exe'']])"

text \<open>
  What \<open>binaryPath\<close> reads of its surroundings: the data directory, the files that exist, the
  server's own platform, and the resolved path of its executable.
\<close>

record binary_env =
  be_DataDir :: string
  be_exists :: "string \<Rightarrow> bool"
  be_GOOS :: string
  be_GOARCH :: string
  be_exe :: "string option"

definition binaryPath :: "binary_env \<Rightarrow> string \<Rightarrow> string + string" where
  "binaryPath env name =
     (case downloadName name of
        None \<Rightarrow> Inl ''unknown binary name; expected spawnrelay_<os>_<arch>''
      | Some (goos, goarch) \<Rightarrow>
          (let path = path_join [be_DataDir env, ''bin'', name];
               missing = Inl (''no binary for '' @ goos @ CHR ''/'' # goarch @ '' on this server; place a build at '' @ path)
           in if be_exists env path then Inr path
              else if goos = be_GOOS env \<and> goarch = be_GOARCH env then
                (case be_exe env of Some real \<Rightarrow> Inr real | None \<Rightarrow> missing)
              else missing))"

section \<open>Facts\<close>

lemma downloadName_Some:
  assumes "downloadName name = Some (goos, goarch)"
  shows "goos \<in> set download_oses \<and> goarch \<in> set download_arches
    \<and> (name = ''spawnrelay_'' @ goos @ ''_'' @ goarch \<or> name = ''spawnrelay_'' @ goos @ ''_'' @ goarch @ ''.exe'')"
proof -
  obtain ext where "List.find (\<lambda>(goos, goarch, ext). name = ''spawnrelay_'' @ goos @ ''_'' @ goarch @ ext)
      [(goos, goarch, ext). goos \<leftarrow> download_oses, goarch \<leftarrow> download_arches, ext \<leftarrow> ['''', ''.exe'']]
      = Some (goos, goarch, ext)"
    using assms unfolding downloadName_def by (auto simp del: append.simps append_Cons)
  from find_Some_set[OF this] show ?thesis by auto
qed

lemma downloadName_chars:
  assumes "downloadName name = Some p" and "c \<in> set name"
  shows "c \<noteq> CHR ''/'' \<and> c \<noteq> CHR 0x5C"
proof -
  obtain goos goarch where p: "p = (goos, goarch)" by fastforce
  have "\<forall>w\<in>set download_oses \<union> set download_arches. \<forall>c\<in>set w. c \<noteq> CHR ''/'' \<and> c \<noteq> CHR 0x5C"
    by (simp add: download_oses_def download_arches_def)
  moreover have "\<forall>c\<in>set ''spawnrelay_'' \<union> set ''_'' \<union> set ''.exe''. c \<noteq> CHR ''/'' \<and> c \<noteq> CHR 0x5C" by simp
  ultimately show ?thesis using downloadName_Some[OF assms(1)[unfolded p]] assms(2)
    by (metis Un_iff set_append)
qed

lemma clean_elems_append:
  assumes "e \<noteq> []" and "e \<noteq> ''.''" and "e \<noteq> ''..''"
  shows "clean_elems rooted stack (es @ [e]) = clean_elems rooted stack es @ [e]"
proof (induction es arbitrary: stack)
  case Nil
  with assms show ?case by simp
next
  case (Cons x es)
  then show ?case by (cases stack) simp_all
qed

lemma split_on_not_Nil [simp]: "split_on c s \<noteq> []"
  by (induction c s rule: split_on.induct) (auto split: list.splits)

lemma split_on_append_sep: "split_on c (s @ c # t) = split_on c s @ split_on c t"
proof (induction s)
  case Nil
  then show ?case by simp
next
  case (Cons x s)
  then show ?case by (cases "split_on c s") auto
qed

lemma join_snoc: "es \<noteq> [] \<Longrightarrow> join sep (es @ [e]) = join sep es @ sep @ e"
  by (induction sep es rule: join.induct) auto

lemma path_clean_append:
  assumes "CHR ''/'' \<notin> set e" and "e \<noteq> []" and "e \<noteq> ''.''" and "e \<noteq> ''..''" and "d \<noteq> []"
  shows "path_clean (d @ ''/'' @ e) =
    (let rooted = has_prefix ''/'' d; es = clean_elems rooted [] (split_on CHR ''/'' d)
     in (if rooted then ''/'' else []) @ join ''/'' (es @ [e]))"
proof -
  have r: "has_prefix ''/'' (d @ ''/'' @ e) = has_prefix ''/'' d" using assms(5) by (cases d) (auto simp: has_prefix_def)
  have s: "split_on CHR ''/'' (d @ ''/'' @ e) = split_on CHR ''/'' d @ [e]"
    using assms(1) by (simp add: split_on_append_sep split_on_no_sep)
  have n: "join ''/'' (es @ [e]) \<noteq> []" for es
    using assms(2) by (cases "es = []") (auto simp: join_snoc)
  show ?thesis unfolding path_clean_def r s clean_elems_append[OF assms(2-4)] Let_def using n by simp
qed

text \<open>The path of a downloadable name is directly inside the \<open>bin\<close> directory.\<close>

lemma binary_path_inside:
  assumes "downloadName name = Some p"
  shows "path_join [d, ''bin'', name] = path_join [d, ''bin''] @ ''/'' @ name"
proof -
  obtain goos goarch where p: "p = (goos, goarch)" by fastforce
  have ns: "CHR ''/'' \<notin> set name" using downloadName_chars[OF assms] by blast
  have nm: "name \<noteq> []" "name \<noteq> ''.''" "name \<noteq> ''..''"
    using downloadName_Some[OF assms[unfolded p]] by auto
  show ?thesis
  proof (cases "d = []")
    case True
    have "clean_elems False [] (split_on CHR ''/'' ''bin'') = [''bin'']" by code_simp
    then have "path_clean (''bin'' @ ''/'' @ name) = ''bin'' @ ''/'' @ name"
      using path_clean_append[OF ns nm, of "''bin''"] by (simp add: has_prefix_def Let_def)
    moreover have "path_clean ''bin'' = ''bin''" by code_simp
    ultimately show ?thesis using True nm(1) by (simp add: path_join_def)
  next
    case False
    have b: "CHR ''/'' \<notin> set ''bin''" "''bin'' \<noteq> []" "''bin'' \<noteq> ''.''" "''bin'' \<noteq> ''..''" by simp_all
    let ?r = "has_prefix ''/'' d" and ?es = "clean_elems (has_prefix ''/'' d) [] (split_on CHR ''/'' d)"
    have r: "has_prefix ''/'' (d @ ''/'' @ ''bin'') = ?r" using False by (cases d) (auto simp: has_prefix_def)
    have e: "clean_elems ?r [] (split_on CHR ''/'' (d @ ''/'' @ ''bin'')) = ?es @ [''bin'']"
      using clean_elems_append[OF b(2-4)] by (simp add: split_on_append_sep)
    have 1: "path_clean (d @ ''/'' @ ''bin'') = (if ?r then ''/'' else []) @ join ''/'' (?es @ [''bin''])"
      using path_clean_append[OF b False] by (simp add: Let_def)
    have 2: "path_clean ((d @ ''/'' @ ''bin'') @ ''/'' @ name) =
        (if ?r then ''/'' else []) @ join ''/'' ((?es @ [''bin'']) @ [name])"
      using path_clean_append[OF ns nm, of "d @ ''/'' @ ''bin''"] by (simp only: Let_def r e) simp
    from 1 2 show ?thesis using False nm(1) join_snoc[of "?es @ [''bin'']" "''/''" name] by (simp add: path_join_def)
  qed
qed

end
