(* ===== verification/Sessions.thy ===== *)
theory Sessions
  imports Listeners Protocol Binaries
begin

text \<open>
  The sessions of \<open>internal/server/tunnel.go\<close> and the client updates of
  \<open>internal/server/update.go\<close>: who is connected, what is sent to them, and the update record
  kept for every client. A session is a pointer: its identity is its index in \<open>tn_objs\<close>, the
  list of all sessions ever created, and \<open>tn_sessions\<close> maps a client id to the current one.
  Messages a goroutine sends (\<open>go s.sendControl\<close>) are sent at once.
\<close>

section \<open>State\<close>

record session =
  se_ClientID :: string
  se_Remote :: string
  se_ConnectedAt :: time
  se_Hello :: hello
  se_sent :: "control_message list"
  se_open :: bool

definition updatePending :: string where [update_state_defs]: "updatePending = ''pending''"
definition updateDone :: string where [update_state_defs]: "updateDone = ''done''"
definition updateFailed :: string where [update_state_defs]: "updateFailed = ''failed''"

definition second :: time where "second = 1000000000"
definition updateTimeout :: time where "updateTimeout = 3 * 60 * second"
definition autoRetryAfter :: time where "autoRetryAfter = 60 * 60 * second"
definition updateKeepDone :: time where "updateKeepDone = 24 * 60 * 60 * second"
definition devVersion :: string where "devVersion = ''dev''"

record client_update =
  cu_State :: string
  cu_TargetVersion :: string
  cu_Detail :: string
  cu_RequestedAt :: time
  cu_UpdatedAt :: time
  cu_Automatic :: bool

record binary_info =
  bi_path :: string
  bi_size :: int
  bi_modTime :: time
  bi_sha256 :: string

record tunnel =
  tn_version :: string
  tn_objs :: "session list"
  tn_sessions :: "(string \<times> nat) list"
  tn_updates :: "(string \<times> client_update) list"
  tn_binaries :: "(string \<times> binary_info) list"
  tn_listeners :: listeners

text \<open>
  What the tunnel is given by its surroundings: the clock, the resolver of client binaries
  (\<open>t.binary\<close>, which may be unset), the files (size, modification time and content), SHA-256,
  and the \<open>autoUpdate\<close> hook.
\<close>

record tunnel_env =
  te_now :: time
  te_binary :: "(string \<Rightarrow> (string, string) result) option"
  te_stat :: "string \<Rightarrow> (int \<times> time) option"
  te_read :: "string \<Rightarrow> string option"
  te_sha :: "string \<Rightarrow> string"
  te_auto :: "bool option"

section \<open>Sessions\<close>

definition session_id :: "tunnel \<Rightarrow> string \<Rightarrow> nat option" where
  "session_id t i = map_of (tn_sessions t) i"

definition session_of :: "tunnel \<Rightarrow> string \<Rightarrow> session option" where
  "session_of t i = map_option (\<lambda>sid. tn_objs t ! sid) (session_id t i)"

definition upd_obj :: "nat \<Rightarrow> (session \<Rightarrow> session) \<Rightarrow> tunnel \<Rightarrow> tunnel" where
  "upd_obj sid f t = t\<lparr>tn_objs := (tn_objs t)[sid := f (tn_objs t ! sid)]\<rparr>"

definition plain_message :: "string \<Rightarrow> string \<Rightarrow> control_message" where
  "plain_message ty m = \<lparr>cm_Type = ty, cm_Message = m, cm_Forwards = [], cm_Update = None, cm_Status = []\<rparr>"

text \<open>Write errors are ignored: nothing reaches a client whose session is closed.\<close>

definition sendControl :: "nat \<Rightarrow> control_message \<Rightarrow> tunnel \<Rightarrow> tunnel" where
  "sendControl sid msg = upd_obj sid (\<lambda>s. if se_open s then s\<lparr>se_sent := se_sent s @ [msg]\<rparr> else s)"

definition closeSession :: "nat \<Rightarrow> tunnel \<Rightarrow> tunnel" where
  "closeSession sid = upd_obj sid (\<lambda>s. s\<lparr>se_open := False\<rparr>)"

record client_status =
  cs_Online :: bool
  cs_ConnectedAt :: "time option"
  cs_RemoteAddr :: string

definition offline_status :: client_status where
  "offline_status = \<lparr>cs_Online = False, cs_ConnectedAt = None, cs_RemoteAddr = []\<rparr>"

definition ClientStatus :: "tunnel \<Rightarrow> string \<Rightarrow> client_status" where
  "ClientStatus t i =
     (case session_of t i of
        None \<Rightarrow> offline_status
      | Some s \<Rightarrow> \<lparr>cs_Online = True, cs_ConnectedAt = Some (se_ConnectedAt s), cs_RemoteAddr = se_Remote s\<rparr>)"

definition DisconnectClient :: "string \<Rightarrow> string \<Rightarrow> tunnel \<Rightarrow> tunnel" where
  "DisconnectClient i reason t =
     (let t1 = t\<lparr>tn_sessions := AList.delete i (tn_sessions t)\<rparr> in
      case session_id t i of
        None \<Rightarrow> t1
      | Some sid \<Rightarrow> closeSession sid (sendControl sid (plain_message ''shutdown'' reason) t1))"

definition forward_infos :: "state \<Rightarrow> string \<Rightarrow> forward_info list" where
  "forward_infos st i =
     map (\<lambda>f. \<lparr>fi_Name = f_Name f, fi_Protocol = f_Protocol f, fi_PublicPort = f_PublicPort f, fi_Target = Target f\<rparr>)
       (filter f_Enabled (ForwardsForClient st i))"

definition NotifyForwards :: "state \<Rightarrow> string \<Rightarrow> tunnel \<Rightarrow> tunnel" where
  "NotifyForwards st i t =
     (case session_id t i of
        None \<Rightarrow> t
      | Some sid \<Rightarrow>
          sendControl sid ((plain_message ''forwards'' [])\<lparr>cm_Forwards := forward_infos st i\<rparr>) t)"

text \<open>\<open>dropSession\<close> only unregisters the session when it is still the client's current one.\<close>

definition seen_now :: "string \<Rightarrow> time \<Rightarrow> state \<Rightarrow> state" where
  "seen_now i now st =
     st\<lparr>st_Clients := update_first (\<lambda>c. c_ID c = i) (\<lambda>c. c\<lparr>c_LastSeenAt := Some now\<rparr>) (st_Clients st)\<rparr>"

definition dropSession :: "bool \<Rightarrow> time \<Rightarrow> nat \<Rightarrow> tunnel \<Rightarrow> store \<Rightarrow> tunnel \<times> store" where
  "dropSession saved now sid t sto =
     (let i = se_ClientID (tn_objs t ! sid);
          t1 = (if session_id t i = Some sid then t\<lparr>tn_sessions := AList.delete i (tn_sessions t)\<rparr> else t)
      in (closeSession sid t1,
          snd (Update saved (\<lambda>st. (Inr (), seen_now i now st)) sto)))"

text \<open>The session part of \<open>Shutdown\<close>; the runners are \<open>Shutdown_runners\<close>.\<close>

definition Shutdown_sessions :: "tunnel \<Rightarrow> tunnel" where
  "Shutdown_sessions t =
     foldl (\<lambda>t (i, sid). let t1 = closeSession sid (sendControl sid (plain_message ''shutdown'' ''server shutting down'') t)
                         in t1\<lparr>tn_sessions := AList.delete i (tn_sessions t1)\<rparr>) t (tn_sessions t)"

definition Shutdown :: "tunnel \<Rightarrow> tunnel" where
  "Shutdown t = (let t1 = Shutdown_sessions t in t1\<lparr>tn_listeners := Shutdown_runners (tn_listeners t1)\<rparr>)"

section \<open>Client binaries\<close>

datatype update_reason = Offline | AlreadyOn string | UpdatesDisabled | NoBinaries
  | NoBinaryFor string string string | InProgress | Unreadable string

text \<open>\<open>info\<close> rehashes the file when its path, size or modification time changed.\<close>

definition binary_info_of ::
  "tunnel_env \<Rightarrow> string \<Rightarrow> string \<Rightarrow> (string \<times> binary_info) list
    \<Rightarrow> (update_reason, binary_info) result \<times> (string \<times> binary_info) list" where
  "binary_info_of env name path cache =
     (case te_stat env path of
        None \<Rightarrow> (Inl (Unreadable name), cache)
      | Some (sz, mt) \<Rightarrow>
          (case (case map_of cache name of
                   Some c \<Rightarrow> if bi_path c = path \<and> bi_size c = sz \<and> bi_modTime c = mt then Some c else None
                 | None \<Rightarrow> None) of
             Some c \<Rightarrow> (Inr c, cache)
           | None \<Rightarrow>
               (case te_read env path of
                  None \<Rightarrow> (Inl (Unreadable name), cache)
                | Some content \<Rightarrow>
                    (let c = \<lparr>bi_path = path, bi_size = sz, bi_modTime = mt, bi_sha256 = hex_encode (te_sha env content)\<rparr>
                     in (Inr c, AList.update name c cache)))))"

section \<open>Client updates\<close>

text \<open>\<open>UpdateStatus\<close> expires a stale record as it reads it.\<close>

definition UpdateStatus :: "tunnel_env \<Rightarrow> string \<Rightarrow> tunnel \<Rightarrow> client_update option \<times> tunnel" where
  "UpdateStatus env i t =
     (case map_of (tn_updates t) i of
        None \<Rightarrow> (None, t)
      | Some u \<Rightarrow>
          if cu_State u = updatePending then
            (if te_now env - cu_UpdatedAt u > updateTimeout then
               (let u1 = u\<lparr>cu_State := updateFailed, cu_Detail := ''no response from the client within 3m0s'',
                           cu_UpdatedAt := te_now env\<rparr>
                in (Some u1, t\<lparr>tn_updates := AList.update i u1 (tn_updates t)\<rparr>))
             else (Some u, t))
          else if cu_State u = updateDone \<and> te_now env - cu_UpdatedAt u > updateKeepDone then
            (None, t\<lparr>tn_updates := AList.delete i (tn_updates t)\<rparr>)
          else (Some u, t))"

text \<open>The result is \<open>None\<close> when an update can be pushed, else the reason why not.\<close>

definition UpdateAvailability :: "tunnel_env \<Rightarrow> string \<Rightarrow> tunnel \<Rightarrow> update_reason option \<times> tunnel" where
  "UpdateAvailability env i t =
     (case session_of t i of
        None \<Rightarrow> (Some Offline, t)
      | Some s \<Rightarrow>
          let h = se_Hello s; name = assetName (h_OS h) (h_Arch h) in
          if h_ClientVersion h = tn_version t then (Some (AlreadyOn (tn_version t)), t)
          else if \<not> h_AllowUpdate h then (Some UpdatesDisabled, t)
          else case te_binary env of
            None \<Rightarrow> (Some NoBinaries, t)
          | Some resolve \<Rightarrow>
              (case resolve name of
                 Inl _ \<Rightarrow> (Some (NoBinaryFor (h_OS h) (h_Arch h) name), t)
               | Inr _ \<Rightarrow>
                   (case UpdateStatus env i t of
                      (Some u, t1) \<Rightarrow> (if cu_State u = updatePending then Some InProgress else None, t1)
                    | (None, t1) \<Rightarrow> (None, t1))))"

definition PushUpdate :: "tunnel_env \<Rightarrow> string \<Rightarrow> bool \<Rightarrow> tunnel \<Rightarrow> (update_reason, unit) result \<times> tunnel" where
  "PushUpdate env i automatic t0 =
     (case UpdateAvailability env i t0 of
        (Some reason, t) \<Rightarrow> (Inl reason, t)
      | (None, t) \<Rightarrow>
          (case (session_id t i, session_of t i, te_binary env) of
             (Some sid, Some s, Some resolve) \<Rightarrow>
               (let name = assetName (h_OS (se_Hello s)) (h_Arch (se_Hello s)) in
                case resolve name of
                  Inl e \<Rightarrow> (Inl (Unreadable name), t)
                | Inr path \<Rightarrow>
                    (case binary_info_of env name path (tn_binaries t) of
                       (Inl e, cache) \<Rightarrow> (Inl e, t\<lparr>tn_binaries := cache\<rparr>)
                     | (Inr info, cache) \<Rightarrow>
                         (let u = \<lparr>cu_State = updatePending, cu_TargetVersion = tn_version t, cu_Detail = ''update requested'',
                                   cu_RequestedAt = te_now env, cu_UpdatedAt = te_now env, cu_Automatic = automatic\<rparr>;
                              t1 = t\<lparr>tn_binaries := cache, tn_updates := AList.update i u (tn_updates t)\<rparr>;
                              ui = \<lparr>ui_Version = tn_version t, ui_Name = name, ui_Size = bi_size info, ui_SHA256 = bi_sha256 info\<rparr>
                          in (Inr (), sendControl sid ((plain_message ''update'' [])\<lparr>cm_Update := Some ui\<rparr>) t1))))
           | _ \<Rightarrow> (Inl Offline, t)))"

definition handleClientMessage :: "time \<Rightarrow> nat \<Rightarrow> control_message \<Rightarrow> tunnel \<Rightarrow> tunnel" where
  "handleClientMessage now sid msg t =
     (if cm_Type msg = ''update_status'' then
        (let i = se_ClientID (tn_objs t ! sid) in
         case map_of (tn_updates t) i of
           None \<Rightarrow> t
         | Some u \<Rightarrow>
             if cu_State u = updatePending then
               (let u1 = u\<lparr>cu_UpdatedAt := now, cu_Detail := cm_Message msg\<rparr>;
                    u2 = (if cm_Status msg = ''failed'' then u1\<lparr>cu_State := updateFailed\<rparr> else u1)
                in t\<lparr>tn_updates := AList.update i u2 (tn_updates t)\<rparr>)
             else t)
      else t)"

definition settle_pending :: "time \<Rightarrow> nat \<Rightarrow> tunnel \<Rightarrow> tunnel" where
  "settle_pending now sid t =
     (let s = tn_objs t ! sid; i = se_ClientID s; v = h_ClientVersion (se_Hello s) in
      case map_of (tn_updates t) i of
        None \<Rightarrow> t
      | Some u \<Rightarrow>
          if cu_State u = updatePending then
            (let u1 = u\<lparr>cu_UpdatedAt := now\<rparr>;
                 u2 = (if v = cu_TargetVersion u then u1\<lparr>cu_State := updateDone, cu_Detail := ''updated to '' @ v\<rparr>
                       else u1\<lparr>cu_State := updateFailed, cu_Detail := ''client reconnected still running '' @ v\<rparr>)
             in t\<lparr>tn_updates := AList.update i u2 (tn_updates t)\<rparr>)
          else t)"

definition noteReconnect :: "tunnel_env \<Rightarrow> nat \<Rightarrow> tunnel \<Rightarrow> tunnel" where
  "noteReconnect env sid t0 =
     (let now = te_now env; t = settle_pending now sid t0; i = se_ClientID (tn_objs t ! sid) in
      if te_auto env \<noteq> Some True \<or> tn_version t = devVersion then t
      else case UpdateStatus env i t of
        (u, t1) \<Rightarrow>
          if (case u of Some x \<Rightarrow> cu_State x = updateFailed \<and> now - cu_UpdatedAt x < autoRetryAfter | None \<Rightarrow> False)
          then t1
          else case UpdateAvailability env i t1 of
            (Some _, t2) \<Rightarrow> t2
          | (None, t2) \<Rightarrow> snd (PushUpdate env i True t2))"

section \<open>Connecting\<close>

text \<open>
  \<open>handleConn\<close> once the hello line has been read: the checks, the registration and the answer.
  \<open>answered\<close> is whether the answer could be written. The result is the session's index, or the
  message of the rejection; a rejected connection changes nothing.
\<close>

definition hello_seen :: "time \<Rightarrow> string \<Rightarrow> hello \<Rightarrow> state \<Rightarrow> (error, client) result \<times> state" where
  "hello_seen now remote h st =
     (case ClientByToken st (h_Token h) of
        None \<Rightarrow> (Inl (ErrNotFound, ClientNotFound), st)
      | Some c \<Rightarrow>
          (Inr c, st\<lparr>st_Clients := update_first (\<lambda>c. c_Token c = h_Token h)
             (\<lambda>c. c\<lparr>c_LastSeenAt := Some now, c_LastAddr := remote, c_Hostname := h_Hostname h, c_OS := h_OS h,
                    c_Arch := h_Arch h, c_ClientVersion := h_ClientVersion h\<rparr>) (st_Clients st)\<rparr>))"

datatype reject = UnsupportedVersion int | InvalidToken | AnswerFailed

definition register :: "string \<Rightarrow> string \<Rightarrow> time \<Rightarrow> hello \<Rightarrow> tunnel \<Rightarrow> nat \<times> tunnel" where
  "register i remote now h t =
     (let sid = length (tn_objs t);
          s = \<lparr>se_ClientID = i, se_Remote = remote, se_ConnectedAt = now, se_Hello = h, se_sent = [], se_open = True\<rparr>;
          t1 = (case session_id t i of
                  None \<Rightarrow> t
                | Some old \<Rightarrow>
                    closeSession old (sendControl old (plain_message ''shutdown'' ''replaced by a new connection'') t))
      in (sid, t1\<lparr>tn_objs := tn_objs t1 @ [s], tn_sessions := AList.update i sid (tn_sessions t1)\<rparr>))"

definition handleConn ::
  "bool \<Rightarrow> bool \<Rightarrow> bool \<Rightarrow> tunnel_env \<Rightarrow> string \<Rightarrow> hello \<Rightarrow> tunnel \<Rightarrow> store \<Rightarrow> (reject, nat) result \<times> tunnel \<times> store" where
  "handleConn saved answered saved2 env remote h t sto =
     (if h_Version h \<noteq> Version then (Inl (UnsupportedVersion (h_Version h)), t, sto)
      else case Update saved (hello_seen (te_now env) remote h) sto of
        (Inl _, sto1) \<Rightarrow> (Inl InvalidToken, t, sto1)
      | (Inr c, sto1) \<Rightarrow>
          (case register (c_ID c) remote (te_now env) h t of
             (sid, t1) \<Rightarrow>
               if \<not> answered then
                 (case dropSession saved2 (te_now env) sid t1 sto1 of (t2, sto2) \<Rightarrow> (Inl AnswerFailed, t2, sto2))
               else
                 (Inr sid, noteReconnect env sid (NotifyForwards (sto_mem sto1) (c_ID c) t1), sto1)))"

section \<open>Downloads over the tunnel\<close>

text \<open>
  \<open>handleClientStream\<close> on a request that has been read. The reply is the refusal, or the
  announced size and hash with the bytes \<open>io.LimitReader\<close> lets through.
\<close>

datatype refusal = UnknownRequest string | InvalidBinaryName | NotAvailable | NoBinary string | NotReadable

datatype download = Refused refusal | Served int string string

definition handleClientStream :: "tunnel_env \<Rightarrow> client_request \<Rightarrow> tunnel \<Rightarrow> download \<times> tunnel" where
  "handleClientStream env req t =
     (if cr_Type req \<noteq> ''download'' then (Refused (UnknownRequest (cr_Type req)), t)
      else if downloadName (cr_Name req) = None then (Refused InvalidBinaryName, t)
      else case te_binary env of
        None \<Rightarrow> (Refused NotAvailable, t)
      | Some resolve \<Rightarrow>
          (case resolve (cr_Name req) of
             Inl e \<Rightarrow> (Refused (NoBinary e), t)
           | Inr path \<Rightarrow>
               (case binary_info_of env (cr_Name req) path (tn_binaries t) of
                  (Inl e, cache) \<Rightarrow> (Refused NotReadable, t\<lparr>tn_binaries := cache\<rparr>)
                | (Inr info, cache) \<Rightarrow>
                    (case te_read env path of
                       None \<Rightarrow> (Refused NotReadable, t\<lparr>tn_binaries := cache\<rparr>)
                     | Some content \<Rightarrow>
                         (Served (bi_size info) (bi_sha256 info) (take (nat (bi_size info)) content),
                          t\<lparr>tn_binaries := cache\<rparr>)))))"

section \<open>The session table\<close>

lemma upd_obj_fields [simp]:
  "tn_sessions (upd_obj sid f t) = tn_sessions t" "tn_updates (upd_obj sid f t) = tn_updates t"
  "tn_version (upd_obj sid f t) = tn_version t" "tn_listeners (upd_obj sid f t) = tn_listeners t"
  "tn_binaries (upd_obj sid f t) = tn_binaries t"
  "length (tn_objs (upd_obj sid f t)) = length (tn_objs t)"
  by (simp_all add: upd_obj_def)

lemma upd_obj_nth:
  "k < length (tn_objs t) \<Longrightarrow> tn_objs (upd_obj sid f t) ! k = (if k = sid then f (tn_objs t ! sid) else tn_objs t ! k)"
  by (simp add: upd_obj_def nth_list_update)

lemma sendControl_fields [simp]:
  "tn_sessions (sendControl sid m t) = tn_sessions t" "tn_updates (sendControl sid m t) = tn_updates t"
  "tn_version (sendControl sid m t) = tn_version t" "tn_listeners (sendControl sid m t) = tn_listeners t"
  "tn_binaries (sendControl sid m t) = tn_binaries t"
  "length (tn_objs (sendControl sid m t)) = length (tn_objs t)"
  by (simp_all add: sendControl_def)

lemma closeSession_fields [simp]:
  "tn_sessions (closeSession sid t) = tn_sessions t" "tn_updates (closeSession sid t) = tn_updates t"
  "tn_version (closeSession sid t) = tn_version t" "tn_listeners (closeSession sid t) = tn_listeners t"
  "tn_binaries (closeSession sid t) = tn_binaries t"
  "length (tn_objs (closeSession sid t)) = length (tn_objs t)"
  by (simp_all add: closeSession_def)

text \<open>
  What an operation may do to a session object, seen from outside: \<open>face\<close> is the client it
  belongs to, its greeting, and whether it is open.
\<close>

definition face :: "session \<Rightarrow> string \<times> hello \<times> bool" where
  "face s = (se_ClientID s, se_Hello s, se_open s)"

definition faces :: "tunnel \<Rightarrow> (string \<times> hello \<times> bool) list" where
  "faces t = map face (tn_objs t)"

lemma length_faces [simp]: "length (faces t) = length (tn_objs t)"
  by (simp add: faces_def)

lemma face_simps [simp]: "fst (face s) = se_ClientID s" "fst (snd (face s)) = se_Hello s" "snd (snd (face s)) = se_open s"
  by (simp_all add: face_def)

lemma faces_nth: "k < length (tn_objs t) \<Longrightarrow> faces t ! k = face (tn_objs t ! k)"
  by (simp add: faces_def)

lemma faces_sendControl [simp]: "faces (sendControl sid m t) = faces t"
  by (rule nth_equalityI)
    (simp_all add: faces_def sendControl_def upd_obj_nth, simp add: face_def)

lemma faces_closeSession:
  "faces (closeSession sid t) = (faces t)[sid := (fst (faces t ! sid), fst (snd (faces t ! sid)), False)]"
proof (cases "sid < length (tn_objs t)")
  case True
  then show ?thesis
    by (intro nth_equalityI) (auto simp: faces_def closeSession_def upd_obj_nth nth_list_update face_def)
next
  case False
  then show ?thesis by (simp add: faces_def closeSession_def upd_obj_def list_update_beyond)
qed

lemma faces_update [simp]:
  "faces (t\<lparr>tn_sessions := x\<rparr>) = faces t" "faces (t\<lparr>tn_updates := y\<rparr>) = faces t"
  "faces (t\<lparr>tn_binaries := z\<rparr>) = faces t" "faces (t\<lparr>tn_listeners := w\<rparr>) = faces t"
  by (simp_all add: faces_def)

text \<open>Every registered session is its client's and open, and every open session is registered.\<close>

definition table_ok :: "(string \<times> nat) list \<Rightarrow> (string \<times> hello \<times> bool) list \<Rightarrow> bool" where
  "table_ok tbl fs \<longleftrightarrow>
     (\<forall>i sid. map_of tbl i = Some sid \<longrightarrow> sid < length fs \<and> fst (fs ! sid) = i \<and> snd (snd (fs ! sid)))
     \<and> (\<forall>sid<length fs. snd (snd (fs ! sid)) \<longrightarrow> map_of tbl (fst (fs ! sid)) = Some sid)"

definition sessions_ok :: "tunnel \<Rightarrow> bool" where
  "sessions_ok t = table_ok (tn_sessions t) (faces t)"

lemma table_okD:
  assumes "table_ok tbl fs"
  shows "map_of tbl i = Some sid \<Longrightarrow> sid < length fs \<and> fst (fs ! sid) = i \<and> snd (snd (fs ! sid))"
    and "sid < length fs \<Longrightarrow> snd (snd (fs ! sid)) \<Longrightarrow> map_of tbl (fst (fs ! sid)) = Some sid"
  using assms unfolding table_ok_def by blast+

lemma table_ok_close:
  assumes "table_ok tbl fs" and "sid < length fs" and "fst (fs ! sid) = i"
  shows "table_ok (if map_of tbl i = Some sid then AList.delete i tbl else tbl)
    (fs[sid := (fst (fs ! sid), fst (snd (fs ! sid)), False)])"
proof -
  let ?tbl = "if map_of tbl i = Some sid then AList.delete i tbl else tbl"
  let ?fs = "fs[sid := (fst (fs ! sid), fst (snd (fs ! sid)), False)]"
  have m: "map_of ?tbl j = (if map_of tbl i = Some sid \<and> j = i then None else map_of tbl j)" for j
    by (simp add: delete_conv')
  have "sid' < length ?fs \<and> fst (?fs ! sid') = j \<and> snd (snd (?fs ! sid'))" if j: "map_of ?tbl j = Some sid'" for j sid'
  proof -
    have t: "map_of tbl j = Some sid'" "\<not> (map_of tbl i = Some sid \<and> j = i)" using j m by (auto split: if_splits)
    have "sid' \<noteq> sid"
    proof
      assume "sid' = sid"
      then have "j = i" using table_okD(1)[OF assms(1) t(1)] assms(3) by simp
      with t \<open>sid' = sid\<close> show False by simp
    qed
    with table_okD(1)[OF assms(1) t(1)] show ?thesis by simp
  qed
  moreover have "map_of ?tbl (fst (?fs ! k)) = Some k" if "k < length ?fs" "snd (snd (?fs ! k))" for k
  proof -
    have k: "k \<noteq> sid" "k < length fs" using that assms(2) by (auto simp: nth_list_update split: if_splits)
    then have "snd (snd (fs ! k))" using that by simp
    from table_okD(2)[OF assms(1) k(2) this] k m show ?thesis by auto
  qed
  ultimately show ?thesis unfolding table_ok_def by blast
qed

lemma table_ok_append:
  assumes "table_ok tbl fs" and "map_of tbl i = None"
  shows "table_ok (AList.update i (length fs) tbl) (fs @ [(i, h, True)])"
proof -
  have m: "map_of (AList.update i (length fs) tbl) j = (if j = i then Some (length fs) else map_of tbl j)" for j
    by (simp add: update_conv')
  have "sid < length (fs @ [(i, h, True)]) \<and> fst ((fs @ [(i, h, True)]) ! sid) = j \<and> snd (snd ((fs @ [(i, h, True)]) ! sid))"
    if "map_of (AList.update i (length fs) tbl) j = Some sid" for j sid
    using that table_okD(1)[OF assms(1), of j sid] by (auto simp: m nth_append split: if_splits)
  moreover have "map_of (AList.update i (length fs) tbl) (fst ((fs @ [(i, h, True)]) ! k)) = Some k"
    if "k < length (fs @ [(i, h, True)])" "snd (snd ((fs @ [(i, h, True)]) ! k))" for k
  proof (cases "k = length fs")
    case True
    then show ?thesis by (simp add: m)
  next
    case False
    with that have k: "k < length fs" "snd (snd (fs ! k))" by (auto simp: nth_append split: if_splits)
    from table_okD(2)[OF assms(1) this] assms(2) have "map_of tbl (fst (fs ! k)) = Some k" "fst (fs ! k) \<noteq> i" by auto
    with k show ?thesis by (simp add: m nth_append)
  qed
  ultimately show ?thesis unfolding table_ok_def by blast
qed

section \<open>Every operation keeps the table\<close>

lemma sendControl_ok [simp]: "sessions_ok (sendControl sid m t) = sessions_ok t"
  by (simp add: sessions_ok_def)

lemma sessions_ok_update [simp]:
  "sessions_ok (t\<lparr>tn_updates := y\<rparr>) = sessions_ok t" "sessions_ok (t\<lparr>tn_binaries := z\<rparr>) = sessions_ok t"
  "sessions_ok (t\<lparr>tn_listeners := w\<rparr>) = sessions_ok t"
  by (simp_all add: sessions_ok_def)

lemma close_current_ok:
  assumes "sessions_ok t" and "sid < length (tn_objs t)"
  shows "sessions_ok (closeSession sid
    (if session_id t (se_ClientID (tn_objs t ! sid)) = Some sid
     then t\<lparr>tn_sessions := AList.delete (se_ClientID (tn_objs t ! sid)) (tn_sessions t)\<rparr> else t))"
  using table_ok_close[of "tn_sessions t" "faces t" sid "se_ClientID (tn_objs t ! sid)"] assms
  by (simp add: sessions_ok_def faces_closeSession faces_nth session_id_def split: if_splits)

lemma session_id_ok:
  assumes "sessions_ok t" and "session_id t i = Some sid"
  shows "sid < length (tn_objs t)" and "se_ClientID (tn_objs t ! sid) = i" and "se_open (tn_objs t ! sid)"
  using table_okD(1)[of "tn_sessions t" "faces t" i sid] assms
  by (auto simp: sessions_ok_def session_id_def faces_nth)

lemma DisconnectClient_ok:
  assumes "sessions_ok t"
  shows "sessions_ok (DisconnectClient i reason t)"
proof (cases "session_id t i")
  case None
  then have "map_of (AList.delete i (tn_sessions t)) = map_of (tn_sessions t)"
    by (auto simp: session_id_def delete_conv')
  with assms None show ?thesis by (simp add: DisconnectClient_def sessions_ok_def table_ok_def)
next
  case (Some sid)
  note S = session_id_ok[OF assms Some]
  have "sessions_ok (sendControl sid (plain_message ''shutdown'' reason) t)" using assms by simp
  moreover have "se_ClientID (tn_objs (sendControl sid (plain_message ''shutdown'' reason) t) ! sid) = i"
    using S by (simp add: sendControl_def upd_obj_nth)
  ultimately have "sessions_ok (closeSession sid ((sendControl sid (plain_message ''shutdown'' reason) t)
      \<lparr>tn_sessions := AList.delete i (tn_sessions t)\<rparr>))"
    using close_current_ok[of "sendControl sid (plain_message ''shutdown'' reason) t" sid] S(1) Some
    by (simp add: session_id_def)
  moreover have "(sendControl sid (plain_message ''shutdown'' reason) t)\<lparr>tn_sessions := AList.delete i (tn_sessions t)\<rparr>
      = sendControl sid (plain_message ''shutdown'' reason) (t\<lparr>tn_sessions := AList.delete i (tn_sessions t)\<rparr>)"
    by (simp add: sendControl_def upd_obj_def)
  ultimately show ?thesis using Some by (simp add: DisconnectClient_def)
qed

lemma dropSession_ok:
  assumes "sessions_ok t" and "sid < length (tn_objs t)"
  shows "sessions_ok (fst (dropSession saved now sid t sto))"
  using close_current_ok[OF assms] by (simp add: dropSession_def Let_def)

lemma NotifyForwards_ok [simp]: "sessions_ok (NotifyForwards st i t) = sessions_ok t"
  by (simp add: NotifyForwards_def split: option.splits)

lemma register_ok:
  assumes "sessions_ok t" and "register i remote now h t = (sid, t')"
  shows "sessions_ok t' \<and> sid = length (tn_objs t) \<and> length (tn_objs t') = Suc sid
    \<and> faces t' ! sid = (i, h, True) \<and> session_id t' i = Some sid"
proof -
  let ?s = "\<lparr>se_ClientID = i, se_Remote = remote, se_ConnectedAt = now, se_Hello = h, se_sent = [], se_open = True\<rparr>"
  define t1 where "t1 = (case session_id t i of None \<Rightarrow> t
    | Some old \<Rightarrow> closeSession old (sendControl old (plain_message ''shutdown'' ''replaced by a new connection'') t))"
  have t': "sid = length (tn_objs t)" "t' = t1\<lparr>tn_objs := tn_objs t1 @ [?s], tn_sessions := AList.update i sid (tn_sessions t1)\<rparr>"
    using assms(2) by (auto simp: register_def Let_def t1_def split: option.splits)
  have l: "length (tn_objs t1) = length (tn_objs t)" by (simp add: t1_def split: option.splits)
  have "\<exists>tbl. table_ok tbl (faces t1) \<and> map_of tbl i = None \<and> (\<forall>j. j \<noteq> i \<longrightarrow> map_of tbl j = map_of (tn_sessions t1) j)"
  proof (cases "session_id t i")
    case None
    with assms(1) show ?thesis by (auto simp: t1_def sessions_ok_def session_id_def)
  next
    case (Some old)
    note S = session_id_ok[OF assms(1) Some]
    from table_ok_close[of "tn_sessions t" "faces t" old i] assms(1) S Some
    have "table_ok (AList.delete i (tn_sessions t)) (faces t1)"
      by (simp add: sessions_ok_def faces_nth session_id_def t1_def faces_closeSession)
    moreover have "tn_sessions t1 = tn_sessions t" using Some by (simp add: t1_def)
    ultimately show ?thesis by (intro exI[of _ "AList.delete i (tn_sessions t)"]) (simp add: delete_conv')
  qed
  then obtain tbl where tbl: "table_ok tbl (faces t1)" "map_of tbl i = None"
    "\<forall>j. j \<noteq> i \<longrightarrow> map_of tbl j = map_of (tn_sessions t1) j" by blast
  have f: "faces t' = faces t1 @ [(i, h, True)]" by (simp add: t' faces_def face_def)
  have "map_of (AList.update i (length (faces t1)) tbl) = map_of (tn_sessions t')"
    using tbl(3) l by (auto simp: t' update_conv' fun_eq_iff)
  then have "sessions_ok t'"
    using table_ok_append[OF tbl(1,2), of h] by (simp add: sessions_ok_def f table_ok_def)
  then show ?thesis using l by (simp add: t'(1) f nth_append) (simp add: t' session_id_def update_conv')
qed

lemma UpdateStatus_frame:
  assumes "UpdateStatus env i t = (u, t')"
  shows "\<exists>ups. t' = t\<lparr>tn_updates := ups\<rparr>"
proof -
  have "\<exists>ups. t = t\<lparr>tn_updates := ups\<rparr>" by (rule exI[of _ "tn_updates t"]) simp
  with assms show ?thesis by (auto simp: UpdateStatus_def Let_def split: option.splits if_splits)
qed

lemma UpdateAvailability_frame:
  assumes "UpdateAvailability env i t = (r, t')"
  shows "\<exists>ups. t' = t\<lparr>tn_updates := ups\<rparr>"
proof -
  have "\<exists>ups. t = t\<lparr>tn_updates := ups\<rparr>" by (rule exI[of _ "tn_updates t"]) simp
  with assms show ?thesis
    by (auto simp: UpdateAvailability_def Let_def dest!: UpdateStatus_frame
        split: option.splits if_splits sum.splits prod.splits)
qed

lemma PushUpdate_ok:
  assumes "sessions_ok t"
  shows "sessions_ok (snd (PushUpdate env i auto t))"
proof -
  obtain r t1 where a: "UpdateAvailability env i t = (r, t1)" by fastforce
  from UpdateAvailability_frame[OF a] assms have "sessions_ok t1" by auto
  with a show ?thesis
    by (auto simp: PushUpdate_def Let_def split: option.splits sum.splits prod.splits)
qed

lemma settle_pending_frame: "\<exists>ups. settle_pending now sid t = t\<lparr>tn_updates := ups\<rparr>"
proof -
  have "\<exists>ups. t = t\<lparr>tn_updates := ups\<rparr>" by (rule exI[of _ "tn_updates t"]) simp
  then show ?thesis by (auto simp: settle_pending_def Let_def split: option.splits)
qed

lemma handleClientMessage_ok [simp]: "sessions_ok (handleClientMessage now sid msg t) = sessions_ok t"
  by (auto simp: handleClientMessage_def Let_def split: option.splits)

lemma noteReconnect_ok:
  assumes "sessions_ok t"
  shows "sessions_ok (noteReconnect env sid t)"
proof -
  obtain ups where s: "settle_pending (te_now env) sid t = t\<lparr>tn_updates := ups\<rparr>"
    using settle_pending_frame by blast
  let ?t = "t\<lparr>tn_updates := ups\<rparr>"
  obtain u t1 where u: "UpdateStatus env (se_ClientID (tn_objs t ! sid)) ?t = (u, t1)" by fastforce
  have t1: "sessions_ok t1" using UpdateStatus_frame[OF u] assms by auto
  obtain r t2 where a: "UpdateAvailability env (se_ClientID (tn_objs t ! sid)) t1 = (r, t2)" by fastforce
  have t2: "sessions_ok t2" using UpdateAvailability_frame[OF a] t1 by auto
  show ?thesis
    using assms t1 t2 PushUpdate_ok[OF t2] unfolding noteReconnect_def Let_def s
    by (simp add: u a split: option.splits)
qed

lemma handleConn_ok:
  assumes "sessions_ok t"
  shows "sessions_ok (fst (snd (handleConn saved answered saved2 env remote h t sto)))"
proof (cases "h_Version h = Version")
  case True
  obtain r sto1 where up: "Update saved (hello_seen (te_now env) remote h) sto = (r, sto1)" by fastforce
  show ?thesis
  proof (cases r)
    case (Inl e)
    with True up assms show ?thesis by (simp add: handleConn_def)
  next
    case (Inr c)
    obtain sid t1 where reg: "register (c_ID c) remote (te_now env) h t = (sid, t1)" by fastforce
    have R: "sessions_ok t1" "sid < length (tn_objs t1)" using register_ok[OF assms reg] by auto
    have "sessions_ok (noteReconnect env sid (NotifyForwards (sto_mem sto1) (c_ID c) t1))"
      by (rule noteReconnect_ok) (simp add: R)
    moreover have "sessions_ok (fst (dropSession saved2 (te_now env) sid t1 sto1))"
      by (rule dropSession_ok[OF R])
    ultimately show ?thesis
      using True Inr by (auto simp: handleConn_def up reg split: prod.splits)
  qed
next
  case False
  with assms show ?thesis by (simp add: handleConn_def)
qed

section \<open>The life of the tunnel\<close>

text \<open>
  What can happen to the sessions: a client connects, a session's read loop ends, an operator
  disconnects a client or pushes an update, forwards change, a client reports progress, the
  interface asks for an update status.
\<close>

inductive tunnel_step :: "tunnel \<times> store \<Rightarrow> tunnel \<times> store \<Rightarrow> bool" where
  Connect: "handleConn saved answered saved2 env remote h t sto = (r, t', sto') \<Longrightarrow> tunnel_step (t, sto) (t', sto')"
| Drop: "sid < length (tn_objs t) \<Longrightarrow> dropSession saved now sid t sto = (t', sto') \<Longrightarrow> tunnel_step (t, sto) (t', sto')"
| Disconnect: "tunnel_step (t, sto) (DisconnectClient i reason t, sto)"
| Notify: "tunnel_step (t, sto) (NotifyForwards (sto_mem sto) i t, sto)"
| Message: "sid < length (tn_objs t) \<Longrightarrow> tunnel_step (t, sto) (handleClientMessage now sid msg t, sto)"
| Push: "PushUpdate env i False t = (r, t') \<Longrightarrow> tunnel_step (t, sto) (t', sto)"
| Status: "UpdateStatus env i t = (u, t') \<Longrightarrow> tunnel_step (t, sto) (t', sto)"
| Availability: "UpdateAvailability env i t = (r, t') \<Longrightarrow> tunnel_step (t, sto) (t', sto)"

definition new_tunnel :: "string \<Rightarrow> tunnel" where
  "new_tunnel v = \<lparr>tn_version = v, tn_objs = [], tn_sessions = [], tn_updates = [], tn_binaries = [],
     tn_listeners = \<lparr>l_bound = {}, l_runners = []\<rparr>\<rparr>"

lemma new_tunnel_ok: "sessions_ok (new_tunnel v)"
  by (simp add: new_tunnel_def sessions_ok_def table_ok_def faces_def)

lemma tunnel_step_ok:
  assumes "tunnel_step s s'" and "sessions_ok (fst s)"
  shows "sessions_ok (fst s')"
  using assms
proof (induction rule: tunnel_step.induct)
  case (Connect saved answered saved2 env remote h t sto r t' sto')
  then show ?case using handleConn_ok[of t saved answered saved2 env remote h sto] by simp
next
  case (Drop sid t saved now sto t' sto')
  then show ?case using dropSession_ok[of t sid saved now sto] by simp
next
  case (Push env i t r t' sto)
  then show ?case using PushUpdate_ok[of t env i False] by simp
next
  case (Status env i t u t' sto)
  from UpdateStatus_frame[OF Status.hyps] obtain ups where "t' = t\<lparr>tn_updates := ups\<rparr>" by blast
  with Status.prems show ?case by simp
next
  case (Availability env i t r t' sto)
  from UpdateAvailability_frame[OF Availability.hyps] obtain ups where "t' = t\<lparr>tn_updates := ups\<rparr>" by blast
  with Availability.prems show ?case by simp
next
  case (Disconnect t sto i reason)
  then show ?case using DisconnectClient_ok by simp
next
  case (Notify t sto i)
  then show ?case by simp
next
  case (Message sid t sto now msg)
  then show ?case by simp
qed

interpretation tunnel: step_system tunnel_step "\<lambda>s. \<exists>v sto. s = (new_tunnel v, sto)" "\<lambda>s. sessions_ok (fst s)"
  by unfold_locales (auto simp: new_tunnel_ok tunnel_step_ok)

lemma reachable_sessions_ok: "tunnel_step\<^sup>*\<^sup>* (new_tunnel v, sto) s \<Longrightarrow> sessions_ok (fst s)"
  by (rule tunnel.reachable_inv) blast


text \<open>
  C31: when a session that has already been replaced goes away, the client stays online on its
  new session, and what the old connection still reports does not close it.
\<close>

theorem stale_drop_keeps_session:
  assumes "session_id t i = Some new" and "sid \<noteq> new" and "dropSession saved now sid t sto = (t', sto')"
  shows "session_of t' i = session_of t i \<and> ClientStatus t' i = ClientStatus t i"
proof -
  let ?j = "se_ClientID (tn_objs t ! sid)"
  have "session_id t' i = Some new"
    using assms by (auto simp: dropSession_def Let_def session_id_def delete_conv' split: if_splits)
  moreover have "tn_objs t' ! new = tn_objs t ! new"
    using assms(2,3) by (auto simp: dropSession_def Let_def closeSession_def upd_obj_def split: if_splits)
  ultimately show ?thesis using assms(1) by (simp add: session_of_def ClientStatus_def)
qed

definition demo_hello :: "string \<Rightarrow> hello" where
  "demo_hello v = \<lparr>h_Version = 1, h_Token = ''sr_c_1'', h_Hostname = ''pc'', h_OS = ''linux'', h_Arch = ''amd64'',
     h_ClientVersion = v, h_AllowUpdate = True\<rparr>"

definition demo_client :: client where
  "demo_client = \<lparr>c_ID = ''c1'', c_Name = ''home'', c_Token = ''sr_c_1'', c_CreatedAt = 0, c_UpdatedAt = 0,
     c_LastSeenAt = None, c_LastAddr = [], c_Hostname = [], c_OS = [], c_Arch = [], c_ClientVersion = []\<rparr>"

definition demo_store :: store where
  "demo_store = \<lparr>sto_mem = empty_state\<lparr>st_Clients := [demo_client]\<rparr>, sto_disk = None\<rparr>"

definition demo_tenv :: tunnel_env where
  "demo_tenv = \<lparr>te_now = 5, te_binary = Some (\<lambda>n. Inr (''/bin/'' @ n)), te_stat = (\<lambda>_. Some (3, 1)),
     te_read = (\<lambda>_. Some ''ELF''), te_sha = (\<lambda>s. s), te_auto = Some False\<rparr>"

definition demo_tunnel :: "tunnel \<times> store" where
  "demo_tunnel = snd (handleConn True True True demo_tenv ''1.2.3.4:5'' (demo_hello ''v1'') (new_tunnel ''v2'') demo_store)"

definition demo_tunnel2 :: "tunnel \<times> store" where
  "demo_tunnel2 = snd (handleConn True True True demo_tenv ''1.2.3.4:6'' (demo_hello ''v2'') (fst demo_tunnel) (snd demo_tunnel))"

lemma demo_reachable: "tunnel_step\<^sup>*\<^sup>* (new_tunnel ''v2'', demo_store) demo_tunnel2"
proof -
  have 1: "tunnel_step (new_tunnel ''v2'', demo_store) demo_tunnel"
    unfolding demo_tunnel_def by (metis Connect prod.collapse)
  have 2: "tunnel_step demo_tunnel demo_tunnel2"
    unfolding demo_tunnel2_def by (metis Connect prod.collapse)
  from 1 2 show ?thesis by (meson converse_rtranclp_into_rtranclp rtranclp.rtrancl_refl)
qed


lemma stale_drop_keeps_session_witness:
  "ClientStatus (fst (dropSession True 9 0 (fst demo_tunnel2) (snd demo_tunnel2))) ''c1'' = ClientStatus (fst demo_tunnel2) ''c1''"
proof -
  have s: "session_id (fst demo_tunnel2) ''c1'' = Some 1" by code_simp
  obtain t' sto' where d: "dropSession True 9 0 (fst demo_tunnel2) (snd demo_tunnel2) = (t', sto')" by fastforce
  from stale_drop_keeps_session[OF s _ d] d show ?thesis by simp
qed

section \<open>Update records\<close>

text \<open>\<open>done_grows\<close>: no record turns into a finished one.\<close>

definition done_kept :: "(string \<times> client_update) list \<Rightarrow> (string \<times> client_update) list \<Rightarrow> bool" where
  "done_kept us us' \<longleftrightarrow>
     (\<forall>i u. map_of us' i = Some u \<longrightarrow> cu_State u = updateDone \<longrightarrow> map_of us i = Some u)"

lemma done_kept_refl [simp, intro]: "done_kept us us"
  by (simp add: done_kept_def)

lemma done_kept_trans: "done_kept us us' \<Longrightarrow> done_kept us' us'' \<Longrightarrow> done_kept us us''"
  by (simp add: done_kept_def)

lemma done_kept_update: "cu_State u \<noteq> updateDone \<Longrightarrow> done_kept us (AList.update i u us)"
  by (auto simp: done_kept_def update_conv' split: if_splits)

lemma done_kept_delete: "done_kept us (AList.delete i us)"
  by (auto simp: done_kept_def delete_conv' restrict_map_def split: if_splits)

lemma update_states_distinct [simp]:
  "updatePending \<noteq> updateDone" "updateFailed \<noteq> updateDone" "updatePending \<noteq> updateFailed"
  "updateDone \<noteq> updatePending" "updateDone \<noteq> updateFailed" "updateFailed \<noteq> updatePending"
  by (simp_all add: update_state_defs)

lemma UpdateStatus_done_kept:
  "UpdateStatus env i t = (u, t') \<Longrightarrow> done_kept (tn_updates t) (tn_updates t')"
  by (auto simp: UpdateStatus_def Let_def done_kept_update done_kept_delete split: option.splits if_splits)

lemma UpdateAvailability_done_kept:
  "UpdateAvailability env i t = (r, t') \<Longrightarrow> done_kept (tn_updates t) (tn_updates t')"
  by (auto simp: UpdateAvailability_def Let_def dest: UpdateStatus_done_kept
      split: option.splits if_splits sum.splits prod.splits)

lemma PushUpdate_done_kept: "done_kept (tn_updates t) (tn_updates (snd (PushUpdate env i auto t)))"
proof -
  obtain r t1 where a: "UpdateAvailability env i t = (r, t1)" by fastforce
  have 1: "done_kept (tn_updates t) (tn_updates t1)" by (rule UpdateAvailability_done_kept[OF a])
  have "done_kept (tn_updates t1) (tn_updates (snd (PushUpdate env i auto t)))"
    by (auto simp: PushUpdate_def a Let_def done_kept_update split: option.splits sum.splits prod.splits)
  with 1 show ?thesis by (rule done_kept_trans)
qed

lemma handleClientMessage_done_kept: "done_kept (tn_updates t) (tn_updates (handleClientMessage now sid msg t))"
  by (auto simp: handleClientMessage_def Let_def done_kept_update split: option.splits)

lemma session_fields_update:
  "tn_updates (DisconnectClient i reason t) = tn_updates t"
  "tn_updates (NotifyForwards st i t) = tn_updates t"
  "tn_updates (fst (dropSession saved now sid t sto)) = tn_updates t"
  "register i remote now h t = (sid, t') \<Longrightarrow> tn_updates t' = tn_updates t \<and> tn_version t' = tn_version t"
  by (auto simp: DisconnectClient_def NotifyForwards_def dropSession_def register_def Let_def split: option.splits)

text \<open>The part of \<open>noteReconnect\<close> after the pending update is settled.\<close>

lemma noteReconnect_done_kept:
  "done_kept (tn_updates (settle_pending (te_now env) sid t)) (tn_updates (noteReconnect env sid t))"
proof -
  let ?t = "settle_pending (te_now env) sid t"
  let ?i = "se_ClientID (tn_objs ?t ! sid)"
  obtain u t1 where u: "UpdateStatus env ?i ?t = (u, t1)" by fastforce
  obtain r t2 where r: "UpdateAvailability env ?i t1 = (r, t2)" by fastforce
  have 1: "done_kept (tn_updates ?t) (tn_updates t1)" by (rule UpdateStatus_done_kept[OF u])
  have 2: "done_kept (tn_updates ?t) (tn_updates t2)"
    by (rule done_kept_trans[OF 1 UpdateAvailability_done_kept[OF r]])
  have 3: "done_kept (tn_updates ?t) (tn_updates (snd (PushUpdate env ?i True t2)))"
    by (rule done_kept_trans[OF 2 PushUpdate_done_kept])
  from 1 2 3 show ?thesis unfolding noteReconnect_def Let_def by (simp add: u r split: option.splits)
qed

lemma settle_pending_done:
  assumes "map_of (tn_updates (settle_pending now sid t)) i = Some u'" and "cu_State u' = updateDone"
    and "map_of (tn_updates t) i \<noteq> Some u'"
  shows "i = se_ClientID (tn_objs t ! sid) \<and> (\<exists>u. map_of (tn_updates t) i = Some u \<and> cu_State u = updatePending
    \<and> h_ClientVersion (se_Hello (tn_objs t ! sid)) = cu_TargetVersion u)"
  using assms
  by (auto simp: settle_pending_def Let_def update_conv' split: option.splits if_splits)

lemma noteReconnect_sessions:
  "session_id (noteReconnect env sid t) i = session_id t i \<and> faces (noteReconnect env sid t) = faces t"
proof -
  obtain ups where s: "settle_pending (te_now env) sid t = t\<lparr>tn_updates := ups\<rparr>"
    using settle_pending_frame by blast
  obtain u t1 where u: "UpdateStatus env (se_ClientID (tn_objs t ! sid)) (t\<lparr>tn_updates := ups\<rparr>) = (u, t1)" by fastforce
  obtain r t2 where a: "UpdateAvailability env (se_ClientID (tn_objs t ! sid)) t1 = (r, t2)" by fastforce
  have t1: "session_id t1 i = session_id t i \<and> faces t1 = faces t"
    using UpdateStatus_frame[OF u] by (auto simp: session_id_def)
  have t2: "session_id t2 i = session_id t i \<and> faces t2 = faces t"
    using UpdateAvailability_frame[OF a] t1 by (auto simp: session_id_def)
  obtain r' t3 where b: "UpdateAvailability env (se_ClientID (tn_objs t ! sid)) t2 = (r', t3)" by fastforce
  have t3: "session_id t3 i = session_id t i \<and> faces t3 = faces t"
    using UpdateAvailability_frame[OF b] t2 by (auto simp: session_id_def)
  have "session_id (snd (PushUpdate env (se_ClientID (tn_objs t ! sid)) True t2)) i = session_id t i
      \<and> faces (snd (PushUpdate env (se_ClientID (tn_objs t ! sid)) True t2)) = faces t"
    using t3 by (auto simp: PushUpdate_def b Let_def session_id_def split: option.splits sum.splits prod.splits)
  with t1 t2 show ?thesis
    unfolding noteReconnect_def Let_def s by (auto simp: u a session_id_def split: option.splits)
qed

text \<open>The session a connection registers is its client's open one, with its greeting.\<close>

lemma notified_session:
  assumes "register i remote now h t = (sid, t1)"
  shows "faces (NotifyForwards st j t1) ! sid = (i, h, True)" "session_id (NotifyForwards st j t1) i = Some sid"
    "sid < length (tn_objs (NotifyForwards st j t1))"
proof -
  have f: "faces (NotifyForwards st j t1) = faces t1" "length (tn_objs (NotifyForwards st j t1)) = length (tn_objs t1)"
    "session_id (NotifyForwards st j t1) = session_id t1"
    by (simp_all add: NotifyForwards_def session_id_def fun_eq_iff split: option.splits)
  have "faces t1 ! sid = (i, h, True)" "session_id t1 i = Some sid" "sid < length (tn_objs t1)"
    by (use assms in \<open>auto simp: register_def Let_def faces_def face_def nth_append session_id_def update_conv' split: option.splits\<close>)
  with f show "faces (NotifyForwards st j t1) ! sid = (i, h, True)" "session_id (NotifyForwards st j t1) i = Some sid"
    "sid < length (tn_objs (NotifyForwards st j t1))" by simp_all
qed

lemma handleConn_registers:
  assumes "handleConn saved answered saved2 env remote h t sto = (Inr sid, t1, sto1)"
  shows "\<exists>c. ClientByToken (sto_mem sto) (h_Token h) = Some c \<and> session_id t1 (c_ID c) = Some sid \<and> faces t1 ! sid = (c_ID c, h, True)"
proof -
  obtain r sto2 where up: "Update saved (hello_seen (te_now env) remote h) sto = (r, sto2)" by fastforce
  with assms obtain c where c: "r = Inr c" "h_Version h = Version" by (cases r) (auto simp: handleConn_def split: if_splits)
  obtain sid' t2 where reg: "register (c_ID c) remote (te_now env) h t = (sid', t2)" by fastforce
  have t1: "sid' = sid" "t1 = noteReconnect env sid (NotifyForwards (sto_mem sto2) (c_ID c) t2)"
    using assms c reg up by (auto simp: handleConn_def split: if_splits prod.splits)
  have "ClientByToken (sto_mem sto) (h_Token h) = Some c"
    using up c(1) by (auto simp: Update_def hello_seen_def split: option.splits prod.splits sum.splits)
  with notified_session[OF reg, of "sto_mem sto2" "c_ID c"] noteReconnect_sessions[of env sid "NotifyForwards (sto_mem sto2) (c_ID c) t2" "c_ID c"]
  show ?thesis by (auto simp: t1)
qed

text \<open>A record that becomes "done" while a client connects was pending for the version of its greeting.\<close>

lemma handleConn_done:
  assumes h: "handleConn saved answered saved2 env remote h t sto = (r, t', sto')"
    and u': "map_of (tn_updates t') i = Some u'" "cu_State u' = updateDone" "map_of (tn_updates t) i \<noteq> Some u'"
  shows "\<exists>u sid. map_of (tn_updates t) i = Some u \<and> cu_State u = updatePending
    \<and> session_id t' i = Some sid \<and> faces t' ! sid = (i, h, True) \<and> h_ClientVersion h = cu_TargetVersion u"
proof -
  have no: "\<not> done_kept (tn_updates t) (tn_updates t')" using u' by (auto simp: done_kept_def)
  then have "t' \<noteq> t" by (auto simp: done_kept_def)
  obtain r1 sto1 where up: "Update saved (hello_seen (te_now env) remote h) sto = (r1, sto1)" by fastforce
  with h \<open>t' \<noteq> t\<close> obtain c where c: "h_Version h = Version" "r1 = Inr c" by (cases r1) (auto simp: handleConn_def split: if_splits)
  obtain sid t1 where reg: "register (c_ID c) remote (te_now env) h t = (sid, t1)" by fastforce
  have u1: "tn_updates t1 = tn_updates t" using session_fields_update(4)[OF reg] by simp
  let ?n = "NotifyForwards (sto_mem sto1) (c_ID c) t1"
  have answered
  proof (rule ccontr)
    assume "\<not> answered"
    with c up reg h have "t' = fst (dropSession saved2 (te_now env) sid t1 sto1)" by (auto simp: handleConn_def split: prod.splits)
    with no show False by (simp add: session_fields_update u1 done_kept_def)
  qed
  with c up reg h have t': "t' = noteReconnect env sid ?n" by (auto simp: handleConn_def)
  have "map_of (tn_updates (settle_pending (te_now env) sid ?n)) i = Some u'"
    using noteReconnect_done_kept[of env sid ?n] u'(1,2) by (simp add: t' done_kept_def)
  moreover have "map_of (tn_updates ?n) i \<noteq> Some u'" using u'(3) by (simp add: session_fields_update u1)
  ultimately obtain u where u: "i = se_ClientID (tn_objs ?n ! sid)" "map_of (tn_updates ?n) i = Some u"
    "cu_State u = updatePending" "h_ClientVersion (se_Hello (tn_objs ?n ! sid)) = cu_TargetVersion u"
    using settle_pending_done u'(2) by blast
  note R = notified_session[OF reg, of "sto_mem sto1" "c_ID c"]
  have "face (tn_objs ?n ! sid) = (c_ID c, h, True)" using R faces_nth[of sid ?n] by simp
  then have i: "i = c_ID c" "h_ClientVersion h = cu_TargetVersion u" using u by (simp_all add: face_def)
  moreover have "session_id t' i = Some sid \<and> faces t' ! sid = (c_ID c, h, True)"
    using noteReconnect_sessions[of env sid ?n i] R i(1) by (simp add: t')
  moreover have "map_of (tn_updates t) i = Some u" using u(2) by (simp add: session_fields_update u1)
  ultimately show ?thesis using u(3) by blast
qed

text \<open>
  C26: an update is reported as done only when the client proved it: a record turns into "done"
  in exactly one kind of step, the client's new session, whose greeting carries the version the
  pending update was to install; that session is the client's open one afterwards.
\<close>

theorem update_done_means_new_version_connected:
  assumes "tunnel_step (t, sto) (t', sto')"
    and "map_of (tn_updates t') i = Some u'" and "cu_State u' = updateDone"
    and "map_of (tn_updates t) i \<noteq> Some u'"
  shows "\<exists>u h sid. map_of (tn_updates t) i = Some u \<and> cu_State u = updatePending
    \<and> session_id t' i = Some sid \<and> faces t' ! sid = (i, h, True) \<and> h_ClientVersion h = cu_TargetVersion u"
proof -
  have no: False if "done_kept (tn_updates t) (tn_updates t')"
    using that assms(2-4) by (simp add: done_kept_def)
  from assms(1) show ?thesis
  proof (cases rule: tunnel_step.cases)
    case (Connect saved answered saved2 env remote h r)
    from handleConn_done[OF this assms(2-4)] show ?thesis by blast
  next
    case (Drop sid saved now)
    then have "t' = fst (dropSession saved now sid t sto)" by simp
    with no show ?thesis by (simp add: session_fields_update)
  next
    case (Push env j r)
    then have "t' = snd (PushUpdate env j False t)" by simp
    with no PushUpdate_done_kept show ?thesis by simp
  qed (use no in \<open>auto simp: session_fields_update handleClientMessage_done_kept
        dest: UpdateStatus_done_kept UpdateAvailability_done_kept\<close>)
qed

section \<open>What a client is offered\<close>

text \<open>
  The cache of hashes is right when an entry whose size and modification time are those of the
  file holds the hash of its content. It stays right as long as a file whose content changes
  changes its size or modification time too, which is what \<open>info\<close> relies on.
\<close>

definition cache_ok :: "tunnel_env \<Rightarrow> (string \<times> binary_info) list \<Rightarrow> bool" where
  "cache_ok env cache \<longleftrightarrow>
     (\<forall>c\<in>ran (map_of cache). te_stat env (bi_path c) = Some (bi_size c, bi_modTime c) \<longrightarrow>
        (\<exists>content. te_read env (bi_path c) = Some content \<and> bi_sha256 c = hex_encode (te_sha env content)))"

lemma ran_update_subset: "ran (map_of (AList.update k v xs)) \<subseteq> insert v (ran (map_of xs))"
  by (auto simp: update_conv' ran_def)

lemma cache_ok_empty [simp]: "cache_ok env []"
  by (simp add: cache_ok_def)

lemma binary_info_of_ok:
  assumes "cache_ok env cache" and "binary_info_of env name path cache = (Inr info, cache')"
  shows "cache_ok env cache' \<and> bi_path info = path \<and> te_stat env path = Some (bi_size info, bi_modTime info)
    \<and> (\<exists>content. te_read env path = Some content \<and> bi_sha256 info = hex_encode (te_sha env content))"
proof -
  obtain sz mt where st: "te_stat env path = Some (sz, mt)"
    using assms(2) by (auto simp: binary_info_of_def split: option.splits)
  show ?thesis
  proof (cases "\<exists>c. map_of cache name = Some c \<and> bi_path c = path \<and> bi_size c = sz \<and> bi_modTime c = mt")
    case True
    then obtain c where c: "map_of cache name = Some c" "bi_path c = path" "bi_size c = sz" "bi_modTime c = mt" by blast
    with assms(2) st have e: "info = c" "cache' = cache" by (auto simp: binary_info_of_def)
    have "c \<in> ran (map_of cache)" using c(1) by (auto simp: ran_def)
    with assms(1) st c(2-4) have "\<exists>content. te_read env path = Some content \<and> bi_sha256 c = hex_encode (te_sha env content)"
      by (auto simp: cache_ok_def)
    with assms(1) e st c show ?thesis by simp
  next
    case False
    then have n: "(case map_of cache name of
        Some c \<Rightarrow> if bi_path c = path \<and> bi_size c = sz \<and> bi_modTime c = mt then Some c else None
      | None \<Rightarrow> None) = None" by (auto split: option.splits)
    with assms(2) st obtain content where r: "te_read env path = Some content"
      "info = \<lparr>bi_path = path, bi_size = sz, bi_modTime = mt, bi_sha256 = hex_encode (te_sha env content)\<rparr>"
      "cache' = AList.update name info cache"
      by (auto simp: binary_info_of_def Let_def split: option.splits)
    have "cache_ok env cache'"
      unfolding cache_ok_def
    proof (intro ballI impI)
      fix c assume c: "c \<in> ran (map_of cache')" "te_stat env (bi_path c) = Some (bi_size c, bi_modTime c)"
      show "\<exists>content. te_read env (bi_path c) = Some content \<and> bi_sha256 c = hex_encode (te_sha env content)"
      proof (cases "c = info")
        case True
        with r(1,2) show ?thesis by simp
      next
        case False
        with c(1) ran_update_subset[of name info cache] have "c \<in> ran (map_of cache)" by (auto simp: r(3))
        with assms(1) c(2) show ?thesis by (simp add: cache_ok_def)
      qed
    qed
    with r st show ?thesis by simp
  qed
qed

text \<open>
  What a client downloads over the tunnel is what was announced: a served request names one
  of the downloadable binaries, so no path of the server can be smuggled in, the announced hash
  and size are those of the file it resolves to, and the bytes sent are the file's, cut at the
  announced size.
\<close>

lemma download_serves_what_it_announces:
  assumes "cache_ok env (tn_binaries t)"
    and "handleClientStream env req t = (Served sz sha body, t')"
  shows "(\<exists>goos goarch. downloadName (cr_Name req) = Some (goos, goarch)) \<and> CHR ''/'' \<notin> set (cr_Name req)
    \<and> (\<exists>resolve path content mt. te_binary env = Some resolve \<and> resolve (cr_Name req) = Inr path
         \<and> te_stat env path = Some (sz, mt) \<and> te_read env path = Some content
         \<and> sha = hex_encode (te_sha env content) \<and> body = take (nat sz) content)
    \<and> cache_ok env (tn_binaries t')"
proof -
  from assms(2) obtain p resolve path info cache content where
    h: "downloadName (cr_Name req) = Some p" "te_binary env = Some resolve" "resolve (cr_Name req) = Inr path"
      "binary_info_of env (cr_Name req) path (tn_binaries t) = (Inr info, cache)" "te_read env path = Some content"
      "sz = bi_size info" "sha = bi_sha256 info" "body = take (nat (bi_size info)) content" "t' = t\<lparr>tn_binaries := cache\<rparr>"
    by (auto simp: handleClientStream_def split: if_splits option.splits sum.splits prod.splits)
  from binary_info_of_ok[OF assms(1) h(4)] h(5)
  have "cache_ok env cache" "te_stat env path = Some (sz, bi_modTime info)" "sha = hex_encode (te_sha env content)"
    by (auto simp: h(6,7))
  moreover have "CHR ''/'' \<notin> set (cr_Name req)" using downloadName_chars[OF h(1)] by blast
  moreover have "\<exists>goos goarch. downloadName (cr_Name req) = Some (goos, goarch)" using h(1) by (cases p) simp
  ultimately show ?thesis using h(2,3,5,6,8,9) by auto
qed

lemma download_serves_what_it_announces_witness:
  "\<exists>t'. handleClientStream demo_tenv \<lparr>cr_Type = ''download'', cr_Name = ''spawnrelay_linux_amd64''\<rparr> (new_tunnel ''v2'')
     = (Served 3 ''454c46'' ''ELF'', t') \<and> cache_ok demo_tenv (tn_binaries t')"
proof -
  let ?q = "\<lparr>cr_Type = ''download'', cr_Name = ''spawnrelay_linux_amd64''\<rparr>"
  have f: "fst (handleClientStream demo_tenv ?q (new_tunnel ''v2'')) = Served 3 ''454c46'' ''ELF''" by code_simp
  then obtain t' where h: "handleClientStream demo_tenv ?q (new_tunnel ''v2'') = (Served 3 ''454c46'' ''ELF'', t')"
    by (metis prod.collapse)
  have "cache_ok demo_tenv (tn_binaries (new_tunnel ''v2''))" by (simp add: new_tunnel_def)
  from download_serves_what_it_announces[OF this h] h show ?thesis by blast
qed

text \<open>
  A pushed update is addressed to the client's current session, which accepts updates and
  runs another version; it offers the server's version with the size and hash of the binary for
  that client's platform; the update is recorded as pending, and until the client has been
  silent for three minutes no other push to it is possible.
\<close>

lemma PushUpdate_offers_current_binary:
  assumes "cache_ok env (tn_binaries t)" and "PushUpdate env i automatic t = (Inr (), t')"
  shows "\<exists>sid s resolve path content sz mt u.
      session_id t i = Some sid \<and> s = tn_objs t ! sid
    \<and> h_AllowUpdate (se_Hello s) \<and> h_ClientVersion (se_Hello s) \<noteq> tn_version t
    \<and> te_binary env = Some resolve \<and> resolve (assetName (h_OS (se_Hello s)) (h_Arch (se_Hello s))) = Inr path
    \<and> te_stat env path = Some (sz, mt) \<and> te_read env path = Some content
    \<and> t' = sendControl sid ((plain_message ''update'' [])\<lparr>cm_Update := Some
        \<lparr>ui_Version = tn_version t, ui_Name = assetName (h_OS (se_Hello s)) (h_Arch (se_Hello s)),
         ui_Size = sz, ui_SHA256 = hex_encode (te_sha env content)\<rparr>\<rparr>)
        (t\<lparr>tn_binaries := tn_binaries t', tn_updates := tn_updates t'\<rparr>)
    \<and> map_of (tn_updates t') i = Some u \<and> cu_State u = updatePending \<and> cu_TargetVersion u = tn_version t
    \<and> (\<forall>env' automatic'. te_now env' - te_now env \<le> updateTimeout \<longrightarrow>
         (\<exists>reason. PushUpdate env' i automatic' t' = (Inl reason, t')))"
proof -
  obtain r t1 where a: "UpdateAvailability env i t = (r, t1)" by fastforce
  have r: "r = None" using assms(2) a by (auto simp: PushUpdate_def split: option.splits)
  obtain s where s: "session_of t i = Some s"
    using a r by (auto simp: UpdateAvailability_def split: option.splits)
  then obtain sid where sid: "session_id t i = Some sid" "s = tn_objs t ! sid" by (auto simp: session_of_def)
  let ?name = "assetName (h_OS (se_Hello s)) (h_Arch (se_Hello s))"
  have av: "h_AllowUpdate (se_Hello s)" "h_ClientVersion (se_Hello s) \<noteq> tn_version t"
    using a r s by (auto simp: UpdateAvailability_def Let_def split: if_splits)
  obtain ups where t1: "t1 = t\<lparr>tn_updates := ups\<rparr>" using UpdateAvailability_frame[OF a] by blast
  have s1: "session_id t1 i = Some sid" "session_of t1 i = Some s"
    using sid s by (simp_all add: t1 session_id_def session_of_def)
  from assms(2) obtain resolve path info cache where
    h: "te_binary env = Some resolve" "resolve ?name = Inr path"
      "binary_info_of env ?name path (tn_binaries t) = (Inr info, cache)"
    by (auto simp: PushUpdate_def a r s1[unfolded t1] t1 Let_def split: option.splits sum.splits prod.splits)
  define u where "u = \<lparr>cu_State = updatePending, cu_TargetVersion = tn_version t, cu_Detail = ''update requested'',
     cu_RequestedAt = te_now env, cu_UpdatedAt = te_now env, cu_Automatic = automatic\<rparr>"
  define msg where "msg = (plain_message ''update'' [])\<lparr>cm_Update := Some
     \<lparr>ui_Version = tn_version t, ui_Name = ?name, ui_Size = bi_size info, ui_SHA256 = bi_sha256 info\<rparr>\<rparr>"
  have t': "t' = sendControl sid msg (t\<lparr>tn_binaries := cache, tn_updates := AList.update i u ups\<rparr>)"
    using assms(2) h by (simp add: PushUpdate_def a r s1[unfolded t1] t1 Let_def u_def msg_def)
  from binary_info_of_ok[OF assms(1) h(3)] obtain content where
    c: "te_stat env path = Some (bi_size info, bi_modTime info)" "te_read env path = Some content"
      "bi_sha256 info = hex_encode (te_sha env content)" by blast
  have f: "tn_binaries t' = cache" "tn_updates t' = AList.update i u ups" by (simp_all add: t')
  have mu: "map_of (tn_updates t') i = Some u" by (simp add: f update_conv')
  have "\<exists>reason. PushUpdate env' i automatic' t' = (Inl reason, t')"
    if "te_now env' - te_now env \<le> updateTimeout" for env' automatic'
  proof -
    have us: "UpdateStatus env' i t' = (Some u, t')" using that mu by (simp add: UpdateStatus_def u_def)
    have "\<exists>reason. UpdateAvailability env' i t' = (Some reason, t')"
      using us by (auto simp: UpdateAvailability_def Let_def u_def split: option.splits sum.splits)
    then show ?thesis by (auto simp: PushUpdate_def)
  qed
  then show ?thesis
    using sid av h(1,2) c mu t' f
    by (intro exI[of _ sid] exI[of _ s] exI[of _ resolve] exI[of _ path] exI[of _ content]
        exI[of _ "bi_size info"] exI[of _ "bi_modTime info"] exI[of _ u]) (simp add: u_def msg_def)
qed

lemma PushUpdate_offers_current_binary_witness:
  "\<exists>t'. PushUpdate demo_tenv ''c1'' False (fst demo_tunnel) = (Inr (), t')
    \<and> (\<exists>u. map_of (tn_updates t') ''c1'' = Some u \<and> cu_State u = updatePending)"
proof -
  have f: "fst (PushUpdate demo_tenv ''c1'' False (fst demo_tunnel)) = Inr ()" by code_simp
  then obtain t' where h: "PushUpdate demo_tenv ''c1'' False (fst demo_tunnel) = (Inr (), t')" by (metis prod.collapse)
  have "tn_binaries (fst demo_tunnel) = []" by code_simp
  then have "cache_ok demo_tenv (tn_binaries (fst demo_tunnel))" by simp
  from PushUpdate_offers_current_binary[OF this h] h show ?thesis by blast
qed

text \<open>A client that comes back on the new version after a push.\<close>

definition demo_pushed :: "tunnel \<times> store" where
  "demo_pushed = (snd (PushUpdate demo_tenv ''c1'' False (fst demo_tunnel)), snd demo_tunnel)"

definition demo_updated :: "tunnel \<times> store" where
  "demo_updated = snd (handleConn True True True demo_tenv ''1.2.3.4:7'' (demo_hello ''v2'') (fst demo_pushed) (snd demo_pushed))"

lemma update_done_means_new_version_connected_witness:
  "\<exists>u. map_of (tn_updates (fst demo_pushed)) ''c1'' = Some u \<and> cu_State u = updatePending \<and> cu_TargetVersion u = ''v2''"
proof -
  have step: "tunnel_step (fst demo_pushed, snd demo_pushed) (fst demo_updated, snd demo_updated)"
    unfolding demo_updated_def by (metis Connect prod.collapse)
  have d: "map_option cu_State (map_of (tn_updates (fst demo_updated)) ''c1'') = Some updateDone"
    and p: "map_option cu_State (map_of (tn_updates (fst demo_pushed)) ''c1'') = Some updatePending"
    and v: "map_option cu_TargetVersion (map_of (tn_updates (fst demo_pushed)) ''c1'') = Some ''v2''"
    by code_simp+
  obtain u' where u': "map_of (tn_updates (fst demo_updated)) ''c1'' = Some u'" "cu_State u' = updateDone" using d by auto
  have "map_of (tn_updates (fst demo_pushed)) ''c1'' \<noteq> Some u'" using p u'(2) by auto
  from update_done_means_new_version_connected[OF step u' this] v show ?thesis by auto
qed

end
