(* ===== verification/Firewall.thy ===== *)
theory Firewall
  imports Go_Strings "HOL-Library.AList" "HOL-Library.Product_Lexorder"
begin

text \<open>
  \<open>internal/firewall/firewall.go\<close>: the rules the relay asks for, their validation, the tags
  that mark the agent's own rules, the result of a sync, the choice of a backend and the backend
  for hosts without a firewall. Commands run on the host are the parameter \<open>run\<close>: it maps the
  command line and the state of the host to the command's output (or failure message) and the
  new state. Go maps are association lists.
\<close>

section \<open>Modes and rules\<close>

definition Tag :: string where "Tag = ''spawnrelay:''"

definition ModeOff :: string where [mode_defs]: "ModeOff = ''off''"
definition ModeAuto :: string where [mode_defs]: "ModeAuto = ''auto''"
definition ModeUFW :: string where [mode_defs]: "ModeUFW = ''ufw''"
definition ModeFirewalld :: string where [mode_defs]: "ModeFirewalld = ''firewalld''"
definition ModeNftables :: string where [mode_defs]: "ModeNftables = ''nftables''"
definition ModeIptables :: string where [mode_defs]: "ModeIptables = ''iptables''"

definition Modes :: "string list" where
  "Modes = [ModeAuto, ModeOff, ModeUFW, ModeFirewalld, ModeNftables, ModeIptables]"

fun ValidMode_loop :: "string \<Rightarrow> string list \<Rightarrow> bool" where
  "ValidMode_loop m [] = False"
| "ValidMode_loop m (x # xs) = (if x = m then True else ValidMode_loop m xs)"

definition ValidMode :: "string \<Rightarrow> bool" where
  "ValidMode m = ValidMode_loop m Modes"

record rule =
  ru_ID :: string
  ru_Port :: int
  ru_Proto :: string

definition port_key :: "int \<Rightarrow> string \<Rightarrow> string" where
  "port_key p proto = itoa p @ CHR ''/'' # proto"

definition Key :: "rule \<Rightarrow> string" where
  "Key r = port_key (ru_Port r) (ru_Proto r)"

text \<open>\<open>^[a-z0-9_-]{1,32}$\<close>\<close>

definition id_char :: "char \<Rightarrow> bool" where
  "id_char c \<longleftrightarrow> (CHR ''a'' \<le> c \<and> c \<le> CHR ''z'') \<or> is_digit c \<or> c = CHR ''_'' \<or> c = CHR ''-''"

definition idPattern :: "string \<Rightarrow> bool" where
  "idPattern s \<longleftrightarrow> 1 \<le> length s \<and> length s \<le> 32 \<and> list_all id_char s"

datatype fw_error = InvalidRuleID string | InvalidPort int | InvalidProtocol string
  | CommandFailed string | FirewallOff | UnknownMode string | NotRunning string | LedgerUnreadable
  | LedgerNotSaved | ParseFailed

definition rule_Validate :: "rule \<Rightarrow> fw_error option" where
  "rule_Validate r =
     (if \<not> idPattern (ru_ID r) then Some (InvalidRuleID (ru_ID r))
      else if ru_Port r < 1 \<or> ru_Port r > 65535 then Some (InvalidPort (ru_Port r))
      else if ru_Proto r \<noteq> ''tcp'' \<and> ru_Proto r \<noteq> ''udp'' then Some (InvalidProtocol (ru_Proto r))
      else None)"

definition tagID :: "string \<Rightarrow> string \<times> bool" where
  "tagID comment0 =
     (let comment = trim_space comment0 in
      if \<not> has_prefix Tag comment then ([], False)
      else let i = trim_prefix Tag comment in (i, idPattern i))"

definition sortedRules :: "rule list \<Rightarrow> rule list" where
  "sortedRules rs = sort_key (\<lambda>r. (ru_Port r, ru_Proto r)) rs"

section \<open>Results\<close>

definition StateOpen :: string where [rule_state_defs]: "StateOpen = ''open''"
definition StateExisting :: string where [rule_state_defs]: "StateExisting = ''existing''"
definition StateError :: string where [rule_state_defs]: "StateError = ''error''"

record rule_state =
  rs_State :: string
  rs_Error :: string

record fw_result =
  re_Backend :: string
  re_Active :: bool
  re_Note :: string
  re_Rules :: "(string \<times> rule_state) list"

definition newResult :: "string \<Rightarrow> fw_result" where
  "newResult name = \<lparr>re_Backend = name, re_Active = False, re_Note = [], re_Rules = []\<rparr>"

definition set_rule :: "rule \<Rightarrow> string \<Rightarrow> string option \<Rightarrow> fw_result \<Rightarrow> fw_result" where
  "set_rule r st err res =
     res\<lparr>re_Rules := AList.update (Key r)
       (case err of None \<Rightarrow> \<lparr>rs_State = st, rs_Error = []\<rparr> | Some e \<Rightarrow> \<lparr>rs_State = StateError, rs_Error = e\<rparr>)
       (re_Rules res)\<rparr>"

definition state_of :: "fw_result \<Rightarrow> string \<Rightarrow> rule_state option" where
  "state_of res k = map_of (re_Rules res) k"

text \<open>A note is extended by trimming \<open>note + " " + msg\<close>.\<close>

definition add_note :: "string \<Rightarrow> fw_result \<Rightarrow> fw_result" where
  "add_note msg res = res\<lparr>re_Note := trim_space (re_Note res @ CHR '' '' # msg)\<rparr>"

section \<open>Running commands\<close>

type_synonym 'h run = "string list \<Rightarrow> 'h \<Rightarrow> (string, string) result \<times> 'h"

text \<open>
  \<open>r\<close> is the error message of a failed command; \<open>fails\<close> is the \<open>err\<close> of Go.
\<close>

definition err_of :: "(string, string) result \<Rightarrow> string option" where
  "err_of r = (case r of Inl e \<Rightarrow> Some e | Inr _ \<Rightarrow> None)"

text \<open>
  A backend is its name and its \<open>Sync\<close>; the error return of \<open>Sync\<close> is the \<open>Inl\<close> side.
\<close>

type_synonym 'h sync = "rule list \<Rightarrow> 'h \<Rightarrow> (fw_error, fw_result) result \<times> 'h"

text \<open>Reading a Go map: a missing key gives the zero value.\<close>

definition str_get :: "(string \<times> string) list \<Rightarrow> string \<Rightarrow> string" where
  "str_get m k = (case map_of m k of None \<Rightarrow> [] | Some v \<Rightarrow> v)"

section \<open>Matching text\<close>

text \<open>Go's \<open>\s\<close>.\<close>

definition re_space :: "char \<Rightarrow> bool" where
  "re_space c \<longleftrightarrow> c \<in> {CHR 0x09, CHR 0x0A, CHR 0x0C, CHR 0x0D, CHR '' ''}"

definition lit :: "string \<Rightarrow> string \<Rightarrow> string option" where
  "lit p s = (if has_prefix p s then Some (drop (length p) s) else None)"

definition opt_lit :: "string \<Rightarrow> string \<Rightarrow> string" where
  "opt_lit p s = (if has_prefix p s then drop (length p) s else s)"

definition spaces1 :: "string \<Rightarrow> string option" where
  "spaces1 s = (if s \<noteq> [] \<and> re_space (hd s) then Some (dropWhile re_space s) else None)"

definition strip_right :: "string \<Rightarrow> string" where
  "strip_right s = rev (dropWhile re_space (rev s))"

section \<open>No firewall\<close>

definition none_Sync :: "'h sync" where
  "none_Sync want h =
     (Inr (foldl (\<lambda>res w. set_rule w StateOpen None res)
        ((newResult ''none'')\<lparr>re_Note := ''no active host firewall detected''\<rparr>) want), h)"

section \<open>Facts\<close>

lemma state_of_set_rule [simp]:
  "state_of (set_rule r st err res) k =
     (if k = Key r then Some (case err of None \<Rightarrow> \<lparr>rs_State = st, rs_Error = []\<rparr> | Some e \<Rightarrow> \<lparr>rs_State = StateError, rs_Error = e\<rparr>)
      else state_of res k)"
  by (simp add: state_of_def set_rule_def update_conv')

lemma state_of_newResult [simp]: "state_of (newResult n) k = None"
  by (simp add: state_of_def newResult_def)

lemma state_of_note [simp]: "state_of (res\<lparr>re_Note := n\<rparr>) k = state_of res k"
  by (simp add: state_of_def)

lemma state_of_active [simp]: "state_of (res\<lparr>re_Active := b\<rparr>) k = state_of res k"
  by (simp add: state_of_def)

lemma state_of_add_note [simp]: "state_of (add_note m res) k = state_of res k"
  by (simp add: add_note_def)

definition result_keys :: "fw_result \<Rightarrow> string set" where
  "result_keys res = fst ` set (re_Rules res)"

lemma result_keys_set [simp]: "result_keys (set_rule r st err res) = insert (Key r) (result_keys res)"
  by (simp add: result_keys_def set_rule_def dom_update)

lemma result_keys_new [simp]: "result_keys (newResult n) = {}"
  by (simp add: result_keys_def newResult_def)

lemma result_keys_note [simp]: "result_keys (add_note m res) = result_keys res"
  by (simp add: result_keys_def add_note_def)

lemma result_keys_upd [simp]:
  "result_keys (res\<lparr>re_Note := n\<rparr>) = result_keys res" "result_keys (res\<lparr>re_Active := b\<rparr>) = result_keys res"
  by (simp_all add: result_keys_def)

lemma result_keys_state: "k \<in> result_keys res \<longleftrightarrow> state_of res k \<noteq> None"
  by (simp add: result_keys_def state_of_def map_of_eq_None_iff)

lemma set_sortedRules [simp]: "set (sortedRules rs) = set rs"
  by (simp add: sortedRules_def)

lemma distinct_sortedRules: "distinct (map f (sortedRules rs)) \<longleftrightarrow> distinct (map f rs)"
proof -
  have "mset (map f (sortedRules rs)) = mset (map f rs)" by (simp add: sortedRules_def)
  then show ?thesis by (rule mset_eq_imp_distinct_iff)
qed

lemma itoa_no_slash: "c \<in> set (itoa n) \<Longrightarrow> c \<noteq> CHR ''/''"
  by (auto dest: itoa_chars simp: is_digit_def)

lemma port_key_inj [simp]: "port_key p a = port_key q b \<longleftrightarrow> p = q \<and> a = b"
proof
  assume e: "port_key p a = port_key q b"
  have tw: "takeWhile (\<lambda>c. c \<noteq> CHR ''/'') (port_key x y) = itoa x" for x y
    unfolding port_key_def by (rule takeWhile_append_stop) (auto dest: itoa_no_slash)
  have "itoa p = itoa q" using tw[of p a] tw[of q b] e by simp
  with e show "p = q \<and> a = b" by (simp add: port_key_def)
qed simp

lemma Key_inj: "Key r = Key s \<longleftrightarrow> ru_Port r = ru_Port s \<and> ru_Proto r = ru_Proto s"
  by (simp add: Key_def)

lemma ValidMode_iff: "ValidMode m \<longleftrightarrow> m \<in> set Modes"
proof -
  have "ValidMode_loop m xs \<longleftrightarrow> m \<in> set xs" for xs by (induction xs) auto
  then show ?thesis by (simp add: ValidMode_def)
qed

lemma rule_Validate_None:
  "rule_Validate r = None \<longleftrightarrow> idPattern (ru_ID r) \<and> 1 \<le> ru_Port r \<and> ru_Port r \<le> 65535
     \<and> (ru_Proto r = ''tcp'' \<or> ru_Proto r = ''udp'')"
  by (auto simp: rule_Validate_def)

lemma tagID_ok: "tagID c = (i, True) \<Longrightarrow> idPattern i"
  by (auto simp: tagID_def Let_def split: if_splits)

text \<open>Every tag the parser finds is one the agent could have written.\<close>

definition tags_valid :: "(string \<times> string) list \<Rightarrow> bool" where
  "tags_valid ts \<longleftrightarrow> (\<forall>(k, i)\<in>set ts. idPattern i)"

lemma tags_valid_update: "tags_valid ts \<Longrightarrow> idPattern i \<Longrightarrow> tags_valid (AList.update k i ts)"
  by (induction ts) (auto simp: tags_valid_def)

lemma str_get_valid: "tags_valid ts \<Longrightarrow> str_get ts k \<noteq> [] \<Longrightarrow> idPattern (str_get ts k)"
  by (auto simp: str_get_def tags_valid_def dest: map_of_SomeD split: option.splits)

section \<open>What a backend promises\<close>

text \<open>
  A successful sync reports exactly one of the three states for every wanted rule and for
  nothing else, and the only commands it runs are owned ones: commands that read, or that add or
  remove a rule of the relay. The last law is stated for any property \<open>P\<close> of the host that owned
  commands keep, so it covers a trace of the commands as well. A backend's state may hold more
  than the host the commands run on (a ledger file); \<open>host\<close> is the host part.
\<close>

definition rule_states :: "string set" where
  "rule_states = {StateOpen, StateExisting, StateError}"

definition good_states :: "fw_result \<Rightarrow> bool" where
  "good_states res \<longleftrightarrow> (\<forall>k rs. state_of res k = Some rs \<longrightarrow> rs_State rs \<in> rule_states)"

lemma rule_statesI [simp]: "StateOpen \<in> rule_states" "StateExisting \<in> rule_states" "StateError \<in> rule_states"
  by (simp_all add: rule_states_def)

lemma good_states_new [simp]: "good_states (newResult n)"
  by (simp add: good_states_def)

lemma good_states_set [simp]: "good_states res \<Longrightarrow> st \<in> rule_states \<Longrightarrow> good_states (set_rule w st err res)"
  by (simp add: good_states_def split: option.splits)

lemma good_states_note [simp]: "good_states (add_note m res) = good_states res"
  by (simp add: good_states_def)

lemma good_states_upd [simp]:
  "good_states (res\<lparr>re_Note := n\<rparr>) = good_states res" "good_states (res\<lparr>re_Active := b\<rparr>) = good_states res"
  by (simp_all add: good_states_def)

locale fw_backend =
  fixes Sync :: "'h run \<Rightarrow> 's sync"
    and host :: "'s \<Rightarrow> 'h"
    and owned :: "string list \<Rightarrow> bool"
  assumes covers: "Sync run want h = (Inr res, h') \<Longrightarrow> result_keys res = Key ` set want"
    and states: "Sync run want h = (Inr res, h') \<Longrightarrow> good_states res"
    and only_owned: "(\<And>c h. owned c \<Longrightarrow> P h \<Longrightarrow> P (snd (run c h))) \<Longrightarrow>
       \<forall>w\<in>set want. rule_Validate w = None \<Longrightarrow> P (host s) \<Longrightarrow> P (host (snd (Sync run want s)))"
begin

lemma every_rule_reported:
  assumes "Sync run want h = (Inr res, h')" and "w \<in> set want"
  shows "\<exists>rs. state_of res (Key w) = Some rs \<and> rs_State rs \<in> rule_states"
proof -
  have "Key w \<in> result_keys res" using covers[OF assms(1)] assms(2) by blast
  then obtain rs where "state_of res (Key w) = Some rs" by (auto simp: result_keys_state)
  with states[OF assms(1)] show ?thesis by (simp add: good_states_def)
qed

lemma unknown_rule_not_reported:
  assumes "Sync run want h = (Inr res, h')" and "k \<notin> Key ` set want"
  shows "state_of res k = None"
  using covers[OF assms(1)] assms(2) result_keys_state by blast

end

lemma none_loop_keys:
  "result_keys (foldl (\<lambda>res w. set_rule w StateOpen None res) res want) = result_keys res \<union> Key ` set want"
  by (induction want arbitrary: res) auto

lemma none_loop_states:
  "good_states res \<Longrightarrow> good_states (foldl (\<lambda>res w. set_rule w StateOpen None res) res want)"
  by (induction want arbitrary: res) auto

interpretation none: fw_backend "\<lambda>_. none_Sync" "\<lambda>h. h" "\<lambda>_. False"
proof
  fix want h h' res
  assume s: "none_Sync want h = (Inr res, h')"
  then show "result_keys res = Key ` set want"
    by (auto simp: none_Sync_def none_loop_keys)
  show "good_states res" using s by (auto simp: none_Sync_def none_loop_states)
qed (simp add: none_Sync_def)

end
