(* ===== verification/Fw_Ufw.thy ===== *)
theory Fw_Ufw
  imports Firewall
begin

text \<open>
  \<open>internal/firewall/ufw.go\<close>: the parser of \<open>ufw status\<close> and the sync of tagged rules. The
  regular expression of a status line is an explicit matcher. The abstract host \<open>ufw_host\<close>
  states what the sync relies on in the \<open>ufw\<close> command.
\<close>

section \<open>Parsing the status\<close>

definition opt_proto :: "string \<Rightarrow> string \<times> string" where
  "opt_proto s =
     (if has_prefix ''/tcp'' s then (''tcp'', drop 4 s)
      else if has_prefix ''/udp'' s then (''udp'', drop 4 s)
      else ([], s))"

text \<open>
  \<open>ufwLine\<close>: a port, an optional protocol, an optional \<open>(v6)\<close>, \<open>ALLOW\<close> or \<open>ALLOW IN\<close> from
  \<open>Anywhere\<close>, and an optional comment. The result is the three groups.
\<close>

definition match_tail :: "string \<Rightarrow> string option" where
  "match_tail s =
     (let s1 = dropWhile re_space s in
      if s1 = [] then Some []
      else if hd s1 = CHR ''#'' then Some (strip_right (dropWhile re_space (tl s1)))
      else None)"

definition match_ufw :: "string \<Rightarrow> (string \<times> string \<times> string) option" where
  "match_ufw s =
     (let ds = takeWhile is_digit s; r0 = dropWhile is_digit s in
      if ds = [] then None
      else case opt_proto r0 of (proto, r1) \<Rightarrow>
        Option.bind (spaces1 (opt_lit '' (v6)'' r1)) (\<lambda>r2.
        Option.bind (lit ''ALLOW'' r2) (\<lambda>r3.
        Option.bind (spaces1 (opt_lit '' IN'' r3)) (\<lambda>r4.
        Option.bind (lit ''Anywhere'' r4) (\<lambda>r5.
        Option.bind (match_tail (opt_lit '' (v6)'' r5)) (\<lambda>c.
        Some (ds, proto, c)))))))"

record ufw_status =
  us_active :: bool
  us_tagged :: "(string \<times> string) list"
  us_untagged :: "string list"

definition trim_right_cr :: "string \<Rightarrow> string" where
  "trim_right_cr s = rev (dropWhile (\<lambda>c. c = CHR 0x0D) (rev s))"

definition ufw_add_keys :: "bool \<Rightarrow> string \<Rightarrow> string \<Rightarrow> int \<Rightarrow> string list \<Rightarrow> ufw_status \<Rightarrow> ufw_status" where
  "ufw_add_keys ours m2 i port protos st =
     foldl (\<lambda>st proto.
        if ours \<and> m2 \<noteq> [] then st\<lparr>us_tagged := AList.update (port_key port proto) i (us_tagged st)\<rparr>
        else st\<lparr>us_untagged := List.insert (port_key port proto) (us_untagged st)\<rparr>) st protos"

definition ufw_line :: "ufw_status \<Rightarrow> string \<Rightarrow> ufw_status" where
  "ufw_line st line0 =
     (let line = trim_right_cr line0 in
      if has_prefix ''Status:'' line
      then st\<lparr>us_active := contains line ''active'' \<and> \<not> contains line ''inactive''\<rparr>
      else case match_ufw line of
        None \<Rightarrow> st
      | Some (m1, m2, m3) \<Rightarrow>
          (let port = fst (atoi m1);
               protos = (if m2 = [] then [''tcp'', ''udp''] else [m2])
           in case tagID m3 of (i, ours) \<Rightarrow> ufw_add_keys ours m2 i port protos st))"

definition parseUfwStatus :: "string \<Rightarrow> ufw_status" where
  "parseUfwStatus out =
     foldl ufw_line \<lparr>us_active = False, us_tagged = [], us_untagged = []\<rparr> (split_on (CHR 0x0A) out)"

section \<open>Sync\<close>

definition ufw_status_cmd :: "string list" where
  "ufw_status_cmd = [''ufw'', ''status'']"

definition ufw_allow_cmd :: "string \<Rightarrow> string \<Rightarrow> string list" where
  "ufw_allow_cmd key i = [''ufw'', ''allow'', key, ''comment'', Tag @ i]"

definition ufw_delete_cmd :: "string \<Rightarrow> string \<Rightarrow> string list" where
  "ufw_delete_cmd key i = [''ufw'', ''delete'', ''allow'', key, ''comment'', Tag @ i]"

fun ufw_want :: "'h run \<Rightarrow> ufw_status \<Rightarrow> rule list \<Rightarrow> fw_result \<Rightarrow> 'h \<Rightarrow> fw_result \<times> 'h" where
  "ufw_want run st [] res h = (res, h)"
| "ufw_want run st (w # ws) res h =
     (let key = Key w in
      if key \<in> set (us_untagged st) then ufw_want run st ws (set_rule w StateExisting None res) h
      else if str_get (us_tagged st) key = ru_ID w then ufw_want run st ws (set_rule w StateOpen None res) h
      else
        let old = str_get (us_tagged st) key;
            h1 = (if old \<noteq> [] then snd (run (ufw_delete_cmd key old) h) else h)
        in case run (ufw_allow_cmd key (ru_ID w)) h1 of (r, h2) \<Rightarrow>
             ufw_want run st ws (set_rule w StateOpen (err_of r) res) h2)"

fun ufw_drop :: "'h run \<Rightarrow> string set \<Rightarrow> (string \<times> string) list \<Rightarrow> fw_result \<Rightarrow> 'h \<Rightarrow> fw_result \<times> 'h" where
  "ufw_drop run wanted [] res h = (res, h)"
| "ufw_drop run wanted ((key, i) # ts) res h =
     (if key \<in> wanted then ufw_drop run wanted ts res h
      else case run (ufw_delete_cmd key i) h of
        (Inl e, h1) \<Rightarrow>
          ufw_drop run wanted ts (add_note (''could not remove '' @ key @ '': '' @ e) res) h1
      | (Inr _, h1) \<Rightarrow> ufw_drop run wanted ts res h1)"

definition ufw_Sync :: "'h run \<Rightarrow> 'h sync" where
  "ufw_Sync run want h =
     (case run ufw_status_cmd h of
        (Inl e, h1) \<Rightarrow> (Inl (CommandFailed e), h1)
      | (Inr out, h1) \<Rightarrow>
          (let st = parseUfwStatus out;
               res0 = (newResult ModeUFW)\<lparr>re_Active := us_active st\<rparr>;
               res1 = (if us_active st then res0
                       else res0\<lparr>re_Note := ''ufw is installed but inactive; rules are staged for when it is enabled''\<rparr>)
           in case ufw_want run st (sortedRules want) res1 h1 of
                (res2, h2) \<Rightarrow>
                  (case ufw_drop run (Key ` set want) (us_tagged st) res2 h2 of
                     (res3, h3) \<Rightarrow> (Inr res3, h3))))"

section \<open>The contract of a backend\<close>

definition ufw_owned :: "string list \<Rightarrow> bool" where
  "ufw_owned c \<longleftrightarrow> c = ufw_status_cmd
     \<or> (\<exists>key i. idPattern i \<and> (c = ufw_allow_cmd key i \<or> c = ufw_delete_cmd key i))"

lemma ufw_want_keys:
  "ufw_want run st ws res h = (res', h') \<Longrightarrow> result_keys res' = result_keys res \<union> Key ` set ws"
  by (induction run st ws res h rule: ufw_want.induct) (auto simp: Let_def split: if_splits prod.splits)

lemma ufw_drop_keys:
  "ufw_drop run wanted ts res h = (res', h') \<Longrightarrow> result_keys res' = result_keys res"
  by (induction run wanted ts res h rule: ufw_drop.induct) (auto split: if_splits prod.splits sum.splits)

lemma ufw_want_states:
  "ufw_want run st ws res h = (res', h') \<Longrightarrow> good_states res \<Longrightarrow> good_states res'"
  by (induction run st ws res h rule: ufw_want.induct) (auto simp: Let_def split: if_splits prod.splits)

lemma ufw_drop_states:
  "ufw_drop run wanted ts res h = (res', h') \<Longrightarrow> good_states res \<Longrightarrow> good_states res'"
  by (induction run wanted ts res h rule: ufw_drop.induct) (auto split: if_splits prod.splits sum.splits)

lemma ufw_add_keys_valid:
  "tags_valid (us_tagged st) \<Longrightarrow> (ours \<longrightarrow> idPattern i) \<Longrightarrow> tags_valid (us_tagged (ufw_add_keys ours m2 i port protos st))"
  unfolding ufw_add_keys_def by (induction protos arbitrary: st) (auto simp: tags_valid_update)

lemma ufw_line_valid: "tags_valid (us_tagged st) \<Longrightarrow> tags_valid (us_tagged (ufw_line st l))"
  by (auto simp: ufw_line_def Let_def intro!: ufw_add_keys_valid dest: tagID_ok split: option.splits prod.splits)

lemma parse_tags_valid: "tags_valid (us_tagged (parseUfwStatus out))"
proof -
  have "tags_valid (us_tagged (foldl ufw_line st ls))" if "tags_valid (us_tagged st)" for st ls
    using that by (induction ls arbitrary: st) (auto simp: ufw_line_valid)
  from this[of "\<lparr>us_active = False, us_tagged = [], us_untagged = []\<rparr>"] show ?thesis
    by (simp add: parseUfwStatus_def tags_valid_def[of "[]"])
qed

lemma ufw_want_owned:
  assumes P: "\<And>c h. ufw_owned c \<Longrightarrow> P h \<Longrightarrow> P (snd (run c h))" and "tags_valid (us_tagged st)"
    and "\<forall>w\<in>set ws. rule_Validate w = None" and "P h" and "ufw_want run st ws res h = (res', h')"
  shows "P h'"
  using assms(3-5)
proof (induction ws arbitrary: res h)
  case Nil
  then show ?case by simp
next
  case (Cons w ws)
  have w: "idPattern (ru_ID w)" using Cons.prems(1) by (simp add: rule_Validate_None)
  define h1 where "h1 = (if str_get (us_tagged st) (Key w) \<noteq> []
    then snd (run (ufw_delete_cmd (Key w) (str_get (us_tagged st) (Key w))) h) else h)"
  have "P h1"
    using Cons.prems(2) str_get_valid[OF assms(2), of "Key w"] P by (auto simp: h1_def ufw_owned_def)
  then have "P (snd (run (ufw_allow_cmd (Key w) (ru_ID w)) h1))"
    using w P by (auto simp: ufw_owned_def)
  with Cons show ?case
    by (simp add: Let_def h1_def[symmetric] split: if_splits prod.splits)
qed

lemma ufw_drop_owned:
  assumes P: "\<And>c h. ufw_owned c \<Longrightarrow> P h \<Longrightarrow> P (snd (run c h))" and "tags_valid ts"
    and "P h" and "ufw_drop run wanted ts res h = (res', h')"
  shows "P h'"
  using assms(2-4)
proof (induction ts arbitrary: res h)
  case Nil
  then show ?case by simp
next
  case (Cons t ts)
  obtain k i where t: "t = (k, i)" by (cases t)
  with Cons.prems(1) have i: "idPattern i" "tags_valid ts" by (auto simp: tags_valid_def)
  then have "P (snd (run (ufw_delete_cmd k i) h))" using Cons.prems(2) P by (auto simp: ufw_owned_def)
  with Cons.IH[OF i(2)] Cons.prems(2,3) show ?case
    by (auto simp: t split: if_splits prod.splits sum.splits)
qed

interpretation ufw: fw_backend ufw_Sync "\<lambda>h. h" ufw_owned
proof
  fix run :: "'h run" and want h h' res and P
  assume s: "ufw_Sync run want h = (Inr res, h')"
  then show "result_keys res = Key ` set want"
    by (auto simp: ufw_Sync_def Let_def dest!: ufw_drop_keys ufw_want_keys split: prod.splits sum.splits if_splits)
  show "good_states res" using s
    by (auto simp: ufw_Sync_def Let_def dest!: ufw_drop_states ufw_want_states split: prod.splits sum.splits if_splits)
next
  fix run :: "'h run" and want h and P
  assume P: "\<And>c h. ufw_owned c \<Longrightarrow> P h \<Longrightarrow> P (snd (run c h))"
    and want: "\<forall>w\<in>set want. rule_Validate w = None" and h: "P h"
  obtain r h1 where r: "run ufw_status_cmd h = (r, h1)" by fastforce
  have h1: "P h1" using P[OF _ h, of ufw_status_cmd] r by (simp add: ufw_owned_def)
  show "P (snd (ufw_Sync run want h))"
  proof (cases r)
    case (Inl e)
    with r h1 show ?thesis by (simp add: ufw_Sync_def)
  next
    case (Inr out)
    obtain res1 where A: "ufw_Sync run want h =
        (case ufw_want run (parseUfwStatus out) (sortedRules want) res1 h1 of (res2, h2) \<Rightarrow>
           case ufw_drop run (Key ` set want) (us_tagged (parseUfwStatus out)) res2 h2 of (res3, h3) \<Rightarrow> (Inr res3, h3))"
      by (auto simp: ufw_Sync_def Let_def r Inr)
    obtain res2 h2 where w: "ufw_want run (parseUfwStatus out) (sortedRules want) res1 h1 = (res2, h2)" by fastforce
    obtain res3 h3 where d: "ufw_drop run (Key ` set want) (us_tagged (parseUfwStatus out)) res2 h2 = (res3, h3)"
      by fastforce
    have "P h2" by (rule ufw_want_owned[where P = P, OF P _ _ h1 w]) (use want parse_tags_valid in simp_all)
    then have "P h3" by (intro ufw_drop_owned[where P = P and run = run, OF P parse_tags_valid[of out] _ d]) simp_all
    then show ?thesis by (simp add: A w d)
  qed
qed

section \<open>Convergence\<close>

text \<open>
  What the sync relies on in the \<open>ufw\<close> command, for the hosts \<open>hok\<close>: \<open>tags\<close> are the rules
  with the relay's comment, \<open>others\<close> the keys that other rules allow. \<open>ufw status\<close> prints both
  and changes nothing, \<open>ufw allow\<close> adds a tagged rule, \<open>ufw delete allow\<close> removes it.
\<close>

definition ufw_host ::
  "('h \<Rightarrow> bool) \<Rightarrow> ('h \<Rightarrow> string \<rightharpoonup> string) \<Rightarrow> ('h \<Rightarrow> string set) \<Rightarrow> 'h run \<Rightarrow> bool" where
  "ufw_host hok tags others run \<longleftrightarrow>
     (\<forall>h. hok h \<longrightarrow> (\<exists>out. run ufw_status_cmd h = (Inr out, h)
        \<and> map_of (us_tagged (parseUfwStatus out)) = tags h \<and> set (us_untagged (parseUfwStatus out)) = others h))
     \<and> (\<forall>h w. hok h \<longrightarrow> rule_Validate w = None \<longrightarrow> tags h (Key w) = None \<longrightarrow>
          (\<exists>o1 h'. run (ufw_allow_cmd (Key w) (ru_ID w)) h = (Inr o1, h')
             \<and> hok h' \<and> tags h' = (tags h)(Key w \<mapsto> ru_ID w) \<and> others h' = others h))
     \<and> (\<forall>h k i. hok h \<longrightarrow> tags h k = Some i \<longrightarrow>
          (\<exists>o1 h'. run (ufw_delete_cmd k i) h = (Inr o1, h')
             \<and> hok h' \<and> tags h' = (tags h)(k := None) \<and> others h' = others h))"

definition want_ids :: "rule list \<Rightarrow> string \<rightharpoonup> string" where
  "want_ids want = map_of (map (\<lambda>w. (Key w, ru_ID w)) want)"

lemma want_ids_None: "want_ids want k = None \<longleftrightarrow> k \<notin> Key ` set want"
  by (simp add: want_ids_def map_of_eq_None_iff image_image)

lemma want_ids_Some:
  assumes "distinct (map Key want)" and "w \<in> set want"
  shows "want_ids want (Key w) = Some (ru_ID w)"
  unfolding want_ids_def by (rule map_of_is_SomeI) (use assms in \<open>auto simp: comp_def\<close>)

definition ufw_target :: "rule list \<Rightarrow> (string \<rightharpoonup> string) \<Rightarrow> string set \<Rightarrow> string \<rightharpoonup> string" where
  "ufw_target want T E k =
     (if k \<notin> Key ` set want then None else if k \<in> E then T k else want_ids want k)"

lemma str_get_eq: "i \<noteq> [] \<Longrightarrow> str_get ts k = i \<longleftrightarrow> map_of ts k = Some i"
  by (auto simp: str_get_def split: option.splits)

lemma idPattern_not_Nil: "idPattern i \<Longrightarrow> i \<noteq> []"
  by (auto simp: idPattern_def)

definition open_or_existing :: "string set \<Rightarrow> rule \<Rightarrow> rule_state" where
  "open_or_existing E w = \<lparr>rs_State = (if Key w \<in> E then StateExisting else StateOpen), rs_Error = []\<rparr>"

lemma ufw_hostD:
  assumes "ufw_host hok tags others run" and "hok h"
  shows "\<exists>out. run ufw_status_cmd h = (Inr out, h)
      \<and> map_of (us_tagged (parseUfwStatus out)) = tags h \<and> set (us_untagged (parseUfwStatus out)) = others h"
    and "rule_Validate w = None \<Longrightarrow> tags h (Key w) = None \<Longrightarrow>
      \<exists>o1 h'. run (ufw_allow_cmd (Key w) (ru_ID w)) h = (Inr o1, h')
        \<and> hok h' \<and> tags h' = (tags h)(Key w \<mapsto> ru_ID w) \<and> others h' = others h"
    and "tags h k = Some i \<Longrightarrow>
      \<exists>o1 h'. run (ufw_delete_cmd k i) h = (Inr o1, h')
        \<and> hok h' \<and> tags h' = (tags h)(k := None) \<and> others h' = others h"
  using assms unfolding ufw_host_def by blast+

text \<open>One wanted rule: the command sequence leaves exactly its tag on its key.\<close>

lemma ufw_want_step:
  assumes host: "ufw_host hok tags others run" and "tags_valid (us_tagged st)" and "hok h"
    and w: "rule_Validate w = None" and "tags h (Key w) = map_of (us_tagged st) (Key w)"
    and "Key w \<notin> set (us_untagged st)" and ne: "str_get (us_tagged st) (Key w) \<noteq> ru_ID w"
  obtains o1 h1 where "ufw_want run st (w # ws) res h = ufw_want run st ws (set_rule w StateOpen None res) h1"
    and "hok h1" and "tags h1 = (tags h)(Key w \<mapsto> ru_ID w)" and "others h1 = others h"
proof -
  let ?old = "str_get (us_tagged st) (Key w)"
  obtain h0 where h0: "h0 = (if ?old \<noteq> [] then snd (run (ufw_delete_cmd (Key w) ?old) h) else h)"
    "hok h0" "tags h0 = (tags h)(Key w := None)" "others h0 = others h"
  proof (cases "?old = []")
    case True
    have "map_of (us_tagged st) (Key w) = None"
    proof (rule ccontr)
      assume "map_of (us_tagged st) (Key w) \<noteq> None"
      then obtain i where i: "map_of (us_tagged st) (Key w) = Some i" by blast
      then have "idPattern i" using assms(2) by (auto simp: tags_valid_def dest: map_of_SomeD)
      with i True show False by (simp add: str_get_def idPattern_not_Nil)
    qed
    then have "tags h = (tags h)(Key w := None)" using assms(5) by auto
    with that[of h] True assms(3) show ?thesis by simp
  next
    case False
    then have "map_of (us_tagged st) (Key w) = Some ?old"
      by (auto simp: str_get_def split: option.splits)
    then have "tags h (Key w) = Some ?old" using assms(5) by simp
    from ufw_hostD(3)[OF host assms(3) this] that False show ?thesis by fastforce
  qed
  have "tags h0 (Key w) = None" using h0(3) by simp
  from ufw_hostD(2)[OF host h0(2) w this] obtain o1 h1 where
    h1: "run (ufw_allow_cmd (Key w) (ru_ID w)) h0 = (Inr o1, h1)" "hok h1"
    "tags h1 = (tags h0)(Key w \<mapsto> ru_ID w)" "others h1 = others h0" by blast
  have "ufw_want run st (w # ws) res h = ufw_want run st ws (set_rule w StateOpen None res) h1"
    unfolding ufw_want.simps(2) Let_def h0(1)[symmetric]
    using assms(6) ne h1(1) by (simp add: err_of_def)
  then show ?thesis using that[of h1] h1(2-4) h0(3,4) by simp
qed

text \<open>One wanted rule: kept as it is, counted as existing, or put in the place of another of the relay's tags.\<close>

lemma ufw_want_one:
  assumes host: "ufw_host hok tags others run" and tv: "tags_valid (us_tagged st)" and E: "set (us_untagged st) = E"
    and h: "hok h" and v: "rule_Validate w = None" and tw: "tags h (Key w) = map_of (us_tagged st) (Key w)"
  obtains h1 st1 where "ufw_want run st (w # ws) res h = ufw_want run st ws (set_rule w st1 None res) h1"
    and "hok h1" "others h1 = others h" and "st1 = (if Key w \<in> E then StateExisting else StateOpen)"
    and "tags h1 = (if Key w \<in> E then tags h else (tags h)(Key w \<mapsto> ru_ID w))"
    and "Key w \<in> E \<or> tags h (Key w) = Some (ru_ID w) \<Longrightarrow> h1 = h"
proof -
  have id: "ru_ID w \<noteq> []" using v by (auto simp: rule_Validate_None idPattern_not_Nil)
  show thesis
  proof (cases "Key w \<in> E")
    case True
    with that[of StateExisting h] h E show ?thesis by simp
  next
    case False
    show ?thesis
    proof (cases "str_get (us_tagged st) (Key w) = ru_ID w")
      case True
      then have "tags h (Key w) = Some (ru_ID w)" using tw id by (simp add: str_get_eq)
      then have "tags h = (tags h)(Key w \<mapsto> ru_ID w)" by auto
      with that[of StateOpen h] True False h E show ?thesis by simp
    next
      case ne: False
      have "Key w \<notin> set (us_untagged st)" using False E by simp
      from ufw_want_step[OF host tv h v tw this ne, of ws res] obtain h1 where
        "ufw_want run st (w # ws) res h = ufw_want run st ws (set_rule w StateOpen None res) h1"
        "hok h1" "tags h1 = (tags h)(Key w \<mapsto> ru_ID w)" "others h1 = others h" by metis
      moreover have "tags h (Key w) \<noteq> Some (ru_ID w)" using ne tw id by (simp add: str_get_eq)
      ultimately show ?thesis using that[of StateOpen h1] False by simp
    qed
  qed
qed

lemma ufw_want_run:
  assumes host: "ufw_host hok tags others run" and tv: "tags_valid (us_tagged st)"
    and E: "set (us_untagged st) = E"
    and "hok h" and "distinct (map Key ws)" and "\<forall>w\<in>set ws. rule_Validate w = None"
    and "\<forall>w\<in>set ws. tags h (Key w) = map_of (us_tagged st) (Key w)"
    and "ufw_want run st ws res h = (res', h')"
  shows "hok h' \<and> others h' = others h
    \<and> (\<forall>k. k \<notin> Key ` set ws \<longrightarrow> tags h' k = tags h k \<and> state_of res' k = state_of res k)
    \<and> (\<forall>w\<in>set ws. tags h' (Key w) = (if Key w \<in> E then tags h (Key w) else Some (ru_ID w))
         \<and> state_of res' (Key w) = Some (open_or_existing E w))
    \<and> ((\<forall>w\<in>set ws. Key w \<in> E \<or> tags h (Key w) = Some (ru_ID w)) \<longrightarrow> h' = h)"
  using assms(4-)
proof (induction ws arbitrary: res h)
  case Nil
  then show ?case by simp
next
  case (Cons w ws)
  have nw: "Key w \<notin> Key ` set ws" using Cons.prems(2) by auto
  have v: "rule_Validate w = None" and tw: "tags h (Key w) = map_of (us_tagged st) (Key w)" using Cons.prems(3,4) by simp_all
  from ufw_want_one[OF host tv E Cons.prems(1) v tw, of ws res] obtain h1 st1 where
    step: "ufw_want run st (w # ws) res h = ufw_want run st ws (set_rule w st1 None res) h1"
    and h1: "hok h1" "others h1 = others h"
    and st1: "st1 = (if Key w \<in> E then StateExisting else StateOpen)"
    and t1: "tags h1 = (if Key w \<in> E then tags h else (tags h)(Key w \<mapsto> ru_ID w))"
    and same: "Key w \<in> E \<or> tags h (Key w) = Some (ru_ID w) \<Longrightarrow> h1 = h" by metis
  have keep: "tags h1 k = tags h k" if "k \<noteq> Key w" for k using t1 that by simp
  have "\<forall>w'\<in>set ws. tags h1 (Key w') = map_of (us_tagged st) (Key w')"
    using Cons.prems(4) nw keep by (metis image_eqI list.set_intros(2))
  from Cons.IH[OF h1(1) _ _ this, of "set_rule w st1 None res"] Cons.prems(2,3,5) step
  have IH: "hok h'" "others h' = others h1"
    "\<And>k. k \<notin> Key ` set ws \<Longrightarrow> tags h' k = tags h1 k \<and> state_of res' k = state_of (set_rule w st1 None res) k"
    "\<And>v. v \<in> set ws \<Longrightarrow> tags h' (Key v) = (if Key v \<in> E then tags h1 (Key v) else Some (ru_ID v))
         \<and> state_of res' (Key v) = Some (open_or_existing E v)"
    "(\<forall>v\<in>set ws. Key v \<in> E \<or> tags h1 (Key v) = Some (ru_ID v)) \<longrightarrow> h' = h1"
    by simp_all
  show ?case
  proof (intro conjI allI ballI impI)
    show "hok h'" "others h' = others h" using IH(1,2) h1(2) by simp_all
    fix k assume "k \<notin> Key ` set (w # ws)"
    then show "tags h' k = tags h k" "state_of res' k = state_of res k" using IH(3)[of k] keep by simp_all
  next
    fix v assume "v \<in> set (w # ws)"
    then have v: "v = w \<or> v \<in> set ws \<and> Key v \<noteq> Key w" using nw by (metis imageI set_ConsD)
    have "tags h' (Key v) = (if Key v \<in> E then tags h (Key v) else Some (ru_ID v))
        \<and> state_of res' (Key v) = Some (open_or_existing E v)"
    proof (cases "v = w")
      case True
      then show ?thesis using IH(3)[OF nw] t1 st1 by (simp add: open_or_existing_def)
    next
      case False
      then show ?thesis using v IH(4)[of v] keep[of "Key v"] by simp
    qed
    then show "tags h' (Key v) = (if Key v \<in> E then tags h (Key v) else Some (ru_ID v))"
      "state_of res' (Key v) = Some (open_or_existing E v)" by blast+
  next
    assume all: "\<forall>v\<in>set (w # ws). Key v \<in> E \<or> tags h (Key v) = Some (ru_ID v)"
    then have "h1 = h" using same by simp
    with all IH(5) show "h' = h" by simp
  qed
qed

lemma ufw_drop_run:
  assumes host: "ufw_host hok tags others run"
    and "hok h" and "distinct (map fst ts)"
    and "\<forall>(k, i)\<in>set ts. k \<notin> wanted \<longrightarrow> tags h k = Some i" and "ufw_drop run wanted ts res h = (res', h')"
  shows "hok h' \<and> others h' = others h \<and> (\<forall>k. state_of res' k = state_of res k)
    \<and> tags h' = (\<lambda>k. if k \<in> fst ` set ts \<and> k \<notin> wanted then None else tags h k)
    \<and> (fst ` set ts \<subseteq> wanted \<longrightarrow> h' = h)"
  using assms(2-)
proof (induction ts arbitrary: res h)
  case Nil
  then show ?case by simp
next
  case (Cons t ts)
  obtain k i where t: "t = (k, i)" by (cases t)
  show ?case
  proof (cases "k \<in> wanted")
    case True
    with Cons.prems t have "hok h' \<and> others h' = others h \<and> (\<forall>k. state_of res' k = state_of res k)
      \<and> tags h' = (\<lambda>k. if k \<in> fst ` set ts \<and> k \<notin> wanted then None else tags h k)
      \<and> (fst ` set ts \<subseteq> wanted \<longrightarrow> h' = h)"
      by (intro Cons.IH) auto
    with True t show ?thesis by auto
  next
    case False
    with Cons.prems(3) t have "tags h k = Some i" by simp
    from ufw_hostD(3)[OF host Cons.prems(1) this] obtain o1 h1 where h1:
      "run (ufw_delete_cmd k i) h = (Inr o1, h1)" "hok h1" "tags h1 = (tags h)(k := None)" "others h1 = others h"
      by blast
    have k: "k \<notin> fst ` set ts" using Cons.prems(2) t by simp
    have "\<forall>(k', i')\<in>set ts. k' \<notin> wanted \<longrightarrow> tags h1 k' = Some i'"
      using Cons.prems(3) k by (force simp: h1(3))
    with Cons.IH[OF h1(2), of res] Cons.prems(2,4) t False h1(1)
    have "hok h' \<and> others h' = others h1 \<and> (\<forall>k. state_of res' k = state_of res k)
      \<and> tags h' = (\<lambda>k. if k \<in> fst ` set ts \<and> k \<notin> wanted then None else tags h1 k)"
      by simp
    with h1 t False show ?thesis by auto
  qed
qed

lemma parse_tags_distinct: "distinct (map fst (us_tagged (parseUfwStatus out)))"
proof -
  have 1: "distinct (map fst (us_tagged (ufw_add_keys ours m2 i port protos st)))"
    if "distinct (map fst (us_tagged st))" for ours m2 i port protos st
    using that unfolding ufw_add_keys_def by (induction protos arbitrary: st) (auto simp: distinct_update)
  have 2: "distinct (map fst (us_tagged (ufw_line st l)))" if "distinct (map fst (us_tagged st))" for st l
    using that by (auto simp: ufw_line_def Let_def intro!: 1 split: option.splits prod.splits)
  have "distinct (map fst (us_tagged (foldl ufw_line st ls)))" if "distinct (map fst (us_tagged st))" for st ls
    using that by (induction ls arbitrary: st) (auto intro: 2)
  then show ?thesis by (simp add: parseUfwStatus_def)
qed

lemma ufw_sync_once:
  assumes host: "ufw_host hok tags others run" and h: "hok h"
    and want: "distinct (map Key want)" "\<forall>w\<in>set want. rule_Validate w = None"
  shows "\<exists>res h'. ufw_Sync run want h = (Inr res, h') \<and> hok h' \<and> others h' = others h
    \<and> tags h' = ufw_target want (tags h) (others h)
    \<and> (\<forall>w\<in>set want. state_of res (Key w) = Some (open_or_existing (others h) w))
    \<and> ((\<forall>w\<in>set want. Key w \<in> others h \<or> tags h (Key w) = Some (ru_ID w)) \<longrightarrow>
         dom (tags h) \<subseteq> Key ` set want \<longrightarrow> h' = h)"
proof -
  from ufw_hostD(1)[OF host h] obtain out where out: "run ufw_status_cmd h = (Inr out, h)"
    "map_of (us_tagged (parseUfwStatus out)) = tags h" "set (us_untagged (parseUfwStatus out)) = others h" by blast
  let ?st = "parseUfwStatus out"
  obtain res1 where A: "ufw_Sync run want h =
      (case ufw_want run ?st (sortedRules want) res1 h of (res2, h2) \<Rightarrow>
         case ufw_drop run (Key ` set want) (us_tagged ?st) res2 h2 of (res3, h3) \<Rightarrow> (Inr res3, h3))"
    by (auto simp: ufw_Sync_def Let_def out(1))
  obtain res2 h2 where w: "ufw_want run ?st (sortedRules want) res1 h = (res2, h2)" by fastforce
  obtain res3 h3 where d: "ufw_drop run (Key ` set want) (us_tagged ?st) res2 h2 = (res3, h3)" by fastforce
  have W: "hok h2 \<and> others h2 = others h
    \<and> (\<forall>k. k \<notin> Key ` set want \<longrightarrow> tags h2 k = tags h k \<and> state_of res2 k = state_of res1 k)
    \<and> (\<forall>w\<in>set want. tags h2 (Key w) = (if Key w \<in> others h then tags h (Key w) else Some (ru_ID w))
         \<and> state_of res2 (Key w) = Some (open_or_existing (others h) w))
    \<and> ((\<forall>w\<in>set want. Key w \<in> others h \<or> tags h (Key w) = Some (ru_ID w)) \<longrightarrow> h2 = h)"
    using ufw_want_run[OF host parse_tags_valid out(3) h _ _ _ w] want out(2)
    by (simp add: distinct_sortedRules)
  have wk: "\<forall>(k, i)\<in>set (us_tagged ?st). k \<notin> Key ` set want \<longrightarrow> tags h2 k = Some i"
  proof clarify
    fix k i assume "(k, i) \<in> set (us_tagged ?st)" and k: "k \<notin> Key ` set want"
    then have "tags h k = Some i" using out(2) parse_tags_distinct[of out] by (metis map_of_is_SomeI)
    with W k show "tags h2 k = Some i" by simp
  qed
  have keys: "fst ` set (us_tagged ?st) = dom (tags h)" using out(2) by (metis dom_map_of_conv_image_fst)
  have hok2: "hok h2" using W by blast
  from ufw_drop_run[OF host hok2 parse_tags_distinct wk d]
  have D: "hok h3" "others h3 = others h2" "\<And>k. state_of res3 k = state_of res2 k"
    "tags h3 = (\<lambda>k. if k \<in> dom (tags h) \<and> k \<notin> Key ` set want then None else tags h2 k)"
    "dom (tags h) \<subseteq> Key ` set want \<Longrightarrow> h3 = h2"
    unfolding keys by blast+
  have "tags h3 k = ufw_target want (tags h) (others h) k" for k
  proof (cases "k \<in> Key ` set want")
    case True
    then obtain w where "w \<in> set want" "k = Key w" by blast
    then show ?thesis using W want_ids_Some[OF want(1)] by (simp add: D(4) ufw_target_def)
  next
    case False
    then show ?thesis using W by (auto simp: D(4) ufw_target_def)
  qed
  then have "tags h3 = ufw_target want (tags h) (others h)" by blast
  moreover have "ufw_Sync run want h = (Inr res3, h3)" by (simp add: A w d)
  moreover have "hok h3" "others h3 = others h" using W D(1,2) by simp_all
  moreover have "\<forall>w\<in>set want. state_of res3 (Key w) = Some (open_or_existing (others h) w)"
    using W D(3) by simp
  moreover have "h3 = h" if "\<forall>w\<in>set want. Key w \<in> others h \<or> tags h (Key w) = Some (ru_ID w)"
      "dom (tags h) \<subseteq> Key ` set want"
    using W D(5) that by blast
  ultimately show ?thesis by blast
qed

section \<open>A host that behaves as documented\<close>

text \<open>
  A host with the rules of \<open>ufw\<close> in a list prints its status in the documented format and
  satisfies the contract: the parser recognises what \<open>ufw\<close> prints.
\<close>

type_synonym sim_host = "(string \<times> string) list \<times> string list"

definition good_key :: "string \<Rightarrow> bool" where
  "good_key k \<longleftrightarrow> (\<exists>p proto. k = port_key p proto \<and> 1 \<le> p \<and> p \<le> 65535 \<and> (proto = ''tcp'' \<or> proto = ''udp''))"

definition sim_ok :: "sim_host \<Rightarrow> bool" where
  "sim_ok h \<longleftrightarrow> distinct (map fst (fst h)) \<and> (\<forall>(k, i)\<in>set (fst h). good_key k \<and> idPattern i)
     \<and> list_all good_key (snd h)"

definition tagged_line :: "string \<times> string \<Rightarrow> string" where
  "tagged_line t = fst t @ ''                  ALLOW       Anywhere                   # '' @ Tag @ snd t"

definition untagged_line :: "string \<Rightarrow> string" where
  "untagged_line k = k @ ''                  ALLOW       Anywhere''"

definition sim_status :: "sim_host \<Rightarrow> string" where
  "sim_status h = join [CHR 0x0A] (''Status: active'' # map tagged_line (fst h) @ map untagged_line (snd h))"

definition sim_run :: "sim_host run" where
  "sim_run c h =
     (case c of
        [_, a] \<Rightarrow> (Inr (sim_status h), h)
      | [_, a, k, _, t] \<Rightarrow> (Inr [], (AList.update k (trim_prefix Tag t) (fst h), snd h))
      | [_, a, b, k, _, t] \<Rightarrow> (Inr [], (AList.delete k (fst h), snd h))
      | _ \<Rightarrow> (Inl ''usage'', h))"

lemma id_char_plain: "id_char c \<Longrightarrow> \<not> re_space c \<and> \<not> is_space c \<and> c \<noteq> CHR 0x0A \<and> c \<noteq> CHR 0x0D"
  by (auto simp: id_char_def re_space_def is_space_def is_digit_def)

lemma strip_right_id: "s \<noteq> [] \<Longrightarrow> \<not> re_space (last s) \<Longrightarrow> strip_right s = s"
  by (cases s rule: rev_cases) (auto simp: strip_right_def)

lemma has_prefix_simps [simp]:
  "has_prefix [] s" "\<not> has_prefix (x # p) []" "has_prefix (x # p) (y # s) \<longleftrightarrow> x = y \<and> has_prefix p s"
  by (auto simp: has_prefix_def)

lemma last_idPattern: "idPattern i \<Longrightarrow> i \<noteq> [] \<and> id_char (last i)"
  by (cases i rule: rev_cases) (auto simp: idPattern_def list_all_iff)

lemma key_digits:
  assumes "1 \<le> p" and "proto = ''tcp'' \<or> proto = ''udp''"
  shows "takeWhile is_digit (port_key p proto @ s) = itoa p"
    and "dropWhile is_digit (port_key p proto @ s) = CHR ''/'' # proto @ s"
proof -
  have d: "\<forall>c\<in>set (itoa p). is_digit c" using assms(1) by (auto simp: itoa_nonneg dest: nat_digits_all_digits)
  have e: "port_key p proto @ s = itoa p @ (CHR ''/'' # proto @ s)" by (simp add: port_key_def)
  have n: "\<not> is_digit (CHR ''/'')" by (simp add: is_digit_def)
  show "takeWhile is_digit (port_key p proto @ s) = itoa p"
    unfolding e using d n by (intro takeWhile_append_stop) auto
  show "dropWhile is_digit (port_key p proto @ s) = CHR ''/'' # proto @ s"
    unfolding e using d n by (intro dropWhile_append_stop) auto
qed

lemma itoa_not_Nil [simp]: "itoa p \<noteq> []"
  by (simp add: itoa_def)

lemma match_tagged:
  assumes "1 \<le> p" and pr: "proto = ''tcp'' \<or> proto = ''udp''" and i: "idPattern i"
  shows "match_ufw (tagged_line (port_key p proto, i)) = Some (itoa p, proto, Tag @ i)"
proof -
  have s: "strip_right (Tag @ i) = Tag @ i"
    using last_idPattern[OF i] id_char_plain by (intro strip_right_id) (auto simp: Tag_def)
  have t: "match_tail (''                   # '' @ Tag @ i) = Some (Tag @ i)"
    using s by (simp add: match_tail_def re_space_def Tag_def Let_def)
  show ?thesis
    unfolding tagged_line_def fst_conv snd_conv match_ufw_def key_digits[OF assms(1) pr]
    using pr t
    by (elim disjE) (simp_all add: opt_proto_def spaces1_def re_space_def lit_def opt_lit_def Let_def)
qed

lemma match_untagged:
  assumes "1 \<le> p" and pr: "proto = ''tcp'' \<or> proto = ''udp''"
  shows "match_ufw (untagged_line (port_key p proto)) = Some (itoa p, proto, [])"
  unfolding untagged_line_def match_ufw_def key_digits[OF assms]
  using pr
  by (elim disjE) (simp_all add: opt_proto_def spaces1_def re_space_def lit_def opt_lit_def Let_def match_tail_def)

lemma trim_right_cr_id: "s \<noteq> [] \<Longrightarrow> last s \<noteq> CHR 0x0D \<Longrightarrow> trim_right_cr s = s"
  by (cases s rule: rev_cases) (auto simp: trim_right_cr_def)

lemma trim_space_id: "s \<noteq> [] \<Longrightarrow> \<not> is_space (hd s) \<Longrightarrow> \<not> is_space (last s) \<Longrightarrow> trim_space s = s"
proof -
  assume a: "s \<noteq> []" "\<not> is_space (hd s)" "\<not> is_space (last s)"
  then have "dropWhile is_space s = s" by (cases s) auto
  moreover have "dropWhile is_space (rev s) = rev s" using a by (cases s rule: rev_cases) auto
  ultimately show ?thesis by (simp add: trim_space_def)
qed

lemma tagID_Tag: "idPattern i \<Longrightarrow> tagID (Tag @ i) = (i, True)"
proof -
  assume i: "idPattern i"
  have "trim_space (Tag @ i) = Tag @ i"
    using last_idPattern[OF i] id_char_plain[of "last i"]
    by (intro trim_space_id) (auto simp: Tag_def is_space_def)
  with i show ?thesis by (simp add: tagID_def)
qed

lemma tagID_Nil: "tagID [] = ([], False)"
  by (simp add: tagID_def trim_space_def Tag_def)

lemma key_head: "good_key k \<Longrightarrow> k \<noteq> [] \<and> is_digit (hd k)"
proof -
  assume "good_key k"
  then obtain p proto where k: "k = port_key p proto" "1 \<le> p" by (auto simp: good_key_def)
  have "hd (itoa p) \<in> set (itoa p)" by simp
  then have "is_digit (hd (itoa p))" using k(2) by (auto simp: itoa_nonneg simp del: hd_in_set dest: nat_digits_all_digits)
  then show ?thesis by (simp add: k(1) port_key_def hd_append)
qed

lemma not_status: "good_key k \<Longrightarrow> \<not> has_prefix ''Status:'' (k @ s)"
  using key_head[of k] by (cases k) (auto simp: is_digit_def)

lemma atoi_port: "1 \<le> p \<Longrightarrow> p \<le> 65535 \<Longrightarrow> atoi (itoa p) = (p, True)"
  using atoi_nat_digits[of "nat p"] by (simp add: itoa_nonneg)

lemma ufw_line_tagged:
  assumes k: "good_key k" and i: "idPattern i"
  shows "ufw_line st (tagged_line (k, i)) = st\<lparr>us_tagged := AList.update k i (us_tagged st)\<rparr>"
proof -
  from k obtain p proto where p: "k = port_key p proto" "1 \<le> p" "p \<le> 65535" "proto = ''tcp'' \<or> proto = ''udp''"
    by (auto simp: good_key_def)
  have "trim_right_cr (tagged_line (k, i)) = tagged_line (k, i)"
    using last_idPattern[OF i] id_char_plain[of "last i"]
    by (intro trim_right_cr_id) (auto simp: tagged_line_def Tag_def)
  moreover have "proto \<noteq> []" using p(4) by auto
  moreover have "\<not> has_prefix ''Status:'' (tagged_line (k, i))"
    unfolding tagged_line_def fst_conv by (rule not_status[OF k])
  moreover have "match_ufw (tagged_line (k, i)) = Some (itoa p, proto, Tag @ i)"
    unfolding p(1) by (rule match_tagged[OF p(2,4) i])
  ultimately show ?thesis
    by (simp add: ufw_line_def ufw_add_keys_def tagID_Tag[OF i] atoi_port[OF p(2,3)]) (simp add: p(1))
qed

lemma ufw_line_untagged:
  assumes k: "good_key k"
  shows "ufw_line st (untagged_line k) = st\<lparr>us_untagged := List.insert k (us_untagged st)\<rparr>"
proof -
  from k obtain p proto where p: "k = port_key p proto" "1 \<le> p" "p \<le> 65535" "proto = ''tcp'' \<or> proto = ''udp''"
    by (auto simp: good_key_def)
  have "trim_right_cr (untagged_line k) = untagged_line k"
    by (intro trim_right_cr_id) (auto simp: untagged_line_def)
  moreover have "proto \<noteq> []" using p(4) by auto
  moreover have "\<not> has_prefix ''Status:'' (untagged_line k)"
    unfolding untagged_line_def by (rule not_status[OF k])
  moreover have "match_ufw (untagged_line k) = Some (itoa p, proto, [])"
    unfolding p(1) by (rule match_untagged[OF p(2,4)])
  ultimately show ?thesis
    by (simp add: ufw_line_def ufw_add_keys_def tagID_Nil atoi_port[OF p(2,3)]) (simp add: p(1))
qed

lemma good_key_no_newline: "good_key k \<Longrightarrow> CHR 0x0A \<notin> set k"
  using itoa_chars[of "CHR 0x0A"] by (auto simp: good_key_def port_key_def is_digit_def)

lemma lines_no_newline:
  "good_key k \<Longrightarrow> idPattern i \<Longrightarrow> CHR 0x0A \<notin> set (tagged_line (k, i))"
  "good_key k \<Longrightarrow> CHR 0x0A \<notin> set (untagged_line k)"
proof -
  show "good_key k \<Longrightarrow> CHR 0x0A \<notin> set (untagged_line k)"
    by (simp add: untagged_line_def good_key_no_newline)
  assume "good_key k" "idPattern i"
  moreover from this have "CHR 0x0A \<notin> set i" using id_char_plain by (auto simp: idPattern_def list_all_iff)
  ultimately show "CHR 0x0A \<notin> set (tagged_line (k, i))"
    by (simp add: tagged_line_def good_key_no_newline Tag_def)
qed

lemma sim_parse:
  assumes "sim_ok h"
  shows "map_of (us_tagged (parseUfwStatus (sim_status h))) = map_of (fst h)
    \<and> set (us_untagged (parseUfwStatus (sim_status h))) = set (snd h)"
proof -
  have T: "us_untagged (foldl ufw_line st (map tagged_line ts)) = us_untagged st
      \<and> map_of (us_tagged (foldl ufw_line st (map tagged_line ts))) = map_of (us_tagged st) ++ map_of ts"
    if "distinct (map fst ts)" "\<forall>(k, i)\<in>set ts. good_key k \<and> idPattern i" for st ts
    using that
  proof (induction ts arbitrary: st)
    case (Cons t ts)
    obtain k i where t: "t = (k, i)" by (cases t)
    with Cons show ?case
      by (simp add: ufw_line_tagged update_conv')
        (auto simp: fun_eq_iff map_add_def map_of_eq_None_iff[THEN iffD2] split: option.split)
  qed simp
  have U: "us_tagged (foldl ufw_line st (map untagged_line ks)) = us_tagged st
      \<and> set (us_untagged (foldl ufw_line st (map untagged_line ks))) = set (us_untagged st) \<union> set ks"
    if "list_all good_key ks" for st ks
    using that by (induction ks arbitrary: st) (auto simp: ufw_line_untagged)
  have "\<forall>w\<in>set (''Status: active'' # map tagged_line (fst h) @ map untagged_line (snd h)). CHR 0x0A \<notin> set w"
    using assms lines_no_newline by (fastforce simp: sim_ok_def list_all_iff)
  then have "split_on (CHR 0x0A) (sim_status h) = ''Status: active'' # map tagged_line (fst h) @ map untagged_line (snd h)"
    unfolding sim_status_def by (intro split_on_join) auto
  moreover have "ufw_line \<lparr>us_active = False, us_tagged = [], us_untagged = []\<rparr> ''Status: active''
      = \<lparr>us_active = True, us_tagged = [], us_untagged = []\<rparr>"
    by code_simp
  ultimately show ?thesis
    using T[of "fst h"] U[of "snd h"] assms by (simp add: parseUfwStatus_def sim_ok_def)
qed

lemma sim_host_ok: "ufw_host sim_ok (\<lambda>h. map_of (fst h)) (\<lambda>h. set (snd h)) sim_run"
  unfolding ufw_host_def
proof (intro conjI allI impI)
  fix h assume "sim_ok h"
  then show "\<exists>out. sim_run ufw_status_cmd h = (Inr out, h)
      \<and> map_of (us_tagged (parseUfwStatus out)) = map_of (fst h)
      \<and> set (us_untagged (parseUfwStatus out)) = set (snd h)"
    using sim_parse by (simp add: sim_run_def ufw_status_cmd_def)
next
  fix h :: sim_host and w assume h: "sim_ok h" and w: "rule_Validate w = None"
  have "good_key (Key w)" "idPattern (ru_ID w)"
    using w by (auto simp: rule_Validate_None good_key_def Key_def)
  moreover have "set (AList.update k v al) \<subseteq> insert (k, v) (set al)" for k v and al :: "(string \<times> string) list"
    by (induction al) auto
  ultimately have "sim_ok (AList.update (Key w) (ru_ID w) (fst h), snd h)"
    using h by (fastforce simp: sim_ok_def distinct_update)
  then show "\<exists>o1 h'. sim_run (ufw_allow_cmd (Key w) (ru_ID w)) h = (Inr o1, h') \<and> sim_ok h'
      \<and> map_of (fst h') = (map_of (fst h))(Key w \<mapsto> ru_ID w) \<and> set (snd h') = set (snd h)"
    by (simp add: sim_run_def ufw_allow_cmd_def update_conv')
next
  fix h :: sim_host and k i assume "sim_ok h"
  then have "sim_ok (AList.delete k (fst h), snd h)"
    by (auto simp: sim_ok_def distinct_map_filter AList.delete_eq)
  then show "\<exists>o1 h'. sim_run (ufw_delete_cmd k i) h = (Inr o1, h') \<and> sim_ok h'
      \<and> map_of (fst h') = (map_of (fst h))(k := None) \<and> set (snd h') = set (snd h)"
    by (simp add: sim_run_def ufw_delete_cmd_def delete_conv')
qed



end
