(* ===== verification/Fw_Firewalld.thy ===== *)
theory Fw_Firewalld
  imports Firewall
begin

text \<open>
  \<open>internal/firewall/firewalld.go\<close>: ports of the default zone, and the ledger file that records
  which of them the agent opened. The state of the backend is the host \<open>firewall-cmd\<close> acts on
  together with the ledger file.
\<close>

section \<open>The ledger\<close>

type_synonym ledger = "(string \<times> string) list"

text \<open>
  What reading the file gives: no file, an I/O error, text that is not JSON, or a document whose
  \<open>firewalld\<close> member may be missing.
\<close>

datatype ledger_doc = LNone | LReadError | LNotJSON | LDoc "ledger option"

record 'h fd_host =
  fd_host :: 'h
  fd_file :: ledger_doc
  fd_writable :: bool

definition loadLedger :: "ledger_doc \<Rightarrow> (fw_error, ledger) result" where
  "loadLedger d =
     (case d of
        LNone \<Rightarrow> Inr []
      | LReadError \<Rightarrow> Inl LedgerUnreadable
      | LNotJSON \<Rightarrow> Inl ParseFailed
      | LDoc None \<Rightarrow> Inr []
      | LDoc (Some l) \<Rightarrow> Inr l)"

text \<open>Write to a temporary file, then rename; when that fails the file is the old one.\<close>

definition saveLedger :: "ledger \<Rightarrow> 'h fd_host \<Rightarrow> (fw_error, unit) result \<times> 'h fd_host" where
  "saveLedger l s =
     (if fd_writable s then (Inr (), s\<lparr>fd_file := LDoc (Some l)\<rparr>) else (Inl LedgerNotSaved, s))"

definition parseFirewalldPorts :: "string \<Rightarrow> string set" where
  "parseFirewalldPorts out = set (Go_Strings.fields out)"

section \<open>Sync\<close>

definition fd_state_cmd :: "string list" where
  "fd_state_cmd = [''firewall-cmd'', ''--state'']"

definition fd_list_cmd :: "string list" where
  "fd_list_cmd = [''firewall-cmd'', ''--list-ports'']"

definition fd_runtime_cmd :: "string \<Rightarrow> string \<Rightarrow> string list" where
  "fd_runtime_cmd op key = [''firewall-cmd'', ''--'' @ op @ ''-port='' @ key]"

definition fd_permanent_cmd :: "string \<Rightarrow> string \<Rightarrow> string list" where
  "fd_permanent_cmd op key = [''firewall-cmd'', ''--permanent'', ''--'' @ op @ ''-port='' @ key]"

text \<open>\<open>port\<close> changes the runtime configuration first and the permanent one only after that.\<close>

definition fd_port :: "'h run \<Rightarrow> string \<Rightarrow> string \<Rightarrow> 'h \<Rightarrow> string option \<times> 'h" where
  "fd_port run op key h =
     (case run (fd_runtime_cmd op key) h of
        (Inl e, h1) \<Rightarrow> (Some e, h1)
      | (Inr _, h1) \<Rightarrow> (case run (fd_permanent_cmd op key) h1 of (r, h2) \<Rightarrow> (err_of r, h2)))"

fun fd_want :: "'h run \<Rightarrow> string set \<Rightarrow> rule list \<Rightarrow> ledger \<Rightarrow> fw_result \<Rightarrow> 'h \<Rightarrow> ledger \<times> fw_result \<times> 'h" where
  "fd_want run open [] l res h = (l, res, h)"
| "fd_want run open (w # ws) l res h =
     (let key = Key w; ours = (map_of l key \<noteq> None) in
      if key \<in> open \<and> \<not> ours then fd_want run open ws l (set_rule w StateExisting None res) h
      else if key \<in> open \<and> ours
      then fd_want run open ws (AList.update key (ru_ID w) l) (set_rule w StateOpen None res) h
      else case fd_port run ''add'' key h of
        (None, h1) \<Rightarrow> fd_want run open ws (AList.update key (ru_ID w) l) (set_rule w StateOpen None res) h1
      | (Some e, h1) \<Rightarrow> fd_want run open ws l (set_rule w StateOpen (Some e) res) h1)"

fun fd_drop :: "'h run \<Rightarrow> string set \<Rightarrow> ledger \<Rightarrow> ledger \<Rightarrow> fw_result \<Rightarrow> 'h \<Rightarrow> ledger \<times> fw_result \<times> 'h" where
  "fd_drop run wanted [] l res h = (l, res, h)"
| "fd_drop run wanted ((key, i) # ts) l res h =
     (if key \<in> wanted then fd_drop run wanted ts l res h
      else case fd_port run ''remove'' key h of
        (Some e, h1) \<Rightarrow> fd_drop run wanted ts l (add_note (''could not remove '' @ key @ '': '' @ e) res) h1
      | (None, h1) \<Rightarrow> fd_drop run wanted ts (AList.delete key l) res h1)"

text \<open>
  When the ledger cannot be saved the code returns the result together with the error; the agent
  only looks at the error.
\<close>

definition firewalld_Sync :: "'h run \<Rightarrow> 'h fd_host sync" where
  "firewalld_Sync run want s =
     (case run fd_state_cmd (fd_host s) of
        (Inl e, h1) \<Rightarrow> (Inl (NotRunning e), s\<lparr>fd_host := h1\<rparr>)
      | (Inr _, h1) \<Rightarrow>
          (case run fd_list_cmd h1 of
             (Inl e, h2) \<Rightarrow> (Inl (CommandFailed e), s\<lparr>fd_host := h2\<rparr>)
           | (Inr out, h2) \<Rightarrow>
               (case loadLedger (fd_file s) of
                  Inl e \<Rightarrow> (Inl e, s\<lparr>fd_host := h2\<rparr>)
                | Inr l \<Rightarrow>
                    (case fd_want run (parseFirewalldPorts out) (sortedRules want) l
                        ((newResult ModeFirewalld)\<lparr>re_Active := True\<rparr>) h2 of
                       (l1, res1, h3) \<Rightarrow>
                         (case fd_drop run (Key ` set want) l1 l1 res1 h3 of
                            (l2, res2, h4) \<Rightarrow>
                              (case saveLedger l2 (s\<lparr>fd_host := h4\<rparr>) of
                                 (Inl e, s') \<Rightarrow> (Inl e, s')
                               | (Inr _, s') \<Rightarrow> (Inr res2, s')))))))"

section \<open>The contract of a backend\<close>

definition fd_owned :: "string list \<Rightarrow> bool" where
  "fd_owned c \<longleftrightarrow> c = fd_state_cmd \<or> c = fd_list_cmd
     \<or> (\<exists>op key. op \<in> {''add'', ''remove''} \<and> (c = fd_runtime_cmd op key \<or> c = fd_permanent_cmd op key))"

lemma fd_want_keys:
  "fd_want run open ws l res h = (l', res', h') \<Longrightarrow> result_keys res' = result_keys res \<union> Key ` set ws"
  by (induction run "open" ws l res h rule: fd_want.induct) (auto simp: Let_def split: if_splits prod.splits option.splits)

lemma fd_want_states:
  "fd_want run open ws l res h = (l', res', h') \<Longrightarrow> good_states res \<Longrightarrow> good_states res'"
  by (induction run "open" ws l res h rule: fd_want.induct) (auto simp: Let_def split: if_splits prod.splits option.splits)

lemma fd_drop_keys: "fd_drop run wanted ts l res h = (l', res', h') \<Longrightarrow> result_keys res' = result_keys res"
  by (induction run wanted ts l res h rule: fd_drop.induct) (auto split: if_splits prod.splits option.splits)

lemma fd_drop_states: "fd_drop run wanted ts l res h = (l', res', h') \<Longrightarrow> good_states res \<Longrightarrow> good_states res'"
  by (induction run wanted ts l res h rule: fd_drop.induct) (auto split: if_splits prod.splits option.splits)

lemma fd_port_owned:
  assumes "\<And>c h. fd_owned c \<Longrightarrow> P h \<Longrightarrow> P (snd (run c h))" and "op \<in> {''add'', ''remove''}" and "P h"
  shows "P (snd (fd_port run op key h))"
proof -
  have o: "fd_owned (fd_runtime_cmd op key)" "fd_owned (fd_permanent_cmd op key)"
    using assms(2) unfolding fd_owned_def by blast+
  obtain r h1 where r: "run (fd_runtime_cmd op key) h = (r, h1)" by fastforce
  then have h1: "P h1" using assms(1)[OF o(1) assms(3)] by simp
  obtain r2 h2 where r2: "run (fd_permanent_cmd op key) h1 = (r2, h2)" by fastforce
  then have "P h2" using assms(1)[OF o(2) h1] by simp
  with h1 show ?thesis by (cases r) (simp_all add: fd_port_def r r2)
qed

lemma fd_want_owned:
  assumes P: "\<And>c h. fd_owned c \<Longrightarrow> P h \<Longrightarrow> P (snd (run c h))" and "P h"
    and "fd_want run open ws l res h = (l', res', h')"
  shows "P h'"
  using assms(2,3)
proof (induction ws arbitrary: l res h)
  case (Cons w ws)
  have "P (snd (fd_port run ''add'' (Key w) h))" by (rule fd_port_owned[OF P _ Cons.prems(1)]) simp_all
  with Cons show ?case by (auto simp: Let_def split: if_splits prod.splits option.splits)
qed simp

lemma fd_drop_owned:
  assumes P: "\<And>c h. fd_owned c \<Longrightarrow> P h \<Longrightarrow> P (snd (run c h))" and "P h"
    and "fd_drop run wanted ts l res h = (l', res', h')"
  shows "P h'"
  using assms(2,3)
proof (induction ts arbitrary: l res h)
  case (Cons t ts)
  obtain k i where t: "t = (k, i)" by (cases t)
  have "P (snd (fd_port run ''remove'' k h))" by (rule fd_port_owned[OF P _ Cons.prems(1)]) simp_all
  with Cons t show ?case by (auto split: if_splits prod.splits option.splits)
qed simp

lemma firewalld_Sync_ok:
  assumes "firewalld_Sync run want s = (Inr res, s')"
  obtains out h2 l l1 res1 h3 l2 h4 where "loadLedger (fd_file s) = Inr l"
    and "run fd_list_cmd (snd (run fd_state_cmd (fd_host s))) = (Inr out, h2)"
    and "fd_want run (parseFirewalldPorts out) (sortedRules want) l
        ((newResult ModeFirewalld)\<lparr>re_Active := True\<rparr>) h2 = (l1, res1, h3)"
    and "fd_drop run (Key ` set want) l1 l1 res1 h3 = (l2, res, h4)"
    and "s' = s\<lparr>fd_host := h4, fd_file := LDoc (Some l2)\<rparr>"
  using assms
  by (auto simp: firewalld_Sync_def saveLedger_def split: prod.splits sum.splits if_splits)

interpretation firewalld: fw_backend firewalld_Sync fd_host fd_owned
proof
  fix run :: "'h run" and want and s s' :: "'h fd_host" and res
  assume s: "firewalld_Sync run want s = (Inr res, s')"
  show "result_keys res = Key ` set want"
    by (rule firewalld_Sync_ok[OF s]) (auto dest!: fd_want_keys fd_drop_keys)
  show "good_states res"
    by (rule firewalld_Sync_ok[OF s]) (auto dest!: fd_want_states fd_drop_states)
next
  fix run :: "'h run" and want and s :: "'h fd_host" and P
  assume P: "\<And>c h. fd_owned c \<Longrightarrow> P h \<Longrightarrow> P (snd (run c h))" and h: "P (fd_host s)"
  obtain r1 h1 where r1: "run fd_state_cmd (fd_host s) = (r1, h1)" by fastforce
  have h1: "P h1" using P[OF _ h, of fd_state_cmd] r1 by (simp add: fd_owned_def)
  obtain r2 h2 where r2: "run fd_list_cmd h1 = (r2, h2)" by fastforce
  have h2: "P h2" using P[OF _ h1, of fd_list_cmd] r2 by (simp add: fd_owned_def)
  show "P (fd_host (snd (firewalld_Sync run want s)))"
  proof (cases "\<exists>x out l. r1 = Inr x \<and> r2 = Inr out \<and> loadLedger (fd_file s) = Inr l")
    case False
    with h1 h2 show ?thesis
      by (auto simp: firewalld_Sync_def r1 r2 split: sum.splits)
  next
    case True
    then obtain x out l where o: "r1 = Inr x" "r2 = Inr out" "loadLedger (fd_file s) = Inr l" by blast
    obtain l1 res1 h3 where w: "fd_want run (parseFirewalldPorts out) (sortedRules want) l
        ((newResult ModeFirewalld)\<lparr>re_Active := True\<rparr>) h2 = (l1, res1, h3)" by (metis prod_cases3)
    obtain l2 res2 h4 where d: "fd_drop run (Key ` set want) l1 l1 res1 h3 = (l2, res2, h4)" by (metis prod_cases3)
    have "P h3" by (rule fd_want_owned[where P = P, OF P h2 w])
    then have "P h4" by (intro fd_drop_owned[where P = P, OF P _ d])
    then show ?thesis
      by (auto simp: firewalld_Sync_def r1 r2 o w d saveLedger_def)
  qed
qed

section \<open>A half-applied port\<close>

text \<open>
  When the runtime half of adding a port succeeds and the permanent half fails, the port
  stays open but is not in the ledger: the sync reports an error, the next sync takes the port
  for one of the operator's, and a sync that no longer wants it does not close it.
\<close>

theorem firewalld_half_added_port_leaks:
  assumes "fd_file s = LNone" and "fd_writable s"
    and "run fd_state_cmd (fd_host s) = (Inr o1, h1)" and "run fd_list_cmd h1 = (Inr o2, h2)"
    and "Key w \<notin> parseFirewalldPorts o2"
    and "run (fd_runtime_cmd ''add'' (Key w)) h2 = (Inr o3, h3)"
    and "run (fd_permanent_cmd ''add'' (Key w)) h3 = (Inl e, h4)"
    and "run fd_state_cmd h4 = (Inr o5, h5)" and "run fd_list_cmd h5 = (Inr o6, h6)"
    and "Key w \<in> parseFirewalldPorts o6"
  shows "\<exists>res s1. firewalld_Sync run [w] s = (Inr res, s1)
    \<and> state_of res (Key w) = Some \<lparr>rs_State = StateError, rs_Error = e\<rparr>
    \<and> (\<exists>res' s2. firewalld_Sync run [w] s1 = (Inr res', s2) \<and> fd_host s2 = h6
         \<and> state_of res' (Key w) = Some \<lparr>rs_State = StateExisting, rs_Error = []\<rparr>)
    \<and> (\<exists>res' s2. firewalld_Sync run [] s1 = (Inr res', s2) \<and> fd_host s2 = h6)"
proof -
  let ?r = "(newResult ModeFirewalld)\<lparr>re_Active := True\<rparr>"
  let ?s1 = "s\<lparr>fd_host := h4, fd_file := LDoc (Some [])\<rparr>"
  have "firewalld_Sync run [w] s = (Inr (set_rule w StateOpen (Some e) ?r), ?s1)"
    using assms by (simp add: firewalld_Sync_def loadLedger_def saveLedger_def sortedRules_def fd_port_def err_of_def)
  moreover have "firewalld_Sync run [w] ?s1 = (Inr (set_rule w StateExisting None ?r), ?s1\<lparr>fd_host := h6\<rparr>)"
    using assms by (simp add: firewalld_Sync_def loadLedger_def saveLedger_def sortedRules_def)
  moreover have "firewalld_Sync run [] ?s1 = (Inr ?r, ?s1\<lparr>fd_host := h6\<rparr>)"
    using assms by (simp add: firewalld_Sync_def loadLedger_def saveLedger_def sortedRules_def)
  ultimately show ?thesis by simp
qed

text \<open>A host whose permanent configuration cannot be written; the state is the list of open ports.\<close>

definition ro_run :: "string list run" where
  "ro_run c h =
     (case c of
        [_, a] \<Rightarrow>
          if a = ''--state'' then (Inr ''running'', h)
          else if a = ''--list-ports'' then (Inr (join '' '' h), h)
          else if has_prefix ''--add-port='' a then (Inr ''success'', drop (length ''--add-port='') a # h)
          else (Inr ''success'', removeAll (drop (length ''--remove-port='') a) h)
      | _ \<Rightarrow> (Inl ''read-only'', h))"

lemma firewalld_half_added_port_leaks_witness:
  "\<exists>s1 res' s2. snd (firewalld_Sync ro_run [\<lparr>ru_ID = ''a'', ru_Port = 80, ru_Proto = ''tcp''\<rparr>]
        \<lparr>fd_host = [], fd_file = LNone, fd_writable = True\<rparr>) = s1
    \<and> firewalld_Sync ro_run [] s1 = (Inr res', s2) \<and> fd_host s2 = [''80/tcp'']"
proof -
  let ?w = "\<lparr>ru_ID = ''a'', ru_Port = 80, ru_Proto = ''tcp''\<rparr>"
  let ?s = "\<lparr>fd_host = [], fd_file = LNone, fd_writable = True\<rparr>"
  have k: "Key ?w = ''80/tcp''" by code_simp
  have f: "parseFirewalldPorts [] = {}" "parseFirewalldPorts ''80/tcp'' = {''80/tcp''}" by code_simp+
  have "\<exists>res s1. firewalld_Sync ro_run [?w] ?s = (Inr res, s1)
    \<and> state_of res (Key ?w) = Some \<lparr>rs_State = StateError, rs_Error = ''read-only''\<rparr>
    \<and> (\<exists>res' s2. firewalld_Sync ro_run [?w] s1 = (Inr res', s2) \<and> fd_host s2 = [''80/tcp'']
         \<and> state_of res' (Key ?w) = Some \<lparr>rs_State = StateExisting, rs_Error = []\<rparr>)
    \<and> (\<exists>res' s2. firewalld_Sync ro_run [] s1 = (Inr res', s2) \<and> fd_host s2 = [''80/tcp''])"
  proof (rule firewalld_half_added_port_leaks)
    show "ro_run fd_state_cmd (fd_host ?s) = (Inr ''running'', [])"
      "ro_run fd_list_cmd [] = (Inr [], [])"
      "ro_run fd_state_cmd [''80/tcp''] = (Inr ''running'', [''80/tcp''])"
      "ro_run fd_list_cmd [''80/tcp''] = (Inr ''80/tcp'', [''80/tcp''])"
      by code_simp+
    show "ro_run (fd_runtime_cmd ''add'' (Key ?w)) [] = (Inr ''success'', [''80/tcp''])"
      "ro_run (fd_permanent_cmd ''add'' (Key ?w)) [''80/tcp''] = (Inl ''read-only'', [''80/tcp''])"
      unfolding k by code_simp+
  qed (use k f in simp_all)
  then show ?thesis by fastforce
qed

end
