(* ===== verification/Fw_Iptables.thy ===== *)
theory Fw_Iptables
  imports Firewall
begin

text \<open>
  \<open>internal/firewall/iptables.go\<close>: tagged \<open>ACCEPT\<close> rules at the top of the \<open>INPUT\<close> chain, for
  \<open>iptables\<close> and, when it is installed, \<open>ip6tables\<close>. The regular expressions of a rule line are
  explicit matchers.
\<close>

section \<open>Parsing the chain\<close>

record ipt_state =
  is_policy :: string
  is_rules :: int
  is_tagged :: "(string \<times> string) list"
  is_untagged :: "string list"

definition filtering :: "ipt_state \<Rightarrow> bool" where
  "filtering s \<longleftrightarrow> is_policy s = ''DROP'' \<or> is_policy s = ''REJECT'' \<or> is_rules s > 0"

definition match_policy :: "string \<Rightarrow> string option" where
  "match_policy s =
     Option.bind (lit ''-P INPUT '' s) (\<lambda>r.
       let p = takeWhile (\<lambda>c. \<not> re_space c) r in if p = [] then None else Some p)"

definition lit_proto :: "string \<Rightarrow> (string \<times> string) option" where
  "lit_proto s =
     (if has_prefix ''tcp'' s then Some (''tcp'', drop 3 s)
      else if has_prefix ''udp'' s then Some (''udp'', drop 3 s)
      else None)"

definition lit_digits :: "string \<Rightarrow> (string \<times> string) option" where
  "lit_digits s = (let ds = takeWhile is_digit s in if ds = [] then None else Some (ds, dropWhile is_digit s))"

text \<open>The common part of both rule forms: the protocol, the port and the rest of the line.\<close>

definition match_dport :: "string \<Rightarrow> (string \<times> string \<times> string) option" where
  "match_dport s =
     Option.bind (lit ''-A INPUT -p '' s) (\<lambda>r0.
     Option.bind (lit_proto r0) (\<lambda>(proto, r1).
     Option.bind (lit '' '' r1) (\<lambda>r2.
     Option.bind (lit ''--dport '' (opt_lit ''-m udp '' (opt_lit ''-m tcp '' r2))) (\<lambda>r3.
     Option.bind (lit_digits r3) (\<lambda>(ds, r4). Some (proto, ds, r4))))))"

definition match_ipt_tagged :: "string \<Rightarrow> (string \<times> string \<times> string) option" where
  "match_ipt_tagged s =
     Option.bind (match_dport s) (\<lambda>(proto, ds, r).
     Option.bind (lit '' -m comment --comment '' r) (\<lambda>r1.
     Option.bind (lit Tag (opt_lit [CHR 0x22] r1)) (\<lambda>r2.
       let i = takeWhile id_char r2 in
       if i = [] then None
       else Option.bind (lit '' -j ACCEPT'' (opt_lit [CHR 0x22] (dropWhile id_char r2))) (\<lambda>r3.
         if r3 = [] then Some (proto, ds, Tag @ i) else None))))"

definition match_ipt_untagged :: "string \<Rightarrow> (string \<times> string) option" where
  "match_ipt_untagged s =
     Option.bind (match_dport s) (\<lambda>(proto, ds, r). if r = '' -j ACCEPT'' then Some (proto, ds) else None)"

definition ipt_line :: "ipt_state \<Rightarrow> string \<Rightarrow> ipt_state" where
  "ipt_line st line0 =
     (let line = trim_space line0 in
      case match_policy line of
        Some p \<Rightarrow> st\<lparr>is_policy := p\<rparr>
      | None \<Rightarrow>
          if \<not> has_prefix ''-A '' line then st
          else let st1 = st\<lparr>is_rules := is_rules st + 1\<rparr> in
            case match_ipt_tagged line of
              Some (proto, ds, comment) \<Rightarrow>
                (case tagID comment of
                   (i, True) \<Rightarrow> st1\<lparr>is_tagged := AList.update (port_key (fst (atoi ds)) proto) i (is_tagged st1)\<rparr>
                 | _ \<Rightarrow> st1)
            | None \<Rightarrow>
                (case match_ipt_untagged line of
                   Some (proto, ds) \<Rightarrow>
                     st1\<lparr>is_untagged := List.insert (port_key (fst (atoi ds)) proto) (is_untagged st1)\<rparr>
                 | None \<Rightarrow> st1))"

definition parseIptables :: "string \<Rightarrow> ipt_state" where
  "parseIptables out =
     foldl ipt_line \<lparr>is_policy = [], is_rules = 0, is_tagged = [], is_untagged = []\<rparr> (split_on (CHR 0x0A) out)"

section \<open>Sync\<close>

definition ruleArgs :: "string \<Rightarrow> rule \<Rightarrow> string \<Rightarrow> string list" where
  "ruleArgs op r i =
     [op, ''INPUT'', ''-p'', ru_Proto r, ''--dport'', itoa (ru_Port r), ''-m'', ''comment'', ''--comment'', Tag @ i, ''-j'', ''ACCEPT'']"

definition ipt_list_cmd :: "string \<Rightarrow> string list" where
  "ipt_list_cmd tool = [tool, ''-S'', ''INPUT'']"

definition key_rule :: "string \<Rightarrow> rule" where
  "key_rule key =
     (case cut (CHR ''/'') key of (port, proto, _) \<Rightarrow>
        \<lparr>ru_ID = [], ru_Port = fst (atoi port), ru_Proto = proto\<rparr>)"

text \<open>Deleting the tagged rules that are not wanted with this owner.\<close>

fun ipt_drop :: "'h run \<Rightarrow> string \<Rightarrow> rule list \<Rightarrow> (string \<times> string) list \<Rightarrow> fw_result \<Rightarrow> 'h \<Rightarrow> fw_result \<times> 'h" where
  "ipt_drop run tool want [] res h = (res, h)"
| "ipt_drop run tool want ((key, i) # ts) res h =
     (if \<exists>w\<in>set want. Key w = key \<and> ru_ID w = i then ipt_drop run tool want ts res h
      else case run (tool # ruleArgs ''-D'' (key_rule key) i) h of
        (Inl e, h1) \<Rightarrow> ipt_drop run tool want ts (add_note e res) h1
      | (Inr _, h1) \<Rightarrow> ipt_drop run tool want ts res h1)"

definition cur_state :: "fw_result \<Rightarrow> string \<Rightarrow> string" where
  "cur_state res key = (case state_of res key of None \<Rightarrow> [] | Some rs \<Rightarrow> rs_State rs)"

fun ipt_want :: "'h run \<Rightarrow> string \<Rightarrow> ipt_state \<Rightarrow> rule list \<Rightarrow> fw_result \<Rightarrow> 'h \<Rightarrow> fw_result \<times> 'h" where
  "ipt_want run tool st [] res h = (res, h)"
| "ipt_want run tool st (w # ws) res h =
     (let key = Key w; cur = cur_state res key in
      if str_get (is_tagged st) key = ru_ID w
      then ipt_want run tool st ws (if cur = StateExisting then set_rule w StateOpen None res else res) h
      else if key \<in> set (is_untagged st) then ipt_want run tool st ws res h
      else case run (tool # ruleArgs ''-I'' w (ru_ID w)) h of
        (Inl e, h1) \<Rightarrow> ipt_want run tool st ws (set_rule w StateError (Some e) res) h1
      | (Inr _, h1) \<Rightarrow>
          ipt_want run tool st ws (if cur \<noteq> StateError then set_rule w StateOpen None res else res) h1)"

fun ipt_tools :: "'h run \<Rightarrow> rule list \<Rightarrow> string list \<Rightarrow> fw_result \<Rightarrow> 'h \<Rightarrow> (fw_error, fw_result) result \<times> 'h" where
  "ipt_tools run want [] res h = (Inr res, h)"
| "ipt_tools run want (tool # tools) res h =
     (case run (ipt_list_cmd tool) h of
        (Inl e, h1) \<Rightarrow>
          (if tool = ''iptables'' then (Inl (CommandFailed e), h1)
           else ipt_tools run want tools (add_note e res) h1)
      | (Inr out, h1) \<Rightarrow>
          (let st = parseIptables out;
               res1 = (if filtering st then res\<lparr>re_Active := True\<rparr> else res)
           in case ipt_drop run tool want (is_tagged st) res1 h1 of
                (res2, h2) \<Rightarrow>
                  (case ipt_want run tool st (sortedRules want) res2 h2 of
                     (res3, h3) \<Rightarrow> ipt_tools run want tools res3 h3)))"

text \<open>\<open>has6\<close> is whether \<open>ip6tables\<close> is installed.\<close>

definition iptables_Sync :: "bool \<Rightarrow> 'h run \<Rightarrow> 'h sync" where
  "iptables_Sync has6 run want h =
     ipt_tools run want (if has6 then [''iptables'', ''ip6tables''] else [''iptables''])
       (foldl (\<lambda>res w. set_rule w StateExisting None res) (newResult ModeIptables) want) h"

section \<open>The contract of a backend\<close>

definition ipt_owned :: "string list \<Rightarrow> bool" where
  "ipt_owned c \<longleftrightarrow> (\<exists>tool\<in>{''iptables'', ''ip6tables''}. c = ipt_list_cmd tool
     \<or> (\<exists>op r i. op \<in> {''-D'', ''-I''} \<and> idPattern i \<and> c = tool # ruleArgs op r i))"

lemma ipt_init:
  "result_keys (foldl (\<lambda>res w. set_rule w StateExisting None res) res want) = result_keys res \<union> Key ` set want"
  "good_states res \<Longrightarrow> good_states (foldl (\<lambda>res w. set_rule w StateExisting None res) res want)"
  by (induction want arbitrary: res) auto

lemma ipt_drop_res:
  "ipt_drop run tool want ts res h = (res', h') \<Longrightarrow> result_keys res' = result_keys res \<and> (good_states res \<longrightarrow> good_states res')"
  by (induction run tool want ts res h rule: ipt_drop.induct) (auto split: if_splits prod.splits sum.splits)

lemma ipt_want_res:
  "ipt_want run tool st ws res h = (res', h') \<Longrightarrow> Key ` set ws \<subseteq> result_keys res \<Longrightarrow>
     result_keys res' = result_keys res \<and> (good_states res \<longrightarrow> good_states res')"
  by (induction run tool st ws res h rule: ipt_want.induct)
    (auto simp: Let_def insert_absorb split: if_splits prod.splits sum.splits)

lemma ipt_tools_Inr:
  assumes "run (ipt_list_cmd tool) h = (Inr out, h1)"
  obtains res1 res2 h2 res3 h3 where "res1 = (if filtering (parseIptables out) then res\<lparr>re_Active := True\<rparr> else res)"
    and "ipt_drop run tool want (is_tagged (parseIptables out)) res1 h1 = (res2, h2)"
    and "ipt_want run tool (parseIptables out) (sortedRules want) res2 h2 = (res3, h3)"
    and "ipt_tools run want (tool # tools) res h = ipt_tools run want tools res3 h3"
proof -
  define res1 where "res1 = (if filtering (parseIptables out) then res\<lparr>re_Active := True\<rparr> else res)"
  obtain res2 h2 where d: "ipt_drop run tool want (is_tagged (parseIptables out)) res1 h1 = (res2, h2)" by fastforce
  obtain res3 h3 where w: "ipt_want run tool (parseIptables out) (sortedRules want) res2 h2 = (res3, h3)" by fastforce
  show ?thesis
    by (rule that[OF res1_def d w]) (simp add: assms Let_def d w flip: res1_def)
qed

lemma ipt_tools_res:
  "ipt_tools run want tools res h = (Inr res', h') \<Longrightarrow> result_keys res = Key ` set want \<Longrightarrow> good_states res \<Longrightarrow>
     result_keys res' = Key ` set want \<and> good_states res'"
proof (induction tools arbitrary: res h)
  case (Cons tool tools)
  obtain r h1 where r: "run (ipt_list_cmd tool) h = (r, h1)" by fastforce
  show ?case
  proof (cases r)
    case (Inl e)
    with Cons r show ?thesis by (auto split: if_splits)
  next
    case (Inr out)
    obtain res1 res2 h2 res3 h3 where
      1: "res1 = (if filtering (parseIptables out) then res\<lparr>re_Active := True\<rparr> else res)"
      and d: "ipt_drop run tool want (is_tagged (parseIptables out)) res1 h1 = (res2, h2)"
      and w: "ipt_want run tool (parseIptables out) (sortedRules want) res2 h2 = (res3, h3)"
      and s: "ipt_tools run want (tool # tools) res h = ipt_tools run want tools res3 h3"
      by (rule ipt_tools_Inr[of run tool h out h1, OF r[unfolded Inr]])
    have "result_keys res1 = Key ` set want" "good_states res1" using Cons.prems(2,3) by (simp_all add: 1)
    then have "result_keys res3 = Key ` set want" "good_states res3"
      using ipt_drop_res[OF d] ipt_want_res[OF w] by simp_all
    then show ?thesis using Cons.IH[of res3 h3] Cons.prems(1) s by simp
  qed
qed simp

lemma ipt_line_valid: "tags_valid (is_tagged st) \<Longrightarrow> tags_valid (is_tagged (ipt_line st l))"
  by (auto simp: ipt_line_def Let_def intro!: tags_valid_update dest: tagID_ok
      split: option.splits prod.splits bool.splits)

lemma ipt_tags_valid: "tags_valid (is_tagged (parseIptables out))"
proof -
  have "tags_valid (is_tagged (foldl ipt_line st ls))" if "tags_valid (is_tagged st)" for st ls
    using that by (induction ls arbitrary: st) (auto simp: ipt_line_valid)
  from this[of "\<lparr>is_policy = [], is_rules = 0, is_tagged = [], is_untagged = []\<rparr>"]
  show ?thesis by (simp add: parseIptables_def tags_valid_def[of "[]"])
qed

lemma ipt_drop_owned:
  assumes P: "\<And>c h. ipt_owned c \<Longrightarrow> P h \<Longrightarrow> P (snd (run c h))" and "tool \<in> {''iptables'', ''ip6tables''}"
    and "tags_valid ts" and "P h" and "ipt_drop run tool want ts res h = (res', h')"
  shows "P h'"
  using assms(3-)
proof (induction ts arbitrary: res h)
  case (Cons t ts)
  obtain k i where t: "t = (k, i)" by (cases t)
  with Cons.prems(1) have i: "idPattern i" "tags_valid ts" by (auto simp: tags_valid_def)
  then have "ipt_owned (tool # ruleArgs ''-D'' (key_rule k) i)"
    using assms(2) unfolding ipt_owned_def by blast
  then have "P (snd (run (tool # ruleArgs ''-D'' (key_rule k) i) h))" using Cons.prems(2) P by blast
  with Cons.IH[OF i(2)] Cons.prems(2,3) t show ?case
    by (auto split: if_splits prod.splits sum.splits)
qed simp

lemma ipt_want_owned:
  assumes P: "\<And>c h. ipt_owned c \<Longrightarrow> P h \<Longrightarrow> P (snd (run c h))" and "tool \<in> {''iptables'', ''ip6tables''}"
    and "\<forall>w\<in>set ws. rule_Validate w = None" and "P h" and "ipt_want run tool st ws res h = (res', h')"
  shows "P h'"
  using assms(3-)
proof (induction ws arbitrary: res h)
  case (Cons w ws)
  then have w: "idPattern (ru_ID w)" "\<forall>w\<in>set ws. rule_Validate w = None" by (auto simp: rule_Validate_None)
  then have "ipt_owned (tool # ruleArgs ''-I'' w (ru_ID w))"
    using assms(2) unfolding ipt_owned_def by blast
  then have "P (snd (run (tool # ruleArgs ''-I'' w (ru_ID w)) h))" using Cons.prems(2) P by blast
  with Cons.IH[OF w(2)] Cons.prems(2,3) show ?case
    by (auto simp: Let_def split: if_splits prod.splits sum.splits)
qed simp

lemma ipt_tools_owned:
  assumes P: "\<And>c h. ipt_owned c \<Longrightarrow> P h \<Longrightarrow> P (snd (run c h))" and "set tools \<subseteq> {''iptables'', ''ip6tables''}"
    and want: "\<forall>w\<in>set want. rule_Validate w = None" and "P h"
  shows "P (snd (ipt_tools run want tools res h))"
  using assms(2,4)
proof (induction tools arbitrary: res h)
  case (Cons tool tools)
  have tool: "tool \<in> {''iptables'', ''ip6tables''}" using Cons.prems(1) by simp
  obtain r h1 where r: "run (ipt_list_cmd tool) h = (r, h1)" by fastforce
  have "ipt_owned (ipt_list_cmd tool)" using tool unfolding ipt_owned_def by blast
  then have h1: "P h1" using P[OF _ Cons.prems(2), of "ipt_list_cmd tool"] r by simp
  show ?case
  proof (cases r)
    case (Inl e)
    with Cons h1 r show ?thesis by simp
  next
    case (Inr out)
    obtain res1 res2 h2 res3 h3 where
      d: "ipt_drop run tool want (is_tagged (parseIptables out)) res1 h1 = (res2, h2)"
      and w: "ipt_want run tool (parseIptables out) (sortedRules want) res2 h2 = (res3, h3)"
      and s: "ipt_tools run want (tool # tools) res h = ipt_tools run want tools res3 h3"
      by (rule ipt_tools_Inr[of run tool h out h1, OF r[unfolded Inr]])
    have "P h2" by (rule ipt_drop_owned[where P = P, OF P tool ipt_tags_valid h1 d])
    then have "P h3" using want by (intro ipt_want_owned[where P = P, OF P tool _ _ w]) simp_all
    with Cons s show ?thesis by simp
  qed
qed simp

interpretation iptables: fw_backend "iptables_Sync has6" "\<lambda>h. h" ipt_owned for has6
proof
  fix run :: "'h run" and want h h' res
  assume s: "iptables_Sync has6 run want h = (Inr res, h')"
  have "result_keys res = Key ` set want \<and> good_states res"
    by (rule ipt_tools_res[OF s[unfolded iptables_Sync_def]]) (simp_all add: ipt_init)
  then show "result_keys res = Key ` set want" "good_states res" by blast+
next
  fix run :: "'h run" and want h and P
  assume "\<And>c h. ipt_owned c \<Longrightarrow> P h \<Longrightarrow> P (snd (run c h))" "\<forall>w\<in>set want. rule_Validate w = None" "P h"
  then show "P (snd (iptables_Sync has6 run want h))"
    unfolding iptables_Sync_def by (intro ipt_tools_owned[where P = P]) (auto split: if_splits)
qed

end
