(* ===== verification/Fw_Nftables.thy ===== *)
theory Fw_Nftables
  imports Firewall
begin

text \<open>
  \<open>internal/firewall/nftables.go\<close>: tagged accept rules in every base chain hooked on input. The
  JSON text of \<open>nft -j list ruleset\<close> is decoded by \<open>encoding/json\<close>, the parameter \<open>decode\<close>:
  it gives the members the code looks at, for every item of the document.
\<close>

section \<open>The ruleset\<close>

record nft_chain =
  nc_Family :: string
  nc_Table :: string
  nc_Name :: string
  nc_Handle :: int
  nc_Type :: string
  nc_Hook :: string
  nc_Policy :: string

text \<open>
  One expression of a rule: \<open>ExBad\<close> when it is not an object, else whether it has an
  \<open>accept\<close> and a \<open>counter\<close> member, and its \<open>match\<close> member, when it has one and when that
  decodes. The right-hand side of a match is \<open>None\<close> when it is not an integer.
\<close>

record nft_match =
  nm_Op :: string
  nm_Protocol :: string
  nm_Field :: string
  nm_Right :: "int option"

datatype nft_expr = ExBad | Ex (ex_accept: bool) (ex_counter: bool) (ex_match: "nft_match option option")

record nft_rule =
  nr_Family :: string
  nr_Table :: string
  nr_Chain :: string
  nr_Handle :: int
  nr_Comment :: string
  nr_Expr :: "nft_expr list"
  nr_proto :: string
  nr_port :: int
  nr_accept :: bool
  nr_plain :: bool

record nft_item =
  ni_chain :: "nft_chain option"
  ni_rule :: "nft_rule option"

record nft_ruleset =
  ns_chains :: "nft_chain list"
  ns_rules :: "nft_rule list"

definition inputChains :: "nft_ruleset \<Rightarrow> nft_chain list" where
  "inputChains rs =
     filter (\<lambda>c. nc_Hook c = ''input'' \<and> (nc_Type c = ''filter'' \<or> nc_Type c = [])) (ns_chains rs)"

fun all_ipt_loop :: "nft_chain list \<Rightarrow> bool" where
  "all_ipt_loop [] = True"
| "all_ipt_loop (c # cs) =
     (if nc_Name c \<noteq> ''INPUT'' \<or> nc_Table c \<noteq> ''filter'' \<or> (nc_Family c \<noteq> ''ip'' \<and> nc_Family c \<noteq> ''ip6'')
      then False else all_ipt_loop cs)"

definition allIptablesChains :: "nft_chain list \<Rightarrow> bool" where
  "allIptablesChains chs = (all_ipt_loop chs \<and> chs \<noteq> [])"

text \<open>The loop of \<open>analyse\<close> over the expressions; \<open>matches\<close> and \<open>other\<close> are its counters.\<close>

definition analyse_expr :: "nft_rule \<times> nat \<times> nat \<Rightarrow> nft_expr \<Rightarrow> nft_rule \<times> nat \<times> nat" where
  "analyse_expr s e =
     (case s of (r, matches, other) \<Rightarrow>
      (case e of
         ExBad \<Rightarrow> (r, matches, other + 1)
       | Ex acc cnt m \<Rightarrow>
           if acc then (r\<lparr>nr_accept := True\<rparr>, matches, other)
           else if cnt then (r, matches, other)
           else (case m of
               None \<Rightarrow> (r, matches, other + 1)
             | Some None \<Rightarrow> (r, matches + 1, other)
             | Some (Some x) \<Rightarrow>
                 (case nm_Right x of
                    Some port \<Rightarrow>
                      if (nm_Op x = ''=='' \<or> nm_Op x = []) \<and> nm_Field x = ''dport''
                         \<and> (nm_Protocol x = ''tcp'' \<or> nm_Protocol x = ''udp'')
                      then (r\<lparr>nr_proto := nm_Protocol x, nr_port := port\<rparr>, matches + 1, other)
                      else (r, matches + 1, other)
                  | None \<Rightarrow> (r, matches + 1, other)))))"

definition analyse :: "nft_rule \<Rightarrow> nft_rule" where
  "analyse r0 =
     (case foldl analyse_expr (r0, 0, 0) (nr_Expr r0) of
        (r, matches, other) \<Rightarrow>
          r\<lparr>nr_plain := nr_accept r \<and> nr_port r > 0 \<and> matches = 1 \<and> other = 0\<rparr>)"

definition parseNftRuleset :: "(string \<Rightarrow> nft_item list option) \<Rightarrow> string \<Rightarrow> (fw_error, nft_ruleset) result" where
  "parseNftRuleset decode out =
     (case decode out of
        None \<Rightarrow> Inl ParseFailed
      | Some items \<Rightarrow> Inr \<lparr>ns_chains = List.map_filter ni_chain items,
                        ns_rules = map analyse (List.map_filter ni_rule items)\<rparr>)"

definition nr_key :: "nft_rule \<Rightarrow> string" where
  "nr_key r = port_key (nr_port r) (nr_proto r)"

definition chainRef :: "nft_rule \<Rightarrow> string" where
  "chainRef r = nr_Family r @ '' '' @ nr_Table r @ '' '' @ nr_Chain r"

definition chain_ref :: "nft_chain \<Rightarrow> string" where
  "chain_ref c = nc_Family c @ '' '' @ nc_Table c @ '' '' @ nc_Name c"

section \<open>Sync\<close>

definition nft_list_cmd :: "string list" where
  "nft_list_cmd = [''nft'', ''-j'', ''list'', ''ruleset'']"

definition nft_delete_cmd :: "string \<Rightarrow> int \<Rightarrow> string list" where
  "nft_delete_cmd ref handle = [''nft'', ''delete'', ''rule''] @ Go_Strings.fields ref @ [''handle'', itoa handle]"

definition nft_insert_cmd :: "nft_chain \<Rightarrow> rule \<Rightarrow> string list" where
  "nft_insert_cmd c w =
     [''nft'', ''insert'', ''rule'', nc_Family c, nc_Table c, nc_Name c, ru_Proto w, ''dport'',
      itoa (ru_Port w), ''accept'', ''comment'', CHR 0x22 # Tag @ ru_ID w @ [CHR 0x22]]"

text \<open>What is there now: the tagged rules and the keys of plain operator rules, per chain.\<close>

definition nft_owned_rules :: "nft_rule list \<Rightarrow> (string \<times> nft_rule \<times> string) list" where
  "nft_owned_rules rs =
     List.map_filter (\<lambda>r. case tagID (nr_Comment r) of (i, ok) \<Rightarrow> if ok then Some (chainRef r, r, i) else None) rs"

definition nft_existing :: "nft_rule list \<Rightarrow> (string \<times> string) list" where
  "nft_existing rs =
     map (\<lambda>r. (chainRef r, nr_key r)) (filter (\<lambda>r. \<not> snd (tagID (nr_Comment r)) \<and> nr_plain r) rs)"

definition nft_keeps :: "rule list \<Rightarrow> nft_rule \<Rightarrow> string \<Rightarrow> bool" where
  "nft_keeps want r i \<longleftrightarrow> (\<exists>w\<in>set want. Key w = nr_key r \<and> ru_ID w = i) \<and> nr_accept r"

text \<open>
  Stale tagged rules are removed; the result also lists the chain and key of those that stay.
\<close>

fun nft_drop ::
  "'h run \<Rightarrow> rule list \<Rightarrow> (string \<times> nft_rule \<times> string) list \<Rightarrow> fw_result \<Rightarrow> 'h
    \<Rightarrow> (string \<times> string) list \<times> fw_result \<times> 'h" where
  "nft_drop run want [] res h = ([], res, h)"
| "nft_drop run want ((ref, r, i) # ts) res h =
     (if nft_keeps want r i then
        (case nft_drop run want ts res h of (present, res', h') \<Rightarrow> ((ref, nr_key r) # present, res', h'))
      else case run (nft_delete_cmd ref (nr_Handle r)) h of
        (Inl e, h1) \<Rightarrow> nft_drop run want ts (add_note e res) h1
      | (Inr _, h1) \<Rightarrow> nft_drop run want ts res h1)"

text \<open>One wanted rule over all chains: the first error, and whether every chain had it already.\<close>

fun nft_insert ::
  "'h run \<Rightarrow> rule \<Rightarrow> (string \<times> string) list \<Rightarrow> (string \<times> string) list \<Rightarrow> nft_chain list
    \<Rightarrow> string option \<Rightarrow> bool \<Rightarrow> 'h \<Rightarrow> string option \<times> bool \<times> 'h" where
  "nft_insert run w present existing [] err all h = (err, all, h)"
| "nft_insert run w present existing (c # cs) err all h =
     (if (chain_ref c, Key w) \<in> set present then nft_insert run w present existing cs err False h
      else if (chain_ref c, Key w) \<in> set existing then nft_insert run w present existing cs err all h
      else case run (nft_insert_cmd c w) h of
        (Inl e, h1) \<Rightarrow>
          nft_insert run w present existing cs (case err of None \<Rightarrow> Some e | Some e0 \<Rightarrow> Some e0) False h1
      | (Inr _, h1) \<Rightarrow> nft_insert run w present existing cs err False h1)"

fun nft_want ::
  "'h run \<Rightarrow> (string \<times> string) list \<Rightarrow> (string \<times> string) list \<Rightarrow> nft_chain list \<Rightarrow> rule list
    \<Rightarrow> fw_result \<Rightarrow> 'h \<Rightarrow> fw_result \<times> 'h" where
  "nft_want run present existing chs [] res h = (res, h)"
| "nft_want run present existing chs (w # ws) res h =
     (case nft_insert run w present existing chs None True h of
        (err, all, h1) \<Rightarrow>
          nft_want run present existing chs ws
            (set_rule w (if all then StateExisting else StateOpen) err res) h1)"

definition nftables_Sync :: "(string \<Rightarrow> nft_item list option) \<Rightarrow> 'h run \<Rightarrow> 'h sync" where
  "nftables_Sync decode run want h =
     (case run nft_list_cmd h of
        (Inl e, h1) \<Rightarrow> (Inl (CommandFailed e), h1)
      | (Inr out, h1) \<Rightarrow>
          (case parseNftRuleset decode out of
             Inl e \<Rightarrow> (Inl e, h1)
           | Inr rs \<Rightarrow>
               (let chs = inputChains rs in
                if chs = [] then
                  (Inr (foldl (\<lambda>res w. set_rule w StateOpen None res)
                     ((newResult ModeNftables)\<lparr>re_Note := ''nftables has no input chain; nothing is being filtered''\<rparr>)
                     want), h1)
                else
                  (case nft_drop run want (nft_owned_rules (ns_rules rs)) ((newResult ModeNftables)\<lparr>re_Active := True\<rparr>) h1 of
                     (present, res1, h2) \<Rightarrow>
                       (case nft_want run present (nft_existing (ns_rules rs)) chs (sortedRules want) res1 h2 of
                          (res2, h3) \<Rightarrow> (Inr res2, h3))))))"

section \<open>The contract of a backend\<close>

definition nft_owned :: "string list \<Rightarrow> bool" where
  "nft_owned c \<longleftrightarrow> c = nft_list_cmd \<or> (\<exists>ref n. c = nft_delete_cmd ref n)
     \<or> (\<exists>ch w. idPattern (ru_ID w) \<and> c = nft_insert_cmd ch w)"

lemma nft_drop_res:
  "nft_drop run want ts res h = (present, res', h') \<Longrightarrow>
     result_keys res' = result_keys res \<and> (good_states res \<longrightarrow> good_states res')"
  by (induction run want ts res h arbitrary: present rule: nft_drop.induct)
    (fastforce split: if_splits prod.splits sum.splits)+

lemma nft_want_res:
  "nft_want run present existing chs ws res h = (res', h') \<Longrightarrow>
     result_keys res' = result_keys res \<union> Key ` set ws \<and> (good_states res \<longrightarrow> good_states res')"
  by (induction run present existing chs ws res h rule: nft_want.induct) (auto split: prod.splits if_splits)

lemma nft_drop_owned:
  assumes P: "\<And>c h. nft_owned c \<Longrightarrow> P h \<Longrightarrow> P (snd (run c h))"
    and "P h" and "nft_drop run want ts res h = (present, res', h')"
  shows "P h'"
  using assms(2-)
proof (induction ts arbitrary: res h present)
  case (Cons t ts)
  obtain ref r i where t: "t = (ref, r, i)" by (metis prod_cases3)
  have "nft_owned (nft_delete_cmd ref (nr_Handle r))" unfolding nft_owned_def by blast
  then have "P (snd (run (nft_delete_cmd ref (nr_Handle r)) h))" using Cons.prems(1) P by blast
  with Cons t show ?case by (fastforce split: if_splits prod.splits sum.splits)
qed simp

lemma nft_insert_owned:
  assumes P: "\<And>c h. nft_owned c \<Longrightarrow> P h \<Longrightarrow> P (snd (run c h))" and w: "idPattern (ru_ID w)"
    and "P h" and "nft_insert run w present existing cs err all h = (err', all', h')"
  shows "P h'"
  using assms(3-)
proof (induction cs arbitrary: err all h)
  case (Cons c cs)
  have "nft_owned (nft_insert_cmd c w)" using w unfolding nft_owned_def by blast
  then have "P (snd (run (nft_insert_cmd c w) h))" using Cons.prems(1) P by blast
  with Cons show ?case by (auto split: if_splits prod.splits sum.splits)
qed simp

lemma nft_want_owned:
  assumes P: "\<And>c h. nft_owned c \<Longrightarrow> P h \<Longrightarrow> P (snd (run c h))"
    and "\<forall>w\<in>set ws. rule_Validate w = None" and "P h"
    and "nft_want run present existing chs ws res h = (res', h')"
  shows "P h'"
  using assms(2-)
proof (induction ws arbitrary: res h)
  case (Cons w ws)
  obtain err all h1 where i: "nft_insert run w present existing chs None True h = (err, all, h1)"
    by (metis prod_cases3)
  have "P h1"
    by (rule nft_insert_owned[where P = P, OF P _ Cons.prems(2) i])
      (use Cons.prems(1) in \<open>simp_all add: rule_Validate_None\<close>)
  with Cons i show ?case by simp
qed simp

interpretation nftables: fw_backend "nftables_Sync decode" "\<lambda>h. h" nft_owned for decode
proof
  fix run :: "'h run" and want h h' res
  assume s: "nftables_Sync decode run want h = (Inr res, h')"
  have "result_keys res = Key ` set want \<and> good_states res"
    using s
    by (auto simp: nftables_Sync_def Let_def none_loop_keys none_loop_states dest!: nft_drop_res nft_want_res
        split: prod.splits sum.splits if_splits)
  then show "result_keys res = Key ` set want" "good_states res" by blast+
next
  fix run :: "'h run" and want h and P
  assume P: "\<And>c h. nft_owned c \<Longrightarrow> P h \<Longrightarrow> P (snd (run c h))"
    and want: "\<forall>w\<in>set want. rule_Validate w = None" and h: "P h"
  obtain r h1 where r: "run nft_list_cmd h = (r, h1)" by fastforce
  have h1: "P h1" using P[OF _ h, of nft_list_cmd] r by (simp add: nft_owned_def)
  show "P (snd (nftables_Sync decode run want h))"
  proof (cases "\<exists>out rs. r = Inr out \<and> parseNftRuleset decode out = Inr rs \<and> inputChains rs \<noteq> []")
    case False
    with h1 show ?thesis by (auto simp: nftables_Sync_def r Let_def split: sum.splits)
  next
    case True
    then obtain out rs where o: "r = Inr out" "parseNftRuleset decode out = Inr rs" "inputChains rs \<noteq> []" by blast
    obtain present res1 h2 where d: "nft_drop run want (nft_owned_rules (ns_rules rs))
        ((newResult ModeNftables)\<lparr>re_Active := True\<rparr>) h1 = (present, res1, h2)" by (metis prod_cases3)
    obtain res2 h3 where w: "nft_want run present (nft_existing (ns_rules rs)) (inputChains rs) (sortedRules want) res1 h2
        = (res2, h3)" by fastforce
    have "P h2" by (rule nft_drop_owned[where P = P, OF P h1 d])
    then have "P h3" using want by (intro nft_want_owned[where P = P, OF P _ _ w]) simp_all
    then show ?thesis by (simp add: nftables_Sync_def r o d w)
  qed
qed

end
