(* ===== verification/Agent.thy ===== *)
theory Agent
  imports Fw_Ufw Fw_Firewalld Fw_Iptables Fw_Nftables
begin

text \<open>
  The choice of a backend (\<open>newWith\<close> and \<open>detect\<close> of \<open>internal/firewall/firewall.go\<close>) and the
  \<open>sync\<close> operation of the agent (\<open>internal/agent/agent.go\<close>), which validates a request before it
  touches the host. What is installed on the host is the parameter \<open>has\<close>; the state is the
  host with firewalld's ledger.
\<close>

section \<open>Choosing a backend\<close>

datatype backend = Ufw | Firewalld | Nftables | Iptables | NoFirewall

definition on_host :: "('h \<Rightarrow> 'r \<times> 'h) \<Rightarrow> 'h fd_host \<Rightarrow> 'r \<times> 'h fd_host" where
  "on_host f s = (case f (fd_host s) of (r, h) \<Rightarrow> (r, s\<lparr>fd_host := h\<rparr>))"

record host_env =
  he_has :: "string \<Rightarrow> bool"
  he_decode :: "string \<Rightarrow> nft_item list option"

fun backend_Sync :: "host_env \<Rightarrow> backend \<Rightarrow> 'h run \<Rightarrow> 'h fd_host sync" where
  "backend_Sync env Ufw run want s = on_host (ufw_Sync run want) s"
| "backend_Sync env Firewalld run want s = firewalld_Sync run want s"
| "backend_Sync env Nftables run want s = on_host (nftables_Sync (he_decode env) run want) s"
| "backend_Sync env Iptables run want s = on_host (iptables_Sync (he_has env ''ip6tables'') run want) s"
| "backend_Sync env NoFirewall run want s = on_host (none_Sync want) s"

text \<open>\<open>detect\<close> asks in order; each step either settles on a backend or moves on.\<close>

definition detect_firewalld :: "host_env \<Rightarrow> 'h run \<Rightarrow> 'h \<Rightarrow> backend option \<times> 'h" where
  "detect_firewalld env run h =
     (if he_has env ''firewall-cmd'' then
        (case run fd_state_cmd h of
           (Inr _, h1) \<Rightarrow> (Some Firewalld, h1)
         | (Inl _, h1) \<Rightarrow> (None, h1))
      else (None, h))"

definition detect_ufw :: "host_env \<Rightarrow> 'h run \<Rightarrow> 'h \<Rightarrow> backend option \<times> 'h" where
  "detect_ufw env run h =
     (if he_has env ''ufw'' then
        (case run ufw_status_cmd h of
           (Inr out, h1) \<Rightarrow> (if contains out ''Status: active'' then Some Ufw else None, h1)
         | (Inl _, h1) \<Rightarrow> (None, h1))
      else (None, h))"

definition detect_nft :: "host_env \<Rightarrow> 'h run \<Rightarrow> 'h \<Rightarrow> backend option \<times> 'h" where
  "detect_nft env run h =
     (if he_has env ''nft'' then
        (case run nft_list_cmd h of
           (Inr out, h1) \<Rightarrow>
             (case parseNftRuleset (he_decode env) out of
                Inr rs \<Rightarrow>
                  (let chs = inputChains rs in
                   if chs = [] then (None, h1)
                   else if allIptablesChains chs \<and> he_has env ''iptables'' then (Some Iptables, h1)
                   else (Some Nftables, h1))
              | Inl _ \<Rightarrow> (None, h1))
         | (Inl _, h1) \<Rightarrow> (None, h1))
      else (None, h))"

definition detect_iptables :: "host_env \<Rightarrow> 'h run \<Rightarrow> 'h \<Rightarrow> backend option \<times> 'h" where
  "detect_iptables env run h =
     (if he_has env ''iptables'' then
        (case run (ipt_list_cmd ''iptables'') h of
           (Inr out, h1) \<Rightarrow> (if filtering (parseIptables out) then Some Iptables else None, h1)
         | (Inl _, h1) \<Rightarrow> (None, h1))
      else (None, h))"

fun first_of :: "('h \<Rightarrow> backend option \<times> 'h) list \<Rightarrow> 'h \<Rightarrow> backend \<times> 'h" where
  "first_of [] h = (NoFirewall, h)"
| "first_of (d # ds) h =
     (case d h of (Some b, h1) \<Rightarrow> (b, h1) | (None, h1) \<Rightarrow> first_of ds h1)"

definition detect :: "host_env \<Rightarrow> 'h run \<Rightarrow> 'h \<Rightarrow> backend \<times> 'h" where
  "detect env run =
     first_of [detect_firewalld env run, detect_ufw env run, detect_nft env run, detect_iptables env run]"

definition newWith :: "host_env \<Rightarrow> string \<Rightarrow> 'h run \<Rightarrow> 'h \<Rightarrow> (fw_error, backend) result \<times> 'h" where
  "newWith env mode run h =
     (if mode = ModeUFW then (Inr Ufw, h)
      else if mode = ModeFirewalld then (Inr Firewalld, h)
      else if mode = ModeNftables then (Inr Nftables, h)
      else if mode = ModeIptables then (Inr Iptables, h)
      else if mode = ModeAuto \<or> mode = [] then (case detect env run h of (b, h1) \<Rightarrow> (Inr b, h1))
      else if mode = ModeOff then (Inl FirewallOff, h)
      else (Inl (UnknownMode mode), h))"

fun backend_Name :: "backend \<Rightarrow> string" where
  "backend_Name Ufw = ModeUFW"
| "backend_Name Firewalld = ModeFirewalld"
| "backend_Name Nftables = ModeNftables"
| "backend_Name Iptables = ModeIptables"
| "backend_Name NoFirewall = ''none''"

section \<open>The sync request\<close>

definition maxRules :: nat where "maxRules = 2000"

datatype agent_error = InvalidMode string | TooManyRules | InvalidRule fw_error | DuplicateRule string
  | BackendFailed fw_error | AgentUnreachable | UnknownError
  | InvalidTag string | NotConfigured | UpdateInProgress | NoUpdater | UnknownOp string
  | RequestNotRead string | RequestNotParsed string

record sync_request =
  rq_Mode :: string
  rq_Rules :: "rule list"

record response =
  rp_OK :: bool
  rp_Error :: "agent_error option"
  rp_Backend :: string
  rp_Active :: bool
  rp_Note :: string
  rp_Rules :: "(string \<times> rule_state) list"

definition refuse :: "string \<Rightarrow> agent_error \<Rightarrow> response" where
  "refuse be e = \<lparr>rp_OK = False, rp_Error = Some e, rp_Backend = be, rp_Active = False, rp_Note = [], rp_Rules = []\<rparr>"

fun check_rules :: "rule list \<Rightarrow> string set \<Rightarrow> agent_error option" where
  "check_rules [] seen = None"
| "check_rules (r # rs) seen =
     (case rule_Validate r of
        Some e \<Rightarrow> Some (InvalidRule e)
      | None \<Rightarrow>
          if Key r \<in> seen then Some (DuplicateRule (Key r))
          else check_rules rs (insert (Key r) seen))"

definition agent_sync ::
  "host_env \<Rightarrow> 'h run \<Rightarrow> sync_request \<Rightarrow> 'h fd_host \<Rightarrow> response \<times> 'h fd_host" where
  "agent_sync env run req s =
     (let mode = (if rq_Mode req = [] then ModeAuto else rq_Mode req) in
      if \<not> ValidMode mode \<or> mode = ModeOff then (refuse [] (InvalidMode mode), s)
      else if length (rq_Rules req) > maxRules then (refuse [] TooManyRules, s)
      else case check_rules (rq_Rules req) {} of
        Some e \<Rightarrow> (refuse [] e, s)
      | None \<Rightarrow>
          (case on_host (newWith env mode run) s of
             (Inl e, s1) \<Rightarrow> (refuse [] (BackendFailed e), s1)
           | (Inr be, s1) \<Rightarrow>
               (case backend_Sync env be run (rq_Rules req) s1 of
                  (Inl e, s2) \<Rightarrow> (refuse (backend_Name be) (BackendFailed e), s2)
                | (Inr res, s2) \<Rightarrow>
                    (\<lparr>rp_OK = True, rp_Error = None, rp_Backend = re_Backend res, rp_Active = re_Active res,
                      rp_Note = re_Note res, rp_Rules = re_Rules res\<rparr>, s2))))"

section \<open>Every backend keeps the contract\<close>

text \<open>The commands the agent may run: those of the backends.\<close>

definition agent_owned :: "string list \<Rightarrow> bool" where
  "agent_owned c \<longleftrightarrow> ufw_owned c \<or> fd_owned c \<or> nft_owned c \<or> ipt_owned c"

lemma on_host_Inr:
  "on_host f s = (r, s') \<longleftrightarrow> (\<exists>h'. f (fd_host s) = (r, h') \<and> s' = s\<lparr>fd_host := h'\<rparr>)"
  by (auto simp: on_host_def split: prod.splits)

lemma host_of_on_host [simp]: "fd_host (snd (on_host f s)) = snd (f (fd_host s))"
  by (simp add: on_host_def split: prod.splits)

interpretation be: fw_backend "backend_Sync env b" fd_host agent_owned for env b
proof
  fix run :: "'h run" and want and s s' :: "'h fd_host" and res
  assume S: "backend_Sync env b run want s = (Inr res, s')"
  then consider h' where "ufw_Sync run want (fd_host s) = (Inr res, h')"
    | "firewalld_Sync run want s = (Inr res, s')"
    | h' where "nftables_Sync (he_decode env) run want (fd_host s) = (Inr res, h')"
    | h' where "iptables_Sync (he_has env ''ip6tables'') run want (fd_host s) = (Inr res, h')"
    | h' where "none_Sync want (fd_host s) = (Inr res, h')"
    by (cases b) (auto simp: on_host_Inr)
  note C = this
  show "result_keys res = Key ` set want"
    using C by cases (blast dest: ufw.covers firewalld.covers nftables.covers iptables.covers none.covers)+
  show "good_states res"
    using C by cases (blast dest: ufw.states firewalld.states nftables.states iptables.states none.states)+
next
  fix run :: "'h run" and want and s :: "'h fd_host" and P
  assume P: "\<And>c h. agent_owned c \<Longrightarrow> P h \<Longrightarrow> P (snd (run c h))"
    and want: "\<forall>w\<in>set want. rule_Validate w = None" and h: "P (fd_host s)"
  have "P (snd (ufw_Sync run want (fd_host s)))"
    by (rule ufw.only_owned[where P = P, OF _ want h]) (simp add: P agent_owned_def)
  moreover have "P (snd (nftables_Sync (he_decode env) run want (fd_host s)))"
    by (rule nftables.only_owned[where P = P, OF _ want h]) (simp add: P agent_owned_def)
  moreover have "P (snd (iptables_Sync (he_has env ''ip6tables'') run want (fd_host s)))"
    by (rule iptables.only_owned[where P = P, OF _ want h]) (simp add: P agent_owned_def)
  moreover have "P (fd_host (snd (firewalld_Sync run want s)))"
    by (rule firewalld.only_owned[where P = P, OF _ want h]) (simp add: P agent_owned_def)
  moreover have "P (snd (none_Sync want (fd_host s)))" using h by (simp add: none_Sync_def)
  ultimately show "P (fd_host (snd (backend_Sync env b run want s)))"
    by (cases b) simp_all
qed

lemma detect_owned:
  assumes P: "\<And>c h. agent_owned c \<Longrightarrow> P h \<Longrightarrow> P (snd (run c h))" and "P h"
  shows "P (snd (detect env run h))"
proof -
  have q: "P (snd (run fd_state_cmd h))" "P (snd (run ufw_status_cmd h))" "P (snd (run nft_list_cmd h))"
    "P (snd (run (ipt_list_cmd ''iptables'') h))" if "P h" for h
    using P[OF _ that] by (auto simp: agent_owned_def fd_owned_def ufw_owned_def nft_owned_def ipt_owned_def)
  have steps: "P (snd (d h))" if "P h" and "d \<in> {detect_firewalld env run, detect_ufw env run, detect_nft env run, detect_iptables env run}"
    for d h
    using q[OF that(1)] that
    by (auto simp: detect_firewalld_def detect_ufw_def detect_nft_def detect_iptables_def Let_def split: prod.splits sum.splits)
  have "P (snd (first_of ds h))" if "P h"
    "set ds \<subseteq> {detect_firewalld env run, detect_ufw env run, detect_nft env run, detect_iptables env run}" for ds h
    using that
  proof (induction ds arbitrary: h)
    case (Cons d ds)
    then have "P (snd (d h))" using steps by simp
    with Cons show ?case by (auto split: prod.splits option.splits)
  qed simp
  from this[OF assms(2), of "[detect_firewalld env run, detect_ufw env run, detect_nft env run, detect_iptables env run]"]
  show ?thesis unfolding detect_def by (simp del: first_of.simps)
qed

lemma newWith_owned:
  assumes "\<And>c h. agent_owned c \<Longrightarrow> P h \<Longrightarrow> P (snd (run c h))" and "P h"
  shows "P (snd (newWith env mode run h))"
proof -
  obtain b h1 where d: "detect env run h = (b, h1)" by fastforce
  have "P (snd (detect env run h))" by (rule detect_owned[where P = P and run = run, OF assms])
  with d assms(2) show ?thesis by (simp add: newWith_def)
qed

lemma check_rules_None:
  "check_rules rs seen = None \<longleftrightarrow>
     (\<forall>r\<in>set rs. rule_Validate r = None \<and> Key r \<notin> seen) \<and> distinct (map Key rs)"
  by (induction rs seen rule: check_rules.induct)
    (auto split: option.splits, (metis image_eqI)+)

section \<open>Properties of the agent\<close>

lemma agent_sync_accepts:
  assumes "agent_sync env run req s = (resp, s')" and "rp_OK resp"
  shows "(\<forall>r\<in>set (rq_Rules req). rule_Validate r = None) \<and> distinct (map Key (rq_Rules req))
    \<and> length (rq_Rules req) \<le> maxRules
    \<and> fst ` set (rp_Rules resp) = Key ` set (rq_Rules req)
    \<and> (\<forall>r\<in>set (rq_Rules req). \<exists>rs. map_of (rp_Rules resp) (Key r) = Some rs
         \<and> rs_State rs \<in> {StateOpen, StateExisting, StateError})"
proof -
  let ?mode = "if rq_Mode req = [] then ModeAuto else rq_Mode req"
  have c: "check_rules (rq_Rules req) {} = None" and l: "length (rq_Rules req) \<le> maxRules"
    using assms by (auto simp: agent_sync_def Let_def refuse_def split: if_splits option.splits)
  from assms obtain b s1 res where B: "backend_Sync env b run (rq_Rules req) s1 = (Inr res, s')"
    and R: "rp_Rules resp = re_Rules res"
    by (auto simp: agent_sync_def Let_def refuse_def split: if_splits option.splits prod.splits sum.splits)
  have "\<exists>rs. map_of (rp_Rules resp) (Key r) = Some rs \<and> rs_State rs \<in> {StateOpen, StateExisting, StateError}"
    if "r \<in> set (rq_Rules req)" for r
    using be.every_rule_reported[OF B that] by (simp add: state_of_def R rule_states_def)
  moreover have "fst ` set (rp_Rules resp) = Key ` set (rq_Rules req)"
    using be.covers[OF B] by (simp add: result_keys_def R)
  ultimately show ?thesis using c l by (simp add: check_rules_None)
qed

text \<open>
  C23: a request the agent accepts was valid (known mode, at most 2000 rules, every rule well
  formed, no port and protocol twice), and the response reports open, existing or error for
  exactly the requested rules, whichever backend the host has.
\<close>

theorem agent_reports_every_rule:
  assumes "agent_sync env run req s = (resp, s')" and "rp_OK resp"
  shows "(\<forall>r\<in>set (rq_Rules req). rule_Validate r = None) \<and> distinct (map Key (rq_Rules req))
    \<and> length (rq_Rules req) \<le> maxRules
    \<and> fst ` set (rp_Rules resp) = Key ` set (rq_Rules req)
    \<and> (\<forall>r\<in>set (rq_Rules req). \<exists>rs. map_of (rp_Rules resp) (Key r) = Some rs
         \<and> rs_State rs \<in> {StateOpen, StateExisting, StateError})"
  using agent_sync_accepts[OF assms] .

definition demo_rule :: rule where
  "demo_rule = \<lparr>ru_ID = ''f1'', ru_Port = 80, ru_Proto = ''tcp''\<rparr>"

definition demo_env :: host_env where
  "demo_env = \<lparr>he_has = (\<lambda>n. n = ''ufw''), he_decode = (\<lambda>_. None)\<rparr>"

definition demo_host :: "(string list list) fd_host" where
  "demo_host = \<lparr>fd_host = [], fd_file = LNone, fd_writable = True\<rparr>"

text \<open>A host that records its commands and reports an active, empty \<open>ufw\<close>.\<close>

definition log_run :: "string list list run" where
  "log_run c h = (Inr ''Status: active'', h @ [c])"

lemma ufw_want_backend: "re_Backend (fst (ufw_want run st ws res h)) = re_Backend res"
  by (induction run st ws res h rule: ufw_want.induct) (simp_all add: Let_def set_rule_def split: prod.splits)

lemma ufw_drop_backend: "re_Backend (fst (ufw_drop run keys ts res h)) = re_Backend res"
  by (induction run keys ts res h rule: ufw_drop.induct) (simp_all add: Let_def add_note_def split: prod.splits sum.splits)

lemma demo_accepted_rules:
  assumes "check_rules rs {} = None" and "length rs \<le> maxRules"
  shows "rp_OK (fst (agent_sync demo_env log_run \<lparr>rq_Mode = ModeUFW, rq_Rules = rs\<rparr> demo_host))
    \<and> rp_Backend (fst (agent_sync demo_env log_run \<lparr>rq_Mode = ModeUFW, rq_Rules = rs\<rparr> demo_host)) = ModeUFW"
proof -
  have m: "ValidMode ModeUFW" "ModeUFW \<noteq> []" "ModeUFW \<noteq> ModeOff" by code_simp+
  let ?st = "parseUfwStatus ''Status: active''"
  let ?res = "if us_active ?st then (newResult ModeUFW)\<lparr>re_Active := us_active ?st\<rparr>
    else (newResult ModeUFW)\<lparr>re_Active := us_active ?st,
      re_Note := ''ufw is installed but inactive; rules are staged for when it is enabled''\<rparr>"
  obtain res2 h2 where w: "ufw_want log_run ?st (sortedRules rs) ?res [ufw_status_cmd] = (res2, h2)" by fastforce
  obtain res3 h3 where d: "ufw_drop log_run (Key ` set rs) (us_tagged ?st) res2 h2 = (res3, h3)" by fastforce
  have "re_Backend res3 = ModeUFW"
    using ufw_want_backend[of log_run ?st "sortedRules rs" ?res "[ufw_status_cmd]"] ufw_drop_backend[of log_run "Key ` set rs" "us_tagged ?st" res2 h2] w d
    by (simp add: newResult_def)
  moreover have "log_run ufw_status_cmd [] = (Inr ''Status: active'', [ufw_status_cmd])" by (simp add: log_run_def)
  then have "ufw_Sync log_run rs [] = (Inr res3, h3)" using w d by (simp add: ufw_Sync_def Let_def)
  ultimately have "\<exists>res h'. ufw_Sync log_run rs [] = (Inr res, h') \<and> re_Backend res = ModeUFW" by blast
  then obtain res h' where "ufw_Sync log_run rs [] = (Inr res, h')" "re_Backend res = ModeUFW" by blast
  with m assms show ?thesis
    by (simp add: agent_sync_def Let_def on_host_def newWith_def demo_host_def)
qed

lemma demo_accepted: "rp_OK (fst (agent_sync demo_env log_run \<lparr>rq_Mode = ModeUFW, rq_Rules = [demo_rule]\<rparr> demo_host))"
proof -
  have "check_rules [demo_rule] {} = None" by code_simp
  then show ?thesis using demo_accepted_rules[of "[demo_rule]"] by (simp add: maxRules_def)
qed

lemma agent_reports_every_rule_witness:
  "\<exists>resp s'. agent_sync demo_env log_run \<lparr>rq_Mode = ModeUFW, rq_Rules = [demo_rule]\<rparr> demo_host = (resp, s')
    \<and> fst ` set (rp_Rules resp) = {''80/tcp''}"
proof -
  obtain resp s' where A: "agent_sync demo_env log_run \<lparr>rq_Mode = ModeUFW, rq_Rules = [demo_rule]\<rparr> demo_host = (resp, s')"
    by fastforce
  then have "rp_OK resp" using demo_accepted by simp
  moreover have "Key demo_rule = ''80/tcp''" by code_simp
  ultimately show ?thesis using agent_reports_every_rule[OF A] A by simp
qed

text \<open>
  Whatever the request, the agent runs only commands that read the firewall or that add or
  remove the relay's own rules: any property of the host that those commands keep holds after
  the request, and a request that fails validation runs nothing.
\<close>

theorem agent_runs_only_owned_commands:
  assumes "\<And>c h. agent_owned c \<Longrightarrow> P h \<Longrightarrow> P (snd (run c h))" and "P (fd_host s)"
  shows "P (fd_host (snd (agent_sync env run req s)))
    \<and> (check_rules (rq_Rules req) {} \<noteq> None \<longrightarrow> snd (agent_sync env run req s) = s)"
proof -
  let ?mode = "if rq_Mode req = [] then ModeAuto else rq_Mode req"
  have n: "P (fd_host (snd (on_host (newWith env ?mode run) s)))"
    using newWith_owned[where P = P and run = run, OF assms] by simp
  have b: "P (fd_host (snd (backend_Sync env b run (rq_Rules req) s1)))"
    if "P (fd_host s1)" "check_rules (rq_Rules req) {} = None" for b s1
    by (rule be.only_owned[where P = P and run = run, OF assms(1)]) (use that in \<open>simp_all add: check_rules_None\<close>)
  show ?thesis
  proof (cases "check_rules (rq_Rules req) {}")
    case (Some e)
    then show ?thesis using assms(2) by (simp add: agent_sync_def Let_def)
  next
    case None
    obtain r s1 where r: "on_host (newWith env ?mode run) s = (r, s1)" by fastforce
    then have s1: "P (fd_host s1)" using n by simp
    have "P (fd_host s2)" if "backend_Sync env be run (rq_Rules req) s1 = (x, s2)" for be x s2
      using b[OF s1 None, of be] that by simp
    then show ?thesis
      using None s1 assms(2) r by (auto simp: agent_sync_def Let_def split: prod.splits sum.splits)
  qed
qed

definition owned_log :: "string list list \<Rightarrow> bool" where
  "owned_log h \<longleftrightarrow> (\<forall>c\<in>set h. agent_owned c)"

lemma agent_runs_only_owned_commands_witness:
  "owned_log (fd_host (snd (agent_sync demo_env log_run \<lparr>rq_Mode = [], rq_Rules = [demo_rule]\<rparr> demo_host)))"
proof -
  have "owned_log (fd_host (snd (agent_sync demo_env log_run \<lparr>rq_Mode = [], rq_Rules = [demo_rule]\<rparr> demo_host)))
    \<and> (check_rules (rq_Rules \<lparr>rq_Mode = [], rq_Rules = [demo_rule]\<rparr>) {} \<noteq> None \<longrightarrow>
        snd (agent_sync demo_env log_run \<lparr>rq_Mode = [], rq_Rules = [demo_rule]\<rparr> demo_host) = demo_host)"
    by (rule agent_runs_only_owned_commands[where P = owned_log]) (auto simp: owned_log_def log_run_def demo_host_def)
  then show ?thesis by blast
qed

end
