(* ===== verification/Fw_Manager.thy ===== *)
theory Fw_Manager
  imports Store Agent Binaries
begin

text \<open>
  \<open>internal/server/firewall.go\<close>: the server's side of the firewall. It computes the rules the
  configuration asks for, sends them to the agent, remembers the outcome, and derives from it
  what it reports for each forward. The socket files and the agent's answer are parameters; the
  goroutine \<open>Run\<close> is the sequence of its iterations.
\<close>

section \<open>State\<close>

definition agentOff :: string where [agent_state_defs]: "agentOff = ''off''"
definition agentNotInstalled :: string where [agent_state_defs]: "agentNotInstalled = ''not installed''"
definition agentUnreachable :: string where [agent_state_defs]: "agentUnreachable = ''unreachable''"
definition agentConnected :: string where [agent_state_defs]: "agentConnected = ''connected''"

definition fwUnmanaged :: string where "fwUnmanaged = ''unmanaged''"
definition fwClosed :: string where "fwClosed = ''closed''"
definition fwNone :: string where "fwNone = ''none''"

definition ruleTunnel :: string where "ruleTunnel = ''tunnel''"
definition ruleAdmin :: string where "ruleAdmin = ''admin''"

text \<open>The error text of a status or a rule: empty, that of a failed call, or that of a rule.\<close>

datatype fw_message = NoError | SyncError agent_error | RuleError string

record firewall_status =
  fws_Mode :: string
  fws_Managed :: bool
  fws_Agent :: string
  fws_Backend :: string
  fws_Active :: bool
  fws_Note :: string
  fws_Error :: fw_message
  fws_LastSync :: "time option"
  fws_Socket :: string

record forward_firewall =
  ff_State :: string
  ff_Error :: fw_message

record fw_manager =
  fm_socket :: string
  fm_dataDir :: string
  fm_tunnelPort :: int
  fm_adminPort :: int
  fm_status :: firewall_status
  fm_rules :: "(string \<times> forward_firewall) list"
  fm_failed :: bool

record fw_env =
  fe_available :: "string \<Rightarrow> bool"
  fe_answer :: "string \<Rightarrow> sync_request \<Rightarrow> (unit, response) result"
  fe_now :: time

section \<open>The agent's client\<close>

text \<open>
  \<open>agent.Call\<close>: the answer is a transport failure or a response line; a response that is not OK
  comes back together with an error.
\<close>

datatype call_result = CallFailed agent_error | CallRefused response agent_error | CallOK response

definition Call :: "(unit, response) result \<Rightarrow> call_result" where
  "Call ans =
     (case ans of
        Inl _ \<Rightarrow> CallFailed AgentUnreachable
      | Inr resp \<Rightarrow>
          if rp_OK resp then CallOK resp
          else (case rp_Error resp of
             None \<Rightarrow> CallRefused (resp\<lparr>rp_Error := Some UnknownError\<rparr>) UnknownError
           | Some e \<Rightarrow> CallRefused resp e))"

section \<open>Operations\<close>

definition socketPath :: "fw_env \<Rightarrow> fw_manager \<Rightarrow> string \<times> bool" where
  "socketPath env m =
     (if fm_socket m \<noteq> [] then (fm_socket m, path_base (fm_socket m) = ''firewall.sock'')
      else let cur = path_join [fm_dataDir m, ''agent.sock''];
               old = path_join [fm_dataDir m, ''firewall.sock'']
           in if fe_available env cur then (cur, False)
              else if fe_available env old then (old, True)
              else (cur, False))"

definition zero_status :: firewall_status where
  "zero_status = \<lparr>fws_Mode = [], fws_Managed = False, fws_Agent = [], fws_Backend = [], fws_Active = False, fws_Note = [],
     fws_Error = NoError, fws_LastSync = None, fws_Socket = []\<rparr>"

definition newFwManager :: "fw_env \<Rightarrow> string \<Rightarrow> string \<Rightarrow> int \<Rightarrow> int \<Rightarrow> fw_manager" where
  "newFwManager env socket dataDir tunnelPort adminPort =
     (let m = \<lparr>fm_socket = socket, fm_dataDir = dataDir, fm_tunnelPort = tunnelPort, fm_adminPort = adminPort,
               fm_status = zero_status, fm_rules = [], fm_failed = False\<rparr>
      in m\<lparr>fm_status := zero_status\<lparr>fws_Mode := ModeAuto, fws_Agent := agentNotInstalled, fws_Socket := fst (socketPath env m)\<rparr>\<rparr>)"

definition forward_rules :: "forward \<Rightarrow> rule list" where
  "forward_rules f =
     (if \<not> f_Enabled f then []
      else (if HasTCP f then [\<lparr>ru_ID = f_ID f, ru_Port = f_PublicPort f, ru_Proto = ''tcp''\<rparr>] else [])
         @ (if HasUDP f then [\<lparr>ru_ID = f_ID f, ru_Port = f_PublicPort f, ru_Proto = ''udp''\<rparr>] else []))"

definition desired :: "fw_manager \<Rightarrow> state \<Rightarrow> string \<times> rule list" where
  "desired m st =
     (let mode = s_Firewall (st_Settings st) in
      (if mode = [] then ModeAuto else mode,
       [\<lparr>ru_ID = ruleTunnel, ru_Port = fm_tunnelPort m, ru_Proto = ''tcp''\<rparr>,
        \<lparr>ru_ID = ruleAdmin, ru_Port = fm_adminPort m, ru_Proto = ''tcp''\<rparr>]
       @ concat (map forward_rules (st_Forwards st))))"

definition of_rule_state :: "rule_state \<Rightarrow> forward_firewall" where
  "of_rule_state rs = \<lparr>ff_State = rs_State rs, ff_Error = (if rs_Error rs = [] then NoError else RuleError (rs_Error rs))\<rparr>"

definition error_states :: "agent_error \<Rightarrow> rule list \<Rightarrow> (string \<times> forward_firewall) list" where
  "error_states e rules =
     foldl (\<lambda>m r. AList.update (Key r) \<lparr>ff_State = StateError, ff_Error = SyncError e\<rparr> m) [] rules"

definition fw_Sync :: "fw_env \<Rightarrow> state \<Rightarrow> fw_manager \<Rightarrow> fw_manager" where
  "fw_Sync env st m =
     (case desired m st of (mode, rules) \<Rightarrow>
        (let socket = fst (socketPath env m);
             st0 = zero_status\<lparr>fws_Mode := mode, fws_Socket := socket\<rparr>
         in if mode = ModeOff then m\<lparr>fm_status := st0\<lparr>fws_Agent := agentOff\<rparr>, fm_rules := [], fm_failed := False\<rparr>
            else if \<not> fe_available env socket then
              m\<lparr>fm_status := st0\<lparr>fws_Agent := agentNotInstalled\<rparr>, fm_rules := [], fm_failed := False\<rparr>
            else let st1 = st0\<lparr>fws_LastSync := Some (fe_now env)\<rparr> in
              (case Call (fe_answer env socket \<lparr>rq_Mode = mode, rq_Rules = rules\<rparr>) of
                 CallFailed e \<Rightarrow>
                   m\<lparr>fm_status := st1\<lparr>fws_Agent := agentUnreachable, fws_Error := SyncError e\<rparr>,
                     fm_rules := error_states e rules, fm_failed := True\<rparr>
               | CallRefused resp e \<Rightarrow>
                   m\<lparr>fm_status := st1\<lparr>fws_Backend := rp_Backend resp,
                       fws_Agent := (if rp_Backend resp \<noteq> [] then agentConnected else agentUnreachable), fws_Error := SyncError e\<rparr>,
                     fm_rules := error_states e rules, fm_failed := True\<rparr>
               | CallOK resp \<Rightarrow>
                   m\<lparr>fm_status := st1\<lparr>fws_Backend := rp_Backend resp, fws_Agent := agentConnected,
                       fws_Managed := (rp_Backend resp \<noteq> ''none''), fws_Active := rp_Active resp, fws_Note := rp_Note resp\<rparr>,
                     fm_rules := map (\<lambda>(k, rs). (k, of_rule_state rs)) (rp_Rules resp),
                     fm_failed := list_ex (\<lambda>(k, rs). rs_State rs = StateError) (rp_Rules resp)\<rparr>)))"

text \<open>One turn of \<open>Run\<close>: sync, then the time to the next one, in seconds.\<close>

definition Run_iteration :: "fw_env \<Rightarrow> state \<Rightarrow> fw_manager \<Rightarrow> fw_manager \<times> nat" where
  "Run_iteration env st m =
     (let m1 = fw_Sync env st m in
      (m1, if fm_failed m1 \<or> fws_Agent (fm_status m1) = agentNotInstalled then 20 else 5 * 60))"

definition check_proto :: "fw_manager \<Rightarrow> int \<Rightarrow> string \<Rightarrow> forward_firewall \<Rightarrow> forward_firewall" where
  "check_proto m port proto out =
     (case map_of (fm_rules m) (port_key port proto) of
        None \<Rightarrow>
          (if fws_Error (fm_status m) \<noteq> NoError then \<lparr>ff_State = StateError, ff_Error = fws_Error (fm_status m)\<rparr> else out)
      | Some rs \<Rightarrow>
          if ff_State rs = StateError then \<lparr>ff_State = StateError, ff_Error = ff_Error rs\<rparr>
          else if ff_State rs = StateExisting \<and> ff_State out = StateOpen then out\<lparr>ff_State := StateExisting\<rparr>
          else out)"

definition ForwardState :: "fw_manager \<Rightarrow> forward \<Rightarrow> forward_firewall" where
  "ForwardState m f =
     (if fws_Agent (fm_status m) = agentOff \<or> fws_Agent (fm_status m) = agentNotInstalled
      then \<lparr>ff_State = fwUnmanaged, ff_Error = NoError\<rparr>
      else if fws_Agent (fm_status m) = agentUnreachable then \<lparr>ff_State = StateError, ff_Error = fws_Error (fm_status m)\<rparr>
      else if fws_Backend (fm_status m) = ''none'' then \<lparr>ff_State = fwNone, ff_Error = NoError\<rparr>
      else if \<not> f_Enabled f then \<lparr>ff_State = fwClosed, ff_Error = NoError\<rparr>
      else
        let out0 = \<lparr>ff_State = StateOpen, ff_Error = NoError\<rparr>;
            out1 = (if HasTCP f then check_proto m (f_PublicPort f) ''tcp'' out0 else out0)
        in if HasUDP f \<and> ff_State out1 \<noteq> StateError then check_proto m (f_PublicPort f) ''udp'' out1 else out1)"

section \<open>The requested rules\<close>

lemma set_forward_rules:
  "r \<in> set (forward_rules f) \<longleftrightarrow> f_Enabled f \<and> ru_ID r = f_ID f \<and> ru_Port r = f_PublicPort f
     \<and> (ru_Proto r = ''tcp'' \<and> HasTCP f \<or> ru_Proto r = ''udp'' \<and> HasUDP f)"
  by (cases r) (auto simp: forward_rules_def)

lemma distinct_forward_rules: "distinct (map Key (forward_rules f))"
  by (simp add: forward_rules_def Key_inj)

lemma Key_forward_rules_disjoint:
  assumes "f_PublicPort f \<noteq> f_PublicPort g \<or> \<not> ports_overlap f g"
  shows "Key ` set (forward_rules f) \<inter> Key ` set (forward_rules g) = {}"
  using assms by (auto simp: set_forward_rules Key_inj ports_overlap_def)

lemma distinct_concat_rules:
  assumes "distinct (map f_ID fs)"
    and "\<And>f g. f \<in> set fs \<Longrightarrow> g \<in> set fs \<Longrightarrow> f_ID f \<noteq> f_ID g \<Longrightarrow> f_PublicPort f \<noteq> f_PublicPort g \<or> \<not> ports_overlap f g"
  shows "distinct (map Key (concat (map forward_rules fs)))"
  using assms
proof (induction fs)
  case Nil
  then show ?case by simp
next
  case (Cons f fs)
  have "Key ` set (forward_rules f) \<inter> Key ` set (forward_rules g) = {}" if "g \<in> set fs" for g
    using Cons.prems(1) that Cons.prems(2)[of f g] by (intro Key_forward_rules_disjoint) force
  then have "Key ` set (forward_rules f) \<inter> Key ` set (concat (map forward_rules fs)) = {}" by auto
  with Cons show ?case using distinct_forward_rules[of f] by (auto simp: distinct_append)
qed

definition port_range :: "int \<Rightarrow> bool" where
  "port_range p \<longleftrightarrow> 1 \<le> p \<and> p \<le> 65535"

text \<open>
  The rules the server asks for pass the agent's checks when the configuration is valid, its
  forwards do not clash, and none of them uses one of the relay's own two ports.
\<close>

lemma desired_rules_valid:
  assumes "port_range (fm_tunnelPort m)" and "port_range (fm_adminPort m)" and "fm_tunnelPort m \<noteq> fm_adminPort m"
    and "distinct (map f_ID (st_Forwards st))"
    and "\<And>f. f \<in> set (st_Forwards st) \<Longrightarrow> idPattern (f_ID f) \<and> Validate f = Inr ()
          \<and> f_PublicPort f \<noteq> fm_tunnelPort m \<and> f_PublicPort f \<noteq> fm_adminPort m"
    and "\<And>f g. f \<in> set (st_Forwards st) \<Longrightarrow> g \<in> set (st_Forwards st) \<Longrightarrow> f_ID f \<noteq> f_ID g \<Longrightarrow>
          f_PublicPort f \<noteq> f_PublicPort g \<or> \<not> ports_overlap f g"
  shows "check_rules (snd (desired m st)) {} = None"
proof -
  let ?own = "[\<lparr>ru_ID = ruleTunnel, ru_Port = fm_tunnelPort m, ru_Proto = ''tcp''\<rparr>,
        \<lparr>ru_ID = ruleAdmin, ru_Port = fm_adminPort m, ru_Proto = ''tcp''\<rparr>]"
  let ?fwd = "concat (map forward_rules (st_Forwards st))"
  have ids: "idPattern ruleTunnel" "idPattern ruleAdmin" by code_simp+
  have fw: "idPattern (f_ID f) \<and> port_range (f_PublicPort f)" if "f \<in> set (st_Forwards st)" for f
    using assms(5)[OF that] by (simp add: Validate_ok port_range_def)
  have v: "rule_Validate r = None" if "r \<in> set ?own \<union> set ?fwd" for r
    using that ids assms(1,2) fw by (force simp: rule_Validate_def port_range_def set_forward_rules)
  have "\<forall>f\<in>set (st_Forwards st). f_PublicPort f \<noteq> fm_tunnelPort m \<and> f_PublicPort f \<noteq> fm_adminPort m"
    using assms(5) by blast
  then have "Key ` set ?own \<inter> Key ` set ?fwd = {}"
    by (fastforce simp: set_forward_rules Key_inj)
  moreover have "distinct (map Key ?own)" using assms(3) by (simp add: Key_inj)
  moreover have "distinct (map Key ?fwd)" by (rule distinct_concat_rules[OF assms(4,6)])
  ultimately have "distinct (map Key (?own @ ?fwd))" by (simp add: distinct_append)
  moreover have "snd (desired m st) = ?own @ ?fwd" by (simp add: desired_def Let_def)
  ultimately show ?thesis using v by (simp only: check_rules_None) auto
qed

section \<open>What is reported for a forward\<close>

text \<open>The states a firewall can be in for one port, worst first.\<close>

definition worst_state :: "string list \<Rightarrow> string" where
  "worst_state ss = (if StateError \<in> set ss then StateError else if StateExisting \<in> set ss then StateExisting else StateOpen)"

definition forward_protos :: "forward \<Rightarrow> string list" where
  "forward_protos f = (if HasTCP f then [''tcp''] else []) @ (if HasUDP f then [''udp''] else [])"

lemma rule_states_distinct [simp]:
  "StateOpen \<noteq> StateError" "StateOpen \<noteq> StateExisting" "StateExisting \<noteq> StateError"
  "StateError \<noteq> StateOpen" "StateExisting \<noteq> StateOpen" "StateError \<noteq> StateExisting"
  by (simp_all add: rule_state_defs)

lemma check_proto_known:
  assumes "map_of (fm_rules m) (port_key p proto) = Some rs" and "ff_State rs \<in> {StateOpen, StateExisting, StateError}"
    and "ff_State out \<noteq> StateError"
  shows "ff_State (check_proto m p proto out) =
    (if ff_State rs = StateError then StateError
     else if ff_State rs = StateExisting \<and> ff_State out = StateOpen then StateExisting else ff_State out)"
  using assms by (auto simp: check_proto_def)

lemma ForwardState_worst:
  assumes "fws_Agent (fm_status m) = agentConnected" and "fws_Backend (fm_status m) \<noteq> ''none''" and "f_Enabled f"
    and "\<And>proto. proto \<in> set (forward_protos f) \<Longrightarrow>
       \<exists>rs. map_of (fm_rules m) (port_key (f_PublicPort f) proto) = Some rs \<and> ff_State rs = S proto
         \<and> S proto \<in> {StateOpen, StateExisting, StateError}"
  shows "ff_State (ForwardState m f) = worst_state (map S (forward_protos f))"
proof -
  let ?o = "\<lparr>ff_State = StateOpen, ff_Error = NoError\<rparr>"
  have a: "fws_Agent (fm_status m) \<noteq> agentOff" "fws_Agent (fm_status m) \<noteq> agentNotInstalled"
    "fws_Agent (fm_status m) \<noteq> agentUnreachable" using assms(1) by (simp_all add: agent_state_defs)
  have tcp: "ff_State (check_proto m (f_PublicPort f) ''tcp'' ?o) = worst_state [S ''tcp'']" if "HasTCP f"
  proof -
    from assms(4)[of "''tcp''"] that obtain rs where "map_of (fm_rules m) (port_key (f_PublicPort f) ''tcp'') = Some rs"
      "ff_State rs = S ''tcp''" "S ''tcp'' \<in> {StateOpen, StateExisting, StateError}" by (auto simp: forward_protos_def)
    with check_proto_known[OF this(1), of ?o] show ?thesis by (auto simp: worst_state_def)
  qed
  have udp: "ff_State (check_proto m (f_PublicPort f) ''udp'' out) = worst_state [ff_State out, S ''udp'']"
    if u: "HasUDP f" and o: "ff_State out \<in> {StateOpen, StateExisting}" for out
  proof -
    from assms(4)[of "''udp''"] u obtain rs where "map_of (fm_rules m) (port_key (f_PublicPort f) ''udp'') = Some rs"
      "ff_State rs = S ''udp''" "S ''udp'' \<in> {StateOpen, StateExisting, StateError}" by (auto simp: forward_protos_def)
    with check_proto_known[OF this(1), of out] o show ?thesis by (auto simp: worst_state_def)
  qed
  show ?thesis
  proof (cases "HasTCP f")
    case True
    show ?thesis
      using assms(2,3) a True tcp[OF True] udp[of "check_proto m (f_PublicPort f) ''tcp'' ?o"]
      by (auto simp: ForwardState_def Let_def forward_protos_def worst_state_def split: if_splits)
  next
    case False
    show ?thesis
      using assms(2,3) a False udp[of ?o]
      by (auto simp: ForwardState_def Let_def forward_protos_def worst_state_def)
  qed
qed


definition demo_fw_env :: "(sync_request \<Rightarrow> response) \<Rightarrow> fw_env" where
  "demo_fw_env ans = \<lparr>fe_available = (\<lambda>p. p = ''/run/agent.sock''), fe_answer = (\<lambda>_ q. Inr (ans q)), fe_now = 7\<rparr>"

definition demo_manager :: fw_manager where
  "demo_manager = newFwManager (demo_fw_env (\<lambda>_. refuse [] UnknownError)) ''/run/agent.sock'' ''/data'' 7 8"

definition demo_fw_state :: state where
  "demo_fw_state = empty_state\<lparr>st_Settings := \<lparr>s_PublicHost = [], s_Firewall = ''ufw'', s_AutoUpdateClients = False\<rparr>,
     st_Forwards := [\<lparr>f_ID = ''f1'', f_ClientID = ''c1'', f_GroupID = ''f1'', f_Name = ''dns'', f_Protocol = ''both'', f_PublicPort = 53,
       f_TargetHost = ''127.0.0.1'', f_TargetPort = 53, f_Enabled = True, f_CreatedAt = 1, f_UpdatedAt = 1\<rparr>]\<rparr>"

definition demo_agent :: "sync_request \<Rightarrow> response" where
  "demo_agent q = fst (agent_sync demo_env log_run q demo_host)"


end
