(* ===== verification/Server_State.thy ===== *)
theory Server_State
  imports Sessions Fw_Manager
begin

text \<open>
  The relay server of \<open>internal/server/server.go\<close> as the handlers of \<open>api.go\<close> and \<open>groups.go\<close>
  see it: the store, the tunnel with its listeners and sessions, the firewall manager, the
  cached public host and the two ports. A handler is a function of its surroundings, its decoded
  request and the server, and returns the reply and the new server. The surroundings of a
  request are the clock, the random bytes it reads, whether the store can be saved, which
  sockets other programs hold, and what the agent answers.
\<close>

section \<open>State\<close>

record server =
  sv_store :: store
  sv_tunnel :: tunnel
  sv_fw :: fw_manager
  sv_publicHost :: string
  sv_detectedHost :: string
  sv_tunnelPort :: int
  sv_adminPort :: int

record request_env =
  ev_now :: time
  ev_rand :: "nat \<Rightarrow> string"
  ev_saved :: bool
  ev_deny :: "socket \<Rightarrow> bool"
  ev_fw :: fw_env
  ev_tunnel :: tunnel_env

abbreviation sv_state :: "server \<Rightarrow> state" where
  "sv_state sv \<equiv> sto_mem (sv_store sv)"

abbreviation sv_listeners :: "server \<Rightarrow> listeners" where
  "sv_listeners sv \<equiv> tn_listeners (sv_tunnel sv)"

definition set_listeners :: "listeners \<Rightarrow> server \<Rightarrow> server" where
  "set_listeners L sv = sv\<lparr>sv_tunnel := (sv_tunnel sv)\<lparr>tn_listeners := L\<rparr>\<rparr>"

definition set_store :: "store \<Rightarrow> server \<Rightarrow> server" where
  "set_store s sv = sv\<lparr>sv_store := s\<rparr>"

text \<open>
  Closures of the handlers bind and close listeners while the store is locked: an \<open>Update\<close> whose
  closure also threads the listeners.
\<close>

definition Update_in ::
  "bool \<Rightarrow> (state \<Rightarrow> listeners \<Rightarrow> (error, 'a) result \<times> state \<times> listeners) \<Rightarrow> server \<Rightarrow> (error, 'a) result \<times> server" where
  "Update_in saved fn sv =
     (case fn (sv_state sv) (sv_listeners sv) of
        (r, st, L) \<Rightarrow>
          (case Update saved (\<lambda>_. (r, st)) (sv_store sv) of
             (r', s') \<Rightarrow> (r', set_listeners L (set_store s' sv))))"

definition notify :: "string \<Rightarrow> server \<Rightarrow> server" where
  "notify i sv = sv\<lparr>sv_tunnel := NotifyForwards (sv_state sv) i (sv_tunnel sv)\<rparr>"

definition sync_firewall :: "request_env \<Rightarrow> server \<Rightarrow> server" where
  "sync_firewall env sv = sv\<lparr>sv_fw := fw_Sync (ev_fw env) (sv_state sv) (sv_fw sv)\<rparr>"

definition remove_listener :: "string \<Rightarrow> server \<Rightarrow> server" where
  "remove_listener i sv = set_listeners (Remove i (sv_listeners sv)) sv"

definition disconnect :: "string \<Rightarrow> string \<Rightarrow> server \<Rightarrow> server" where
  "disconnect i reason sv = sv\<lparr>sv_tunnel := DisconnectClient i reason (sv_tunnel sv)\<rparr>"

section \<open>Addresses\<close>

text \<open>\<open>net.JoinHostPort\<close>: a host with a colon is put in brackets.\<close>

definition JoinHostPort :: "string \<Rightarrow> int \<Rightarrow> string" where
  "JoinHostPort host port =
     (if CHR '':'' \<in> set host then ''['' @ host @ '']:'' @ itoa port else host @ '':'' @ itoa port)"

definition PublicHost :: "server \<Rightarrow> string" where
  "PublicHost sv =
     (let host = sv_publicHost sv; host1 = (if host = [] then sv_detectedHost sv else host)
      in if host1 = [] then ''127.0.0.1'' else host1)"

definition AdminURL :: "server \<Rightarrow> string" where
  "AdminURL sv = ''https://'' @ JoinHostPort (PublicHost sv) (sv_adminPort sv)"

definition TunnelAddr :: "server \<Rightarrow> string" where
  "TunnelAddr sv = JoinHostPort (PublicHost sv) (sv_tunnelPort sv)"

section \<open>What the API shows of a forward\<close>

record forward_out =
  fo_ID :: string
  fo_GroupID :: string
  fo_ClientID :: string
  fo_ClientName :: string
  fo_Name :: string
  fo_Protocol :: string
  fo_PublicPort :: int
  fo_PublicAddr :: string
  fo_TargetHost :: string
  fo_TargetPort :: int
  fo_Enabled :: bool
  fo_CreatedAt :: time
  fo_UpdatedAt :: time
  fo_Stats :: forward_stats
  fo_Firewall :: forward_firewall

definition forwardOut :: "server \<Rightarrow> state \<Rightarrow> listeners \<Rightarrow> forward \<Rightarrow> forward_out" where
  "forwardOut sv st L f = \<lparr>fo_ID = f_ID f, fo_GroupID = f_GroupID f, fo_ClientID = f_ClientID f,
     fo_ClientName = (case ClientByID st (f_ClientID f) of Some c \<Rightarrow> c_Name c | None \<Rightarrow> []),
     fo_Name = f_Name f, fo_Protocol = f_Protocol f, fo_PublicPort = f_PublicPort f,
     fo_PublicAddr = JoinHostPort (PublicHost sv) (f_PublicPort f),
     fo_TargetHost = f_TargetHost f, fo_TargetPort = f_TargetPort f, fo_Enabled = f_Enabled f,
     fo_CreatedAt = f_CreatedAt f, fo_UpdatedAt = f_UpdatedAt f,
     fo_Stats = ForwardStats L (f_ID f), fo_Firewall = ForwardState (sv_fw sv) f\<rparr>"

definition reservedPort :: "server \<Rightarrow> int \<Rightarrow> (error, unit) result" where
  "reservedPort sv port =
     (if port = sv_tunnelPort sv then Inl (ErrConflict, TunnelPortReserved port)
      else if port = sv_adminPort sv then Inl (ErrConflict, AdminPortReserved port)
      else Inr ())"

section \<open>Facts\<close>

lemma server_frames [simp]:
  "sv_store (notify i sv) = sv_store sv" "sv_listeners (notify i sv) = sv_listeners sv"
  "sv_tunnelPort (notify i sv) = sv_tunnelPort sv" "sv_adminPort (notify i sv) = sv_adminPort sv"
  "sv_fw (notify i sv) = sv_fw sv"
  "sv_store (sync_firewall env sv) = sv_store sv" "sv_tunnel (sync_firewall env sv) = sv_tunnel sv"
  "sv_tunnelPort (sync_firewall env sv) = sv_tunnelPort sv" "sv_adminPort (sync_firewall env sv) = sv_adminPort sv"
  "sv_store (set_listeners L sv) = sv_store sv" "sv_listeners (set_listeners L sv) = L"
  "sv_tunnelPort (set_listeners L sv) = sv_tunnelPort sv" "sv_adminPort (set_listeners L sv) = sv_adminPort sv"
  "sv_fw (set_listeners L sv) = sv_fw sv"
  "sv_store (set_store s sv) = s" "sv_tunnel (set_store s sv) = sv_tunnel sv"
  "sv_tunnelPort (set_store s sv) = sv_tunnelPort sv" "sv_adminPort (set_store s sv) = sv_adminPort sv"
  "sv_store (remove_listener i sv) = sv_store sv" "sv_listeners (remove_listener i sv) = Remove i (sv_listeners sv)"
  "sv_tunnelPort (remove_listener i sv) = sv_tunnelPort sv" "sv_adminPort (remove_listener i sv) = sv_adminPort sv"
  "sv_store (disconnect i r sv) = sv_store sv"
  "sv_tunnelPort (disconnect i r sv) = sv_tunnelPort sv" "sv_adminPort (disconnect i r sv) = sv_adminPort sv"
  by (simp_all add: notify_def sync_firewall_def set_listeners_def set_store_def remove_listener_def disconnect_def
      NotifyForwards_def split: option.splits)

lemma disconnect_listeners [simp]: "sv_listeners (disconnect i r sv) = sv_listeners sv"
  by (simp add: disconnect_def DisconnectClient_def Let_def split: option.splits)

lemma Update_in_Inr:
  "Update_in saved fn sv = (Inr x, sv') \<longleftrightarrow>
     saved \<and> (\<exists>st L. fn (sv_state sv) (sv_listeners sv) = (Inr x, st, L)
       \<and> sv' = set_listeners L (set_store (sv_store sv\<lparr>sto_mem := st, sto_disk := Some st\<rparr>) sv))"
  by (cases saved) (auto simp: Update_in_def Update_def split: prod.splits sum.splits)

lemma Update_in_Inl_saved:
  assumes "Update_in True fn sv = (Inl e, sv')"
  shows "\<exists>st L. fn (sv_state sv) (sv_listeners sv) = (Inl e, st, L)
    \<and> sv' = set_listeners L (set_store (sv_store sv\<lparr>sto_mem := st\<rparr>) sv)"
  using assms by (auto simp: Update_in_def Update_def split: prod.splits sum.splits)

lemma reservedPort_ok [simp]: "reservedPort sv p = Inr u \<longleftrightarrow> p \<noteq> sv_tunnelPort sv \<and> p \<noteq> sv_adminPort sv"
  by (simp add: reservedPort_def)

end
