(* ===== verification/Forwards_API.thy ===== *)
theory Forwards_API
  imports Server_State
begin

text \<open>
  The forward handlers of \<open>internal/server/api.go\<close>: create, read, update and delete one forward.
  A handler first decides with the closure it runs under the store's lock, then tells the client
  and the firewall.
\<close>

section \<open>Requests\<close>

record forward_input =
  in_ClientID :: "string option"
  in_Name :: "string option"
  in_Protocol :: "string option"
  in_PublicPort :: "int option"
  in_TargetHost :: "string option"
  in_TargetPort :: "int option"
  in_Enabled :: "bool option"

definition given :: "'a option \<Rightarrow> ('a \<Rightarrow> 'b) \<Rightarrow> 'b \<Rightarrow> 'b" where
  "given x f old = (case x of Some v \<Rightarrow> f v | None \<Rightarrow> old)"

definition forward_applyTo :: "forward_input \<Rightarrow> forward \<Rightarrow> forward" where
  "forward_applyTo inp f = f\<lparr>
     f_ClientID := given (in_ClientID inp) trim_space (f_ClientID f),
     f_Name := given (in_Name inp) trim_space (f_Name f),
     f_Protocol := given (in_Protocol inp) (\<lambda>p. to_lower (trim_space p)) (f_Protocol f),
     f_PublicPort := given (in_PublicPort inp) id (f_PublicPort f),
     f_TargetHost := given (in_TargetHost inp) trim_space (f_TargetHost f),
     f_TargetPort := given (in_TargetPort inp) id (f_TargetPort f),
     f_Enabled := given (in_Enabled inp) id (f_Enabled f)\<rparr>"

section \<open>Create\<close>

text \<open>The forward a create request describes, with its defaults.\<close>

definition new_forward :: "request_env \<Rightarrow> forward_input \<Rightarrow> forward" where
  "new_forward env inp =
     (let i = NewID (ev_rand env 0); now = ev_now env;
          f0 = forward_applyTo inp \<lparr>f_ID = i, f_ClientID = [], f_GroupID = i, f_Name = [], f_Protocol = ProtoTCP,
                 f_PublicPort = 0, f_TargetHost = ''127.0.0.1'', f_TargetPort = 0, f_Enabled = True,
                 f_CreatedAt = now, f_UpdatedAt = now\<rparr>;
          f1 = (if in_PublicPort inp = None \<and> in_TargetPort inp \<noteq> None then f0\<lparr>f_PublicPort := f_TargetPort f0\<rparr> else f0);
          f2 = (if in_TargetPort inp = None \<and> in_PublicPort inp \<noteq> None then f1\<lparr>f_TargetPort := f_PublicPort f1\<rparr> else f1)
      in if f_Name f2 = [] then f2\<lparr>f_Name := f_Protocol f2 @ CHR ''-'' # itoa (f_PublicPort f2)\<rparr> else f2)"

text \<open>A failed bind is reported as a conflict naming the socket.\<close>

definition cannot_listen :: "socket \<Rightarrow> error" where
  "cannot_listen sk = (ErrConflict, CannotListen (fst sk) (snd sk))"

definition create_forward ::
  "request_env \<Rightarrow> server \<Rightarrow> forward \<Rightarrow> state \<Rightarrow> listeners \<Rightarrow> (error, forward_out) result \<times> state \<times> listeners" where
  "create_forward env sv f st L =
     (if ClientByID st (f_ClientID f) = None then (Inl (ErrValidation, UnknownClientRef), st, L)
      else case PortConflict st f of
        Some g \<Rightarrow> (Inl (ErrConflict, PortInUse (f_PublicPort f) (f_Name g)), st, L)
      | None \<Rightarrow>
          (case Apply (ev_deny env) f L of
             (Inl sk, L1) \<Rightarrow> (Inl (cannot_listen sk), st, L1)
           | (Inr _, L1) \<Rightarrow>
               (let st1 = st\<lparr>st_Forwards := st_Forwards st @ [f]\<rparr> in (Inr (forwardOut sv st1 L1 f), st1, L1))))"

definition handleCreateForward :: "request_env \<Rightarrow> forward_input \<Rightarrow> server \<Rightarrow> (error, forward_out) result \<times> server" where
  "handleCreateForward env inp sv =
     (let f = new_forward env inp in
      case rbind (Validate f) (\<lambda>_. reservedPort sv (f_PublicPort f)) of
        Inl e \<Rightarrow> (Inl e, sv)
      | Inr _ \<Rightarrow>
          (case Update_in (ev_saved env) (create_forward env sv f) sv of
             (Inl e, sv1) \<Rightarrow> (Inl e, remove_listener (f_ID f) sv1)
           | (Inr out, sv1) \<Rightarrow>
               (let sv2 = sync_firewall env (notify (f_ClientID f) sv1)
                in (Inr (out\<lparr>fo_Firewall := ForwardState (sv_fw sv2) f\<rparr>), sv2))))"

section \<open>Read\<close>

definition handleGetForward :: "string \<Rightarrow> server \<Rightarrow> (error, forward_out) result" where
  "handleGetForward i sv =
     (case ForwardByID (sv_state sv) i of
        None \<Rightarrow> Inl (ErrNotFound, ForwardNotFound)
      | Some f \<Rightarrow> Inr (forwardOut sv (sv_state sv) (sv_listeners sv) f))"

definition handleListForwards :: "string \<Rightarrow> server \<Rightarrow> forward_out list" where
  "handleListForwards client sv =
     sort_key fo_PublicPort
       (map (forwardOut sv (sv_state sv) (sv_listeners sv))
         (filter (\<lambda>f. client = [] \<or> f_ClientID f = client) (st_Forwards (sv_state sv))))"

section \<open>Update\<close>

definition replace_forward :: "string \<Rightarrow> forward \<Rightarrow> state \<Rightarrow> state" where
  "replace_forward i f st = st\<lparr>st_Forwards := update_first (\<lambda>g. f_ID g = i) (\<lambda>_. f) (st_Forwards st)\<rparr>"

text \<open>The closure returns the reply, the forward's former client, and the updated forward.\<close>

definition update_forward ::
  "request_env \<Rightarrow> server \<Rightarrow> string \<Rightarrow> forward_input \<Rightarrow> state \<Rightarrow> listeners
    \<Rightarrow> (error, forward_out \<times> string \<times> forward) result \<times> state \<times> listeners" where
  "update_forward env sv i inp st L =
     (case ForwardByID st i of
        None \<Rightarrow> (Inl (ErrNotFound, ForwardNotFound), st, L)
      | Some f \<Rightarrow>
          let nxt = (forward_applyTo inp f)\<lparr>f_UpdatedAt := ev_now env\<rparr> in
          if f_ClientID nxt \<noteq> f_ClientID f \<and> length (ForwardsInGroup st (f_GroupID f)) > 1
          then (Inl (ErrValidation, MoveGroupInstead), st, L)
          else case rbind (Validate nxt) (\<lambda>_. reservedPort sv (f_PublicPort nxt)) of
            Inl e \<Rightarrow> (Inl e, st, L)
          | Inr _ \<Rightarrow>
              if ClientByID st (f_ClientID nxt) = None then (Inl (ErrValidation, UnknownClientRef), st, L)
              else case PortConflict st nxt of
                Some g \<Rightarrow> (Inl (ErrConflict, PortInUse (f_PublicPort nxt) (f_Name g)), st, L)
              | None \<Rightarrow>
                  (case Apply (ev_deny env) nxt L of
                     (Inl sk, L1) \<Rightarrow> (Inl (cannot_listen sk), st, L1)
                   | (Inr _, L1) \<Rightarrow>
                       (let st1 = replace_forward i nxt st
                        in (Inr (forwardOut sv st1 L1 nxt, f_ClientID f, nxt), st1, L1))))"

definition handleUpdateForward ::
  "request_env \<Rightarrow> string \<Rightarrow> forward_input \<Rightarrow> server \<Rightarrow> (error, forward_out) result \<times> server" where
  "handleUpdateForward env i inp sv =
     (case Update_in (ev_saved env) (update_forward env sv i inp) sv of
        (Inl e, sv1) \<Rightarrow> (Inl e, sv1)
      | (Inr (out, oldClient, updated), sv1) \<Rightarrow>
          (let sv2 = notify (f_ClientID updated) sv1;
               sv3 = (if oldClient \<noteq> f_ClientID updated then notify oldClient sv2 else sv2);
               sv4 = sync_firewall env sv3
           in (Inr (out\<lparr>fo_Firewall := ForwardState (sv_fw sv4) updated\<rparr>), sv4)))"

section \<open>Delete\<close>

definition delete_forward :: "string \<Rightarrow> state \<Rightarrow> listeners \<Rightarrow> (error, forward) result \<times> state \<times> listeners" where
  "delete_forward i st L =
     (case ForwardByID st i of
        None \<Rightarrow> (Inl (ErrNotFound, ForwardNotFound), st, L)
      | Some f \<Rightarrow> (Inr f, st\<lparr>st_Forwards := filter (\<lambda>g. f_ID g \<noteq> i) (st_Forwards st)\<rparr>, L))"

definition handleDeleteForward :: "request_env \<Rightarrow> string \<Rightarrow> server \<Rightarrow> (error, unit) result \<times> server" where
  "handleDeleteForward env i sv =
     (case Update_in (ev_saved env) (delete_forward i) sv of
        (Inl e, sv1) \<Rightarrow> (Inl e, sv1)
      | (Inr f, sv1) \<Rightarrow> (Inr (), sync_firewall env (notify (f_ClientID f) (remove_listener i sv1))))"

end
