(* ===== verification/Groups_API.thy ===== *)
theory Groups_API
  imports Forwards_API
begin

text \<open>
  Forward groups (\<open>internal/server/groups.go\<close>): the forwards created from one port spec share a
  group id, and group-level fields are written to every member. A change of a group expands the
  spec, checks it, rebinds the listeners and swaps the members, all or nothing.
\<close>

section \<open>What the API shows of a group\<close>

record group_out =
  go_ID :: string
  go_ClientID :: string
  go_ClientName :: string
  go_Name :: string
  go_Protocol :: string
  go_Ports :: string
  go_TargetHost :: string
  go_Enabled :: bool
  go_CreatedAt :: time
  go_UpdatedAt :: time
  go_PublicHost :: string
  go_Stats :: forward_stats
  go_Firewall :: forward_firewall
  go_Forwards :: "forward_out list"

definition fwSeverity :: "string \<Rightarrow> nat" where
  "fwSeverity s =
     (if s = StateError then 5 else if s = StateExisting then 3 else if s = StateOpen then 2
      else if s = fwUnmanaged \<or> s = fwNone then 1 else 0)"

definition add_stats :: "forward_stats \<Rightarrow> forward_stats \<Rightarrow> forward_stats" where
  "add_stats a b = a\<lparr>fs_ActiveTCP := fs_ActiveTCP a + fs_ActiveTCP b, fs_ActiveUDP := fs_ActiveUDP a + fs_ActiveUDP b,
     fs_TotalConnections := fs_TotalConnections a + fs_TotalConnections b,
     fs_BytesIn := fs_BytesIn a + fs_BytesIn b, fs_BytesOut := fs_BytesOut a + fs_BytesOut b\<rparr>"

text \<open>
  \<open>groupOut\<close> walks the members: \<open>acc\<close> is the aggregate so far and the number of enabled members.
\<close>

definition group_add :: "server \<Rightarrow> state \<Rightarrow> listeners \<Rightarrow> group_out \<times> nat \<Rightarrow> forward \<Rightarrow> group_out \<times> nat" where
  "group_add sv st L acc f =
     (case acc of (out, n) \<Rightarrow>
        let fo = forwardOut sv st L f;
            out1 = out\<lparr>go_Forwards := go_Forwards out @ [fo],
                       go_CreatedAt := (if f_CreatedAt f < go_CreatedAt out then f_CreatedAt f else go_CreatedAt out),
                       go_UpdatedAt := (if f_UpdatedAt f > go_UpdatedAt out then f_UpdatedAt f else go_UpdatedAt out)\<rparr>;
            out2 = (if \<not> f_Enabled f then out1\<lparr>go_Enabled := False\<rparr>
                    else let down = \<not> fs_Listening (fo_Stats fo);
                             s1 = (if down then (go_Stats out1)\<lparr>fs_Listening := False,
                                       fs_Error := (if fs_Error (go_Stats out1) = [] then fs_Error (fo_Stats fo) else fs_Error (go_Stats out1))\<rparr>
                                   else go_Stats out1)
                         in out1\<lparr>go_Stats := s1,
                              go_Firewall := (if fwSeverity (ff_State (fo_Firewall fo)) > fwSeverity (ff_State (go_Firewall out1))
                                              then fo_Firewall fo else go_Firewall out1)\<rparr>)
        in (out2\<lparr>go_Stats := add_stats (go_Stats out2) (fo_Stats fo)\<rparr>, if f_Enabled f then Suc n else n))"

definition groupOut :: "server \<Rightarrow> state \<Rightarrow> listeners \<Rightarrow> forward \<Rightarrow> forward list \<Rightarrow> group_out" where
  "groupOut sv st L first members =
     (let out0 = \<lparr>go_ID = f_GroupID first, go_ClientID = f_ClientID first,
            go_ClientName = (case ClientByID st (f_ClientID first) of Some c \<Rightarrow> c_Name c | None \<Rightarrow> []),
            go_Name = f_Name first, go_Protocol = f_Protocol first, go_Ports = GroupSpec members,
            go_TargetHost = f_TargetHost first, go_Enabled = True, go_CreatedAt = f_CreatedAt first,
            go_UpdatedAt = f_UpdatedAt first, go_PublicHost = PublicHost sv,
            go_Stats = no_stats\<lparr>fs_Listening := True\<rparr>, go_Firewall = \<lparr>ff_State = fwClosed, ff_Error = NoError\<rparr>,
            go_Forwards = []\<rparr>
      in case foldl (group_add sv st L) (out0, 0) members of
           (out, n) \<Rightarrow>
             if n = 0 then out\<lparr>go_Stats := (go_Stats out)\<lparr>fs_Listening := False\<rparr>, go_Firewall := ForwardState (sv_fw sv) first\<rparr>
             else out)"

section \<open>Requests\<close>

record group_input =
  gi_ClientID :: "string option"
  gi_Name :: "string option"
  gi_Protocol :: "string option"
  gi_Ports :: "string option"
  gi_TargetHost :: "string option"
  gi_Enabled :: "bool option"

record group_fields =
  gf_ClientID :: string
  gf_Name :: string
  gf_Protocol :: string
  gf_Ports :: string
  gf_TargetHost :: string
  gf_Enabled :: bool

definition group_applyTo :: "group_input \<Rightarrow> group_fields \<Rightarrow> group_fields" where
  "group_applyTo inp g = g\<lparr>
     gf_ClientID := given (gi_ClientID inp) trim_space (gf_ClientID g),
     gf_Name := given (gi_Name inp) trim_space (gf_Name g),
     gf_Protocol := given (gi_Protocol inp) (\<lambda>p. to_lower (trim_space p)) (gf_Protocol g),
     gf_Ports := given (gi_Ports inp) id (gf_Ports g),
     gf_TargetHost := given (gi_TargetHost inp) trim_space (gf_TargetHost g),
     gf_Enabled := given (gi_Enabled inp) id (gf_Enabled g)\<rparr>"

section \<open>Expanding and committing a group\<close>

definition groupPortConflict :: "state \<Rightarrow> string \<Rightarrow> forward \<Rightarrow> forward option" where
  "groupPortConflict st gid f =
     List.find (\<lambda>g. \<not> (f_GroupID g = gid \<or> f_PublicPort g \<noteq> f_PublicPort f) \<and> ports_overlap f g) (st_Forwards st)"

text \<open>Former members by port and protocol; a later one with the same key wins.\<close>

definition prev_by_key :: "forward list \<Rightarrow> int \<times> string \<rightharpoonup> forward" where
  "prev_by_key prev = foldl (\<lambda>m f. m((f_PublicPort f, f_Protocol f) \<mapsto> f)) Map.empty prev"

definition member_of :: "request_env \<Rightarrow> string \<Rightarrow> group_fields \<Rightarrow> forward list \<Rightarrow> nat \<Rightarrow> port_entry \<Rightarrow> forward" where
  "member_of env gid g prev k e =
     (let old = prev_by_key prev (PublicPort e, Protocol e) in
      \<lparr>f_ID = (case old of Some o' \<Rightarrow> f_ID o' | None \<Rightarrow> NewID (ev_rand env k)), f_ClientID = gf_ClientID g, f_GroupID = gid,
       f_Name = gf_Name g, f_Protocol = Protocol e, f_PublicPort = PublicPort e, f_TargetHost = gf_TargetHost g,
       f_TargetPort = TargetPort e, f_Enabled = gf_Enabled g,
       f_CreatedAt = (case old of Some o' \<Rightarrow> f_CreatedAt o' | None \<Rightarrow> ev_now env), f_UpdatedAt = ev_now env\<rparr>)"

fun expand_entries ::
  "request_env \<Rightarrow> server \<Rightarrow> string \<Rightarrow> group_fields \<Rightarrow> forward list \<Rightarrow> nat \<Rightarrow> port_entry list
    \<Rightarrow> (error, forward list) result" where
  "expand_entries env sv gid g prev k [] = Inr []"
| "expand_entries env sv gid g prev k (e # es) =
     (let f = member_of env gid g prev k e in
      rbind (Validate f) (\<lambda>_. rbind (reservedPort sv (f_PublicPort f)) (\<lambda>_.
      rbind (expand_entries env sv gid g prev (Suc k) es) (\<lambda>fs. Inr (f # fs)))))"

text \<open>\<open>k\<close> is the number of random reads the request made before.\<close>

definition expandGroup ::
  "request_env \<Rightarrow> server \<Rightarrow> nat \<Rightarrow> string \<Rightarrow> group_fields \<Rightarrow> forward list \<Rightarrow> (error, forward list) result" where
  "expandGroup env sv k gid g prev =
     rbind (ParsePortSpec (gf_Ports g) (gf_Protocol g)) (\<lambda>entries.
       let g1 = (if gf_Name g = [] then g\<lparr>gf_Name := RenderPortSpec entries\<rparr> else g) in
       rbind (ValidateName (gf_Name g1)) (\<lambda>_. expand_entries env sv gid g1 prev k entries))"

text \<open>
  The new list of forwards: members keep the place of the member with their id, the others are
  appended in order. \<open>todo\<close> are the new members not yet placed.
\<close>

fun place_members :: "string \<Rightarrow> (string \<rightharpoonup> forward) \<Rightarrow> forward list \<Rightarrow> forward list \<times> (string \<rightharpoonup> forward)" where
  "place_members gid todo [] = ([], todo)"
| "place_members gid todo (o' # os) =
     (if f_GroupID o' \<noteq> gid then (case place_members gid todo os of (ks, t) \<Rightarrow> (o' # ks, t))
      else case todo (f_ID o') of
        Some n \<Rightarrow> (case place_members gid (todo(f_ID o' := None)) os of (ks, t) \<Rightarrow> (n # ks, t))
      | None \<Rightarrow> place_members gid todo os)"

definition swap_members :: "string \<Rightarrow> forward list \<Rightarrow> state \<Rightarrow> state" where
  "swap_members gid nxt st =
     (case place_members gid (prev_by_id nxt) (st_Forwards st) of
        (kept, todo) \<Rightarrow> st\<lparr>st_Forwards := kept @ filter (\<lambda>f. todo (f_ID f) \<noteq> None) nxt\<rparr>)"

fun group_conflict :: "state \<Rightarrow> string \<Rightarrow> forward list \<Rightarrow> error option" where
  "group_conflict st gid [] = None"
| "group_conflict st gid (f # fs) =
     (case groupPortConflict st gid f of
        Some g \<Rightarrow> Some (ErrConflict, PortInUse (f_PublicPort f) (f_Name g))
      | None \<Rightarrow> group_conflict st gid fs)"

text \<open>
  An empty list of members would be an index out of range in Go; the parser never returns one.
\<close>

definition commitGroup ::
  "request_env \<Rightarrow> string \<Rightarrow> forward list \<Rightarrow> forward list \<Rightarrow> state \<Rightarrow> listeners
    \<Rightarrow> (error, unit) result \<times> state \<times> listeners" where
  "commitGroup env gid nxt prev st L =
     (case nxt of
        [] \<Rightarrow> (Inl (ErrInternal, IndexOutOfRange), st, L)
      | first # _ \<Rightarrow>
          if ClientByID st (f_ClientID first) = None then (Inl (ErrValidation, UnknownClientRef), st, L)
          else case group_conflict st gid nxt of
            Some e \<Rightarrow> (Inl e, st, L)
          | None \<Rightarrow>
              (case ApplyGroup (ev_deny env) nxt prev L of
                 (Inl sk, L1) \<Rightarrow> (Inl (cannot_listen sk), st, L1)
               | (Inr _, L1) \<Rightarrow> (Inr (), swap_members gid nxt st, L1)))"

section \<open>Handlers\<close>

text \<open>The reply is computed last, from the members as they then are in the store.\<close>

definition show_group :: "string \<Rightarrow> server \<Rightarrow> (error, group_out) result" where
  "show_group gid sv =
     (case ForwardsInGroup (sv_state sv) gid of
        [] \<Rightarrow> Inl (ErrNotFound, GroupNotFound)
      | first # rest \<Rightarrow> Inr (groupOut sv (sv_state sv) (sv_listeners sv) first (first # rest)))"

definition handleGetGroup :: "string \<Rightarrow> server \<Rightarrow> (error, group_out) result" where
  "handleGetGroup gid sv = show_group gid sv"

definition handleListGroups :: "string \<Rightarrow> server \<Rightarrow> group_out list" where
  "handleListGroups client sv =
     concat (map (\<lambda>gid. case ForwardsInGroup (sv_state sv) gid of
                [] \<Rightarrow> []
              | first # rest \<Rightarrow>
                  if client \<noteq> [] \<and> f_ClientID first \<noteq> client then []
                  else [groupOut sv (sv_state sv) (sv_listeners sv) first (first # rest)])
       (GroupIDs (sv_state sv)))"

definition create_group_fields :: "group_input \<Rightarrow> group_fields" where
  "create_group_fields inp = group_applyTo inp
     \<lparr>gf_ClientID = [], gf_Name = [], gf_Protocol = ProtoTCP, gf_Ports = [], gf_TargetHost = ''127.0.0.1'', gf_Enabled = True\<rparr>"

definition handleCreateGroup :: "request_env \<Rightarrow> group_input \<Rightarrow> server \<Rightarrow> (error, group_out) result \<times> server" where
  "handleCreateGroup env inp sv =
     (let g = create_group_fields inp; gid = NewID (ev_rand env 0) in
      case expandGroup env sv 1 gid g [] of
        Inl e \<Rightarrow> (Inl e, sv)
      | Inr members \<Rightarrow>
          (case Update_in (ev_saved env) (commitGroup env gid members []) sv of
             (Inl e, sv1) \<Rightarrow> (Inl e, sv1)
           | (Inr _, sv1) \<Rightarrow>
               (let sv2 = sync_firewall env (notify (gf_ClientID g) sv1) in (show_group gid sv2, sv2))))"

text \<open>
  The group-level values before an update: those of \<open>groupOut\<close>, with tcp as the default protocol.
\<close>

definition current_fields :: "server \<Rightarrow> state \<Rightarrow> listeners \<Rightarrow> forward \<Rightarrow> forward list \<Rightarrow> group_fields" where
  "current_fields sv st L first members =
     (let cur = groupOut sv st L first members in
      \<lparr>gf_ClientID = go_ClientID cur, gf_Name = go_Name cur, gf_Protocol = ProtoTCP, gf_Ports = go_Ports cur,
       gf_TargetHost = go_TargetHost cur, gf_Enabled = go_Enabled cur\<rparr>)"

definition update_group ::
  "request_env \<Rightarrow> server \<Rightarrow> string \<Rightarrow> group_input \<Rightarrow> state \<Rightarrow> listeners
    \<Rightarrow> (error, string \<times> string) result \<times> state \<times> listeners" where
  "update_group env sv gid inp st L =
     (case ForwardsInGroup st gid of
        [] \<Rightarrow> (Inl (ErrNotFound, GroupNotFound), st, L)
      | first # rest \<Rightarrow>
          let prev = first # rest; cur = current_fields sv st L first prev; g = group_applyTo inp cur in
          (case expandGroup env sv 0 gid g prev of
             Inl e \<Rightarrow> (Inl e, st, L)
           | Inr nxt \<Rightarrow>
               (case commitGroup env gid nxt prev st L of
                  (Inl e, st1, L1) \<Rightarrow> (Inl e, st1, L1)
                | (Inr _, st1, L1) \<Rightarrow> (Inr (gf_ClientID cur, f_ClientID (hd nxt)), st1, L1))))"

definition handleUpdateGroup ::
  "request_env \<Rightarrow> string \<Rightarrow> group_input \<Rightarrow> server \<Rightarrow> (error, group_out) result \<times> server" where
  "handleUpdateGroup env gid inp sv =
     (case Update_in (ev_saved env) (update_group env sv gid inp) sv of
        (Inl e, sv1) \<Rightarrow> (Inl e, sv1)
      | (Inr (oldClient, newClient), sv1) \<Rightarrow>
          (let sv2 = notify newClient sv1;
               sv3 = (if oldClient \<noteq> newClient then notify oldClient sv2 else sv2);
               sv4 = sync_firewall env sv3
           in (show_group gid sv4, sv4)))"

definition delete_group :: "string \<Rightarrow> state \<Rightarrow> listeners \<Rightarrow> (error, forward list) result \<times> state \<times> listeners" where
  "delete_group gid st L =
     (case ForwardsInGroup st gid of
        [] \<Rightarrow> (Inl (ErrNotFound, GroupNotFound), st, L)
      | removed \<Rightarrow> (Inr removed, st\<lparr>st_Forwards := filter (\<lambda>f. f_GroupID f \<noteq> gid) (st_Forwards st)\<rparr>, L))"

definition handleDeleteGroup :: "request_env \<Rightarrow> string \<Rightarrow> server \<Rightarrow> (error, nat) result \<times> server" where
  "handleDeleteGroup env gid sv =
     (case Update_in (ev_saved env) (delete_group gid) sv of
        (Inl e, sv1) \<Rightarrow> (Inl e, sv1)
      | (Inr removed, sv1) \<Rightarrow>
          (let sv2 = foldl (\<lambda>sv f. remove_listener (f_ID f) sv) sv1 removed;
               sv3 = sync_firewall env (notify (f_ClientID (hd removed)) sv2)
           in (Inr (length removed), sv3)))"

end
