(* ===== verification/Clients_API.thy ===== *)
theory Clients_API
  imports Groups_API
begin

text \<open>
  The other handlers of \<open>internal/server/api.go\<close> that work on the store: settings, clients
  (create, read, rename, delete, rotate the token, push an update) and API tokens, and the
  server's own reading of a client.
\<close>

section \<open>Settings\<close>

record settings_input =
  si_PublicHost :: "string option"
  si_Firewall :: "string option"
  si_AutoUpdateClients :: "bool option"

text \<open>
  The closure assigns as it goes: the public host is set before the firewall mode is looked at.
  It returns the new host and whether the mode changed.
\<close>

definition put_host :: "settings_input \<Rightarrow> state \<Rightarrow> (error, unit) result \<times> state" where
  "put_host inp st =
     (case si_PublicHost inp of
        None \<Rightarrow> (Inr (), st)
      | Some h0 \<Rightarrow>
          let h = trim_space h0 in
          if h \<noteq> [] \<and> (contains_any h [CHR '' '', CHR ''/'', CHR '':'', CHR 0x5C] \<or> length h > 253)
          then (Inl (ErrValidation, BadPublicHost), st)
          else (Inr (), st\<lparr>st_Settings := (st_Settings st)\<lparr>s_PublicHost := h\<rparr>\<rparr>))"

definition put_firewall :: "settings_input \<Rightarrow> state \<Rightarrow> (error, bool) result \<times> state" where
  "put_firewall inp st =
     (case si_Firewall inp of
        None \<Rightarrow> (Inr False, st)
      | Some m0 \<Rightarrow>
          let m1 = to_lower (trim_space m0); m = (if m1 = [] then ModeAuto else m1) in
          if \<not> ValidMode m then (Inl (ErrValidation, BadFirewallMode), st)
          else (Inr (s_Firewall (st_Settings st) \<noteq> m), st\<lparr>st_Settings := (st_Settings st)\<lparr>s_Firewall := m\<rparr>\<rparr>))"

definition put_settings :: "settings_input \<Rightarrow> state \<Rightarrow> (error, string \<times> bool) result \<times> state" where
  "put_settings inp st =
     (case put_host inp st of
        (Inl e, st1) \<Rightarrow> (Inl e, st1)
      | (Inr _, st1) \<Rightarrow>
          (case put_firewall inp st1 of
             (Inl e, st2) \<Rightarrow> (Inl e, st2)
           | (Inr changed, st2) \<Rightarrow>
               (let st3 = st2\<lparr>st_Settings := (st_Settings st2)\<lparr>s_AutoUpdateClients :=
                            given (si_AutoUpdateClients inp) id (s_AutoUpdateClients (st_Settings st2))\<rparr>\<rparr>
                in (Inr (s_PublicHost (st_Settings st3), changed), st3))))"

record settings_out =
  so_public_host :: string
  so_detected_public_host :: string
  so_effective_public_host :: string
  so_firewall :: string
  so_firewall_modes :: "string list"
  so_firewall_status :: firewall_status
  so_auto_update_clients :: bool
  so_server_version :: string

definition handleGetSettings :: "server \<Rightarrow> settings_out" where
  "handleGetSettings sv =
     (let out = st_Settings (sv_state sv) in
      \<lparr>so_public_host = s_PublicHost out, so_detected_public_host = sv_detectedHost sv,
       so_effective_public_host = PublicHost sv,
       so_firewall = (if s_Firewall out = [] then ModeAuto else s_Firewall out), so_firewall_modes = Modes,
       so_firewall_status = fm_status (sv_fw sv), so_auto_update_clients = s_AutoUpdateClients out,
       so_server_version = tn_version (sv_tunnel sv)\<rparr>)"

definition handlePutSettings :: "request_env \<Rightarrow> settings_input \<Rightarrow> server \<Rightarrow> (error, settings_out) result \<times> server" where
  "handlePutSettings env inp sv =
     (case Update (ev_saved env) (put_settings inp) (sv_store sv) of
        (Inl e, s) \<Rightarrow> (Inl e, set_store s sv)
      | (Inr (newHost, changed), s) \<Rightarrow>
          (let sv1 = (set_store s sv)\<lparr>sv_publicHost := newHost\<rparr>;
               sv2 = (if changed then sync_firewall env sv1 else sv1)
           in (Inr (handleGetSettings sv2), sv2)))"

section \<open>What the API shows of a client\<close>

record update_out =
  uo_Available :: bool
  uo_Reason :: "update_reason option"
  uo_ServerVersion :: string
  uo_Last :: "client_update option"
  uo_AllowUpdate :: bool

text \<open>Looking at an update expires its record, so reading a client may change the tunnel.\<close>

definition updateOut :: "tunnel_env \<Rightarrow> string \<Rightarrow> tunnel \<Rightarrow> update_out \<times> tunnel" where
  "updateOut env i t =
     (case UpdateAvailability env i t of
        (reason, t1) \<Rightarrow>
          (case UpdateStatus env i t1 of
             (u, t2) \<Rightarrow>
               (\<lparr>uo_Available = (reason = None), uo_Reason = reason, uo_ServerVersion = tn_version t2, uo_Last = u,
                 uo_AllowUpdate = (case session_of t2 i of Some s \<Rightarrow> h_AllowUpdate (se_Hello s) | None \<Rightarrow> False)\<rparr>, t2)))"

record install_info =
  ii_Linux :: string
  ii_Windows :: string
  ii_Manual :: string

text \<open>\<open>selfSigned\<close> and \<open>fingerprint\<close> describe the server's certificates.\<close>

definition installInfo :: "bool \<Rightarrow> string \<Rightarrow> server \<Rightarrow> string \<Rightarrow> install_info" where
  "installInfo selfSigned fingerprint sv token =
     (let base = AdminURL sv;
          curlFlags = (if selfSigned then ''-k '' else []);
          psSkip = (if selfSigned then '' -SkipCertificateCheck'' else []);
          q = [CHR 0x27]
      in \<lparr>ii_Linux = ''curl -fsSL '' @ curlFlags @ base @ ''/install/client.sh?token='' @ token @ '' | sudo bash'',
          ii_Windows = ''irm'' @ psSkip @ CHR '' '' # q @ base @ ''/install/client.ps1?token='' @ token @ q @ '' | iex'',
          ii_Manual = ''spawnrelay client --server '' @ TunnelAddr sv @ '' --token '' @ token @ '' --fingerprint '' @ fingerprint\<rparr>)"

record client_out =
  co_client :: client
  co_Status :: client_status
  co_ForwardCount :: nat
  co_GroupCount :: nat
  co_Install :: install_info
  co_Update :: update_out

definition clientOut :: "request_env \<Rightarrow> bool \<Rightarrow> string \<Rightarrow> client \<Rightarrow> server \<Rightarrow> client_out \<times> server" where
  "clientOut env selfSigned fingerprint c sv =
     (let fs = ForwardsForClient (sv_state sv) (c_ID c) in
      case updateOut (ev_tunnel env) (c_ID c) (sv_tunnel sv) of
        (u, t) \<Rightarrow>
          (\<lparr>co_client = c, co_Status = ClientStatus (sv_tunnel sv) (c_ID c), co_ForwardCount = length fs,
            co_GroupCount = length (remdups (map f_GroupID fs)), co_Install = installInfo selfSigned fingerprint sv (c_Token c),
            co_Update = u\<rparr>, sv\<lparr>sv_tunnel := t\<rparr>))"

fun clients_out :: "request_env \<Rightarrow> bool \<Rightarrow> string \<Rightarrow> client list \<Rightarrow> server \<Rightarrow> client_out list \<times> server" where
  "clients_out env ss fp [] sv = ([], sv)"
| "clients_out env ss fp (c # cs) sv =
     (case clientOut env ss fp c sv of (o', sv1) \<Rightarrow>
        (case clients_out env ss fp cs sv1 of (os, sv2) \<Rightarrow> (o' # os, sv2)))"

definition handleListClients :: "request_env \<Rightarrow> bool \<Rightarrow> string \<Rightarrow> server \<Rightarrow> client_out list \<times> server" where
  "handleListClients env ss fp sv =
     (case clients_out env ss fp (st_Clients (sv_state sv)) sv of
        (os, sv1) \<Rightarrow> (sort_key (\<lambda>o'. to_lower (c_Name (co_client o'))) os, sv1))"

definition handleGetClient :: "request_env \<Rightarrow> bool \<Rightarrow> string \<Rightarrow> string \<Rightarrow> server \<Rightarrow> (error, client_out) result \<times> server" where
  "handleGetClient env ss fp i sv =
     (case ClientByID (sv_state sv) i of
        None \<Rightarrow> (Inl (ErrNotFound, ClientNotFound), sv)
      | Some c \<Rightarrow> (case clientOut env ss fp c sv of (o', sv1) \<Rightarrow> (Inr o', sv1)))"

section \<open>Clients\<close>

text \<open>
  The replies of the rename and the rotation are built inside the closure in the code and after
  the save here. They only read, except that a stale update record expires, which any other read
  of the client does as well.
\<close>

definition name_taken :: "string \<Rightarrow> client list \<Rightarrow> bool" where
  "name_taken name cs \<longleftrightarrow> list_ex (\<lambda>c. equal_fold (c_Name c) name) cs"

definition new_client :: "request_env \<Rightarrow> string \<Rightarrow> client" where
  "new_client env name = \<lparr>c_ID = NewID (ev_rand env 0), c_Name = name, c_Token = NewClientToken (ev_rand env 1),
     c_CreatedAt = ev_now env, c_UpdatedAt = ev_now env, c_LastSeenAt = None, c_LastAddr = [], c_Hostname = [],
     c_OS = [], c_Arch = [], c_ClientVersion = []\<rparr>"

definition create_client :: "client \<Rightarrow> state \<Rightarrow> (error, unit) result \<times> state" where
  "create_client c st =
     (if name_taken (c_Name c) (st_Clients st) then (Inl (ErrConflict, ClientNameTaken (c_Name c)), st)
      else (Inr (), st\<lparr>st_Clients := st_Clients st @ [c]\<rparr>))"

definition handleCreateClient ::
  "request_env \<Rightarrow> bool \<Rightarrow> string \<Rightarrow> string \<Rightarrow> server \<Rightarrow> (error, client_out) result \<times> server" where
  "handleCreateClient env ss fp name0 sv =
     (let name = trim_space name0 in
      case ValidateName name of
        Inl e \<Rightarrow> (Inl e, sv)
      | Inr _ \<Rightarrow>
          (let c = new_client env name in
           case Update (ev_saved env) (create_client c) (sv_store sv) of
             (Inl e, s) \<Rightarrow> (Inl e, set_store s sv)
           | (Inr _, s) \<Rightarrow> (case clientOut env ss fp c (set_store s sv) of (o', sv1) \<Rightarrow> (Inr o', sv1))))"

definition rename_client :: "time \<Rightarrow> string \<Rightarrow> string option \<Rightarrow> state \<Rightarrow> (error, client) result \<times> state" where
  "rename_client now i name0 st =
     (case ClientByID st i of
        None \<Rightarrow> (Inl (ErrNotFound, ClientNotFound), st)
      | Some c \<Rightarrow>
          (case (case name0 of
                   None \<Rightarrow> Inr (c_Name c)
                 | Some n0 \<Rightarrow>
                     let name = trim_space n0 in
                     rbind (ValidateName name) (\<lambda>_.
                     if name_taken name (filter (\<lambda>o'. c_ID o' \<noteq> c_ID c) (st_Clients st))
                     then Inl (ErrConflict, ClientNameTaken name) else Inr name)) of
             Inl e \<Rightarrow> (Inl e, st)
           | Inr name \<Rightarrow>
               (let c1 = c\<lparr>c_Name := name, c_UpdatedAt := now\<rparr>
                in (Inr c1, st\<lparr>st_Clients := update_first (\<lambda>x. c_ID x = i) (\<lambda>_. c1) (st_Clients st)\<rparr>))))"

definition handleUpdateClient ::
  "request_env \<Rightarrow> bool \<Rightarrow> string \<Rightarrow> string \<Rightarrow> string option \<Rightarrow> server \<Rightarrow> (error, client_out) result \<times> server" where
  "handleUpdateClient env ss fp i name sv =
     (case Update (ev_saved env) (rename_client (ev_now env) i name) (sv_store sv) of
        (Inl e, s) \<Rightarrow> (Inl e, set_store s sv)
      | (Inr c, s) \<Rightarrow> (case clientOut env ss fp c (set_store s sv) of (o', sv1) \<Rightarrow> (Inr o', sv1)))"

definition delete_client :: "string \<Rightarrow> state \<Rightarrow> (error, string list) result \<times> state" where
  "delete_client i st =
     (if ClientByID st i = None then (Inl (ErrNotFound, ClientNotFound), st)
      else (Inr (map f_ID (filter (\<lambda>f. f_ClientID f = i) (st_Forwards st))),
            st\<lparr>st_Forwards := filter (\<lambda>f. f_ClientID f \<noteq> i) (st_Forwards st),
               st_Clients := filter (\<lambda>c. c_ID c \<noteq> i) (st_Clients st)\<rparr>))"

definition handleDeleteClient :: "request_env \<Rightarrow> string \<Rightarrow> server \<Rightarrow> (error, nat) result \<times> server" where
  "handleDeleteClient env i sv =
     (case Update (ev_saved env) (delete_client i) (sv_store sv) of
        (Inl e, s) \<Rightarrow> (Inl e, set_store s sv)
      | (Inr removed, s) \<Rightarrow>
          (let sv1 = foldl (\<lambda>sv fid. remove_listener fid sv) (set_store s sv) removed;
               sv2 = disconnect i ''client deleted'' sv1;
               sv3 = (if removed \<noteq> [] then sync_firewall env sv2 else sv2)
           in (Inr (length removed), sv3)))"

definition rotate_token :: "request_env \<Rightarrow> string \<Rightarrow> state \<Rightarrow> (error, client) result \<times> state" where
  "rotate_token env i st =
     (case ClientByID st i of
        None \<Rightarrow> (Inl (ErrNotFound, ClientNotFound), st)
      | Some c \<Rightarrow>
          (let c1 = c\<lparr>c_Token := NewClientToken (ev_rand env 0), c_UpdatedAt := ev_now env\<rparr>
           in (Inr c1, st\<lparr>st_Clients := update_first (\<lambda>x. c_ID x = i) (\<lambda>_. c1) (st_Clients st)\<rparr>)))"

definition handleRotateClientToken ::
  "request_env \<Rightarrow> bool \<Rightarrow> string \<Rightarrow> string \<Rightarrow> server \<Rightarrow> (error, client_out) result \<times> server" where
  "handleRotateClientToken env ss fp i sv =
     (case Update (ev_saved env) (rotate_token env i) (sv_store sv) of
        (Inl e, s) \<Rightarrow> (Inl e, set_store s sv)
      | (Inr c, s) \<Rightarrow>
          (case clientOut env ss fp c (set_store s sv) of
             (o', sv1) \<Rightarrow>
               (Inr (o'\<lparr>co_Status := offline_status\<rparr>),
                disconnect i ''token rotated; reinstall the client with the new token'' sv1)))"

text \<open>The push is refused with the reason; the reply shows the client afterwards.\<close>

datatype push_error = NoSuchClient | PushRefused update_reason

definition handleUpdateClientBinary ::
  "request_env \<Rightarrow> bool \<Rightarrow> string \<Rightarrow> string \<Rightarrow> server \<Rightarrow> (push_error, client_out) result \<times> server" where
  "handleUpdateClientBinary env ss fp i sv =
     (case ClientByID (sv_state sv) i of
        None \<Rightarrow> (Inl NoSuchClient, sv)
      | Some c \<Rightarrow>
          (case clientOut env ss fp c sv of
             (_, sv1) \<Rightarrow>
               (case PushUpdate (ev_tunnel env) i False (sv_tunnel sv1) of
                  (Inl reason, t) \<Rightarrow> (Inl (PushRefused reason), sv1\<lparr>sv_tunnel := t\<rparr>)
                | (Inr _, t) \<Rightarrow>
                    (case clientOut env ss fp c (sv1\<lparr>sv_tunnel := t\<rparr>) of (o', sv2) \<Rightarrow> (Inr o', sv2)))))"

fun push_all :: "tunnel_env \<Rightarrow> client list \<Rightarrow> tunnel \<Rightarrow> string list \<times> (string \<times> update_reason) list \<times> tunnel" where
  "push_all env [] t = ([], [], t)"
| "push_all env (c # cs) t =
     (case PushUpdate env (c_ID c) False t of
        (Inl reason, t1) \<Rightarrow> (case push_all env cs t1 of (req, skip, t2) \<Rightarrow> (req, (c_ID c, reason) # skip, t2))
      | (Inr _, t1) \<Rightarrow> (case push_all env cs t1 of (req, skip, t2) \<Rightarrow> (c_ID c # req, skip, t2)))"

definition handleUpdateAllClients ::
  "request_env \<Rightarrow> server \<Rightarrow> (string list \<times> (string \<times> update_reason) list) \<times> server" where
  "handleUpdateAllClients env sv =
     (case push_all (ev_tunnel env) (st_Clients (sv_state sv)) (sv_tunnel sv) of
        (req, skip, t) \<Rightarrow> ((req, skip), sv\<lparr>sv_tunnel := t\<rparr>))"

section \<open>API tokens\<close>

definition new_token :: "(string \<Rightarrow> string) \<Rightarrow> request_env \<Rightarrow> string \<Rightarrow> string \<times> api_token" where
  "new_token sha env name =
     (let secret = NewAPIToken (ev_rand env 0) in
      (secret, \<lparr>t_ID = NewID (ev_rand env 1), t_Name = name, t_Prefix = take (length APITokenPrefix + 6) secret,
                t_TokenHash = HashToken sha secret, t_CreatedAt = ev_now env, t_LastUsedAt = None\<rparr>))"

definition add_token :: "api_token \<Rightarrow> state \<Rightarrow> (error, unit) result \<times> state" where
  "add_token t st = (Inr (), st\<lparr>st_Tokens := st_Tokens st @ [t]\<rparr>)"

definition handleCreateToken ::
  "(string \<Rightarrow> string) \<Rightarrow> request_env \<Rightarrow> string \<Rightarrow> server \<Rightarrow> (error, string \<times> api_token) result \<times> server" where
  "handleCreateToken sha env name0 sv =
     (let name = trim_space name0 in
      case ValidateName name of
        Inl e \<Rightarrow> (Inl e, sv)
      | Inr _ \<Rightarrow>
          (case new_token sha env name of
             (secret, t) \<Rightarrow>
               (case Update (ev_saved env) (add_token t) (sv_store sv) of
                  (Inl e, s) \<Rightarrow> (Inl e, set_store s sv)
                | (Inr _, s) \<Rightarrow> (Inr (secret, t), set_store s sv))))"

text \<open>What a listing shows: neither the secret nor its hash.\<close>

definition handleListTokens :: "server \<Rightarrow> (string \<times> string \<times> string \<times> time \<times> time option) list" where
  "handleListTokens sv = map (\<lambda>t. (t_ID t, t_Name t, t_Prefix t, t_CreatedAt t, t_LastUsedAt t)) (st_Tokens (sv_state sv))"

definition delete_token :: "string \<Rightarrow> state \<Rightarrow> (error, unit) result \<times> state" where
  "delete_token i st =
     (if \<not> list_ex (\<lambda>t. t_ID t = i) (st_Tokens st) then (Inl (ErrNotFound, TokenNotFound), st)
      else (Inr (), st\<lparr>st_Tokens := filter (\<lambda>t. t_ID t \<noteq> i) (st_Tokens st)\<rparr>))"

definition handleDeleteToken :: "request_env \<Rightarrow> string \<Rightarrow> server \<Rightarrow> (error, unit) result \<times> server" where
  "handleDeleteToken env i sv =
     (case Update (ev_saved env) (delete_token i) (sv_store sv) of (r, s) \<Rightarrow> (r, set_store s sv))"

end
