(* ===== verification/Server_Invariant.thy ===== *)
theory Server_Invariant
  imports Portspec_Roundtrip Clients_API
begin

text \<open>
  What the server keeps true of its configuration and its listeners, and the contract every
  closure of the forward and group handlers satisfies: a success keeps the two consistent, and an
  error leaves the configuration and every listener as they were.
\<close>

section \<open>Consistency\<close>

definition apart :: "forward \<Rightarrow> forward \<Rightarrow> bool" where
  "apart f g \<longleftrightarrow> f_PublicPort f \<noteq> f_PublicPort g \<or> \<not> ports_overlap f g"

lemma apart_sym: "apart f g \<Longrightarrow> apart g f"
  by (auto simp: apart_def ports_overlap_def)

lemma apart_socks: "apart f g \<longleftrightarrow> socks f \<inter> socks g = {}"
  by (auto simp: apart_def socks_overlap)

definition forward_ok :: "int \<Rightarrow> int \<Rightarrow> forward \<Rightarrow> bool" where
  "forward_ok tp ap f \<longleftrightarrow> idPattern (f_ID f) \<and> Validate f = Inr () \<and> f_PublicPort f \<noteq> tp \<and> f_PublicPort f \<noteq> ap"

definition config_ok :: "int \<Rightarrow> int \<Rightarrow> state \<Rightarrow> bool" where
  "config_ok tp ap st \<longleftrightarrow>
     distinct (map f_ID (st_Forwards st)) \<and> distinct (map c_ID (st_Clients st))
     \<and> (\<forall>f\<in>set (st_Forwards st). forward_ok tp ap f \<and> f_ClientID f \<in> c_ID ` set (st_Clients st))
     \<and> (\<forall>f\<in>set (st_Forwards st). \<forall>g\<in>set (st_Forwards st). f_ID f \<noteq> f_ID g \<longrightarrow> apart f g)
     \<and> (\<forall>f\<in>set (st_Forwards st). \<forall>g\<in>set (st_Forwards st). f_GroupID f = f_GroupID g \<longrightarrow> f_ClientID f = f_ClientID g)"

text \<open>Exactly the enabled forwards have a listener, and it is the one they want.\<close>

definition in_step :: "forward list \<Rightarrow> (string \<rightharpoonup> listen_spec) \<Rightarrow> bool" where
  "in_step fs V \<longleftrightarrow> (\<forall>f\<in>set fs. V (f_ID f) = wanted f) \<and> (\<forall>i. i \<notin> f_ID ` set fs \<longrightarrow> V i = None)"

definition consistent :: "(socket \<Rightarrow> bool) \<Rightarrow> int \<Rightarrow> int \<Rightarrow> state \<Rightarrow> listeners \<Rightarrow> bool" where
  "consistent deny tp ap st L \<longleftrightarrow> config_ok tp ap st \<and> l_ok deny L \<and> in_step (st_Forwards st) (l_view L)"

lemma config_okD:
  assumes "config_ok tp ap st"
  shows "distinct (map f_ID (st_Forwards st))" and "distinct (map c_ID (st_Clients st))"
    and "f \<in> set (st_Forwards st) \<Longrightarrow> forward_ok tp ap f"
    and "f \<in> set (st_Forwards st) \<Longrightarrow> f_ClientID f \<in> c_ID ` set (st_Clients st)"
    and "f \<in> set (st_Forwards st) \<Longrightarrow> g \<in> set (st_Forwards st) \<Longrightarrow> f_ID f \<noteq> f_ID g \<Longrightarrow> apart f g"
    and "f \<in> set (st_Forwards st) \<Longrightarrow> g \<in> set (st_Forwards st) \<Longrightarrow> f_GroupID f = f_GroupID g \<Longrightarrow> f_ClientID f = f_ClientID g"
  using assms unfolding config_ok_def by blast+

lemma config_okI:
  assumes "distinct (map f_ID (st_Forwards st))" and "distinct (map c_ID (st_Clients st))"
    and "\<And>f. f \<in> set (st_Forwards st) \<Longrightarrow> forward_ok tp ap f"
    and "\<And>f. f \<in> set (st_Forwards st) \<Longrightarrow> f_ClientID f \<in> c_ID ` set (st_Clients st)"
    and "\<And>f g. f \<in> set (st_Forwards st) \<Longrightarrow> g \<in> set (st_Forwards st) \<Longrightarrow> f_ID f \<noteq> f_ID g \<Longrightarrow> apart f g"
    and "\<And>f g. f \<in> set (st_Forwards st) \<Longrightarrow> g \<in> set (st_Forwards st) \<Longrightarrow> f_GroupID f = f_GroupID g \<Longrightarrow> f_ClientID f = f_ClientID g"
  shows "config_ok tp ap st"
  using assms unfolding config_ok_def by blast

lemma consistentD:
  assumes "consistent deny tp ap st L"
  shows "config_ok tp ap st" and "l_ok deny L" and "in_step (st_Forwards st) (l_view L)"
  using assms by (simp_all add: consistent_def)

lemma in_stepD:
  assumes "in_step fs V"
  shows "f \<in> set fs \<Longrightarrow> V (f_ID f) = wanted f" and "i \<notin> f_ID ` set fs \<Longrightarrow> V i = None"
  using assms by (auto simp: in_step_def)

text \<open>An id and a group id that no forward uses.\<close>

definition fresh_id :: "string \<Rightarrow> state \<Rightarrow> bool" where
  "fresh_id i st \<longleftrightarrow> idPattern i \<and> (\<forall>f\<in>set (st_Forwards st). f_ID f \<noteq> i \<and> f_GroupID f \<noteq> i)"

lemma ClientByID_ex: "ClientByID st i \<noteq> None \<longleftrightarrow> i \<in> c_ID ` set (st_Clients st)"
  using ClientByID_None[of st i] by simp

section \<open>Transactions\<close>

locale transaction =
  fixes deny :: "socket \<Rightarrow> bool" and tp ap :: int and pre :: "state \<Rightarrow> bool"
    and fn :: "state \<Rightarrow> listeners \<Rightarrow> (error, 'a) result \<times> state \<times> listeners"
  assumes commit: "consistent deny tp ap st L \<Longrightarrow> pre st \<Longrightarrow> fn st L = (Inr x, st', L') \<Longrightarrow> consistent deny tp ap st' L'"
    and abort: "consistent deny tp ap st L \<Longrightarrow> pre st \<Longrightarrow> fn st L = (Inl e, st', L') \<Longrightarrow>
      st' = st \<and> l_ok deny L' \<and> l_view L' = l_view L"
begin

text \<open>The closure leaves memory consistent whether or not the save that follows succeeds.\<close>

lemma memory_consistent:
  assumes "consistent deny tp ap (sv_state sv) (sv_listeners sv)" and "pre (sv_state sv)"
  shows "consistent deny tp ap (sv_state (snd (Update_in saved fn sv))) (sv_listeners (snd (Update_in saved fn sv)))"
proof -
  obtain r st' L' where f: "fn (sv_state sv) (sv_listeners sv) = (r, st', L')" by (cases "fn (sv_state sv) (sv_listeners sv)")
  obtain r' s' where u: "Update saved (\<lambda>_. (r, st')) (sv_store sv) = (r', s')" by fastforce
  then have "sto_mem s' = st'" using Update_mem[of saved "\<lambda>_. (r, st')" "sv_store sv"] by simp
  moreover have "consistent deny tp ap st' L'"
  proof (cases r)
    case (Inl e)
    with abort[OF assms] f assms(1) show ?thesis by (simp add: consistent_def)
  next
    case (Inr x)
    with commit[OF assms] f show ?thesis by simp
  qed
  ultimately show ?thesis by (simp add: Update_in_def f u)
qed

text \<open>A refused request changes neither the configuration, on disk or in memory, nor a listener.\<close>

lemma refused:
  assumes "consistent deny tp ap (sv_state sv) (sv_listeners sv)" and "pre (sv_state sv)"
    and "Update_in True fn sv = (Inl e, sv')"
  shows "sv_store sv' = sv_store sv \<and> l_ok deny (sv_listeners sv') \<and> l_view (sv_listeners sv') = l_view (sv_listeners sv)"
proof -
  from Update_in_Inl_saved[OF assms(3)] obtain st L where
    f: "fn (sv_state sv) (sv_listeners sv) = (Inl e, st, L)"
      "sv' = set_listeners L (set_store (sv_store sv\<lparr>sto_mem := st\<rparr>) sv)" by blast
  from abort[OF assms(1,2) f(1)] f(2) show ?thesis by simp
qed

lemma ports_kept:
  "sv_tunnelPort (snd (Update_in saved fn sv)) = sv_tunnelPort sv \<and> sv_adminPort (snd (Update_in saved fn sv)) = sv_adminPort sv"
  by (simp add: Update_in_def split: prod.splits)

end

section \<open>Creating a forward\<close>

lemma in_step_append:
  assumes "in_step fs V" and "f_ID f \<notin> f_ID ` set fs"
  shows "in_step (fs @ [f]) (V(f_ID f := wanted f))"
proof -
  have "f_ID g \<noteq> f_ID f" if "g \<in> set fs" for g using that assms(2) by (metis image_eqI)
  with assms show ?thesis unfolding in_step_def by simp
qed

lemma config_ok_append:
  assumes "config_ok tp ap st" and "forward_ok tp ap f" and "f_ClientID f \<in> c_ID ` set (st_Clients st)"
    and "\<And>g. g \<in> set (st_Forwards st) \<Longrightarrow> f_ID g \<noteq> f_ID f \<and> f_GroupID g \<noteq> f_GroupID f \<and> apart f g"
  shows "config_ok tp ap (st\<lparr>st_Forwards := st_Forwards st @ [f]\<rparr>)"
proof (rule config_okI)
  note D = config_okD[OF assms(1)]
  have nf: "f_ID f \<notin> f_ID ` set (st_Forwards st)" using assms(4) by force
  with D(1) show "distinct (map f_ID (st_Forwards (st\<lparr>st_Forwards := st_Forwards st @ [f]\<rparr>)))" by simp
  show "distinct (map c_ID (st_Clients (st\<lparr>st_Forwards := st_Forwards st @ [f]\<rparr>)))" using D(2) by simp
next
  note D = config_okD[OF assms(1)]
  fix g assume "g \<in> set (st_Forwards (st\<lparr>st_Forwards := st_Forwards st @ [f]\<rparr>))"
  then have g: "g \<noteq> f \<Longrightarrow> g \<in> set (st_Forwards st)" by auto
  show "forward_ok tp ap g" using g D(3)[of g] assms(2) by (cases "g = f") simp_all
  show "f_ClientID g \<in> c_ID ` set (st_Clients (st\<lparr>st_Forwards := st_Forwards st @ [f]\<rparr>))"
    using g D(4)[of g] assms(3) by (cases "g = f") simp_all
  fix h assume "h \<in> set (st_Forwards (st\<lparr>st_Forwards := st_Forwards st @ [f]\<rparr>))"
  then have h: "h \<noteq> f \<Longrightarrow> h \<in> set (st_Forwards st)" by auto
  show "apart g h" if "f_ID g \<noteq> f_ID h"
    using that g h D(5)[of g h] assms(4)[of g] assms(4)[of h] apart_sym by (metis (no_types))
  show "f_ClientID g = f_ClientID h" if "f_GroupID g = f_GroupID h"
    using that g h D(6)[of g h] assms(4)[of g] assms(4)[of h] by (metis (no_types))
qed

definition creatable :: "server \<Rightarrow> forward \<Rightarrow> state \<Rightarrow> bool" where
  "creatable sv f st \<longleftrightarrow> fresh_id (f_ID f) st \<and> f_GroupID f = f_ID f \<and> Validate f = Inr ()
     \<and> reservedPort sv (f_PublicPort f) = Inr ()"

interpretation create_tr: transaction "ev_deny env" "sv_tunnelPort sv" "sv_adminPort sv" "creatable sv f" "create_forward env sv f"
  for env sv f
proof
  fix st L x st' L'
  assume c: "consistent (ev_deny env) (sv_tunnelPort sv) (sv_adminPort sv) st L" and p: "creatable sv f st"
    and r: "create_forward env sv f st L = (Inr x, st', L')"
  note C = consistentD[OF c] and D = config_okD[OF consistentD(1)[OF c]]
  from r obtain u where h: "f_ClientID f \<in> c_ID ` set (st_Clients st)" "PortConflict st f = None"
    "Apply (ev_deny env) f L = (Inr u, L')" "st' = st\<lparr>st_Forwards := st_Forwards st @ [f]\<rparr>"
    using ClientByID_ex[of st "f_ClientID f"]
    by (auto simp: create_forward_def Let_def split: if_splits option.splits prod.splits sum.splits)
  have new: "\<And>g. g \<in> set (st_Forwards st) \<Longrightarrow> f_ID g \<noteq> f_ID f \<and> f_GroupID g \<noteq> f_GroupID f"
    using p by (auto simp: creatable_def fresh_id_def)
  have ap: "apart f g" if "g \<in> set (st_Forwards st)" for g
    using h(2) new[OF that] that by (auto simp: PortConflict_None apart_def)
  have "config_ok (sv_tunnelPort sv) (sv_adminPort sv) st'"
    unfolding h(4)
    by (rule config_ok_append[OF C(1) _ h(1)])
      (use new ap p in \<open>simp_all add: forward_ok_def creatable_def fresh_id_def\<close>)
  moreover have "in_step (st_Forwards st') (l_view L')"
  proof -
    have "f_ID f \<notin> f_ID ` set (st_Forwards st)" using new by (metis imageE)
    from in_step_append[OF C(3) this] Apply_facts(3)[OF C(2), of f u] h(3)
    show ?thesis by (simp add: h(4))
  qed
  moreover have "l_ok (ev_deny env) L'" using Apply_facts(1)[OF C(2), of f] h(3) by simp
  ultimately show "consistent (ev_deny env) (sv_tunnelPort sv) (sv_adminPort sv) st' L'" by (simp add: consistent_def)
next
  fix st L e st' L'
  assume c: "consistent (ev_deny env) (sv_tunnelPort sv) (sv_adminPort sv) st L"
    and r: "create_forward env sv f st L = (Inl e, st', L')"
  note A = Apply_facts(1,4)[OF consistentD(2)[OF c], of f]
  show "st' = st \<and> l_ok (ev_deny env) L' \<and> l_view L' = l_view L"
    using r A consistentD(2)[OF c]
    by (auto simp: create_forward_def Let_def split: if_splits option.splits prod.splits sum.splits)
qed

section \<open>Updating a forward\<close>

lemma update_first_mem:
  assumes "distinct (map k xs)" and "y \<in> set (update_first (\<lambda>x. k x = i) (\<lambda>_. n) xs)"
  shows "y = n \<or> (y \<in> set xs \<and> k y \<noteq> i)"
  using assms(2) unfolding update_first_key[OF assms(1)] by (auto split: if_splits)

lemma two_members:
  assumes "f \<in> set (st_Forwards st)" and "g \<in> set (st_Forwards st)" and "f_GroupID f = gid" and "f_GroupID g = gid"
    and "f \<noteq> g"
  shows "1 < length (ForwardsInGroup st gid)"
proof -
  have "{f, g} \<subseteq> set (ForwardsInGroup st gid)" using assms by (auto simp: set_ForwardsInGroup)
  then have "card {f, g} \<le> card (set (ForwardsInGroup st gid))" by (intro card_mono) auto
  also have "\<dots> \<le> length (ForwardsInGroup st gid)" by (rule card_length)
  finally show ?thesis using assms(5) by simp
qed

lemma config_ok_replace:
  assumes "config_ok tp ap st" and "f \<in> set (st_Forwards st)" and "f_ID n = f_ID f" and "f_GroupID n = f_GroupID f"
    and "forward_ok tp ap n" and "f_ClientID n \<in> c_ID ` set (st_Clients st)"
    and "\<And>g. g \<in> set (st_Forwards st) \<Longrightarrow> f_ID g \<noteq> f_ID f \<Longrightarrow> apart n g"
    and "f_ClientID n = f_ClientID f \<or> length (ForwardsInGroup st (f_GroupID f)) \<le> 1"
  shows "config_ok tp ap (replace_forward (f_ID f) n st)"
proof (rule config_okI)
  note D = config_okD[OF assms(1)]
  have "map f_ID (update_first (\<lambda>g. f_ID g = f_ID f) (\<lambda>_. n) (st_Forwards st)) = map f_ID (st_Forwards st)"
    by (rule map_update_first_same) (simp add: assms(3))
  then show "distinct (map f_ID (st_Forwards (replace_forward (f_ID f) n st)))"
    using D(1) by (simp add: replace_forward_def)
  show "distinct (map c_ID (st_Clients (replace_forward (f_ID f) n st)))"
    using D(2) by (simp add: replace_forward_def)
next
  note D = config_okD[OF assms(1)]
  have mem: "g \<noteq> n \<Longrightarrow> g \<in> set (st_Forwards st) \<and> f_ID g \<noteq> f_ID f"
    if "g \<in> set (st_Forwards (replace_forward (f_ID f) n st))" for g
    using update_first_mem[OF D(1)] that unfolding replace_forward_def by auto
  have cl: "f_ClientID g = f_ClientID n" if "g \<in> set (st_Forwards st)" "f_ID g \<noteq> f_ID f" "f_GroupID g = f_GroupID n" for g
    using assms(8)
  proof
    assume "f_ClientID n = f_ClientID f"
    with that D(6)[OF that(1) assms(2)] assms(4) show ?thesis by simp
  next
    assume "length (ForwardsInGroup st (f_GroupID f)) \<le> 1"
    moreover have "1 < length (ForwardsInGroup st (f_GroupID f))"
      using two_members[OF assms(2) that(1)] that(2,3) assms(4) by force
    ultimately show ?thesis by simp
  qed
  fix g assume g: "g \<in> set (st_Forwards (replace_forward (f_ID f) n st))"
  show "forward_ok tp ap g" using mem[OF g] D(3)[of g] assms(5) by (cases "g = n") simp_all
  show "f_ClientID g \<in> c_ID ` set (st_Clients (replace_forward (f_ID f) n st))"
    using mem[OF g] D(4)[of g] assms(6) by (cases "g = n") (simp_all add: replace_forward_def)
  fix h assume h: "h \<in> set (st_Forwards (replace_forward (f_ID f) n st))"
  show "apart g h" if "f_ID g \<noteq> f_ID h"
    using that mem[OF g] mem[OF h] D(5)[of g h] assms(7)[of g] assms(7)[of h] apart_sym by (metis (no_types))
  show "f_ClientID g = f_ClientID h" if "f_GroupID g = f_GroupID h"
    using that mem[OF g] mem[OF h] D(6)[of g h] cl[of g] cl[of h] by (metis (no_types))
qed

lemma in_step_replace:
  assumes "in_step (st_Forwards st) V" and "distinct (map f_ID (st_Forwards st))"
    and "f \<in> set (st_Forwards st)" and "f_ID n = f_ID f"
  shows "in_step (st_Forwards (replace_forward (f_ID f) n st)) (V(f_ID f := wanted n))"
proof -
  have ids: "f_ID ` set (update_first (\<lambda>g. f_ID g = f_ID f) (\<lambda>_. n) (st_Forwards st)) = f_ID ` set (st_Forwards st)"
    by (metis (mono_tags, lifting) assms(4) list.set_map map_update_first_same)
  have "(V(f_ID f := wanted n)) (f_ID g) = wanted g"
    if "g \<in> set (update_first (\<lambda>g. f_ID g = f_ID f) (\<lambda>_. n) (st_Forwards st))" for g
    using update_first_mem[OF assms(2) that] in_stepD(1)[OF assms(1)] assms(4) by auto
  moreover have "(V(f_ID f := wanted n)) i = None" if "i \<notin> f_ID ` set (st_Forwards st)" for i
    using that in_stepD(2)[OF assms(1)] assms(3) by auto
  ultimately show ?thesis unfolding in_step_def replace_forward_def by (simp add: ids)
qed

lemma forward_applyTo_ids [simp]:
  "f_ID (forward_applyTo inp f) = f_ID f" "f_GroupID (forward_applyTo inp f) = f_GroupID f"
  by (simp_all add: forward_applyTo_def)

interpretation update_tr: transaction "ev_deny env" "sv_tunnelPort sv" "sv_adminPort sv" "\<lambda>_. True" "update_forward env sv i inp"
  for env sv i inp
proof
  fix st L x st' L'
  assume c: "consistent (ev_deny env) (sv_tunnelPort sv) (sv_adminPort sv) st L"
    and r: "update_forward env sv i inp st L = (Inr x, st', L')"
  note C = consistentD[OF c] and D = config_okD[OF consistentD(1)[OF c]]
  obtain f where f: "ForwardByID st i = Some f" using r by (auto simp: update_forward_def split: option.splits)
  have fi: "f \<in> set (st_Forwards st)" "f_ID f = i" using ForwardByID_Some[OF f] by simp_all
  define n where "n = (forward_applyTo inp f)\<lparr>f_UpdatedAt := ev_now env\<rparr>"
  have nid: "f_ID n = f_ID f" "f_GroupID n = f_GroupID f" by (simp_all add: n_def)
  from r obtain u where h: "f_ClientID n = f_ClientID f \<or> length (ForwardsInGroup st (f_GroupID f)) \<le> 1"
    "Validate n = Inr ()" "f_PublicPort n \<noteq> sv_tunnelPort sv" "f_PublicPort n \<noteq> sv_adminPort sv"
    "f_ClientID n \<in> c_ID ` set (st_Clients st)" "PortConflict st n = None"
    "Apply (ev_deny env) n L = (Inr u, L')" "st' = replace_forward i n st"
    using ClientByID_ex[of st "f_ClientID n"] unfolding update_forward_def f option.case Let_def n_def[symmetric]
    by (auto split: if_splits option.splits prod.splits sum.splits)
  have "forward_ok (sv_tunnelPort sv) (sv_adminPort sv) n"
    using h(2-4) D(3)[OF fi(1)] by (simp add: forward_ok_def nid)
  moreover have "apart n g" if "g \<in> set (st_Forwards st)" "f_ID g \<noteq> f_ID f" for g
    using h(6) that by (auto simp: PortConflict_None apart_def nid)
  ultimately have "config_ok (sv_tunnelPort sv) (sv_adminPort sv) st'"
    unfolding h(8) fi(2)[symmetric] using h(1,5) by (intro config_ok_replace[OF C(1) fi(1) nid]) simp_all
  moreover have "in_step (st_Forwards st') (l_view L')"
    using in_step_replace[OF C(3) D(1) fi(1) nid(1)] Apply_facts(3)[OF C(2), of n u] h(7)
    by (simp add: h(8) nid fi(2))
  moreover have "l_ok (ev_deny env) L'" using Apply_facts(1)[OF C(2), of n] h(7) by simp
  ultimately show "consistent (ev_deny env) (sv_tunnelPort sv) (sv_adminPort sv) st' L'" by (simp add: consistent_def)
next
  fix st L e st' L'
  assume c: "consistent (ev_deny env) (sv_tunnelPort sv) (sv_adminPort sv) st L"
    and r: "update_forward env sv i inp st L = (Inl e, st', L')"
  note A = Apply_facts(1,4)[OF consistentD(2)[OF c]]
  show "st' = st \<and> l_ok (ev_deny env) L' \<and> l_view L' = l_view L"
  proof (cases "ForwardByID st i")
    case None
    with r consistentD(2)[OF c] show ?thesis by (simp add: update_forward_def)
  next
    case (Some f)
    define n where "n = (forward_applyTo inp f)\<lparr>f_UpdatedAt := ev_now env\<rparr>"
    show ?thesis
      using r A[of n] consistentD(2)[OF c] unfolding update_forward_def Some option.case Let_def n_def[symmetric]
      by (auto split: if_splits option.splits prod.splits sum.splits)
  qed
qed

end
