(* ===== verification/Group_Invariant.thy ===== *)
theory Group_Invariant
  imports Server_Invariant
begin

text \<open>
  The contract of \<open>Server_Invariant\<close> for the closures of the group handlers: expanding a port spec
  gives members that can be committed, and committing them keeps the server consistent.
\<close>

section \<open>Changing a group\<close>

text \<open>
  What \<open>expandGroup\<close> guarantees of the new members: valid, pairwise apart, of one client; each
  keeps the id of a former member with the same sockets or has an unused one.
\<close>

definition members_ready :: "int \<Rightarrow> int \<Rightarrow> string \<Rightarrow> forward list \<Rightarrow> forward list \<Rightarrow> state \<Rightarrow> bool" where
  "members_ready tp ap gid nxt prev st \<longleftrightarrow>
     distinct (map f_ID nxt) \<and> distinct (map f_ID prev) \<and> set prev = {f \<in> set (st_Forwards st). f_GroupID f = gid}
     \<and> (\<forall>f\<in>set nxt. f_GroupID f = gid \<and> forward_ok tp ap f \<and> f_ClientID f = f_ClientID (hd nxt))
     \<and> (\<forall>f\<in>set nxt. \<forall>g\<in>set nxt. f_ID f \<noteq> f_ID g \<longrightarrow> apart f g)
     \<and> (\<forall>f\<in>set nxt. (\<exists>g\<in>set prev. f_ID g = f_ID f \<and> socks g = socks f)
          \<or> f_ID f \<notin> f_ID ` set (st_Forwards st))"

lemma members_readyD:
  assumes "members_ready tp ap gid nxt prev st"
  shows "distinct (map f_ID nxt)" and "distinct (map f_ID prev)"
    and "g \<in> set prev \<longleftrightarrow> g \<in> set (st_Forwards st) \<and> f_GroupID g = gid"
    and "f \<in> set nxt \<Longrightarrow> f_GroupID f = gid \<and> forward_ok tp ap f \<and> f_ClientID f = f_ClientID (hd nxt)"
    and "f \<in> set nxt \<Longrightarrow> g \<in> set nxt \<Longrightarrow> f_ID f \<noteq> f_ID g \<Longrightarrow> apart f g"
    and "f \<in> set nxt \<Longrightarrow> (\<exists>g\<in>set prev. f_ID g = f_ID f \<and> socks g = socks f) \<or> f_ID f \<notin> f_ID ` set (st_Forwards st)"
  using assms unfolding members_ready_def by blast+

lemma same_id_same: "distinct (map f_ID fs) \<Longrightarrow> f \<in> set fs \<Longrightarrow> g \<in> set fs \<Longrightarrow> f_ID f = f_ID g \<Longrightarrow> f = g"
  by (simp add: distinct_map inj_on_def)

lemma prev_by_id_distinct:
  assumes "distinct (map f_ID fs)"
  shows "prev_by_id fs i = Some f \<longleftrightarrow> f \<in> set fs \<and> f_ID f = i"
proof
  assume "f \<in> set fs \<and> f_ID f = i"
  moreover from this obtain g where "prev_by_id fs i = Some g" using prev_by_id_None[of fs i] by (cases "prev_by_id fs i") auto
  ultimately show "prev_by_id fs i = Some f"
    using prev_by_id_Some[of fs i g] same_id_same[OF assms, of f g] by simp
qed (rule prev_by_id_Some)

lemma groupPortConflict_None:
  "groupPortConflict st gid f = None \<longleftrightarrow> (\<forall>g\<in>set (st_Forwards st). f_GroupID g \<noteq> gid \<longrightarrow> apart f g)"
  unfolding groupPortConflict_def find_None_all apart_def by (auto simp: eq_commute)

lemma group_conflict_None:
  "group_conflict st gid fs = None \<longleftrightarrow>
     (\<forall>f\<in>set fs. \<forall>g\<in>set (st_Forwards st). f_GroupID g \<noteq> gid \<longrightarrow> apart f g)"
proof (induction st gid fs rule: group_conflict.induct)
  case (2 st gid f fs)
  have "group_conflict st gid (f # fs) = None \<longleftrightarrow> groupPortConflict st gid f = None \<and> group_conflict st gid fs = None"
    by (simp split: option.split)
  with 2 groupPortConflict_None[of st gid f] show ?case by (cases "groupPortConflict st gid f") simp_all
qed simp

lemma group_change_ready:
  assumes ready: "members_ready tp ap gid nxt prev st" and I: "in_step (st_Forwards st) V"
    and free: "group_conflict st gid nxt = None"
  shows "group_change V nxt prev"
  unfolding group_change_def
proof (intro conjI ballI allI impI)
  note R = members_readyD[OF ready]
  show "distinct (map f_ID nxt)" "distinct (map f_ID prev)" by (fact R(1,2))+
  show "V (f_ID g) = wanted g" if "g \<in> set prev" for g
    using that R(3) in_stepD(1)[OF I] by blast
  show "V (f_ID f) = None" if "f \<in> set nxt" "f_ID f \<notin> f_ID ` set prev" for f
    using R(6)[OF that(1)] that(2) in_stepD(2)[OF I] by (metis image_eqI)
  show "socks f = socks g" if f: "f \<in> set nxt" and g: "g \<in> set prev" and e: "f_ID f = f_ID g" for f g
  proof -
    have "f_ID f \<in> f_ID ` set (st_Forwards st)" using g e R(3) by (metis image_eqI)
    then obtain h where h: "h \<in> set prev" "f_ID h = f_ID f" "socks h = socks f" using R(6)[OF f] by blast
    have "h = g" by (rule same_id_same[OF R(2) h(1) g]) (simp add: h(2) e)
    with h(3) show ?thesis by simp
  qed
  show "socks f \<inter> socks g = {}" if "f \<in> set nxt" "g \<in> set nxt" "f_ID f \<noteq> f_ID g" for f g
    using R(5)[OF that] by (simp add: apart_socks)
  show "spec_socks s \<inter> socks f = {}" if f: "f \<in> set nxt" and j: "j \<notin> f_ID ` set prev" "V j = Some s" for f j s
  proof -
    obtain g where g: "g \<in> set (st_Forwards st)" "f_ID g = j" using in_stepD(2)[OF I, of j] j(2) by fastforce
    then have "g \<notin> set prev" using j(1) by auto
    then have "f_GroupID g \<noteq> gid" using g(1) R(3) by blast
    then have "apart f g" using free f g(1) by (simp add: group_conflict_None)
    moreover have "s = spec_of g" using in_stepD(1)[OF I g(1)] j(2) g(2) by (auto simp: wanted_def split: if_splits)
    ultimately show ?thesis by (simp add: apart_socks Int_commute)
  qed
qed

lemma place_members_result:
  assumes "place_members gid todo fs = (ks, t)" and "distinct (map f_ID fs)" and "\<And>i n. todo i = Some n \<Longrightarrow> f_ID n = i"
  shows "set ks = {f \<in> set fs. f_GroupID f \<noteq> gid} \<union> {n. \<exists>q\<in>set fs. f_GroupID q = gid \<and> todo (f_ID q) = Some n}
    \<and> distinct (map f_ID ks) \<and> f_ID ` set ks \<subseteq> f_ID ` set fs
    \<and> (\<forall>i. t i = (if \<exists>q\<in>set fs. f_GroupID q = gid \<and> f_ID q = i then None else todo i))"
  using assms
proof (induction gid todo fs arbitrary: ks t rule: place_members.induct)
  case (1 gid todo)
  then show ?case by simp
next
  case (2 gid todo q fs)
  have d: "distinct (map f_ID fs)" and q: "\<And>f. f \<in> set fs \<Longrightarrow> f_ID f \<noteq> f_ID q" using 2(5) by (auto simp: image_iff)
  show ?case
  proof (cases "f_GroupID q \<noteq> gid")
    case True
    obtain ks' where p: "place_members gid todo fs = (ks', t)" "ks = q # ks'"
      using 2(4) True by (auto split: prod.splits)
    note IH = 2(1)[OF True p(1) d 2(6)]
    have ids: "f_ID ` set ks' \<subseteq> f_ID ` set fs" using IH by blast
    have "f_ID q \<notin> f_ID ` set fs" using q by (metis imageE)
    with ids have "f_ID q \<notin> f_ID ` set ks'" by blast
    with IH True p(2) show ?thesis by auto
  next
    case False
    show ?thesis
    proof (cases "todo (f_ID q)")
      case None
      have p: "place_members gid todo fs = (ks, t)" using 2(4) False None by simp
      note IH = 2(2)[OF False None p d 2(6)]
      have "set ks = {f \<in> set (q # fs). f_GroupID f \<noteq> gid} \<union> {n. \<exists>r\<in>set (q # fs). f_GroupID r = gid \<and> todo (f_ID r) = Some n}"
        using IH False None by auto
      moreover have "t i = (if \<exists>r\<in>set (q # fs). f_GroupID r = gid \<and> f_ID r = i then None else todo i)" for i
        using IH None by (cases "i = f_ID q") simp_all
      moreover have "distinct (map f_ID ks)" "f_ID ` set ks \<subseteq> f_ID ` set fs" using IH by blast+
      moreover from this(2) have "f_ID ` set ks \<subseteq> f_ID ` set (q # fs)" by (simp add: subset_insertI2)
      ultimately show ?thesis by blast
    next
      case (Some n)
      have g: "f_GroupID q = gid" using False by simp
      obtain ks' where p: "place_members gid (todo(f_ID q := None)) fs = (ks', t)" "ks = n # ks'"
        using 2(4) False Some by (auto split: prod.splits)
      have todo': "(todo(f_ID q := None)) i = Some m \<Longrightarrow> f_ID m = i" for i m using 2(6) by (auto split: if_splits)
      note IH = 2(3)[OF False Some p(1) d todo']
      have n: "f_ID n = f_ID q" using 2(6)[OF Some] .
      have same: "(todo(f_ID q := None)) (f_ID r) = todo (f_ID r)" if "r \<in> set fs" for r using q[OF that] by simp
      have "set ks' = {f \<in> set fs. f_GroupID f \<noteq> gid} \<union> {m. \<exists>r\<in>set fs. f_GroupID r = gid \<and> todo (f_ID r) = Some m}"
        using IH same by auto
      then have "set ks = {f \<in> set (q # fs). f_GroupID f \<noteq> gid} \<union> {m. \<exists>r\<in>set (q # fs). f_GroupID r = gid \<and> todo (f_ID r) = Some m}"
        using p(2) g Some by auto
      moreover have "f_ID n \<notin> f_ID ` set ks'"
      proof -
        have ids: "f_ID ` set ks' \<subseteq> f_ID ` set fs" using IH by blast
        have "f_ID q \<notin> f_ID ` set fs" using q by (metis imageE)
        with ids n show ?thesis by auto
      qed
      moreover have "t i = (if \<exists>r\<in>set (q # fs). f_GroupID r = gid \<and> f_ID r = i then None else todo i)" for i
      proof -
        have "t i = (if \<exists>r\<in>set fs. f_GroupID r = gid \<and> f_ID r = i then None else (todo(f_ID q := None)) i)"
          using IH by blast
        with g show ?thesis by (cases "i = f_ID q") auto
      qed
      moreover have "distinct (map f_ID ks')" "f_ID ` set ks' \<subseteq> f_ID ` set fs" using IH by blast+
      moreover from this(2) have "f_ID ` set ks \<subseteq> f_ID ` set (q # fs)" using p(2) n by auto
      ultimately show ?thesis using p(2) by (simp only: list.map distinct.simps set_map) blast
    qed
  qed
qed

lemma swap_members_result:
  assumes ready: "members_ready tp ap gid nxt prev st" and "distinct (map f_ID (st_Forwards st))"
  shows "set (st_Forwards (swap_members gid nxt st)) = {f \<in> set (st_Forwards st). f_GroupID f \<noteq> gid} \<union> set nxt
    \<and> distinct (map f_ID (st_Forwards (swap_members gid nxt st)))
    \<and> st_Clients (swap_members gid nxt st) = st_Clients st"
proof -
  note R = members_readyD[OF ready]
  obtain ks t where p: "place_members gid (prev_by_id nxt) (st_Forwards st) = (ks, t)" by fastforce
  have pid: "\<And>i n. prev_by_id nxt i = Some n \<Longrightarrow> f_ID n = i" using prev_by_id_Some by blast
  note M = place_members_result[OF p assms(2) pid]
  let ?rest = "filter (\<lambda>f. t (f_ID f) \<noteq> None) nxt"
  have fw: "st_Forwards (swap_members gid nxt st) = ks @ ?rest" by (simp add: swap_members_def p)
  have t: "t (f_ID f) = (if \<exists>q\<in>set (st_Forwards st). f_GroupID q = gid \<and> f_ID q = f_ID f then None else Some f)" if "f \<in> set nxt" for f
    using M prev_by_id_distinct[OF R(1), of "f_ID f" f] that by simp
  have out: "f_ID f \<notin> f_ID ` set (st_Forwards st)" if "f \<in> set ?rest" for f
  proof
    assume a: "f_ID f \<in> f_ID ` set (st_Forwards st)"
    have f: "f \<in> set nxt" "t (f_ID f) \<noteq> None" using that by auto
    from R(6)[OF f(1)] a obtain g where "g \<in> set prev" "f_ID g = f_ID f" by blast
    then have "\<exists>q\<in>set (st_Forwards st). f_GroupID q = gid \<and> f_ID q = f_ID f" using R(3) by blast
    with t[OF f(1)] f(2) show False by simp
  qed
  have ks: "f \<in> set ks \<longleftrightarrow> (f \<in> set (st_Forwards st) \<and> f_GroupID f \<noteq> gid)
      \<or> (f \<in> set nxt \<and> (\<exists>q\<in>set (st_Forwards st). f_GroupID q = gid \<and> f_ID q = f_ID f))" for f
    using M prev_by_id_distinct[OF R(1)] by auto
  have "set (ks @ ?rest) = {f \<in> set (st_Forwards st). f_GroupID f \<noteq> gid} \<union> set nxt"
    using ks t by auto
  moreover have "distinct (map f_ID (ks @ ?rest))"
  proof -
    have ids: "f_ID ` set ks \<subseteq> f_ID ` set (st_Forwards st)" using M by blast
    have "f_ID ` set ks \<inter> f_ID ` set ?rest = {}"
    proof -
      have "f_ID ` set ?rest \<inter> f_ID ` set (st_Forwards st) = {}" using out by blast
      with ids show ?thesis by blast
    qed
    moreover have "distinct (map f_ID ?rest)" using R(1) by (rule distinct_map_filter)
    ultimately show ?thesis using M by simp
  qed
  moreover have "st_Clients (swap_members gid nxt st) = st_Clients st" by (simp add: swap_members_def p)
  ultimately show ?thesis unfolding fw by blast
qed

text \<open>Swapping the members in keeps the configuration well formed.\<close>

lemma committed_config:
  assumes c: "config_ok tp ap st" and ready: "members_ready tp ap gid nxt prev st"
    and client: "f_ClientID (hd nxt) \<in> c_ID ` set (st_Clients st)" and free: "group_conflict st gid nxt = None"
  shows "config_ok tp ap (swap_members gid nxt st)"
proof (rule config_okI)
  let ?st = "swap_members gid nxt st"
  note D = config_okD[OF c] and R = members_readyD[OF ready] and S = swap_members_result[OF ready config_okD(1)[OF c]]
  have other: "apart f g" if "f \<in> set nxt" "g \<in> set (st_Forwards st)" "f_GroupID g \<noteq> gid" for f g
    using free that by (simp add: group_conflict_None)
  show "distinct (map f_ID (st_Forwards ?st))" "distinct (map c_ID (st_Clients ?st))" using S D(2) by simp_all
  fix f assume "f \<in> set (st_Forwards ?st)"
  then have f: "f \<in> set nxt \<or> f \<in> set (st_Forwards st) \<and> f_GroupID f \<noteq> gid" using S by blast
  show "forward_ok tp ap f" using f R(4) D(3) by blast
  show "f_ClientID f \<in> c_ID ` set (st_Clients ?st)" using f R(4) D(4) client S by auto
  fix g assume "g \<in> set (st_Forwards ?st)"
  then have g: "g \<in> set nxt \<or> g \<in> set (st_Forwards st) \<and> f_GroupID g \<noteq> gid" using S by blast
  show "apart f g" if "f_ID f \<noteq> f_ID g"
    using f g R(5)[OF _ _ that] D(5)[OF _ _ that] other[of f g] other[of g f] apart_sym by blast
  show "f_ClientID f = f_ClientID g" if "f_GroupID f = f_GroupID g"
    using f g that R(4)[of f] R(4)[of g] D(6)[OF _ _ that] by (metis (no_types))
qed

text \<open>The listeners of the new members are those of the new configuration.\<close>

lemma committed_listeners:
  assumes c: "consistent deny tp ap st L" and ready: "members_ready tp ap gid nxt prev st"
    and free: "group_conflict st gid nxt = None" and bound: "ApplyGroup deny nxt prev L = (Inr u, L')"
  shows "l_ok deny L' \<and> in_step (st_Forwards (swap_members gid nxt st)) (l_view L')"
proof -
  let ?st = "swap_members gid nxt st"
  note C = consistentD[OF c] and D = config_okD[OF consistentD(1)[OF c]] and R = members_readyD[OF ready]
  note S = swap_members_result[OF ready D(1)]
  note G = tl.apply_group_result[OF C(2) group_change_ready[OF ready C(3) free] bound[unfolded ApplyGroup_def]]
  have o': "l_view L' i = (if i \<in> f_ID ` set prev then None else l_view L i)" if "i \<notin> f_ID ` set nxt" for i
    using G that by simp
  have out: "f_ID g \<notin> f_ID ` set nxt" if "g \<in> set (st_Forwards st)" "f_GroupID g \<noteq> gid" for g
  proof
    assume "f_ID g \<in> f_ID ` set nxt"
    then obtain f where f: "f \<in> set nxt" "f_ID f = f_ID g" by force
    with R(6)[OF f(1)] that(1) obtain h where "h \<in> set prev" "f_ID h = f_ID g" by (metis image_eqI)
    then show False using R(3) same_id_same[OF D(1)] that by metis
  qed
  have "l_view L' (f_ID f) = wanted f" if "f \<in> set (st_Forwards ?st)" for f
  proof (cases "f \<in> set nxt")
    case False
    then have f: "f \<in> set (st_Forwards st)" "f_GroupID f \<noteq> gid" using that S by auto
    have "f_ID f \<notin> f_ID ` set prev" using f R(3) same_id_same[OF D(1)] by (metis imageE)
    then show ?thesis using o'[OF out[OF f]] in_stepD(1)[OF C(3) f(1)] by simp
  qed (use G in simp)
  moreover have "l_view L' i = None" if i: "i \<notin> f_ID ` set (st_Forwards ?st)" for i
  proof -
    have n: "i \<notin> f_ID ` set nxt" using i S by blast
    show ?thesis
    proof (cases "i \<in> f_ID ` set (st_Forwards st)")
      case True
      then obtain g where g: "g \<in> set (st_Forwards st)" "i = f_ID g" by blast
      have "f_GroupID g = gid" using i g S by blast
      then have "i \<in> f_ID ` set prev" using g R(3) by blast
      then show ?thesis using o'[OF n] by simp
    qed (use o'[OF n] in_stepD(2)[OF C(3)] in simp)
  qed
  ultimately show ?thesis using G unfolding in_step_def by blast
qed

interpretation commit_tr: transaction "ev_deny env" tp ap "members_ready tp ap gid nxt prev" "commitGroup env gid nxt prev"
  for env tp ap gid nxt prev
proof
  fix st L x st' L'
  assume c: "consistent (ev_deny env) tp ap st L" and ready: "members_ready tp ap gid nxt prev st"
    and r: "commitGroup env gid nxt prev st L = (Inr x, st', L')"
  from r obtain u where h: "f_ClientID (hd nxt) \<in> c_ID ` set (st_Clients st)" "group_conflict st gid nxt = None"
    "ApplyGroup (ev_deny env) nxt prev L = (Inr u, L')" "st' = swap_members gid nxt st"
    using ClientByID_ex[of st "f_ClientID (hd nxt)"]
    by (cases nxt) (auto simp: commitGroup_def split: if_splits option.splits prod.splits sum.splits)
  show "consistent (ev_deny env) tp ap st' L'"
    using committed_config[OF consistentD(1)[OF c] ready h(1,2)] committed_listeners[OF c ready h(2,3)]
    by (simp add: consistent_def h(4))
next
  fix st L e st' L'
  assume c: "consistent (ev_deny env) tp ap st L" and ready: "members_ready tp ap gid nxt prev st"
    and r: "commitGroup env gid nxt prev st L = (Inl e, st', L')"
  note C = consistentD[OF c]
  show "st' = st \<and> l_ok (ev_deny env) L' \<and> l_view L' = l_view L"
  proof (cases "group_conflict st gid nxt")
    case (Some e')
    with r C(2) show ?thesis by (cases nxt) (auto simp: commitGroup_def split: if_splits option.splits)
  next
    case None
    have G: "l_ok (ev_deny env) L1 \<and> l_view L1 = l_view L" if "ApplyGroup (ev_deny env) nxt prev L = (Inl sk, L1)" for sk L1
      using tl.apply_group_result[OF C(2) group_change_ready[OF ready C(3) None] that[unfolded ApplyGroup_def]] by simp
    show ?thesis
      using r C(2) None G
      by (cases nxt) (auto simp: commitGroup_def split: if_splits option.splits prod.splits sum.splits)
  qed
qed

section \<open>Expanding a group\<close>

definition fresh_ids :: "request_env \<Rightarrow> state \<Rightarrow> bool" where
  "fresh_ids env st \<longleftrightarrow> inj_on (\<lambda>k. NewID (ev_rand env k)) {..MaxGroupPorts}
     \<and> (\<forall>k\<le>MaxGroupPorts. fresh_id (NewID (ev_rand env k)) st)"

lemma prev_by_key_Some:
  "prev_by_key prev k = Some f \<Longrightarrow> f \<in> set prev \<and> (f_PublicPort f, f_Protocol f) = k"
proof -
  have "foldl (\<lambda>m f. m((f_PublicPort f, f_Protocol f) \<mapsto> f)) m prev k = Some f \<Longrightarrow>
      m k = Some f \<or> f \<in> set prev \<and> (f_PublicPort f, f_Protocol f) = k" for m
  proof (induction prev arbitrary: m)
    case (Cons a prev)
    from Cons.IH[of "m((f_PublicPort a, f_Protocol a) \<mapsto> a)"] Cons.prems
    show ?case by (simp split: if_splits) (metis option.inject)+
  qed simp
  from this[of Map.empty] show "prev_by_key prev k = Some f \<Longrightarrow> f \<in> set prev \<and> (f_PublicPort f, f_Protocol f) = k"
    by (simp add: prev_by_key_def)
qed

lemma expand_entries_nth:
  assumes "expand_entries env sv gid g prev k es = Inr fs"
  shows "length fs = length es \<and> (\<forall>j<length es. fs ! j = member_of env gid g prev (k + j) (es ! j)
    \<and> Validate (fs ! j) = Inr () \<and> reservedPort sv (f_PublicPort (fs ! j)) = Inr ())"
  using assms
proof (induction env sv gid g prev k es arbitrary: fs rule: expand_entries.induct)
  case (1 env sv gid g prev k)
  then show ?case by simp
next
  case (2 env sv gid g prev k e es)
  let ?f = "member_of env gid g prev k e"
  obtain fs' where h: "Validate ?f = Inr ()" "reservedPort sv (f_PublicPort ?f) = Inr ()"
    "expand_entries env sv gid g prev (Suc k) es = Inr fs'" "fs = ?f # fs'"
    using 2(2) by (auto simp: Let_def)
  have IH: "length fs' = length es \<and> (\<forall>j<length es. fs' ! j = member_of env gid g prev (Suc k + j) (es ! j)
    \<and> Validate (fs' ! j) = Inr () \<and> reservedPort sv (f_PublicPort (fs' ! j)) = Inr ())"
    using 2(1)[OF refl h(3)] by blast
  show ?case
  proof (intro conjI allI impI)
    show "length fs = length (e # es)" using IH h(4) by simp
    fix j assume j: "j < length (e # es)"
    show "fs ! j = member_of env gid g prev (k + j) ((e # es) ! j)" "Validate (fs ! j) = Inr ()"
      "reservedPort sv (f_PublicPort (fs ! j)) = Inr ()"
      using IH h j by (cases j; simp)+
  qed
qed

lemma no_clash_nth:
  assumes "no_clash es" and "i < length es" and "j < length es" and "i \<noteq> j"
  shows "\<not> port_clash (es ! i) (es ! j)"
proof -
  have s: "sorted_wrt (\<lambda>a b. \<not> port_clash a b) es" using assms(1) by (simp add: no_clash_def)
  show ?thesis
  proof (cases "i < j")
    case True
    with s assms(3) show ?thesis by (simp add: sorted_wrt_iff_nth_less)
  next
    case False
    with assms(4) have "j < i" by simp
    with s assms(2) have "\<not> port_clash (es ! j) (es ! i)" by (simp add: sorted_wrt_iff_nth_less)
    then show ?thesis using port_clash_sym by blast
  qed
qed

lemma expandGroup_entries:
  assumes "expandGroup env sv k gid g prev = Inr nxt"
  shows "\<exists>es g1. ParsePortSpec (gf_Ports g) (gf_Protocol g) = Inr es \<and> gf_ClientID g1 = gf_ClientID g
    \<and> expand_entries env sv gid g1 prev k es = Inr nxt \<and> wf_entries es"
proof -
  obtain es where p: "ParsePortSpec (gf_Ports g) (gf_Protocol g) = Inr es"
    using assms by (auto simp: expandGroup_def)
  let ?g = "if gf_Name g = [] then g\<lparr>gf_Name := RenderPortSpec es\<rparr> else g"
  have "expand_entries env sv gid ?g prev k es = Inr nxt"
    using assms p by (auto simp: expandGroup_def Let_def)
  moreover have "gf_ClientID ?g = gf_ClientID g" by simp
  ultimately show ?thesis using p parse_wf[OF p] by blast
qed

lemma member_of_fields [simp]:
  "f_GroupID (member_of env gid g prev k e) = gid" "f_ClientID (member_of env gid g prev k e) = gf_ClientID g"
  "f_Protocol (member_of env gid g prev k e) = Protocol e" "f_PublicPort (member_of env gid g prev k e) = PublicPort e"
  "f_TargetPort (member_of env gid g prev k e) = TargetPort e" "f_Enabled (member_of env gid g prev k e) = gf_Enabled g"
  by (simp_all add: member_of_def Let_def)

text \<open>The id of a member is that of the former member with its key, or the next random one.\<close>

lemma member_of_id:
  "(\<exists>q\<in>set prev. f_ID (member_of env gid g prev k e) = f_ID q \<and> f_PublicPort q = PublicPort e \<and> f_Protocol q = Protocol e)
   \<or> f_ID (member_of env gid g prev k e) = NewID (ev_rand env k)"
proof (cases "prev_by_key prev (PublicPort e, Protocol e)")
  case None
  then show ?thesis by (simp add: member_of_def Let_def)
next
  case (Some q)
  then have "f_ID (member_of env gid g prev k e) = f_ID q" by (simp add: member_of_def Let_def)
  with prev_by_key_Some[OF Some] show ?thesis by auto
qed

text \<open>
  The members of an expanded spec are told apart: a kept id belongs to one port and protocol only,
  and a new id is not the id of any forward.
\<close>

lemma member_ids_distinct:
  assumes fresh: "fresh_ids env st" and sub: "set prev \<subseteq> set (st_Forwards st)" and dp: "distinct (map f_ID prev)"
    and id: "\<And>j. j < n \<Longrightarrow> (\<exists>q\<in>set prev. ids j = f_ID q \<and> f_PublicPort q = PublicPort (es ! j) \<and> f_Protocol q = Protocol (es ! j))
      \<or> (ids j = NewID (ev_rand env (k + j)) \<and> k + j \<le> MaxGroupPorts)"
    and kp: "\<And>j. j < n \<Longrightarrow> known_proto (Protocol (es ! j))"
    and apart: "\<And>i j. i < n \<Longrightarrow> j < n \<Longrightarrow> i \<noteq> j \<Longrightarrow> \<not> port_clash (es ! i) (es ! j)"
    and ij: "i < n" "j < n" "i \<noteq> j"
  shows "ids i \<noteq> ids j"
proof
  assume eq: "ids i = ids j"
  have old: "f_ID q \<noteq> NewID (ev_rand env l)" if "q \<in> set prev" "l \<le> MaxGroupPorts" for q l
    using fresh that sub by (auto simp: fresh_ids_def fresh_id_def)
  from id[OF ij(1)] show False
  proof
    assume "\<exists>q\<in>set prev. ids i = f_ID q \<and> f_PublicPort q = PublicPort (es ! i) \<and> f_Protocol q = Protocol (es ! i)"
    then obtain q where q: "q \<in> set prev" "ids i = f_ID q" "f_PublicPort q = PublicPort (es ! i)" "f_Protocol q = Protocol (es ! i)"
      by blast
    from id[OF ij(2)] show False
    proof
      assume "\<exists>q\<in>set prev. ids j = f_ID q \<and> f_PublicPort q = PublicPort (es ! j) \<and> f_Protocol q = Protocol (es ! j)"
      then obtain r where r: "r \<in> set prev" "ids j = f_ID r" "f_PublicPort r = PublicPort (es ! j)" "f_Protocol r = Protocol (es ! j)"
        by blast
      have "q = r" by (rule same_id_same[OF dp q(1) r(1)]) (use q(2) r(2) eq in simp)
      then have "PublicPort (es ! i) = PublicPort (es ! j)" "Protocol (es ! i) = Protocol (es ! j)" using q r by simp_all
      then have "port_clash (es ! i) (es ! j)"
        using kp[OF ij(1)] by (auto simp: port_clash_def protoOverlap_def known_proto_def)
      with apart[OF ij] show False by simp
    qed (use old[OF q(1), of "k + j"] q(2) eq in simp)
  next
    assume a: "ids i = NewID (ev_rand env (k + i)) \<and> k + i \<le> MaxGroupPorts"
    have "inj_on (\<lambda>k. NewID (ev_rand env k)) {..MaxGroupPorts}" using fresh by (simp add: fresh_ids_def)
    from inj_on_eq_iff[OF this, of "k + i" "k + j"] have "k + j \<le> MaxGroupPorts \<Longrightarrow> ids j \<noteq> NewID (ev_rand env (k + j))"
      using a eq ij(3) by simp
    with id[OF ij(2)] show False using a old[of _ "k + i"] eq by metis
  qed
qed

lemma expandGroup_ready:
  assumes cfg: "config_ok (sv_tunnelPort sv) (sv_adminPort sv) st" and fresh: "fresh_ids env st" and k: "k \<le> 1"
    and prev: "set prev = {f \<in> set (st_Forwards st). f_GroupID f = gid}" "distinct (map f_ID prev)"
    and ex: "expandGroup env sv k gid g prev = Inr nxt"
  shows "members_ready (sv_tunnelPort sv) (sv_adminPort sv) gid nxt prev st \<and> nxt \<noteq> []"
proof -
  from expandGroup_entries[OF ex] obtain es g1 where E: "expand_entries env sv gid g1 prev k es = Inr nxt" "wf_entries es" by blast
  note N = expand_entries_nth[OF E(1)]
  have len: "length nxt = length es" "es \<noteq> []" "length es \<le> MaxGroupPorts" using N E(2) by (auto simp: wf_entries_def)
  have f: "nxt ! j = member_of env gid g1 prev (k + j) (es ! j)" "Validate (nxt ! j) = Inr ()"
    "f_PublicPort (nxt ! j) \<noteq> sv_tunnelPort sv" "f_PublicPort (nxt ! j) \<noteq> sv_adminPort sv" if "j < length es" for j
    using conjunct2[OF N, rule_format, OF that] unfolding reservedPort_ok by blast+
  have kp: "known_proto (Protocol (es ! j))" if "j < length es" for j
    using E(2) that by (auto simp: wf_entries_def list_all_length good_entry_def)
  have apart: "\<not> port_clash (es ! i) (es ! j)" if "i < length es" "j < length es" "i \<noteq> j" for i j
    using no_clash_nth that E(2) by (simp add: wf_entries_def)
  have id: "(\<exists>q\<in>set prev. f_ID (nxt ! j) = f_ID q \<and> f_PublicPort q = PublicPort (es ! j) \<and> f_Protocol q = Protocol (es ! j))
      \<or> (f_ID (nxt ! j) = NewID (ev_rand env (k + j)) \<and> k + j \<le> MaxGroupPorts)" if "j < length es" for j
    using member_of_id[of prev env gid g1 "k + j" "es ! j"] f(1)[OF that] that k len(3) by auto
  have new: "fresh_id (NewID (ev_rand env j)) st" if "j \<le> MaxGroupPorts" for j
    using fresh that by (simp add: fresh_ids_def)
  have dist: "f_ID (nxt ! i) \<noteq> f_ID (nxt ! j)" if "i < length es" "j < length es" "i \<noteq> j" for i j
    by (rule member_ids_distinct[OF fresh _ prev(2), where ids = "\<lambda>j. f_ID (nxt ! j)" and n = "length es" and es = es and k = k])
      (use that prev(1) kp apart id in auto)
  have mem: "\<exists>j<length es. f' = nxt ! j" if "f' \<in> set nxt" for f' using that len(1) by (auto simp: in_set_conv_nth)
  have "members_ready (sv_tunnelPort sv) (sv_adminPort sv) gid nxt prev st"
    unfolding members_ready_def
  proof (intro conjI ballI impI)
    show "distinct (map f_ID nxt)" using dist len(1) by (auto simp: distinct_conv_nth)
    show "distinct (map f_ID prev)" by (fact prev(2))
    show "set prev = {f \<in> set (st_Forwards st). f_GroupID f = gid}" by (fact prev(1))
  next
    fix f' assume "f' \<in> set nxt"
    then obtain j where j: "j < length es" "f' = nxt ! j" using mem by blast
    show "f_GroupID f' = gid" using j f(1) by simp
    have "idPattern (f_ID f')"
      using id[OF j(1)] j(2) new[of "k + j"] config_okD(3)[OF cfg] prev(1) by (auto simp: fresh_id_def forward_ok_def)
    with f(2-4)[OF j(1)] j(2) show "forward_ok (sv_tunnelPort sv) (sv_adminPort sv) f'" by (simp add: forward_ok_def)
    have "0 < length es" using len(2) by simp
    moreover have "hd nxt = nxt ! 0" using len by (intro hd_conv_nth) auto
    ultimately show "f_ClientID f' = f_ClientID (hd nxt)" using f(1) j by simp
    show "(\<exists>q\<in>set prev. f_ID q = f_ID f' \<and> socks q = socks f') \<or> f_ID f' \<notin> f_ID ` set (st_Forwards st)"
      using id[OF j(1)]
    proof
      assume "\<exists>q\<in>set prev. f_ID (nxt ! j) = f_ID q \<and> f_PublicPort q = PublicPort (es ! j) \<and> f_Protocol q = Protocol (es ! j)"
      then obtain q where q: "q \<in> set prev" "f_ID (nxt ! j) = f_ID q" "f_PublicPort q = PublicPort (es ! j)" "f_Protocol q = Protocol (es ! j)"
        by blast
      then have "f_ID q = f_ID f' \<and> socks q = socks f'" using f(1)[OF j(1)] j(2) by (simp add: socks_def)
      with q(1) show ?thesis by blast
    next
      assume "f_ID (nxt ! j) = NewID (ev_rand env (k + j)) \<and> k + j \<le> MaxGroupPorts"
      with new[of "k + j"] j(2) have "f_ID f' \<notin> f_ID ` set (st_Forwards st)" by (auto simp: fresh_id_def)
      then show ?thesis by blast
    qed
  next
    fix f' g' assume fg: "f' \<in> set nxt" "g' \<in> set nxt" "f_ID f' \<noteq> f_ID g'"
    then obtain i j where ij: "i < length es" "f' = nxt ! i" "j < length es" "g' = nxt ! j" using mem by blast
    with fg(3) have "i \<noteq> j" by auto
    with apart[of i j] ij have "\<not> port_clash (es ! i) (es ! j)" by blast
    then show "apart f' g'"
      using f(1) ij kp ports_overlap_protoOverlap[of f' g'] by (simp add: apart_def port_clash_def)
  qed
  moreover have "nxt \<noteq> []" using len by auto
  ultimately show ?thesis by blast
qed

lemma members_of_group:
  assumes "config_ok tp ap st"
  shows "set (ForwardsInGroup st gid) = {f \<in> set (st_Forwards st). f_GroupID f = gid}"
    and "distinct (map f_ID (ForwardsInGroup st gid))"
proof -
  show "set (ForwardsInGroup st gid) = {f \<in> set (st_Forwards st). f_GroupID f = gid}" by (rule set_ForwardsInGroup)
  have "mset (map f_ID (ForwardsInGroup st gid)) = mset (map f_ID (filter (\<lambda>f. f_GroupID f = gid) (st_Forwards st)))"
    by (simp add: ForwardsInGroup_def)
  moreover have "distinct (map f_ID (filter (\<lambda>f. f_GroupID f = gid) (st_Forwards st)))"
    using config_okD(1)[OF assms] by (rule distinct_map_filter)
  ultimately show "distinct (map f_ID (ForwardsInGroup st gid))" by (metis mset_eq_imp_distinct_iff)
qed

lemma update_group_cases:
  assumes cfg: "config_ok (sv_tunnelPort sv) (sv_adminPort sv) st" and fresh: "fresh_ids env st"
    and r: "update_group env sv gid inp st L = (res, st', L')"
  shows "(\<exists>e. res = Inl e \<and> st' = st \<and> L' = L)
    \<or> (\<exists>nxt c. members_ready (sv_tunnelPort sv) (sv_adminPort sv) gid nxt (ForwardsInGroup st gid) st
         \<and> commitGroup env gid nxt (ForwardsInGroup st gid) st L = (c, st', L')
         \<and> (\<forall>e. res = Inl e \<longrightarrow> c = Inl e) \<and> (\<forall>x. res = Inr x \<longrightarrow> c = Inr ()))"
proof (cases "ForwardsInGroup st gid")
  case Nil
  then have "res = Inl (ErrNotFound, GroupNotFound) \<and> st' = st \<and> L' = L" using r by (simp add: update_group_def)
  then show ?thesis by blast
next
  case (Cons first rest)
  define g where "g = group_applyTo inp (current_fields sv st L first (first # rest))"
  note P = members_of_group[OF cfg, of gid, unfolded Cons]
  show ?thesis
  proof (cases "expandGroup env sv 0 gid g (first # rest)")
    case (Inl e)
    then have "res = Inl e \<and> st' = st \<and> L' = L" using r Cons by (simp add: update_group_def Let_def g_def)
    then show ?thesis by blast
  next
    case (Inr nxt)
    note R = expandGroup_ready[OF cfg fresh _ P Inr]
    obtain c st1 L1 where c: "commitGroup env gid nxt (first # rest) st L = (c, st1, L1)"
      by (cases "commitGroup env gid nxt (first # rest) st L")
    with r Cons Inr have "st' = st1" "L' = L1" "\<forall>e. res = Inl e \<longrightarrow> c = Inl e" "\<forall>x. res = Inr x \<longrightarrow> c = Inr ()"
      by (auto simp: update_group_def Let_def g_def split: sum.splits)
    with R c show ?thesis unfolding Cons by auto
  qed
qed

interpretation group_tr: transaction "ev_deny env" "sv_tunnelPort sv" "sv_adminPort sv" "fresh_ids env" "update_group env sv gid inp"
  for env sv gid inp
proof
  fix st L x st' L'
  assume c: "consistent (ev_deny env) (sv_tunnelPort sv) (sv_adminPort sv) st L" and f: "fresh_ids env st"
    and r: "update_group env sv gid inp st L = (Inr x, st', L')"
  from update_group_cases[OF consistentD(1)[OF c] f r] commit_tr.commit[OF c]
  show "consistent (ev_deny env) (sv_tunnelPort sv) (sv_adminPort sv) st' L'" by blast
next
  fix st L e st' L'
  assume c: "consistent (ev_deny env) (sv_tunnelPort sv) (sv_adminPort sv) st L" and f: "fresh_ids env st"
    and r: "update_group env sv gid inp st L = (Inl e, st', L')"
  from update_group_cases[OF consistentD(1)[OF c] f r] commit_tr.abort[OF c] consistentD(2)[OF c]
  show "st' = st \<and> l_ok (ev_deny env) L' \<and> l_view L' = l_view L" by blast
qed

end
