(* ===== verification/Server_Steps.thy ===== *)
theory Server_Steps
  imports Group_Invariant
begin

text \<open>
  The server as a whole: the requests its routes dispatch to the handlers, with their HTTP
  status, and the steps of a running server, which are requests, events of the tunnel and
  firewall syncs. The main results are that configuration and listeners stay consistent, and that
  a refused request changes nothing.
\<close>

section \<open>Requests\<close>

datatype request =
    CreateForward forward_input
  | UpdateForward string forward_input
  | DeleteForward string
  | CreateGroup group_input
  | UpdateGroup string group_input
  | DeleteGroup string
  | CreateClient string
  | UpdateClient string "string option"
  | DeleteClient string
  | RotateToken string
  | UpdateBinary string
  | UpdateAll
  | PutSettings settings_input
  | CreateToken string
  | DeleteToken string

text \<open>\<open>status ok r\<close>: the status of a reply, with \<open>ok\<close> the one of a success.\<close>

definition status :: "nat \<Rightarrow> (error, 'a) result \<Rightarrow> nat" where
  "status ok r = (case r of Inl e \<Rightarrow> store_error_status e | Inr _ \<Rightarrow> ok)"

definition replied :: "nat \<Rightarrow> (error, 'a) result \<times> server \<Rightarrow> nat \<times> server" where
  "replied ok p = (case p of (r, sv) \<Rightarrow> (status ok r, sv))"

text \<open>
  \<open>ss\<close> and \<open>fp\<close> describe the certificates, \<open>sha\<close> is SHA-256: both only occur in replies and tokens.
\<close>

fun dispatch ::
  "bool \<Rightarrow> string \<Rightarrow> (string \<Rightarrow> string) \<Rightarrow> request_env \<Rightarrow> request \<Rightarrow> server \<Rightarrow> nat \<times> server" where
  "dispatch ss fp sha env (CreateForward inp) sv = replied 201 (handleCreateForward env inp sv)"
| "dispatch ss fp sha env (UpdateForward i inp) sv = replied 200 (handleUpdateForward env i inp sv)"
| "dispatch ss fp sha env (DeleteForward i) sv = replied 200 (handleDeleteForward env i sv)"
| "dispatch ss fp sha env (CreateGroup inp) sv = replied 201 (handleCreateGroup env inp sv)"
| "dispatch ss fp sha env (UpdateGroup i inp) sv = replied 200 (handleUpdateGroup env i inp sv)"
| "dispatch ss fp sha env (DeleteGroup i) sv = replied 200 (handleDeleteGroup env i sv)"
| "dispatch ss fp sha env (CreateClient n) sv = replied 201 (handleCreateClient env ss fp n sv)"
| "dispatch ss fp sha env (UpdateClient i n) sv = replied 200 (handleUpdateClient env ss fp i n sv)"
| "dispatch ss fp sha env (DeleteClient i) sv = replied 200 (handleDeleteClient env i sv)"
| "dispatch ss fp sha env (RotateToken i) sv = replied 200 (handleRotateClientToken env ss fp i sv)"
| "dispatch ss fp sha env (UpdateBinary i) sv =
     (case handleUpdateClientBinary env ss fp i sv of
        (Inl NoSuchClient, sv1) \<Rightarrow> (404, sv1)
      | (Inl (PushRefused _), sv1) \<Rightarrow> (409, sv1)
      | (Inr _, sv1) \<Rightarrow> (202, sv1))"
| "dispatch ss fp sha env UpdateAll sv = (202, snd (handleUpdateAllClients env sv))"
| "dispatch ss fp sha env (PutSettings inp) sv = replied 200 (handlePutSettings env inp sv)"
| "dispatch ss fp sha env (CreateToken n) sv = replied 201 (handleCreateToken sha env n sv)"
| "dispatch ss fp sha env (DeleteToken i) sv = replied 200 (handleDeleteToken env i sv)"

section \<open>Consistency of a server\<close>

definition server_ok :: "(socket \<Rightarrow> bool) \<Rightarrow> server \<Rightarrow> bool" where
  "server_ok deny sv \<longleftrightarrow> consistent deny (sv_tunnelPort sv) (sv_adminPort sv) (sv_state sv) (sv_listeners sv)"

lemma server_ok_frames [simp]:
  "server_ok deny (notify i sv) = server_ok deny sv" "server_ok deny (sync_firewall env sv) = server_ok deny sv"
  "server_ok deny (disconnect i r sv) = server_ok deny sv"
  by (simp_all add: server_ok_def)

text \<open>Two configurations with the same forwards and the same client ids.\<close>

definition same_config :: "state \<Rightarrow> state \<Rightarrow> bool" where
  "same_config st st' \<longleftrightarrow> st_Forwards st' = st_Forwards st \<and> map c_ID (st_Clients st') = map c_ID (st_Clients st)"

lemma same_config_refl [simp]: "same_config st st"
  by (simp add: same_config_def)

lemma same_config_ok:
  assumes "same_config st st'"
  shows "config_ok tp ap st' = config_ok tp ap st"
proof -
  have "set (map c_ID (st_Clients st')) = set (map c_ID (st_Clients st))" using assms by (simp only: same_config_def)
  then have "c_ID ` set (st_Clients st') = c_ID ` set (st_Clients st)" by simp
  then show ?thesis using assms unfolding same_config_def config_ok_def by simp
qed

lemma server_ok_same:
  assumes "server_ok deny sv" and "same_config (sv_state sv) (sv_state sv')" and "sv_listeners sv' = sv_listeners sv"
    and "sv_tunnelPort sv' = sv_tunnelPort sv" and "sv_adminPort sv' = sv_adminPort sv"
  shows "server_ok deny sv'"
  using assms same_config_ok[OF assms(2)] by (simp add: server_ok_def consistent_def same_config_def)

text \<open>The closures that only look at clients, settings or tokens keep forwards and client ids.\<close>

lemma map_update_first_const:
  assumes "List.find (\<lambda>x. c_ID x = i) cs = Some c" and "c_ID c1 = i"
  shows "map c_ID (update_first (\<lambda>x. c_ID x = i) (\<lambda>_. c1) cs) = map c_ID cs"
  by (rule map_update_first_same) (simp add: assms(2))

lemma closures_same_config:
  "same_config st (snd (put_settings inp st))" "same_config st (snd (rename_client now i n st))"
  "same_config st (snd (rotate_token env i st))" "same_config st (snd (add_token t st))" "same_config st (snd (delete_token i st))"
  "same_config st (snd (hello_seen now remote h st))" "same_config st (seen_now i now st)"
proof -
  show "same_config st (snd (put_settings inp st))"
    by (auto simp: same_config_def put_settings_def put_host_def put_firewall_def Let_def split: option.splits sum.splits prod.splits)
  show "same_config st (snd (rename_client now i n st))"
    by (auto simp: same_config_def rename_client_def Let_def ClientByID_def dest: find_Some_set
        split: option.splits sum.splits intro!: map_update_first_same)
  show "same_config st (snd (rotate_token env i st))"
    by (auto simp: same_config_def rotate_token_def Let_def ClientByID_def dest: find_Some_set
        split: option.splits intro!: map_update_first_same)
  show "same_config st (snd (add_token t st))" "same_config st (snd (delete_token i st))"
    by (simp_all add: same_config_def add_token_def delete_token_def)
  show "same_config st (snd (hello_seen now remote h st))" "same_config st (seen_now i now st)"
    by (auto simp: same_config_def hello_seen_def seen_now_def split: option.splits intro!: map_update_first_same)
qed

lemma Update_same_config:
  assumes "\<And>st. same_config st (snd (fn st))"
  shows "same_config (sto_mem s) (sto_mem (snd (Update saved fn s)))"
  using assms by (simp add: Update_mem)

text \<open>Reading a client changes neither the store nor a listener.\<close>

lemma clientOut_frame:
  assumes "clientOut env ss fp c sv = (o', sv')"
  shows "sv_store sv' = sv_store sv \<and> sv_listeners sv' = sv_listeners sv \<and> sv_tunnelPort sv' = sv_tunnelPort sv
    \<and> sv_adminPort sv' = sv_adminPort sv"
proof -
  obtain r t1 where a: "UpdateAvailability (ev_tunnel env) (c_ID c) (sv_tunnel sv) = (r, t1)" by fastforce
  obtain u t2 where b: "UpdateStatus (ev_tunnel env) (c_ID c) t1 = (u, t2)" by fastforce
  have "tn_listeners t2 = sv_listeners sv"
    using UpdateAvailability_frame[OF a] UpdateStatus_frame[OF b] by auto
  then show ?thesis using assms by (auto simp: clientOut_def updateOut_def Let_def a b)
qed

lemma PushUpdate_listeners: "tn_listeners (snd (PushUpdate env i auto t)) = tn_listeners t"
proof -
  obtain r t1 where a: "UpdateAvailability env i t = (r, t1)" by fastforce
  have "tn_listeners t1 = tn_listeners t" using UpdateAvailability_frame[OF a] by auto
  then show ?thesis by (auto simp: PushUpdate_def a Let_def split: option.splits sum.splits prod.splits)
qed

lemma push_all_listeners: "tn_listeners (snd (snd (push_all env cs t))) = tn_listeners t"
proof (induction cs arbitrary: t)
  case Nil
  then show ?case by simp
next
  case (Cons c cs)
  obtain r t1 where p: "PushUpdate env (c_ID c) False t = (r, t1)" by fastforce
  have "tn_listeners t1 = tn_listeners t" using PushUpdate_listeners[of env "c_ID c" False t] p by simp
  with Cons.IH[of t1] show ?case by (auto simp: p split: sum.splits prod.splits)
qed

section \<open>Removing forwards\<close>

lemma consistent_filter:
  assumes "consistent deny tp ap st L" and "l_ok deny L'" and "st_Forwards st' = filter P (st_Forwards st)"
    and "distinct (map c_ID (st_Clients st'))"
    and "\<And>f. f \<in> set (st_Forwards st) \<Longrightarrow> P f \<Longrightarrow> f_ClientID f \<in> c_ID ` set (st_Clients st')"
    and "\<And>i. l_view L' i = (if \<exists>f\<in>set (st_Forwards st). f_ID f = i \<and> \<not> P f then None else l_view L i)"
  shows "consistent deny tp ap st' L'"
proof -
  note C = consistentD[OF assms(1)] and D = config_okD[OF consistentD(1)[OF assms(1)]]
  have "config_ok tp ap st'"
  proof (rule config_okI)
    show "distinct (map f_ID (st_Forwards st'))" unfolding assms(3) using D(1) by (rule distinct_map_filter)
    show "distinct (map c_ID (st_Clients st'))" by (fact assms(4))
  next
    fix f assume f: "f \<in> set (st_Forwards st')"
    then have f: "f \<in> set (st_Forwards st)" "P f" by (simp_all add: assms(3))
    show "forward_ok tp ap f" using D(3)[OF f(1)] .
    show "f_ClientID f \<in> c_ID ` set (st_Clients st')" using assms(5)[OF f] .
    fix g assume "g \<in> set (st_Forwards st')"
    then have g: "g \<in> set (st_Forwards st)" by (simp add: assms(3))
    show "apart f g" if "f_ID f \<noteq> f_ID g" using D(5)[OF f(1) g that] .
    show "f_ClientID f = f_ClientID g" if "f_GroupID f = f_GroupID g" using D(6)[OF f(1) g that] .
  qed
  moreover have "in_step (st_Forwards st') (l_view L')"
    unfolding in_step_def
  proof (intro conjI ballI allI impI)
    fix f assume "f \<in> set (st_Forwards st')"
    then have f: "f \<in> set (st_Forwards st)" "P f" by (simp_all add: assms(3))
    have "P g" if "g \<in> set (st_Forwards st)" "f_ID g = f_ID f" for g
      using that f D(1) by (metis inj_on_def distinct_map)
    then show "l_view L' (f_ID f) = wanted f" using assms(6)[of "f_ID f"] in_stepD(1)[OF C(3) f(1)] by auto
  next
    fix i assume i: "i \<notin> f_ID ` set (st_Forwards st')"
    show "l_view L' i = None"
    proof (cases "\<exists>f\<in>set (st_Forwards st). f_ID f = i \<and> \<not> P f")
      case True
      with assms(6)[of i] show ?thesis by simp
    next
      case False
      then have "i \<notin> f_ID ` set (st_Forwards st)" using i by (auto simp: assms(3))
      with False assms(6)[of i] in_stepD(2)[OF C(3)] show ?thesis by simp
    qed
  qed
  ultimately show ?thesis using assms(2) by (simp add: consistent_def)
qed

lemma Remove_all:
  assumes "l_ok deny L"
  shows "l_ok deny (foldl (\<lambda>L x. Remove (k x) L) L xs)
    \<and> l_view (foldl (\<lambda>L x. Remove (k x) L) L xs) = (\<lambda>i. if i \<in> k ` set xs then None else l_view L i)"
  using assms
proof (induction xs arbitrary: L)
  case (Cons x xs)
  from Cons.IH[OF Remove_ok[OF Cons.prems], of "k x"] show ?case by (auto simp: view_Remove fun_eq_iff)
qed simp

lemma remove_listeners:
  "sv_listeners (foldl (\<lambda>sv x. remove_listener (k x) sv) sv xs) = foldl (\<lambda>L x. Remove (k x) L) (sv_listeners sv) xs"
  "sv_store (foldl (\<lambda>sv x. remove_listener (k x) sv) sv xs) = sv_store sv"
  "sv_tunnelPort (foldl (\<lambda>sv x. remove_listener (k x) sv) sv xs) = sv_tunnelPort sv"
  "sv_adminPort (foldl (\<lambda>sv x. remove_listener (k x) sv) sv xs) = sv_adminPort sv"
  by (induction xs arbitrary: sv) simp_all

section \<open>Each request keeps a server consistent\<close>

text \<open>
  The random ids a request draws are new, and different from each other: for forwards and groups,
  and for clients.
\<close>

definition new_ids :: "request_env \<Rightarrow> server \<Rightarrow> bool" where
  "new_ids env sv \<longleftrightarrow> fresh_ids env (sv_state sv) \<and> NewID (ev_rand env 0) \<notin> c_ID ` set (st_Clients (sv_state sv))"

text \<open>What a refused request leaves unchanged.\<close>

definition untouched :: "(socket \<Rightarrow> bool) \<Rightarrow> server \<Rightarrow> server \<Rightarrow> bool" where
  "untouched deny sv sv' \<longleftrightarrow> sv_store sv' = sv_store sv \<and> l_ok deny (sv_listeners sv') \<and> l_view (sv_listeners sv') = l_view (sv_listeners sv)
     \<and> sv_tunnelPort sv' = sv_tunnelPort sv \<and> sv_adminPort sv' = sv_adminPort sv"

lemma untouched_refl: "server_ok deny sv \<Longrightarrow> untouched deny sv sv"
  by (simp add: untouched_def server_ok_def consistent_def)

lemma untouched_ok: "server_ok deny sv \<Longrightarrow> untouched deny sv sv' \<Longrightarrow> server_ok deny sv'"
  by (simp add: untouched_def server_ok_def consistent_def)

text \<open>
  \<open>safe deny sv r sv'\<close>: the outcome of a handler on \<open>sv\<close>, when the save works.
\<close>

definition safe :: "(socket \<Rightarrow> bool) \<Rightarrow> server \<Rightarrow> ('e, 'a) result \<times> server \<Rightarrow> bool" where
  "safe deny sv p \<longleftrightarrow> server_ok deny (snd p) \<and> (\<forall>e. fst p = Inl e \<longrightarrow> untouched deny sv (snd p))"

lemma safe_Inr [simp]: "safe deny sv (Inr x, sv') \<longleftrightarrow> server_ok deny sv'"
  by (simp add: safe_def)

lemma safe_Inl: "server_ok deny sv \<Longrightarrow> untouched deny sv sv' \<Longrightarrow> safe deny sv (Inl e, sv')"
  by (simp add: safe_def untouched_ok)

context transaction
begin

lemma committed:
  assumes "server_ok deny sv" and "sv_tunnelPort sv = tp" and "sv_adminPort sv = ap" and "pre (sv_state sv)"
    and "Update_in True fn sv = (Inr x, sv')"
  shows "server_ok deny sv'"
  using memory_consistent[of sv True] ports_kept[of True sv] assms by (simp add: server_ok_def)

lemma rejected:
  assumes "server_ok deny sv" and "sv_tunnelPort sv = tp" and "sv_adminPort sv = ap" and "pre (sv_state sv)"
    and "Update_in True fn sv = (Inl e, sv')"
  shows "untouched deny sv sv'"
  using refused[of sv e sv'] ports_kept[of True sv] assms by (simp add: server_ok_def untouched_def)

end

lemma safe_create_forward:
  assumes "server_ok (ev_deny env) sv" and "ev_saved env" and "fresh_ids env (sv_state sv)"
  shows "safe (ev_deny env) sv (handleCreateForward env inp sv)"
proof (cases "rbind (Validate (new_forward env inp)) (\<lambda>_. reservedPort sv (f_PublicPort (new_forward env inp)))")
  case (Inl e)
  then show ?thesis using safe_Inl[OF assms(1) untouched_refl[OF assms(1)]] by (simp add: handleCreateForward_def Let_def)
next
  case (Inr u)
  note checks = Inr
  define f where "f = new_forward env inp"
  have i: "f_ID f = NewID (ev_rand env 0)" "f_GroupID f = NewID (ev_rand env 0)"
    by (simp_all add: f_def new_forward_def Let_def)
  have "fresh_id (NewID (ev_rand env 0)) (sv_state sv)" using assms(3) by (simp add: fresh_ids_def)
  then have p: "creatable sv f (sv_state sv)" using Inr by (simp add: creatable_def i f_def[symmetric] split: sum.splits)
  obtain r sv1 where u: "Update_in True (create_forward env sv f) sv = (r, sv1)" by fastforce
  show ?thesis
  proof (cases r)
    case (Inl e)
    note U = create_tr.rejected[OF assms(1) refl refl p u[unfolded Inl]]
    have "f_ID f \<notin> f_ID ` set (st_Forwards (sv_state sv))" using p by (auto simp: creatable_def fresh_id_def)
    then have "l_view (sv_listeners sv) (f_ID f) = None"
      using assms(1) by (simp add: server_ok_def consistent_def in_step_def)
    then have "untouched (ev_deny env) sv (remove_listener (f_ID f) sv1)"
      using U by (auto simp: untouched_def Remove_ok view_Remove)
    note S = safe_Inl[OF assms(1) this, of e]
    have "handleCreateForward env inp sv = (Inl e, remove_listener (f_ID f) sv1)"
      unfolding handleCreateForward_def Let_def checks using u assms(2) Inl by (simp add: f_def)
    with S show ?thesis by simp
  next
    case (Inr x)
    have "server_ok (ev_deny env) sv1" using create_tr.committed[OF assms(1) refl refl p u[unfolded Inr]] .
    then show ?thesis
      unfolding handleCreateForward_def Let_def checks using u assms(2) Inr by (simp add: f_def)
  qed
qed

lemma safe_update_forward:
  assumes "server_ok (ev_deny env) sv" and "ev_saved env"
  shows "safe (ev_deny env) sv (handleUpdateForward env i inp sv)"
proof -
  obtain r sv1 where u: "Update_in True (update_forward env sv i inp) sv = (r, sv1)" by fastforce
  show ?thesis
  proof (cases r)
    case (Inl e)
    from safe_Inl[OF assms(1) update_tr.rejected[OF assms(1) refl refl TrueI u[unfolded Inl]]] u Inl assms(2)
    show ?thesis by (simp add: handleUpdateForward_def)
  next
    case (Inr x)
    with update_tr.committed[OF assms(1) refl refl TrueI u[unfolded Inr]] u assms(2)
    show ?thesis by (simp add: handleUpdateForward_def Let_def split: prod.splits)
  qed
qed

text \<open>A group that was just committed has members, so the reply finds it.\<close>

lemma commitGroup_shown:
  assumes "commitGroup env gid nxt prev st L = (Inr u, st', L')" and "members_ready tp ap gid nxt prev st"
    and "distinct (map f_ID (st_Forwards st))"
  shows "ForwardsInGroup st' gid \<noteq> []"
proof -
  have n: "nxt \<noteq> []" "st' = swap_members gid nxt st"
    using assms(1) by (cases nxt; auto simp: commitGroup_def split: if_splits option.splits prod.splits sum.splits)+
  then have "hd nxt \<in> set (st_Forwards st')" using swap_members_result[OF assms(2,3)] by simp
  moreover have "f_GroupID (hd nxt) = gid" using members_readyD(4)[OF assms(2), of "hd nxt"] n(1) by simp
  ultimately have "hd nxt \<in> set (ForwardsInGroup st' gid)" by (simp add: set_ForwardsInGroup)
  then show ?thesis by auto
qed

lemma show_group_found:
  assumes "ForwardsInGroup (sv_state sv) gid \<noteq> []"
  shows "\<exists>g. show_group gid sv = Inr g"
  using assms by (auto simp: show_group_def split: list.splits)

lemma Update_in_True_Inr:
  assumes "Update_in True fn sv = (Inr x, sv')"
  shows "fn (sv_state sv) (sv_listeners sv) = (Inr x, sv_state sv', sv_listeners sv')"
  using assms by (auto simp: Update_in_Inr)

lemma safe_update_group:
  assumes "server_ok (ev_deny env) sv" and "ev_saved env" and "fresh_ids env (sv_state sv)"
  shows "safe (ev_deny env) sv (handleUpdateGroup env gid inp sv)"
proof -
  obtain r sv1 where u: "Update_in True (update_group env sv gid inp) sv = (r, sv1)" by fastforce
  have cfg: "config_ok (sv_tunnelPort sv) (sv_adminPort sv) (sv_state sv)"
    using assms(1) by (simp add: server_ok_def consistent_def)
  show ?thesis
  proof (cases r)
    case (Inl e)
    from safe_Inl[OF assms(1) group_tr.rejected[OF assms(1) refl refl assms(3) u[unfolded Inl]]] u Inl assms(2)
    show ?thesis by (simp add: handleUpdateGroup_def)
  next
    case (Inr x)
    note S = group_tr.committed[OF assms(1) refl refl assms(3) u[unfolded Inr]]
    from update_group_cases[OF cfg assms(3) Update_in_True_Inr[OF u[unfolded Inr]]]
    have "ForwardsInGroup (sv_state sv1) gid \<noteq> []" using commitGroup_shown config_okD(1)[OF cfg] by blast
    then have show_group: "\<exists>g. show_group gid sv2 = Inr g" if "sv_store sv2 = sv_store sv1" for sv2
      using show_group_found[of sv2 gid] that by simp
    define sv4 where "sv4 = (let sv2 = notify (snd x) sv1;
      sv3 = (if fst x \<noteq> snd x then notify (fst x) sv2 else sv2) in sync_firewall env sv3)"
    have 4: "sv_store sv4 = sv_store sv1" "server_ok (ev_deny env) sv4" using S by (simp_all add: sv4_def Let_def)
    obtain g where "show_group gid sv4 = Inr g" using show_group[OF 4(1)] by blast
    moreover have "handleUpdateGroup env gid inp sv = (show_group gid sv4, sv4)"
      unfolding handleUpdateGroup_def using u assms(2) Inr by (simp add: sv4_def Let_def split: prod.splits)
    ultimately show ?thesis using 4(2) by simp
  qed
qed

lemma safe_create_group:
  assumes "server_ok (ev_deny env) sv" and "ev_saved env" and "fresh_ids env (sv_state sv)"
  shows "safe (ev_deny env) sv (handleCreateGroup env inp sv)"
proof -
  define g where "g = create_group_fields inp"
  define gid where "gid = NewID (ev_rand env 0)"
  have cfg: "config_ok (sv_tunnelPort sv) (sv_adminPort sv) (sv_state sv)"
    using assms(1) by (simp add: server_ok_def consistent_def)
  have new: "{} = {f \<in> set (st_Forwards (sv_state sv)). f_GroupID f = gid}"
    using assms(3) by (auto simp: fresh_ids_def fresh_id_def gid_def)
  show ?thesis
  proof (cases "expandGroup env sv 1 gid g []")
    case (Inl e)
    then have "handleCreateGroup env inp sv = (Inl e, sv)" by (simp add: handleCreateGroup_def Let_def g_def gid_def)
    with safe_Inl[OF assms(1) untouched_refl[OF assms(1)], of e] show ?thesis by simp
  next
    case (Inr members)
    have ready: "members_ready (sv_tunnelPort sv) (sv_adminPort sv) gid members [] (sv_state sv)"
      using expandGroup_ready[OF cfg assms(3) _ _ _ Inr] new by simp
    obtain r sv1 where u: "Update_in True (commitGroup env gid members []) sv = (r, sv1)" by fastforce
    have h: "handleCreateGroup env inp sv = (case (r, sv1) of
         (Inl e, sv1) \<Rightarrow> (Inl e, sv1)
       | (Inr _, sv1) \<Rightarrow> let sv2 = sync_firewall env (notify (gf_ClientID g) sv1) in (show_group gid sv2, sv2))"
      using Inr u assms(2) by (simp add: handleCreateGroup_def Let_def g_def gid_def split: sum.split)
    show ?thesis
    proof (cases r)
      case (Inl e)
      from safe_Inl[OF assms(1) commit_tr.rejected[OF assms(1) refl refl ready u[unfolded Inl]]] h Inl
      show ?thesis by simp
    next
      case (Inr x)
      have ok: "server_ok (ev_deny env) sv1" using commit_tr.committed[OF assms(1) refl refl ready u[unfolded Inr]] .
      have "ForwardsInGroup (sv_state sv1) gid \<noteq> []"
        using commitGroup_shown[OF Update_in_True_Inr[OF u[unfolded Inr]] ready] config_okD(1)[OF cfg] .
      then obtain y where "show_group gid (sync_firewall env (notify (gf_ClientID g) sv1)) = Inr y"
        using show_group_found[of "sync_firewall env (notify (gf_ClientID g) sv1)" gid] by auto
      with ok h Inr show ?thesis by (simp add: Let_def)
    qed
  qed
qed

text \<open>Deleting: the forwards leave the configuration first, then their listeners are removed.\<close>

lemma removed_safe:
  assumes "server_ok deny sv" and "st' = (sv_state sv)\<lparr>st_Forwards := filter P (st_Forwards (sv_state sv)), st_Clients := cs\<rparr>"
    and "distinct (map c_ID cs)"
    and "\<And>f. f \<in> set (st_Forwards (sv_state sv)) \<Longrightarrow> P f \<Longrightarrow> f_ClientID f \<in> c_ID ` set cs"
    and "k ` set xs = f_ID ` {f \<in> set (st_Forwards (sv_state sv)). \<not> P f}"
    and "sv_state sv1 = st'" and "sv_listeners sv1 = sv_listeners sv"
    and "sv_tunnelPort sv1 = sv_tunnelPort sv" and "sv_adminPort sv1 = sv_adminPort sv"
  shows "server_ok deny (foldl (\<lambda>sv x. remove_listener (k x) sv) sv1 xs)"
proof -
  have c: "consistent deny (sv_tunnelPort sv) (sv_adminPort sv) (sv_state sv) (sv_listeners sv)"
    using assms(1) by (simp add: server_ok_def)
  note R = Remove_all[OF consistentD(2)[OF c], of k xs]
  have "consistent deny (sv_tunnelPort sv) (sv_adminPort sv) st' (foldl (\<lambda>L x. Remove (k x) L) (sv_listeners sv) xs)"
  proof (rule consistent_filter[OF c, where P = P])
    show "l_ok deny (foldl (\<lambda>L x. Remove (k x) L) (sv_listeners sv) xs)" using R by blast
    show "st_Forwards st' = filter P (st_Forwards (sv_state sv))" by (simp add: assms(2))
    show "distinct (map c_ID (st_Clients st'))" by (simp add: assms(2,3))
  next
    fix f assume "f \<in> set (st_Forwards (sv_state sv))" "P f"
    then show "f_ClientID f \<in> c_ID ` set (st_Clients st')" using assms(4) by (simp add: assms(2))
  next
    fix i
    have "i \<in> k ` set xs \<longleftrightarrow> (\<exists>f\<in>set (st_Forwards (sv_state sv)). f_ID f = i \<and> \<not> P f)"
      unfolding assms(5) by blast
    then show "l_view (foldl (\<lambda>L x. Remove (k x) L) (sv_listeners sv) xs) i =
        (if \<exists>f\<in>set (st_Forwards (sv_state sv)). f_ID f = i \<and> \<not> P f then None else l_view (sv_listeners sv) i)"
      using R by simp
  qed
  then show ?thesis unfolding server_ok_def remove_listeners assms(6-9) .
qed

lemma safe_delete_forward:
  assumes "server_ok (ev_deny env) sv" and "ev_saved env"
  shows "safe (ev_deny env) sv (handleDeleteForward env i sv)"
proof (cases "ForwardByID (sv_state sv) i")
  case None
  then have "Update_in True (delete_forward i) sv = (Inl (ErrNotFound, ForwardNotFound), set_listeners (sv_listeners sv) (set_store (sv_store sv) sv))"
    by (simp add: Update_in_def delete_forward_def Update_def)
  moreover have "untouched (ev_deny env) sv (set_listeners (sv_listeners sv) (set_store (sv_store sv) sv))"
    using assms(1) by (simp add: untouched_def server_ok_def consistent_def)
  ultimately show ?thesis using safe_Inl[OF assms(1)] assms(2) by (simp add: handleDeleteForward_def)
next
  case (Some f)
  note F = ForwardByID_Some[OF Some]
  define st' where "st' = (sv_state sv)\<lparr>st_Forwards := filter (\<lambda>g. f_ID g \<noteq> i) (st_Forwards (sv_state sv)), st_Clients := st_Clients (sv_state sv)\<rparr>"
  define sv1 where "sv1 = set_listeners (sv_listeners sv) (set_store (sv_store sv\<lparr>sto_mem := st', sto_disk := Some st'\<rparr>) sv)"
  have cfg: "config_ok (sv_tunnelPort sv) (sv_adminPort sv) (sv_state sv)"
    using assms(1) by (simp add: server_ok_def consistent_def)
  have "server_ok (ev_deny env) (foldl (\<lambda>sv x. remove_listener (id x) sv) sv1 [i])"
    by (rule removed_safe[OF assms(1) st'_def config_okD(2)[OF cfg] config_okD(4)[OF cfg]])
      (use F in \<open>auto simp: sv1_def\<close>)
  then have "server_ok (ev_deny env) (remove_listener i sv1)" by simp
  moreover have "Update_in True (delete_forward i) sv = (Inr f, sv1)"
    by (simp add: Update_in_Inr delete_forward_def Some sv1_def st'_def)
  ultimately show ?thesis using assms(2) by (simp add: handleDeleteForward_def)
qed

lemma safe_delete_group:
  assumes "server_ok (ev_deny env) sv" and "ev_saved env"
  shows "safe (ev_deny env) sv (handleDeleteGroup env gid sv)"
proof (cases "ForwardsInGroup (sv_state sv) gid")
  case Nil
  then have "Update_in True (delete_group gid) sv = (Inl (ErrNotFound, GroupNotFound), set_listeners (sv_listeners sv) (set_store (sv_store sv) sv))"
    by (simp add: Update_in_def delete_group_def Update_def)
  moreover have "untouched (ev_deny env) sv (set_listeners (sv_listeners sv) (set_store (sv_store sv) sv))"
    using assms(1) by (simp add: untouched_def server_ok_def consistent_def)
  ultimately show ?thesis using safe_Inl[OF assms(1)] assms(2) by (simp add: handleDeleteGroup_def)
next
  case (Cons f fs)
  define st' where "st' = (sv_state sv)\<lparr>st_Forwards := filter (\<lambda>g. f_GroupID g \<noteq> gid) (st_Forwards (sv_state sv)), st_Clients := st_Clients (sv_state sv)\<rparr>"
  define sv1 where "sv1 = set_listeners (sv_listeners sv) (set_store (sv_store sv\<lparr>sto_mem := st', sto_disk := Some st'\<rparr>) sv)"
  have cfg: "config_ok (sv_tunnelPort sv) (sv_adminPort sv) (sv_state sv)"
    using assms(1) by (simp add: server_ok_def consistent_def)
  have "set (f # fs) = {f \<in> set (st_Forwards (sv_state sv)). f_GroupID f = gid}"
    using set_ForwardsInGroup[of "sv_state sv" gid] unfolding Cons .
  then have "server_ok (ev_deny env) (foldl (\<lambda>sv x. remove_listener (f_ID x) sv) sv1 (f # fs))"
    by (intro removed_safe[OF assms(1) st'_def config_okD(2)[OF cfg] config_okD(4)[OF cfg]]) (simp_all add: sv1_def)
  moreover have "Update_in True (delete_group gid) sv = (Inr (f # fs), sv1)"
    by (simp add: Update_in_Inr delete_group_def Cons sv1_def st'_def)
  ultimately show ?thesis using assms(2) by (simp add: handleDeleteGroup_def Let_def)
qed

lemma safe_delete_client:
  assumes "server_ok (ev_deny env) sv" and "ev_saved env"
  shows "safe (ev_deny env) sv (handleDeleteClient env i sv)"
proof (cases "ClientByID (sv_state sv) i")
  case None
  then have "Update True (delete_client i) (sv_store sv) = (Inl (ErrNotFound, ClientNotFound), sv_store sv)"
    by (simp add: delete_client_def Update_def)
  moreover have "untouched (ev_deny env) sv (set_store (sv_store sv) sv)"
    using assms(1) by (simp add: untouched_def server_ok_def consistent_def)
  ultimately show ?thesis using safe_Inl[OF assms(1)] assms(2) by (simp add: handleDeleteClient_def)
next
  case (Some c)
  define cs where "cs = filter (\<lambda>c. c_ID c \<noteq> i) (st_Clients (sv_state sv))"
  define st' where "st' = (sv_state sv)\<lparr>st_Forwards := filter (\<lambda>f. f_ClientID f \<noteq> i) (st_Forwards (sv_state sv)), st_Clients := cs\<rparr>"
  define gone where "gone = map f_ID (filter (\<lambda>f. f_ClientID f = i) (st_Forwards (sv_state sv)))"
  define sv1 where "sv1 = set_store (sv_store sv\<lparr>sto_mem := st', sto_disk := Some st'\<rparr>) sv"
  have cfg: "config_ok (sv_tunnelPort sv) (sv_adminPort sv) (sv_state sv)"
    using assms(1) by (simp add: server_ok_def consistent_def)
  have "distinct (map c_ID cs)" unfolding cs_def using config_okD(2)[OF cfg] by (rule distinct_map_filter)
  moreover have "f_ClientID f \<in> c_ID ` set cs" if "f \<in> set (st_Forwards (sv_state sv))" "f_ClientID f \<noteq> i" for f
    using config_okD(4)[OF cfg that(1)] that(2) by (auto simp: cs_def)
  ultimately have "server_ok (ev_deny env) (foldl (\<lambda>sv x. remove_listener (id x) sv) sv1 gone)"
    by (intro removed_safe[OF assms(1) st'_def]) (simp_all add: sv1_def gone_def)
  moreover have "Update True (delete_client i) (sv_store sv) = (Inr gone, sv_store sv\<lparr>sto_mem := st', sto_disk := Some st'\<rparr>)"
    by (simp add: Update_def delete_client_def Some gone_def st'_def cs_def)
  ultimately show ?thesis using assms(2) by (auto simp: handleDeleteClient_def Let_def sv1_def)
qed

text \<open>Closures on clients, settings and tokens.\<close>

lemma plain_update_ok:
  assumes "server_ok deny sv" and "same_config (sv_state sv) (snd (fn (sv_state sv)))" and "Update saved fn (sv_store sv) = (r, s)"
  shows "server_ok deny (set_store s sv)"
proof -
  have "sto_mem s = snd (fn (sv_state sv))" using assms(3) Update_mem[of saved fn "sv_store sv"] by simp
  then show ?thesis using server_ok_same[OF assms(1), of "set_store s sv"] assms(2) by simp
qed

lemma plain_update_refused:
  assumes "server_ok deny sv" and "\<And>e st'. fn (sv_state sv) = (Inl e, st') \<Longrightarrow> st' = sv_state sv"
    and "Update True fn (sv_store sv) = (Inl e, s)"
  shows "untouched deny sv (set_store s sv)"
proof -
  obtain st' where "fn (sv_state sv) = (Inl e, st')" "s = sv_store sv\<lparr>sto_mem := st'\<rparr>"
    using assms(3) by (auto simp: Update_def split: prod.splits sum.splits)
  with assms(2)[OF this(1)] assms(1) show ?thesis by (simp add: untouched_def server_ok_def consistent_def)
qed

lemma server_ok_clientOut: "server_ok deny sv \<Longrightarrow> clientOut env ss fp c sv = (o', sv') \<Longrightarrow> server_ok deny sv'"
  using clientOut_frame[of env ss fp c sv o' sv'] by (simp add: server_ok_def)

lemma untouched_clientOut:
  "untouched deny sv sv1 \<Longrightarrow> clientOut env ss fp c sv1 = (o', sv') \<Longrightarrow> untouched deny sv sv'"
  using clientOut_frame[of env ss fp c sv1 o' sv'] by (simp add: untouched_def)

lemma safe_update_client:
  assumes "server_ok (ev_deny env) sv" and "ev_saved env"
  shows "safe (ev_deny env) sv (handleUpdateClient env ss fp i n sv)"
proof -
  obtain r s where u: "Update True (rename_client (ev_now env) i n) (sv_store sv) = (r, s)" by fastforce
  have ok: "server_ok (ev_deny env) (set_store s sv)" by (rule plain_update_ok[OF assms(1) closures_same_config(2) u])
  show ?thesis
  proof (cases r)
    case (Inl e)
    have "untouched (ev_deny env) sv (set_store s sv)"
      by (rule plain_update_refused[OF assms(1) _ u[unfolded Inl]]) (auto simp: rename_client_def Let_def split: option.splits sum.splits if_splits)
    from safe_Inl[OF assms(1) this, of e] u Inl assms(2) show ?thesis by (simp add: handleUpdateClient_def)
  next
    case (Inr c)
    then show ?thesis using u assms(2) server_ok_clientOut[OF ok] by (simp add: handleUpdateClient_def split: prod.splits)
  qed
qed

lemma safe_rotate:
  assumes "server_ok (ev_deny env) sv" and "ev_saved env"
  shows "safe (ev_deny env) sv (handleRotateClientToken env ss fp i sv)"
proof -
  obtain r s where u: "Update True (rotate_token env i) (sv_store sv) = (r, s)" by fastforce
  have ok: "server_ok (ev_deny env) (set_store s sv)" by (rule plain_update_ok[OF assms(1) closures_same_config(3) u])
  show ?thesis
  proof (cases r)
    case (Inl e)
    have "untouched (ev_deny env) sv (set_store s sv)"
      by (rule plain_update_refused[OF assms(1) _ u[unfolded Inl]]) (auto simp: rotate_token_def Let_def split: option.splits)
    from safe_Inl[OF assms(1) this, of e] u Inl assms(2) show ?thesis by (simp add: handleRotateClientToken_def)
  next
    case (Inr c)
    then show ?thesis using u assms(2) server_ok_clientOut[OF ok] by (simp add: handleRotateClientToken_def split: prod.splits)
  qed
qed

lemma safe_create_client:
  assumes "server_ok (ev_deny env) sv" and "ev_saved env" and "new_ids env sv"
  shows "safe (ev_deny env) sv (handleCreateClient env ss fp n sv)"
proof (cases "ValidateName (trim_space n)")
  case (Inl e)
  then show ?thesis using safe_Inl[OF assms(1) untouched_refl[OF assms(1)]] by (simp add: handleCreateClient_def Let_def)
next
  case (Inr v)
  define c where "c = new_client env (trim_space n)"
  obtain r s where u: "Update True (create_client c) (sv_store sv) = (r, s)" by fastforce
  have h: "handleCreateClient env ss fp n sv = (case (r, s) of (Inl e, s) \<Rightarrow> (Inl e, set_store s sv)
      | (Inr _, s) \<Rightarrow> (case clientOut env ss fp c (set_store s sv) of (o', sv1) \<Rightarrow> (Inr o', sv1)))"
    using Inr u assms(2) by (simp add: handleCreateClient_def Let_def c_def split: sum.split)
  show ?thesis
  proof (cases r)
    case (Inl e)
    have "untouched (ev_deny env) sv (set_store s sv)"
      by (rule plain_update_refused[OF assms(1) _ u[unfolded Inl]]) (auto simp: create_client_def split: if_splits)
    from safe_Inl[OF assms(1) this, of e] h Inl show ?thesis by simp
  next
    case (Inr x)
    then have s: "s = sv_store sv\<lparr>sto_mem := (sv_state sv)\<lparr>st_Clients := st_Clients (sv_state sv) @ [c]\<rparr>,
        sto_disk := Some ((sv_state sv)\<lparr>st_Clients := st_Clients (sv_state sv) @ [c]\<rparr>)\<rparr>"
      using u by (auto simp: Update_def create_client_def split: if_splits)
    have con: "consistent (ev_deny env) (sv_tunnelPort sv) (sv_adminPort sv) (sv_state sv) (sv_listeners sv)"
      using assms(1) by (simp add: server_ok_def)
    have "c_ID c \<notin> c_ID ` set (st_Clients (sv_state sv))" using assms(3) by (simp add: new_ids_def c_def new_client_def)
    then have d: "distinct (map c_ID (st_Clients (sv_state sv) @ [c]))"
      using config_okD(2)[OF consistentD(1)[OF con]] by simp
    have "consistent (ev_deny env) (sv_tunnelPort sv) (sv_adminPort sv) (sto_mem s) (sv_listeners sv)"
    proof (rule consistent_filter[OF con consistentD(2)[OF con], where P = "\<lambda>_. True"])
      show "st_Forwards (sto_mem s) = filter (\<lambda>_. True) (st_Forwards (sv_state sv))" by (simp add: s)
      show "distinct (map c_ID (st_Clients (sto_mem s)))" using d by (simp add: s)
      show "f_ClientID f \<in> c_ID ` set (st_Clients (sto_mem s))" if "f \<in> set (st_Forwards (sv_state sv))" for f
        using config_okD(4)[OF consistentD(1)[OF con] that] by (simp add: s)
    qed simp
    then have "server_ok (ev_deny env) (set_store s sv)" by (simp add: server_ok_def)
    from server_ok_clientOut[OF this] h Inr show ?thesis by (simp split: prod.splits)
  qed
qed

lemma safe_create_token:
  assumes "server_ok (ev_deny env) sv" and "ev_saved env"
  shows "safe (ev_deny env) sv (handleCreateToken sha env n sv)"
proof (cases "ValidateName (trim_space n)")
  case (Inl e)
  then show ?thesis using safe_Inl[OF assms(1) untouched_refl[OF assms(1)]] by (simp add: handleCreateToken_def Let_def)
next
  case (Inr v)
  obtain secret t where t: "new_token sha env (trim_space n) = (secret, t)" by fastforce
  obtain r s where u: "Update True (add_token t) (sv_store sv) = (r, s)" by fastforce
  have ok: "server_ok (ev_deny env) (set_store s sv)" by (rule plain_update_ok[OF assms(1) closures_same_config(4) u])
  have "r = Inr ()" using u by (auto simp: Update_def add_token_def)
  then show ?thesis using ok u t Inr assms(2) by (simp add: handleCreateToken_def Let_def)
qed

lemma safe_delete_token:
  assumes "server_ok (ev_deny env) sv" and "ev_saved env"
  shows "safe (ev_deny env) sv (handleDeleteToken env i sv)"
proof -
  obtain r s where u: "Update True (delete_token i) (sv_store sv) = (r, s)" by fastforce
  have ok: "server_ok (ev_deny env) (set_store s sv)" by (rule plain_update_ok[OF assms(1) closures_same_config(5) u])
  show ?thesis
  proof (cases r)
    case (Inl e)
    have "untouched (ev_deny env) sv (set_store s sv)"
      by (rule plain_update_refused[OF assms(1) _ u[unfolded Inl]]) (auto simp: delete_token_def split: if_splits)
    from safe_Inl[OF assms(1) this, of e] u Inl assms(2) show ?thesis by (simp add: handleDeleteToken_def)
  next
    case (Inr x)
    with ok u assms(2) show ?thesis by (simp add: handleDeleteToken_def)
  qed
qed

lemma put_settings_ok:
  assumes "server_ok (ev_deny env) sv"
  shows "server_ok (ev_deny env) (snd (handlePutSettings env inp sv))"
proof -
  obtain r s where u: "Update (ev_saved env) (put_settings inp) (sv_store sv) = (r, s)" by fastforce
  have "server_ok (ev_deny env) (set_store s sv)" by (rule plain_update_ok[OF assms closures_same_config(1) u])
  moreover have "server_ok (ev_deny env) ((set_store s sv)\<lparr>sv_publicHost := h\<rparr>) = server_ok (ev_deny env) (set_store s sv)" for h
    by (simp add: server_ok_def)
  ultimately show ?thesis by (auto simp: handlePutSettings_def u Let_def split: sum.splits prod.splits)
qed

lemma server_ok_tunnel:
  assumes "server_ok deny sv" and "tn_listeners t = sv_listeners sv"
  shows "server_ok deny (sv\<lparr>sv_tunnel := t\<rparr>)"
  using assms by (simp add: server_ok_def)

lemma untouched_tunnel:
  assumes "untouched deny sv sv1" and "tn_listeners t = sv_listeners sv1"
  shows "untouched deny sv (sv1\<lparr>sv_tunnel := t\<rparr>)"
  using assms by (simp add: untouched_def)

lemma safe_update_binary:
  assumes "server_ok (ev_deny env) sv"
  shows "safe (ev_deny env) sv (handleUpdateClientBinary env ss fp i sv)"
proof (cases "ClientByID (sv_state sv) i")
  case None
  then show ?thesis using safe_Inl[OF assms untouched_refl[OF assms]] by (simp add: handleUpdateClientBinary_def)
next
  case (Some c)
  obtain o1 sv1 where 1: "clientOut env ss fp c sv = (o1, sv1)" by fastforce
  obtain r t where 2: "PushUpdate (ev_tunnel env) i False (sv_tunnel sv1) = (r, t)" by fastforce
  have l: "tn_listeners t = sv_listeners sv1" using PushUpdate_listeners[of "ev_tunnel env" i False "sv_tunnel sv1"] 2 by simp
  note U = untouched_tunnel[OF untouched_clientOut[OF untouched_refl[OF assms] 1] l]
  show ?thesis
  proof (cases r)
    case (Inl e)
    from safe_Inl[OF assms U] show ?thesis by (simp add: handleUpdateClientBinary_def Some 1 2 Inl)
  next
    case (Inr x)
    from server_ok_clientOut[OF untouched_ok[OF assms U]] show ?thesis
      by (simp add: handleUpdateClientBinary_def Some 1 2 Inr split: prod.splits)
  qed
qed

end
