(* ===== verification/Server_Boot.thy ===== *)
theory Server_Boot
  imports Server_Steps
begin

text \<open>
  Starting the relay, from \<open>internal/server/server.go\<close>: the ports of the two addresses, the first
  administrator password, \<open>New\<close>, and the part of \<open>Run\<close> before the server accepts requests. The
  certificates of \<open>tlsutil\<close> and the outbound address are part of the surroundings.
\<close>

section \<open>Ports of addresses\<close>

text \<open>
  \<open>net.SplitHostPort\<close>: the port follows the last colon; a host with colons must be in brackets.
\<close>

definition last_index :: "char \<Rightarrow> string \<Rightarrow> nat option" where
  "last_index c s =
     (if c \<in> set s then Some (length s - 1 - length (takeWhile (\<lambda>d. d \<noteq> c) (rev s))) else None)"

definition first_index :: "char \<Rightarrow> string \<Rightarrow> nat option" where
  "first_index c s = (if c \<in> set s then Some (length (takeWhile (\<lambda>d. d \<noteq> c) s)) else None)"

datatype address_error = MissingPort | TooManyColons | MissingBracket | UnexpectedBracket | BadPortNumber

definition SplitHostPort :: "string \<Rightarrow> (address_error, string \<times> string) result" where
  "SplitHostPort hp =
     (case last_index CHR '':'' hp of
        None \<Rightarrow> Inl MissingPort
      | Some i \<Rightarrow>
          rbind
            (if hd hp = CHR ''['' then
               (case first_index CHR '']'' hp of
                  None \<Rightarrow> Inl MissingBracket
                | Some e \<Rightarrow>
                    if e + 1 = length hp then Inl MissingPort
                    else if e + 1 = i then Inr (take (e - 1) (drop 1 hp), 1, e + 1)
                    else if hp ! (e + 1) = CHR '':'' then Inl TooManyColons
                    else Inl MissingPort)
             else if CHR '':'' \<in> set (take i hp) then Inl TooManyColons
             else Inr (take i hp, 0, 0))
            (\<lambda>(host, j, k).
               if CHR ''['' \<in> set (drop j hp) then Inl UnexpectedBracket
               else if CHR '']'' \<in> set (drop k hp) then Inl UnexpectedBracket
               else Inr (host, drop (i + 1) hp)))"

definition portOf :: "string \<Rightarrow> (address_error, int) result" where
  "portOf addr =
     rbind (SplitHostPort addr) (\<lambda>(_, p).
     case atoi p of (n, ok) \<Rightarrow> if ok then Inr n else Inl BadPortNumber)"

section \<open>Configuration\<close>

record server_config =
  cfg_DataDir :: string
  cfg_TunnelAddr :: string
  cfg_AdminAddr :: string
  cfg_PublicHost :: string
  cfg_AdminCert :: string
  cfg_AdminKey :: string
  cfg_AgentSocket :: string
  cfg_ResetAdminPassword :: bool
  cfg_Version :: string

text \<open>
  What \<open>New\<close> meets: the data directory, the state file, whether each of the four saves works, the
  outbound address, the certificates, the key derivation, random bytes, and the password file.
\<close>

record boot_env =
  bo_mkdir :: bool
  bo_file :: file_read
  bo_saved :: "nat \<Rightarrow> bool"
  bo_outbound :: string
  bo_tunnelCert :: bool
  bo_adminPair :: bool
  bo_adminCert :: bool
  bo_kdf :: kdf
  bo_salt :: string
  bo_password :: string
  bo_written :: bool
  bo_fw :: fw_env

datatype boot_error =
    DataDirRequired
  | DataDirFailed
  | StoreFailed error
  | TunnelAddress address_error
  | AdminAddress address_error
  | CertificateFailed
  | CertAndKeyRequired
  | PasswordFileFailed
  | ListenFailed string

text \<open>
  The administrator password is saved before the file that tells it is written.
\<close>

definition reset_admin :: "kdf \<Rightarrow> string \<Rightarrow> string \<Rightarrow> state \<Rightarrow> (error, unit) result \<times> state" where
  "reset_admin kdf salt password st =
     (let a = (st_Admin st)\<lparr>a_Username := ''admin''\<rparr> in
      case SetPassword kdf salt password a of
        Inl e \<Rightarrow> (Inl e, st\<lparr>st_Admin := a\<rparr>)
      | Inr a1 \<Rightarrow> (Inr (), st\<lparr>st_Admin := a1\<rparr>))"

definition bootstrapAdmin :: "boot_env \<Rightarrow> bool \<Rightarrow> store \<Rightarrow> (boot_error, string option) result \<times> store" where
  "bootstrapAdmin env reset s =
     (if a_PasswordHash (st_Admin (sto_mem s)) \<noteq> [] \<and> \<not> reset then (Inr None, s)
      else let password = RandomPassword (bo_password env) in
        (case Update (bo_saved env 2) (reset_admin (bo_kdf env) (bo_salt env) password) s of
           (Inl e, s1) \<Rightarrow> (Inl (StoreFailed e), s1)
         | (Inr _, s1) \<Rightarrow>
             (if bo_written env then Inr (Some password) else Inl PasswordFileFailed, s1)))"

definition put_public_host :: "string \<Rightarrow> state \<Rightarrow> (error, unit) result \<times> state" where
  "put_public_host h st = (Inr (), st\<lparr>st_Settings := (st_Settings st)\<lparr>s_PublicHost := h\<rparr>\<rparr>)"

section \<open>New and Run\<close>

definition wrapped :: "('e \<Rightarrow> boot_error) \<Rightarrow> ('e, 'a) result \<Rightarrow> (boot_error, 'a) result" where
  "wrapped f r = (case r of Inl e \<Rightarrow> Inl (f e) | Inr x \<Rightarrow> Inr x)"

lemma wrapped_Inr [simp]: "wrapped f r = Inr x \<longleftrightarrow> r = Inr x"
  by (simp add: wrapped_def split: sum.split)

text \<open>An update of the store whose error ends the start.\<close>

definition stored :: "(error, unit) result \<times> store \<Rightarrow> (boot_error, store) result" where
  "stored p = (case p of (Inl e, _) \<Rightarrow> Inl (StoreFailed e) | (Inr _, s) \<Rightarrow> Inr s)"

definition certificates :: "server_config \<Rightarrow> boot_env \<Rightarrow> (boot_error, unit) result" where
  "certificates cfg env =
     (if \<not> bo_tunnelCert env then Inl CertificateFailed
      else if cfg_AdminCert cfg \<noteq> [] \<or> cfg_AdminKey cfg \<noteq> [] then
        (if cfg_AdminCert cfg = [] \<or> cfg_AdminKey cfg = [] then Inl CertAndKeyRequired
         else if \<not> bo_adminPair env then Inl CertificateFailed else Inr ())
      else if \<not> bo_adminCert env then Inl CertificateFailed else Inr ())"

definition newServer :: "server_config \<Rightarrow> boot_env \<Rightarrow> (boot_error, server) result" where
  "newServer cfg env =
     rbind (require (cfg_DataDir cfg \<noteq> []) DataDirRequired) (\<lambda>_.
     rbind (require (bo_mkdir env) DataDirFailed) (\<lambda>_.
     rbind (wrapped StoreFailed (Open (bo_file env) (bo_saved env 0))) (\<lambda>st0.
     rbind (wrapped TunnelAddress (portOf (cfg_TunnelAddr cfg))) (\<lambda>tp.
     rbind (wrapped AdminAddress (portOf (cfg_AdminAddr cfg))) (\<lambda>ap.
     rbind (if cfg_PublicHost cfg \<noteq> [] then stored (Update (bo_saved env 1) (put_public_host (cfg_PublicHost cfg)) st0)
            else Inr st0) (\<lambda>st1.
     rbind (certificates cfg env) (\<lambda>_.
     case bootstrapAdmin env (cfg_ResetAdminPassword cfg) st1 of
       (Inl e, _) \<Rightarrow> Inl e
     | (Inr _, st2) \<Rightarrow>
         Inr \<lparr>sv_store = st2, sv_tunnel = new_tunnel (cfg_Version cfg),
              sv_fw = newFwManager (bo_fw env) (cfg_AgentSocket cfg) (cfg_DataDir cfg) tp ap,
              sv_publicHost = s_PublicHost (st_Settings (sto_mem st1)), sv_detectedHost = bo_outbound env,
              sv_tunnelPort = tp, sv_adminPort = ap\<rparr>)))))))"

text \<open>
  \<open>Run\<close>: the two listeners of the server itself, then the forwards' listeners and a firewall sync.
  A forward that cannot be started is logged; the server starts all the same.
\<close>

definition startServer ::
  "bool \<Rightarrow> bool \<Rightarrow> (socket \<Rightarrow> bool) \<Rightarrow> fw_env \<Rightarrow> server \<Rightarrow> (boot_error, string \<rightharpoonup> socket) result \<times> server" where
  "startServer tunnelOK adminOK deny fenv sv =
     (if \<not> tunnelOK then (Inl (ListenFailed ''tunnel''), sv)
      else if \<not> adminOK then (Inl (ListenFailed ''admin''), sv)
      else case SyncAll deny (st_Forwards (sv_state sv)) (sv_listeners sv) of
        (errs, L) \<Rightarrow>
          (let sv1 = set_listeners L sv in (Inr errs, sv1\<lparr>sv_fw := fw_Sync fenv (sv_state sv1) (sv_fw sv1)\<rparr>)))"

definition stopServer :: "server \<Rightarrow> server" where
  "stopServer sv = sv\<lparr>sv_tunnel := Shutdown (sv_tunnel sv)\<rparr>"

section \<open>The advertised address\<close>

lemma takeWhile_to: "c \<notin> set t \<Longrightarrow> takeWhile (\<lambda>d. d \<noteq> c) (t @ c # s) = t"
  by (rule takeWhile_append_stop) auto

lemma last_index_append: "c \<notin> set t \<Longrightarrow> last_index c (s @ c # t) = Some (length s)"
  using takeWhile_to[of c "rev t" "rev s"] by (simp add: last_index_def)

lemma itoa_plain: "CHR '':'' \<notin> set (itoa p)" "CHR ''['' \<notin> set (itoa p)" "CHR '']'' \<notin> set (itoa p)"
  using itoa_chars[of _ p] by (force simp: is_digit_def)+

lemma SplitHostPort_JoinHostPort:
  assumes "CHR ''['' \<notin> set host" and "CHR '']'' \<notin> set host"
  shows "SplitHostPort (JoinHostPort host port) = Inr (host, itoa port)"
proof (cases "CHR '':'' \<in> set host")
  case True
  have j: "JoinHostPort host port = (CHR ''['' # host @ '']'') @ CHR '':'' # itoa port"
    using True by (simp add: JoinHostPort_def)
  have l: "last_index CHR '':'' (JoinHostPort host port) = Some (length host + 2)"
    unfolding j by (subst last_index_append) (simp_all add: itoa_plain)
  have f: "first_index CHR '']'' (JoinHostPort host port) = Some (length host + 1)"
    using takeWhile_to[OF assms(2), of "CHR '':'' # itoa port"] by (simp add: j first_index_def)
  have "drop 1 (JoinHostPort host port) = host @ '']:'' @ itoa port" "hd (JoinHostPort host port) = CHR ''[''"
    "drop (Suc (Suc (Suc (length host)))) (JoinHostPort host port) = itoa port"
    "drop (length host + 2) (JoinHostPort host port) = CHR '':'' # itoa port"
    "length (JoinHostPort host port) = length host + 3 + length (itoa port)"
    by (simp_all add: j numeral_3_eq_3)
  moreover have "itoa port \<noteq> []" by (simp add: itoa_def)
  ultimately show ?thesis
    using l f assms itoa_plain by (simp add: SplitHostPort_def)
next
  case False
  have j: "JoinHostPort host port = host @ CHR '':'' # itoa port" using False by (simp add: JoinHostPort_def)
  have l: "last_index CHR '':'' (JoinHostPort host port) = Some (length host)"
    unfolding j by (rule last_index_append) (simp add: itoa_plain)
  have h: "hd (JoinHostPort host port) \<noteq> CHR ''[''" using assms(1) unfolding j by (cases host) auto
  have "take (length host) (JoinHostPort host port) = host" "drop (Suc (length host)) (JoinHostPort host port) = itoa port"
    "CHR ''['' \<notin> set (JoinHostPort host port)" "CHR '']'' \<notin> set (JoinHostPort host port)"
    using assms itoa_plain by (simp_all add: j)
  with l h False show ?thesis by (simp add: SplitHostPort_def)
qed

text \<open>
  The address the install commands name leads to the tunnel: \<open>portOf\<close>, with which the server
  reads its own ports, gets the tunnel port back from \<open>TunnelAddr\<close>, for a host name, an IPv4 or an
  IPv6 address alike.
\<close>

theorem TunnelAddr_roundtrip:
  assumes "CHR ''['' \<notin> set (PublicHost sv)" and "CHR '']'' \<notin> set (PublicHost sv)"
    and "0 \<le> sv_tunnelPort sv" and "sv_tunnelPort sv < 2 ^ 63"
  shows "SplitHostPort (TunnelAddr sv) = Inr (PublicHost sv, itoa (sv_tunnelPort sv))
    \<and> portOf (TunnelAddr sv) = Inr (sv_tunnelPort sv)"
  using SplitHostPort_JoinHostPort[OF assms(1,2)] assms(3,4) atoi_nat_digits[of "nat (sv_tunnelPort sv)"]
  by (simp add: TunnelAddr_def portOf_def itoa_nonneg)

section \<open>The administrator account\<close>

lemma SetPassword_CheckPassword:
  assumes "SetPassword kdf salt pw a = Inr a1" and "salt \<noteq> []" and "\<And>p s n l k. kdf p s n l = Some k \<Longrightarrow> length k = l"
  shows "CheckPassword kdf a1 pw"
proof -
  obtain key where k: "kdf pw salt pbkdfIterations 32 = Some key" and a1: "a1 = a\<lparr>a_Salt := hex_encode salt, a_PasswordHash := hex_encode key, a_Iterations := pbkdfIterations\<rparr>"
    using assms(1) by (auto simp: SetPassword_def split: option.splits)
  have l: "length key = 32" using assms(3)[OF k] .
  then have "key \<noteq> []" by auto
  with k l assms(2) show ?thesis by (simp add: CheckPassword_def a1 pbkdfIterations_def)
qed

text \<open>
  The password the first start (or a reset) prints is the administrator's: it is on disk when
  it is printed, and the login check accepts it, provided the key derivation returns as many
  bytes as it is asked for.
\<close>

theorem bootstrap_password_works:
  assumes "\<And>p s n l k. bo_kdf env p s n l = Some k \<Longrightarrow> length k = l" and "bo_salt env \<noteq> []"
    and "bootstrapAdmin env reset s = (Inr (Some pw), s')"
  shows "sto_disk s' = Some (sto_mem s') \<and> a_Username (st_Admin (sto_mem s')) = ''admin''
    \<and> CheckPassword (bo_kdf env) (st_Admin (sto_mem s')) pw
    \<and> (a_PasswordHash (st_Admin (sto_mem s)) = [] \<or> reset)"
proof -
  from assms(3) have r: "a_PasswordHash (st_Admin (sto_mem s)) = [] \<or> reset" "pw = RandomPassword (bo_password env)"
    and "Update (bo_saved env 2) (reset_admin (bo_kdf env) (bo_salt env) pw) s = (Inr (), s')"
    by (auto simp: bootstrapAdmin_def Let_def split: if_splits prod.splits sum.splits)
  then obtain a1 where a: "SetPassword (bo_kdf env) (bo_salt env) pw ((st_Admin (sto_mem s))\<lparr>a_Username := ''admin''\<rparr>) = Inr a1"
    and s': "s' = s\<lparr>sto_mem := (sto_mem s)\<lparr>st_Admin := a1\<rparr>, sto_disk := Some ((sto_mem s)\<lparr>st_Admin := a1\<rparr>)\<rparr>"
    by (cases "bo_saved env 2") (auto simp: Update_def reset_admin_def Let_def split: sum.splits)
  have "a_Username a1 = ''admin''" using a by (auto simp: SetPassword_def split: option.splits)
  with SetPassword_CheckPassword[OF a assms(2,1)] r(1) s' show ?thesis by simp
qed

definition demo_kdf :: kdf where
  "demo_kdf p s n l = Some (take l (s @ p @ replicate l CHR ''k''))"

definition demo_boot :: boot_env where
  "demo_boot = \<lparr>bo_mkdir = True, bo_file = NotExist, bo_saved = (\<lambda>_. True), bo_outbound = ''203.0.113.9'', bo_tunnelCert = True,
     bo_adminPair = False, bo_adminCert = True, bo_kdf = demo_kdf, bo_salt = ''salt'', bo_password = ''01234567'', bo_written = True,
     bo_fw = demo_fw_env demo_agent\<rparr>"

definition demo_config :: server_config where
  "demo_config = \<lparr>cfg_DataDir = ''/data'', cfg_TunnelAddr = '':7443'', cfg_AdminAddr = ''[::]:8443'', cfg_PublicHost = [],
     cfg_AdminCert = [], cfg_AdminKey = [], cfg_AgentSocket = [], cfg_ResetAdminPassword = False, cfg_Version = ''v2''\<rparr>"

lemma demo_kdf_length: "demo_kdf p s n l = Some k \<Longrightarrow> length k = l"
  by (auto simp: demo_kdf_def)

lemma bootstrap_password_works_witness:
  "\<exists>s'. bootstrapAdmin demo_boot False \<lparr>sto_mem = empty_state, sto_disk = None\<rparr> = (Inr (Some ''456789ab''), s')
    \<and> CheckPassword demo_kdf (st_Admin (sto_mem s')) ''456789ab''"
proof -
  let ?s = "\<lparr>sto_mem = empty_state, sto_disk = None\<rparr>"
  have "fst (bootstrapAdmin demo_boot False ?s) = Inr (Some ''456789ab'')" by code_simp
  then obtain s' where b: "bootstrapAdmin demo_boot False ?s = (Inr (Some ''456789ab''), s')" by (metis prod.collapse)
  have k: "bo_kdf demo_boot = demo_kdf" "bo_salt demo_boot \<noteq> []" by (simp_all add: demo_boot_def)
  have "\<And>p s n l kk. bo_kdf demo_boot p s n l = Some kk \<Longrightarrow> length kk = l" unfolding k(1) by (rule demo_kdf_length)
  then have "sto_disk s' = Some (sto_mem s') \<and> a_Username (st_Admin (sto_mem s')) = ''admin''
    \<and> CheckPassword (bo_kdf demo_boot) (st_Admin (sto_mem s')) ''456789ab''
    \<and> (a_PasswordHash (st_Admin (sto_mem ?s)) = [] \<or> False)"
    using k(2) b by (rule bootstrap_password_works)
  with b show ?thesis unfolding k(1) by blast
qed

text \<open>
  When the file that tells the generated password cannot be written, the start fails, but the
  password has already been saved: the next start finds an account, generates nothing and says
  nothing, so nobody knows the password until a reset is asked for.
\<close>

theorem unwritten_password_is_lost:
  assumes "a_PasswordHash (st_Admin (sto_mem s)) = []" and "bo_saved env 2" and "\<not> bo_written env"
    and "bo_kdf env (RandomPassword (bo_password env)) (bo_salt env) pbkdfIterations 32 = Some key" and "key \<noteq> []"
    and "bootstrapAdmin env False s = (r, s')"
  shows "r = Inl PasswordFileFailed \<and> (\<forall>env2. bootstrapAdmin env2 False s' = (Inr None, s'))"
  using assms by (auto simp: bootstrapAdmin_def Update_def reset_admin_def SetPassword_def Let_def)

lemma unwritten_password_is_lost_witness:
  "\<exists>s'. bootstrapAdmin (demo_boot\<lparr>bo_written := False\<rparr>) False \<lparr>sto_mem = empty_state, sto_disk = None\<rparr> = (Inl PasswordFileFailed, s')
    \<and> bootstrapAdmin demo_boot False s' = (Inr None, s')"
proof -
  let ?s = "\<lparr>sto_mem = empty_state, sto_disk = None\<rparr>" and ?e = "demo_boot\<lparr>bo_written := False\<rparr>"
  obtain r s' where b: "bootstrapAdmin ?e False ?s = (r, s')" by fastforce
  have h: "a_PasswordHash (st_Admin (sto_mem ?s)) = []" "bo_saved ?e 2" "\<not> bo_written ?e"
    by (simp_all add: empty_state_def demo_boot_def)
  let ?key = "take 32 (bo_salt ?e @ RandomPassword (bo_password ?e) @ replicate 32 CHR ''k'')"
  have "bo_kdf ?e (RandomPassword (bo_password ?e)) (bo_salt ?e) pbkdfIterations 32 = Some ?key" "?key \<noteq> []"
    by (simp_all add: demo_boot_def demo_kdf_def)
  from unwritten_password_is_lost[OF h this b] b show ?thesis by blast
qed

lemma TunnelAddr_roundtrip_witness:
  "portOf (TunnelAddr \<lparr>sv_store = demo_store, sv_tunnel = new_tunnel ''v'', sv_fw = demo_manager, sv_publicHost = ''2001:db8::1'',
     sv_detectedHost = [], sv_tunnelPort = 7443, sv_adminPort = 8443\<rparr>) = Inr 7443"
  using TunnelAddr_roundtrip[of "\<lparr>sv_store = demo_store, sv_tunnel = new_tunnel ''v'', sv_fw = demo_manager,
    sv_publicHost = ''2001:db8::1'', sv_detectedHost = [], sv_tunnelPort = 7443, sv_adminPort = 8443\<rparr>"]
  by (simp add: PublicHost_def)

section \<open>Starting\<close>

lemma started_ok:
  assumes "config_ok (sv_tunnelPort sv) (sv_adminPort sv) (sv_state sv)" and "sv_listeners sv = no_listeners"
    and "\<And>f sk. f \<in> set (st_Forwards (sv_state sv)) \<Longrightarrow> f_Enabled f \<Longrightarrow> sk \<in> socks f \<Longrightarrow> \<not> deny sk"
    and "startServer True True deny fenv sv = (Inr errs, sv')"
  shows "errs = Map.empty \<and> server_ok deny sv' \<and> sv_store sv' = sv_store sv"
proof -
  let ?fs = "st_Forwards (sv_state sv)"
  note D = config_okD[OF assms(1)]
  obtain L where s: "SyncAll deny ?fs no_listeners = (errs, L)" and L: "sv_listeners sv' = L" "sv_store sv' = sv_store sv"
    "sv_tunnelPort sv' = sv_tunnelPort sv" "sv_adminPort sv' = sv_adminPort sv"
    using assms(2,4) by (auto simp: startServer_def Let_def split: prod.splits)
  have v: "l_view no_listeners = Map.empty" by (simp add: l_view_def runner_of_def no_listeners_def fun_eq_iff)
  have f: "l_foreign deny no_listeners = {sk. deny sk}" by (simp add: l_foreign_def no_listeners_def)
  have "errs = Map.empty \<and> (\<forall>f\<in>set ?fs. l_view L (f_ID f) = wanted f)"
  proof (rule SyncAll_starts[OF no_listeners_ok v D(1) _ _ s])
    show "socks f \<inter> l_foreign deny no_listeners = {}" if "f \<in> set ?fs" "f_Enabled f" for f
      unfolding f using assms(3)[OF that] by blast
    show "socks f \<inter> socks g = {}" if "f \<in> set ?fs" "g \<in> set ?fs" "f_ID f \<noteq> f_ID g" for f g
      using D(5)[OF that] by (simp add: apart_socks)
  qed
  moreover from SyncAll_result[OF no_listeners_ok D(1) s] have "l_ok deny L" "\<And>i. i \<notin> f_ID ` set ?fs \<Longrightarrow> l_view L i = None"
    by simp_all
  ultimately show ?thesis using assms(1) L by (simp add: server_ok_def consistent_def in_step_def)
qed

lemma newServer_Inr:
  assumes "newServer cfg env = Inr sv"
  shows "\<exists>tp ap host st2. portOf (cfg_TunnelAddr cfg) = Inr tp \<and> portOf (cfg_AdminAddr cfg) = Inr ap
    \<and> sv = \<lparr>sv_store = st2, sv_tunnel = new_tunnel (cfg_Version cfg),
             sv_fw = newFwManager (bo_fw env) (cfg_AgentSocket cfg) (cfg_DataDir cfg) tp ap,
             sv_publicHost = host, sv_detectedHost = bo_outbound env, sv_tunnelPort = tp, sv_adminPort = ap\<rparr>"
proof -
  from assms obtain tp ap st1 where a: "portOf (cfg_TunnelAddr cfg) = Inr tp" "portOf (cfg_AdminAddr cfg) = Inr ap"
    and b: "(case bootstrapAdmin env (cfg_ResetAdminPassword cfg) st1 of (Inl e, _) \<Rightarrow> Inl e
     | (Inr _, st2) \<Rightarrow>
         Inr \<lparr>sv_store = st2, sv_tunnel = new_tunnel (cfg_Version cfg),
              sv_fw = newFwManager (bo_fw env) (cfg_AgentSocket cfg) (cfg_DataDir cfg) tp ap,
              sv_publicHost = s_PublicHost (st_Settings (sto_mem st1)), sv_detectedHost = bo_outbound env,
              sv_tunnelPort = tp, sv_adminPort = ap\<rparr>) = Inr sv"
    unfolding newServer_def rbind_eq_Inr wrapped_Inr by blast
  obtain r st2 where c: "bootstrapAdmin env (cfg_ResetAdminPassword cfg) st1 = (r, st2)" by fastforce
  show ?thesis using a b unfolding c by (cases r) auto
qed

text \<open>
  C32: starting up: what \<open>New\<close> returns listens nowhere yet, has read its two ports from its
  addresses, and when \<open>Run\<close> finds a consistent configuration whose sockets are available, every
  enabled forward comes up, without an error, and the server is consistent.
\<close>

theorem start_brings_everything_up:
  assumes "newServer cfg env = Inr sv" and "config_ok (sv_tunnelPort sv) (sv_adminPort sv) (sv_state sv)"
    and "\<And>f sk. f \<in> set (st_Forwards (sv_state sv)) \<Longrightarrow> f_Enabled f \<Longrightarrow> sk \<in> socks f \<Longrightarrow> \<not> deny sk"
    and "startServer True True deny fenv sv = (Inr errs, sv')"
  shows "portOf (cfg_TunnelAddr cfg) = Inr (sv_tunnelPort sv) \<and> portOf (cfg_AdminAddr cfg) = Inr (sv_adminPort sv)
    \<and> held (sv_listeners sv) = {}
    \<and> errs = Map.empty \<and> server_ok deny sv' \<and> sv_store sv' = sv_store sv"
proof -
  have n: "portOf (cfg_TunnelAddr cfg) = Inr (sv_tunnelPort sv)" "portOf (cfg_AdminAddr cfg) = Inr (sv_adminPort sv)"
    "sv_listeners sv = no_listeners"
    using newServer_Inr[OF assms(1)] by (auto simp: new_tunnel_def no_listeners_def)
  have "held (sv_listeners sv) = {}" by (simp add: n(3) held_def runner_of_def no_listeners_def)
  moreover have "errs = Map.empty \<and> server_ok deny sv' \<and> sv_store sv' = sv_store sv"
    using assms(2) n(3) assms(3,4) by (rule started_ok)
  ultimately show ?thesis using n(1,2) by simp
qed

definition demo_dns :: forward where
  "demo_dns = (demo_forward ''f1'' ''both'' 53)\<lparr>f_TargetHost := ''127.0.0.1''\<rparr>"

definition demo_file :: state where
  "demo_file = empty_state\<lparr>st_Admin := \<lparr>a_Username = ''admin'', a_PasswordHash = ''00'', a_Salt = ''00'', a_Iterations = 1\<rparr>, st_Clients := [demo_client], st_Forwards := [demo_dns]\<rparr>"

definition demo_boot2 :: boot_env where
  "demo_boot2 = demo_boot\<lparr>bo_file := Contents demo_file\<rparr>"

definition demo_server :: server where
  "demo_server = \<lparr>sv_store = \<lparr>sto_mem = demo_file, sto_disk = Some demo_file\<rparr>, sv_tunnel = new_tunnel ''v2'',
     sv_fw = newFwManager (demo_fw_env demo_agent) [] ''/data'' 7443 8443, sv_publicHost = [], sv_detectedHost = ''203.0.113.9'',
     sv_tunnelPort = 7443, sv_adminPort = 8443\<rparr>"

lemma demo_addresses: "portOf '':7443'' = Inr 7443" "portOf ''[::]:8443'' = Inr 8443"
  by code_simp+

lemma demo_server_facts:
  "newServer demo_config demo_boot2 = Inr demo_server" "sv_tunnelPort demo_server = 7443" "sv_adminPort demo_server = 8443"
  "st_Forwards (sv_state demo_server) = [demo_dns]" "st_Clients (sv_state demo_server) = [demo_client]"
  "sv_listeners demo_server = no_listeners"
proof -
  have n: "normalize demo_file = demo_file" by (simp add: normalize_def demo_file_def demo_dns_def demo_forward_def)
  have "bootstrapAdmin demo_boot2 False \<lparr>sto_mem = demo_file, sto_disk = Some demo_file\<rparr> = (Inr None, \<lparr>sto_mem = demo_file, sto_disk = Some demo_file\<rparr>)"
    by (simp add: bootstrapAdmin_def demo_file_def)
  moreover have "s_PublicHost (st_Settings demo_file) = []" by (simp add: demo_file_def empty_state_def)
  ultimately show "newServer demo_config demo_boot2 = Inr demo_server"
    by (simp add: newServer_def wrapped_def certificates_def Open_def demo_addresses n demo_config_def demo_boot2_def demo_boot_def demo_server_def)
  show "sv_tunnelPort demo_server = 7443" "sv_adminPort demo_server = 8443"
    "st_Forwards (sv_state demo_server) = [demo_dns]" "st_Clients (sv_state demo_server) = [demo_client]"
    "sv_listeners demo_server = no_listeners"
    by (simp_all add: demo_server_def demo_file_def new_tunnel_def no_listeners_def)
qed

lemma demo_server_store: "sv_store demo_server = \<lparr>sto_mem = demo_file, sto_disk = Some demo_file\<rparr>"
  by (simp add: demo_server_def)

lemma demo_server_config: "config_ok 7443 8443 (sv_state demo_server)"
proof -
  have "forward_ok 7443 8443 demo_dns" by code_simp
  then show ?thesis
    by (simp add: config_ok_def demo_server_facts) (simp add: demo_dns_def demo_forward_def demo_client_def)
qed

lemma start_brings_everything_up_witness:
  "\<exists>sv'. snd (startServer True True (\<lambda>_. False) (demo_fw_env demo_agent) demo_server) = sv' \<and> server_ok (\<lambda>_. False) sv'
    \<and> sv_store sv' = sv_store demo_server"
proof -
  obtain errs sv' where s: "startServer True True (\<lambda>_. False) (demo_fw_env demo_agent) demo_server = (Inr errs, sv')"
    by (cases "SyncAll (\<lambda>_. False) (st_Forwards (sv_state demo_server)) (sv_listeners demo_server)")
      (simp add: startServer_def Let_def)
  have "config_ok (sv_tunnelPort demo_server) (sv_adminPort demo_server) (sv_state demo_server)"
    using demo_server_config by (simp add: demo_server_facts)
  from start_brings_everything_up[OF demo_server_facts(1) this _ s] s show ?thesis by simp
qed

end
