(* ===== verification/Server_Run.thy ===== *)
theory Server_Run
  imports Server_Boot
begin

text \<open>
  The running server: requests, events of the tunnel, firewall syncs, and other programs of the
  host that take and release sockets, as the steps of a transition relation. The configuration
  and the listeners stay consistent in every reachable state, and a refused request changes
  neither.
\<close>

section \<open>One request\<close>

definition is_put_settings :: "request \<Rightarrow> bool" where
  "is_put_settings req \<longleftrightarrow> (case req of PutSettings _ \<Rightarrow> True | _ \<Rightarrow> False)"

lemma replied_safe:
  assumes "safe deny sv p" and "ok < 400"
  shows "server_ok deny (snd (replied ok p))" and "400 \<le> fst (replied ok p) \<Longrightarrow> untouched deny sv (snd (replied ok p))"
  using assms by (auto simp: replied_def status_def safe_def split: prod.splits sum.splits)

lemma dispatch_outcome:
  assumes "server_ok (ev_deny env) sv" and "ev_saved env" and "new_ids env sv" and "\<not> is_put_settings req"
  shows "server_ok (ev_deny env) (snd (dispatch ss fp sha env req sv))
    \<and> (400 \<le> fst (dispatch ss fp sha env req sv) \<longrightarrow> untouched (ev_deny env) sv (snd (dispatch ss fp sha env req sv)))"
proof -
  have f: "fresh_ids env (sv_state sv)" using assms(3) by (simp add: new_ids_def)
  show ?thesis
  proof (cases req)
    case (UpdateBinary i)
    note S = safe_update_binary[OF assms(1), of ss fp i]
    obtain r sv1 where h: "handleUpdateClientBinary env ss fp i sv = (r, sv1)" by fastforce
    show ?thesis
    proof (cases r)
      case (Inl e)
      then show ?thesis using S h UpdateBinary by (cases e) (simp_all add: safe_def)
    next
      case (Inr x)
      then show ?thesis using S h UpdateBinary by (simp add: safe_def)
    qed
  next
    case UpdateAll
    have "tn_listeners (snd (snd (push_all (ev_tunnel env) (st_Clients (sv_state sv)) (sv_tunnel sv)))) = sv_listeners sv"
      by (rule push_all_listeners)
    then show ?thesis using server_ok_tunnel[OF assms(1)] UpdateAll by (auto simp: handleUpdateAllClients_def split: prod.splits)
  next
    case (PutSettings inp)
    with assms(4) show ?thesis by (simp add: is_put_settings_def)
  qed (use replied_safe[OF safe_create_forward[OF assms(1,2) f]] replied_safe[OF safe_update_forward[OF assms(1,2)]]
      replied_safe[OF safe_delete_forward[OF assms(1,2)]] replied_safe[OF safe_create_group[OF assms(1,2) f]]
      replied_safe[OF safe_update_group[OF assms(1,2) f]] replied_safe[OF safe_delete_group[OF assms(1,2)]]
      replied_safe[OF safe_create_client[OF assms(1-3)]] replied_safe[OF safe_update_client[OF assms(1,2)]]
      replied_safe[OF safe_delete_client[OF assms(1,2)]] replied_safe[OF safe_rotate[OF assms(1,2)]]
      replied_safe[OF safe_create_token[OF assms(1,2)]] replied_safe[OF safe_delete_token[OF assms(1,2)]]
      in simp_all)
qed

lemma dispatch_ok:
  assumes "server_ok (ev_deny env) sv" and "ev_saved env" and "new_ids env sv"
  shows "server_ok (ev_deny env) (snd (dispatch ss fp sha env req sv))"
proof (cases "is_put_settings req")
  case True
  then obtain inp where "req = PutSettings inp" by (cases req) (simp_all add: is_put_settings_def)
  with put_settings_ok[OF assms(1), of inp] show ?thesis by (auto simp: replied_def split: prod.splits)
next
  case False
  with dispatch_outcome[OF assms] show ?thesis by blast
qed

section \<open>Events of the tunnel\<close>

lemma handleClientMessage_listeners [simp]: "tn_listeners (handleClientMessage now sid msg t) = tn_listeners t"
  by (simp add: handleClientMessage_def Let_def split: option.splits)

lemma settle_pending_listeners [simp]: "tn_listeners (settle_pending now sid t) = tn_listeners t"
  by (simp add: settle_pending_def Let_def split: option.splits)

lemma update_queries_listeners:
  "UpdateStatus env i t = (u, t') \<Longrightarrow> tn_listeners t' = tn_listeners t"
  "UpdateAvailability env i t = (r, t') \<Longrightarrow> tn_listeners t' = tn_listeners t"
  using UpdateStatus_frame[of env i t u t'] UpdateAvailability_frame[of env i t r t'] by auto

lemma noteReconnect_listeners [simp]: "tn_listeners (noteReconnect env sid t) = tn_listeners t"
proof -
  define t0 where "t0 = settle_pending (te_now env) sid t"
  define i where "i = se_ClientID (tn_objs t0 ! sid)"
  obtain u t1 where 1: "UpdateStatus env i t0 = (u, t1)" by fastforce
  obtain r t2 where 2: "UpdateAvailability env i t1 = (r, t2)" by fastforce
  have "tn_listeners t0 = tn_listeners t" by (simp add: t0_def)
  moreover have "tn_listeners t1 = tn_listeners t0" "tn_listeners t2 = tn_listeners t1"
    using update_queries_listeners(1)[OF 1] update_queries_listeners(2)[OF 2] by simp_all
  moreover have "tn_listeners (snd (PushUpdate env i True t2)) = tn_listeners t2" by (rule PushUpdate_listeners)
  ultimately show ?thesis
    unfolding noteReconnect_def Let_def t0_def[symmetric] i_def[symmetric] 1 prod.case 2 by (simp split: option.split)
qed

lemma DisconnectClient_listeners [simp]: "tn_listeners (DisconnectClient i r t) = tn_listeners t"
  by (simp add: DisconnectClient_def Let_def split: option.splits)

lemma NotifyForwards_listeners [simp]: "tn_listeners (NotifyForwards st i t) = tn_listeners t"
  by (simp add: NotifyForwards_def split: option.splits)

lemma register_listeners: "register i remote now h t = (sid, t') \<Longrightarrow> tn_listeners t' = tn_listeners t"
  by (auto simp: register_def Let_def split: option.splits)

lemma dropSession_frame:
  assumes "dropSession saved now sid t sto = (t', sto')"
  shows "tn_listeners t' = tn_listeners t \<and> same_config (sto_mem sto) (sto_mem sto')"
  using assms closures_same_config(7) by (auto simp: dropSession_def Let_def Update_mem)

lemma same_config_trans: "same_config a b \<Longrightarrow> same_config b c \<Longrightarrow> same_config a c"
  by (simp add: same_config_def)

lemma handleConn_frame:
  assumes "handleConn saved answered saved2 env remote h t sto = (r, t', sto')"
  shows "tn_listeners t' = tn_listeners t \<and> same_config (sto_mem sto) (sto_mem sto')"
proof (cases "h_Version h = Version")
  case False
  with assms show ?thesis by (simp add: handleConn_def)
next
  case True
  obtain r1 sto1 where u: "Update saved (hello_seen (te_now env) remote h) sto = (r1, sto1)" by fastforce
  have 1: "same_config (sto_mem sto) (sto_mem sto1)"
    using Update_same_config[of "hello_seen (te_now env) remote h" sto saved] closures_same_config(6) u by simp
  show ?thesis
  proof (cases r1)
    case (Inl e)
    with assms True u 1 show ?thesis by (simp add: handleConn_def)
  next
    case (Inr c)
    obtain sid t1 where g: "register (c_ID c) remote (te_now env) h t = (sid, t1)" by fastforce
    show ?thesis
    proof (cases answered)
      case True
      with assms \<open>h_Version h = Version\<close> u 1 Inr g register_listeners[OF g] show ?thesis by (auto simp: handleConn_def)
    next
      case False
      obtain t2 sto2 where d: "dropSession saved2 (te_now env) sid t1 sto1 = (t2, sto2)" by fastforce
      with assms \<open>h_Version h = Version\<close> u Inr g False have "t' = t2" "sto' = sto2" by (auto simp: handleConn_def)
      with dropSession_frame[OF d] register_listeners[OF g] same_config_trans[OF 1] show ?thesis by simp
    qed
  qed
qed

lemma tunnel_step_frame:
  assumes "tunnel_step (t, sto) (t', sto')"
  shows "tn_listeners t' = tn_listeners t \<and> same_config (sto_mem sto) (sto_mem sto')"
  using assms
proof (cases rule: tunnel_step.cases)
  case Connect
  then show ?thesis by (rule handleConn_frame)
next
  case Drop
  from Drop(2) show ?thesis by (rule dropSession_frame)
next
  case (Push env i r)
  with PushUpdate_listeners[of env i False t] show ?thesis by simp
next
  case (Status env i u)
  with UpdateStatus_frame[of env i t u t'] show ?thesis by auto
next
  case (Availability env i r)
  with UpdateAvailability_frame[of env i t r t'] show ?thesis by auto
qed simp_all

section \<open>The running server\<close>

text \<open>
  A state of the host: the sockets other programs hold, and the server. Every save works here;
  what happens when one fails is in the last section.
\<close>

type_synonym host = "(socket \<Rightarrow> bool) \<times> server"

inductive server_step :: "host \<Rightarrow> host \<Rightarrow> bool" where
  Request: "ev_deny env = deny \<Longrightarrow> ev_saved env \<Longrightarrow> new_ids env sv \<Longrightarrow> dispatch ss fp sha env req sv = (st, sv') \<Longrightarrow>
    server_step (deny, sv) (deny, sv')"
| TunnelEvent: "tunnel_step (sv_tunnel sv, sv_store sv) (t, sto) \<Longrightarrow>
    server_step (deny, sv) (deny, sv\<lparr>sv_tunnel := t, sv_store := sto\<rparr>)"
| Resync: "server_step (deny, sv) (deny, sync_firewall env sv)"
| OtherPrograms: "(\<And>sk. sk \<in> held (sv_listeners sv) \<Longrightarrow> \<not> deny' sk) \<Longrightarrow> server_step (deny, sv) (deny', sv)"

lemma l_ok_deny:
  assumes "l_ok deny L" and "\<And>sk. sk \<in> held L \<Longrightarrow> \<not> deny' sk"
  shows "l_ok deny' L"
proof -
  have "runner_ok deny' (l_bound L) i r" if r: "runner_of L i = Some r" for i r
  proof -
    have "\<not> deny' sk" if "sk \<in> socks (r_f r)" for sk using assms(2)[of sk] that r unfolding held_def by blast
    with l_okD(1)[OF assms(1) r] show ?thesis by (simp add: runner_ok_def)
  qed
  with assms(1) show ?thesis by (simp add: l_ok_def)
qed

lemma server_step_ok:
  assumes "server_step (deny, sv) (deny', sv')" and "server_ok deny sv"
  shows "server_ok deny' sv'"
  using assms(1)
proof (cases rule: server_step.cases)
  case (Request env ss fp sha req st)
  with dispatch_ok[of env sv ss fp sha req] assms(2) show ?thesis by simp
next
  case (TunnelEvent t sto)
  have "server_ok deny sv'"
    by (rule server_ok_same[OF assms(2)]) (use TunnelEvent tunnel_step_frame[OF TunnelEvent(3)] in simp_all)
  with TunnelEvent(1) show ?thesis by simp
next
  case (Resync env)
  with assms(2) show ?thesis by simp
next
  case OtherPrograms
  with l_ok_deny[of deny "sv_listeners sv" deny'] assms(2) show ?thesis by (simp add: server_ok_def consistent_def)
qed

interpretation running: step_system server_step "\<lambda>(deny, sv). server_ok deny sv" "\<lambda>(deny, sv). server_ok deny sv"
  by unfold_locales (auto intro: server_step_ok)

lemma server_steps_ok:
  assumes "server_step\<^sup>*\<^sup>* (deny, sv) (deny', sv')" and "server_ok deny sv"
  shows "server_ok deny' sv'"
  using running.steps_inv[OF assms(1)] assms(2) by simp

section \<open>Properties of the running server\<close>

text \<open>A request environment and a host for the examples.\<close>

definition demo_renv :: request_env where
  "demo_renv = \<lparr>ev_now = 100, ev_rand = (\<lambda>k. [char_of k]), ev_saved = True, ev_deny = (\<lambda>_. False),
     ev_fw = \<lparr>fe_available = (\<lambda>_. False), fe_answer = (\<lambda>_ _. Inl ()), fe_now = 100\<rparr>, ev_tunnel = demo_tenv\<rparr>"

definition demo_started :: server where
  "demo_started = snd (startServer True True (\<lambda>_. False) (ev_fw demo_renv) demo_server)"

lemma demo_start: "\<exists>errs. startServer True True (\<lambda>_. False) (ev_fw demo_renv) demo_server = (Inr errs, demo_started)"
  by (cases "SyncAll (\<lambda>_. False) (st_Forwards (sv_state demo_server)) (sv_listeners demo_server)")
    (simp add: demo_started_def startServer_def Let_def)

lemma demo_started_store: "sv_store demo_started = sv_store demo_server" "sv_tunnelPort demo_started = 7443" "sv_adminPort demo_started = 8443"
  by (cases "SyncAll (\<lambda>_. False) (st_Forwards (sv_state demo_server)) (sv_listeners demo_server)";
      simp add: demo_started_def startServer_def Let_def demo_server_facts)+

lemma demo_new_ids: "new_ids demo_renv demo_started"
proof -
  have n: "NewID (ev_rand demo_renv k) = hex_encode [char_of k]" for k
    by (simp add: NewID_def randomHex_def demo_renv_def)
  have "inj_on (\<lambda>k. NewID (ev_rand demo_renv k)) {..MaxGroupPorts}"
  proof (rule inj_onI)
    fix j k assume jk: "j \<in> {..MaxGroupPorts}" "k \<in> {..MaxGroupPorts}" "NewID (ev_rand demo_renv j) = NewID (ev_rand demo_renv k)"
    then have "hex_decode (hex_encode [char_of j]) = hex_decode (hex_encode [char_of k])" by (simp only: n)
    then have "(of_char (char_of j :: char) :: nat) = of_char (char_of k :: char)" by simp
    with jk(1,2) show "j = k" by (simp add: MaxGroupPorts_def)
  qed
  moreover have "fresh_id (NewID (ev_rand demo_renv k)) (sv_state demo_started)" if k: "k \<le> MaxGroupPorts" for k
  proof -
    have "hex_encode [char_of k] \<noteq> ''f1''"
    proof
      assume "hex_encode [char_of k] = ''f1''"
      then have "hex_decode (hex_encode [char_of k]) = hex_decode ''f1''" by simp
      also have "hex_decode ''f1'' = Some [CHR 0xF1]" by code_simp
      finally have "(of_char (char_of k :: char) :: nat) = of_char (CHR 0xF1)" by simp
      with k show False by (simp add: MaxGroupPorts_def)
    qed
    moreover have "hex_encode [char_of k] \<noteq> ''g1''"
    proof
      assume "hex_encode [char_of k] = ''g1''"
      then have "hex_decode (hex_encode [char_of k]) = hex_decode ''g1''" by simp
      moreover have "hex_decode ''g1'' = None" by code_simp
      ultimately show False by simp
    qed
    moreover have "id_char (hex_char m)" if "m < 16" for m
    proof -
      have "m \<in> set [0..<16]" using that by simp
      moreover have "list_all (\<lambda>m. id_char (hex_char m)) [0..<16]" by code_simp
      ultimately show ?thesis by (simp only: list_all_iff)
    qed
    then have "idPattern (hex_encode [char_of k])" using k by (simp add: idPattern_def hex_encode_def MaxGroupPorts_def)
    ultimately show ?thesis
      unfolding n by (simp add: fresh_id_def demo_started_store demo_server_facts) (simp add: demo_dns_def demo_forward_def)
  qed
  moreover have "hex_encode [char_of (0::nat)] \<noteq> c_ID demo_client" by code_simp
  then have "NewID (ev_rand demo_renv 0) \<notin> c_ID ` set (st_Clients (sv_state demo_started))"
    by (simp add: n demo_started_store demo_server_facts)
  ultimately show ?thesis by (simp add: new_ids_def fresh_ids_def)
qed

lemma demo_started_ok: "server_ok (\<lambda>_. False) demo_started"
proof -
  obtain errs where "startServer True True (\<lambda>_. False) (ev_fw demo_renv) demo_server = (Inr errs, demo_started)"
    using demo_start by blast
  from started_ok[OF _ demo_server_facts(6) _ this] demo_server_config show ?thesis by (simp add: demo_server_facts)
qed

text \<open>What consistency says of each forward.\<close>

lemma consistent_serves:
  assumes c: "consistent deny (sv_tunnelPort sv) (sv_adminPort sv) (sv_state sv) (sv_listeners sv)"
  shows "(\<forall>f\<in>set (st_Forwards (sv_state sv)).
       l_view (sv_listeners sv) (f_ID f) = (if f_Enabled f then Some (spec_of f) else None)
       \<and> f_PublicPort f \<noteq> sv_tunnelPort sv \<and> f_PublicPort f \<noteq> sv_adminPort sv
       \<and> f_ClientID f \<in> c_ID ` set (st_Clients (sv_state sv)))
    \<and> (\<forall>i. i \<notin> f_ID ` set (st_Forwards (sv_state sv)) \<longrightarrow> l_view (sv_listeners sv) i = None)
    \<and> (\<forall>f\<in>set (st_Forwards (sv_state sv)). \<forall>g\<in>set (st_Forwards (sv_state sv)).
         (f_ID f \<noteq> f_ID g \<longrightarrow> socks f \<inter> socks g = {}) \<and> (f_GroupID f = f_GroupID g \<longrightarrow> f_ClientID f = f_ClientID g))"
proof -
  note D = config_okD[OF consistentD(1)[OF c]] and I = in_stepD[OF consistentD(3)[OF c]]
  show ?thesis
  proof (intro conjI ballI allI)
    fix f assume f: "f \<in> set (st_Forwards (sv_state sv))"
    show "l_view (sv_listeners sv) (f_ID f) = (if f_Enabled f then Some (spec_of f) else None)"
      using I(1)[OF f] by (simp add: wanted_def)
    show "f_PublicPort f \<noteq> sv_tunnelPort sv" "f_PublicPort f \<noteq> sv_adminPort sv" using D(3)[OF f] by (simp_all add: forward_ok_def)
    show "f_ClientID f \<in> c_ID ` set (st_Clients (sv_state sv))" by (rule D(4)[OF f])
    fix g assume g: "g \<in> set (st_Forwards (sv_state sv))"
    show "f_ID f \<noteq> f_ID g \<longrightarrow> socks f \<inter> socks g = {}" using D(5)[OF f g] by (simp add: apart_socks)
    show "f_GroupID f = f_GroupID g \<longrightarrow> f_ClientID f = f_ClientID g" using D(6)[OF f g] by simp
  qed (use I(2) in simp)
qed

text \<open>
  The relay's main invariant. Whatever requests, connections, disconnections and syncs
  follow a start, and whatever other programs do, in every state that is reached exactly the
  enabled forwards have a listener, and it is the one the configuration describes; no two
  forwards claim the same socket; none uses the relay's own two ports; each belongs to an
  existing client; and the forwards of a group belong to the same client.
\<close>

theorem running_server_consistent:
  assumes "newServer cfg env = Inr sv0" and "config_ok (sv_tunnelPort sv0) (sv_adminPort sv0) (sv_state sv0)"
    and "\<And>f sk. f \<in> set (st_Forwards (sv_state sv0)) \<Longrightarrow> f_Enabled f \<Longrightarrow> sk \<in> socks f \<Longrightarrow> \<not> deny sk"
    and "startServer True True deny fenv sv0 = (Inr errs, sv1)" and "server_step\<^sup>*\<^sup>* (deny, sv1) (deny', sv)"
  shows "(\<forall>f\<in>set (st_Forwards (sv_state sv)).
       l_view (sv_listeners sv) (f_ID f) = (if f_Enabled f then Some (spec_of f) else None)
       \<and> f_PublicPort f \<noteq> sv_tunnelPort sv \<and> f_PublicPort f \<noteq> sv_adminPort sv
       \<and> f_ClientID f \<in> c_ID ` set (st_Clients (sv_state sv)))
    \<and> (\<forall>i. i \<notin> f_ID ` set (st_Forwards (sv_state sv)) \<longrightarrow> l_view (sv_listeners sv) i = None)
    \<and> (\<forall>f\<in>set (st_Forwards (sv_state sv)). \<forall>g\<in>set (st_Forwards (sv_state sv)).
         (f_ID f \<noteq> f_ID g \<longrightarrow> socks f \<inter> socks g = {}) \<and> (f_GroupID f = f_GroupID g \<longrightarrow> f_ClientID f = f_ClientID g))"
proof -
  have "sv_listeners sv0 = no_listeners" using newServer_Inr[OF assms(1)] by (auto simp: new_tunnel_def no_listeners_def)
  with assms(2) have "errs = Map.empty \<and> server_ok deny sv1 \<and> sv_store sv1 = sv_store sv0"
    using assms(3,4) by (rule started_ok)
  then have c: "consistent deny' (sv_tunnelPort sv) (sv_adminPort sv) (sv_state sv) (sv_listeners sv)"
    using server_steps_ok[OF assms(5)] unfolding server_ok_def by blast
  then show ?thesis by (rule consistent_serves)
qed

definition demo_deleted :: server where
  "demo_deleted = snd (dispatch True [] (\<lambda>s. s) demo_renv (DeleteForward ''f1'') demo_started)"

lemma running_server_consistent_witness:
  "server_step\<^sup>*\<^sup>* ((\<lambda>_. False), demo_started) ((\<lambda>_. False), demo_deleted) \<and> l_view (sv_listeners demo_deleted) ''f1'' = None"
proof -
  obtain errs where s: "startServer True True (\<lambda>_. False) (ev_fw demo_renv) demo_server = (Inr errs, demo_started)"
    using demo_start by blast
  have e: "ev_deny demo_renv = (\<lambda>_. False)" "ev_saved demo_renv" by (simp_all add: demo_renv_def)
  obtain st where "dispatch True [] (\<lambda>s. s) demo_renv (DeleteForward ''f1'') demo_started = (st, demo_deleted)"
    by (metis demo_deleted_def prod.collapse)
  from server_step.Request[OF e demo_new_ids this] have
    r: "server_step\<^sup>*\<^sup>* ((\<lambda>_. False), demo_started) ((\<lambda>_. False), demo_deleted)" by blast
  have "st_Forwards (sv_state demo_deleted) = []"
    by (simp add: demo_deleted_def replied_def handleDeleteForward_def Update_in_def Update_def delete_forward_def ForwardByID_def
        demo_started_store demo_server_facts e(2) demo_dns_def demo_forward_def)
  moreover have "config_ok (sv_tunnelPort demo_server) (sv_adminPort demo_server) (sv_state demo_server)"
    using demo_server_config by (simp add: demo_server_facts)
  ultimately show ?thesis
    using running_server_consistent[OF demo_server_facts(1) _ _ s r] r by simp
qed


definition demo_clash :: forward_input where
  "demo_clash = \<lparr>in_ClientID = Some ''c1'', in_Name = None, in_Protocol = Some ''udp'', in_PublicPort = Some 53,
     in_TargetHost = None, in_TargetPort = None, in_Enabled = None\<rparr>"


section \<open>When a save fails\<close>

text \<open>
  C38: what the code does when the disk is full: a create request whose save fails is answered
  with an error and its listener is closed, but the enabled forward stays in the configuration in
  memory, so that the server is no longer consistent: the forward is listed and written by the
  next successful save although nothing listens for it.
\<close>

theorem failed_save_leaves_dead_forward:
  assumes "server_ok (ev_deny env) sv" and "new_ids env sv" and "\<not> ev_saved env"
    and "f = new_forward env inp" and "f_Enabled f" and "Validate f = Inr ()" and "reservedPort sv (f_PublicPort f) = Inr ()"
    and "create_forward env sv f (sv_state sv) (sv_listeners sv) = (Inr out, st', L')"
    and "handleCreateForward env inp sv = (r, sv')"
  shows "r = Inl (ErrInternal, SaveFailed) \<and> sto_disk (sv_store sv') = sto_disk (sv_store sv)
    \<and> f \<in> set (st_Forwards (sv_state sv')) \<and> l_view (sv_listeners sv') (f_ID f) = None \<and> \<not> server_ok (ev_deny env) sv'"
proof -
  have "st' = (sv_state sv)\<lparr>st_Forwards := st_Forwards (sv_state sv) @ [f]\<rparr>"
    using assms(8) by (auto simp: create_forward_def Let_def split: if_splits option.splits prod.splits sum.splits)
  moreover have "Update_in (ev_saved env) (create_forward env sv f) sv
      = (Inl (ErrInternal, SaveFailed), set_listeners L' (set_store (sv_store sv\<lparr>sto_mem := st'\<rparr>) sv))"
    using assms(3,8) by (simp add: Update_in_def Update_def)
  then have h: "r = Inl (ErrInternal, SaveFailed)" "sv' = remove_listener (f_ID f) (set_listeners L' (set_store (sv_store sv\<lparr>sto_mem := st'\<rparr>) sv))"
    using assms(9) unfolding handleCreateForward_def Let_def assms(4)[symmetric] by (simp_all add: assms(6,7))
  ultimately have m: "f \<in> set (st_Forwards (sv_state sv'))" "l_view (sv_listeners sv') (f_ID f) = None"
    "sto_disk (sv_store sv') = sto_disk (sv_store sv)" by (simp_all add: view_Remove)
  have "\<not> server_ok (ev_deny env) sv'"
  proof
    assume "server_ok (ev_deny env) sv'"
    then have "in_step (st_Forwards (sv_state sv')) (l_view (sv_listeners sv'))" by (simp add: server_ok_def consistent_def)
    from in_stepD(1)[OF this m(1)] m(2) assms(5) show False by (simp add: wanted_def)
  qed
  with h(1) m show ?thesis by blast
qed

definition demo_web :: forward_input where
  "demo_web = demo_clash\<lparr>in_PublicPort := Some 80\<rparr>"

lemma failed_save_leaves_dead_forward_witness:
  "\<exists>sv'. handleCreateForward (demo_renv\<lparr>ev_saved := False\<rparr>) demo_web demo_started = (Inl (ErrInternal, SaveFailed), sv')
    \<and> new_forward (demo_renv\<lparr>ev_saved := False\<rparr>) demo_web \<in> set (st_Forwards (sv_state sv'))
    \<and> \<not> server_ok (\<lambda>_. False) sv'"
proof -
  let ?e = "demo_renv\<lparr>ev_saved := False\<rparr>"
  define f where "f = new_forward ?e demo_web"
  have v: "Validate f = Inr ()" "f_Enabled f" unfolding f_def by code_simp+
  have w: "f_PublicPort f = 80" "f_ClientID f = ''c1''" "f_PublicPort demo_dns = 53" "c_ID demo_client = ''c1''"
    unfolding f_def by code_simp+
  have e: "server_ok (ev_deny ?e) demo_started" "new_ids ?e demo_started" "\<not> ev_saved ?e" "ev_deny ?e = (\<lambda>_. False)"
    using demo_started_ok demo_new_ids by (simp_all add: demo_renv_def new_ids_def fresh_ids_def)
  have r: "reservedPort demo_started (f_PublicPort f) = Inr ()" by (simp add: w demo_started_store)
  have a: "fst (Apply (ev_deny ?e) f (sv_listeners demo_started)) = Inr ()" unfolding f_def by code_simp
  obtain L' where "Apply (ev_deny ?e) f (sv_listeners demo_started) = (Inr (), L')" using a by (metis prod.collapse)
  then obtain out st' where "create_forward ?e demo_started f (sv_state demo_started) (sv_listeners demo_started) = (Inr out, st', L')"
    by (simp add: create_forward_def demo_started_store demo_server_facts ClientByID_def PortConflict_def w Let_def)
  from failed_save_leaves_dead_forward[OF e(1,2,3) f_def v(2,1) r this prod.collapse[symmetric]]
  show ?thesis unfolding f_def[symmetric] e(4) by (metis prod.collapse)
qed

text \<open>
  What the code does with a settings request whose firewall mode is refused: the answer is an
  error and nothing is written, but the public host of the same request has already been assigned
  in memory, where the next successful save of anything will write it; the cached public host,
  which the server advertises, is still the old one.
\<close>

theorem refused_settings_change_memory:
  assumes "si_PublicHost inp = Some h" and "h \<noteq> []" and "trim_space h = h"
    and "\<not> contains_any h [CHR '' '', CHR ''/'', CHR '':'', CHR 0x5C]" and "length h \<le> 253"
    and "si_Firewall inp = Some m" and "trim_space m \<noteq> []" and "\<not> ValidMode (to_lower (trim_space m))"
    and "handlePutSettings env inp sv = (r, sv')"
  shows "r = Inl (ErrValidation, BadFirewallMode) \<and> sto_disk (sv_store sv') = sto_disk (sv_store sv)
    \<and> s_PublicHost (st_Settings (sv_state sv')) = h \<and> sv_publicHost sv' = sv_publicHost sv
    \<and> (\<forall>t. sto_disk (snd (Update True (add_token t) (sv_store sv'))) \<noteq> None
         \<and> s_PublicHost (st_Settings (the (sto_disk (snd (Update True (add_token t) (sv_store sv')))))) = h)"
proof -
  have "to_lower (trim_space m) \<noteq> []" using assms(7) by (simp add: to_lower_def)
  then show ?thesis
    using assms by (auto simp: handlePutSettings_def put_settings_def put_host_def put_firewall_def Let_def Update_def add_token_def set_store_def)
qed

definition demo_settings :: settings_input where
  "demo_settings = \<lparr>si_PublicHost = Some ''play.example.net'', si_Firewall = Some ''pf'', si_AutoUpdateClients = None\<rparr>"

lemma refused_settings_change_memory_witness:
  "\<exists>sv'. handlePutSettings demo_renv demo_settings demo_started = (Inl (ErrValidation, BadFirewallMode), sv')
    \<and> s_PublicHost (st_Settings (sv_state sv')) = ''play.example.net''"
proof -
  obtain r sv' where h: "handlePutSettings demo_renv demo_settings demo_started = (r, sv')" by fastforce
  have s: "si_PublicHost demo_settings = Some ''play.example.net''" "si_Firewall demo_settings = Some ''pf''"
    by (simp_all add: demo_settings_def)
  have c: "trim_space ''play.example.net'' = ''play.example.net''" "\<not> contains_any ''play.example.net'' [CHR '' '', CHR ''/'', CHR '':'', CHR 0x5C]"
    "trim_space ''pf'' \<noteq> []" "\<not> ValidMode (to_lower (trim_space ''pf''))" by code_simp+
  from refused_settings_change_memory[OF s(1) _ c(1,2) _ s(2) c(3,4) h] h show ?thesis by simp
qed

section \<open>What is on disk\<close>

text \<open>\<open>written sv sv'\<close>: the store of \<open>sv'\<close> is that of \<open>sv\<close>, or it has just been saved.\<close>

definition written :: "server \<Rightarrow> server \<Rightarrow> bool" where
  "written sv sv' \<longleftrightarrow> sv_store sv' = sv_store sv \<or> sto_disk (sv_store sv') = Some (sv_state sv')"

lemma Update_written: "Update True fn s = (Inr x, s') \<Longrightarrow> sto_disk s' = Some (sto_mem s')"
  by (auto simp: Update_def split: prod.splits sum.splits)

lemma Update_in_written: "Update_in True fn sv = (Inr x, sv') \<Longrightarrow> sto_disk (sv_store sv') = Some (sv_state sv')"
  by (auto simp: Update_in_Inr)

lemma clientOut_written:
  "clientOut env ss fp c sv1 = (o', sv') \<Longrightarrow> written sv sv1 \<Longrightarrow> written sv sv'"
  using clientOut_frame[of env ss fp c sv1 o' sv'] by (simp add: written_def)

text \<open>The successes: every handler either leaves the store alone or has saved it.\<close>

lemma written_forwards:
  assumes "ev_saved env"
  shows "handleCreateForward env inp sv = (Inr x, sv') \<Longrightarrow> written sv sv'"
    and "handleUpdateForward env i inp sv = (Inr x, sv') \<Longrightarrow> written sv sv'"
    and "handleDeleteForward env i sv = (Inr y, sv') \<Longrightarrow> written sv sv'"
  using assms by (auto simp: handleCreateForward_def handleUpdateForward_def handleDeleteForward_def Let_def written_def
      dest!: Update_in_written split: sum.splits prod.splits)

lemma written_groups:
  assumes "ev_saved env"
  shows "handleCreateGroup env ginp sv = (Inr x, sv') \<Longrightarrow> written sv sv'"
    and "handleUpdateGroup env i ginp sv = (Inr x, sv') \<Longrightarrow> written sv sv'"
    and "handleDeleteGroup env i sv = (Inr n, sv') \<Longrightarrow> written sv sv'"
  using assms by (auto simp: handleCreateGroup_def handleUpdateGroup_def handleDeleteGroup_def Let_def written_def remove_listeners
      dest!: Update_in_written split: sum.splits prod.splits if_splits)

lemma written_set_store: "Update True fn (sv_store sv) = (Inr x, s) \<Longrightarrow> written sv (set_store s sv)"
  using Update_written[of fn "sv_store sv" x s] by (simp add: written_def)

lemma written_clients:
  assumes "ev_saved env"
  shows "handleCreateClient env ss fp n sv = (Inr c, sv') \<Longrightarrow> written sv sv'"
    and "handleUpdateClient env ss fp i nm sv = (Inr c, sv') \<Longrightarrow> written sv sv'"
    and "handleRotateClientToken env ss fp i sv = (Inr c, sv') \<Longrightarrow> written sv sv'"
    and "handleDeleteClient env i sv = (Inr k, sv') \<Longrightarrow> written sv sv'"
proof -
  show "handleCreateClient env ss fp n sv = (Inr c, sv') \<Longrightarrow> written sv sv'"
    using assms by (auto simp: handleCreateClient_def Let_def dest!: written_set_store intro: clientOut_written split: sum.splits prod.splits)
  show "handleUpdateClient env ss fp i nm sv = (Inr c, sv') \<Longrightarrow> written sv sv'"
    using assms by (auto simp: handleUpdateClient_def Let_def dest!: written_set_store intro: clientOut_written split: sum.splits prod.splits)
  show "handleRotateClientToken env ss fp i sv = (Inr c, sv') \<Longrightarrow> written sv sv'"
    using assms by (auto simp: handleRotateClientToken_def Let_def written_def dest!: written_set_store clientOut_frame split: sum.splits prod.splits)
  show "handleDeleteClient env i sv = (Inr k, sv') \<Longrightarrow> written sv sv'"
    using assms by (auto simp: handleDeleteClient_def Let_def written_def remove_listeners dest!: Update_written split: sum.splits prod.splits if_splits)
qed

lemma written_others:
  assumes "ev_saved env"
  shows "handlePutSettings env sinp sv = (Inr z, sv') \<Longrightarrow> written sv sv'"
    and "handleCreateToken sha env n sv = (Inr t, sv') \<Longrightarrow> written sv sv'"
    and "handleDeleteToken env i sv = (Inr u, sv') \<Longrightarrow> written sv sv'"
    and "handleUpdateClientBinary env ss fp i sv = (r, sv') \<Longrightarrow> written sv sv'"
    and "handleUpdateAllClients env sv = (l, sv') \<Longrightarrow> written sv sv'"
proof -
  show "handlePutSettings env sinp sv = (Inr z, sv') \<Longrightarrow> written sv sv'"
    using assms by (auto simp: handlePutSettings_def Let_def written_def dest!: Update_written split: sum.splits prod.splits if_splits)
  show "handleCreateToken sha env n sv = (Inr t, sv') \<Longrightarrow> written sv sv'"
    using assms by (auto simp: handleCreateToken_def Let_def dest!: written_set_store split: sum.splits prod.splits)
  show "handleDeleteToken env i sv = (Inr u, sv') \<Longrightarrow> written sv sv'"
    using assms by (auto simp: handleDeleteToken_def Let_def dest!: written_set_store split: sum.splits prod.splits)
  show "handleUpdateAllClients env sv = (l, sv') \<Longrightarrow> written sv sv'"
    by (auto simp: handleUpdateAllClients_def written_def split: prod.splits)
  show "written sv sv'" if h: "handleUpdateClientBinary env ss fp i sv = (r, sv')"
  proof (cases "ClientByID (sv_state sv) i")
    case None
    with h show ?thesis by (simp add: handleUpdateClientBinary_def written_def)
  next
    case (Some c)
    obtain o1 sv1 where 1: "clientOut env ss fp c sv = (o1, sv1)" by fastforce
    obtain q t where 2: "PushUpdate (ev_tunnel env) i False (sv_tunnel sv1) = (q, t)" by fastforce
    obtain o2 sv2 where 3: "clientOut env ss fp c (sv1\<lparr>sv_tunnel := t\<rparr>) = (o2, sv2)" by fastforce
    from h show ?thesis using clientOut_frame[OF 1] clientOut_frame[OF 3]
      by (cases q) (auto simp: handleUpdateClientBinary_def Some 1 2 3 written_def)
  qed
qed

lemma replied_ok_cases:
  assumes "replied ok p = (st, sv')" and "st < 400"
  shows "\<exists>x. p = (Inr x, sv')"
proof -
  obtain r sv1 where p: "p = (r, sv1)" by (cases p)
  show ?thesis
  proof (cases r)
    case (Inl e)
    with assms store_error_status_not_ok[of e] p show ?thesis by (simp add: replied_def status_def)
  qed (use assms p in \<open>simp add: replied_def\<close>)
qed

lemma replied_written:
  "replied ok p = (st, sv') \<Longrightarrow> st < 400 \<Longrightarrow> (\<And>x. p = (Inr x, sv') \<Longrightarrow> written sv sv') \<Longrightarrow> written sv sv'"
  using replied_ok_cases[of ok p st sv'] by blast

lemma dispatch_written:
  assumes "ev_saved env" and "dispatch ss fp sha env req sv = (st, sv')" and "st < 400"
  shows "written sv sv'"
proof (cases req)
  case (UpdateBinary i)
  obtain r sv1 where "handleUpdateClientBinary env ss fp i sv = (r, sv1)" by fastforce
  moreover from this have "written sv sv1" by (rule written_others(4)[OF assms(1)])
  ultimately show ?thesis using assms(2) UpdateBinary by (auto split: sum.splits push_error.splits)
next
  case UpdateAll
  then show ?thesis using assms(2) written_others(5)[OF assms(1) prod.collapse[symmetric]] by auto
next
  case (CreateForward inp)
  show ?thesis by (rule replied_written[OF assms(2)[unfolded CreateForward dispatch.simps] assms(3) written_forwards(1)[OF assms(1)]])
next
  case (UpdateForward i inp)
  show ?thesis by (rule replied_written[OF assms(2)[unfolded UpdateForward dispatch.simps] assms(3) written_forwards(2)[OF assms(1)]])
next
  case (DeleteForward i)
  show ?thesis by (rule replied_written[OF assms(2)[unfolded DeleteForward dispatch.simps] assms(3) written_forwards(3)[OF assms(1)]])
next
  case (CreateGroup inp)
  show ?thesis by (rule replied_written[OF assms(2)[unfolded CreateGroup dispatch.simps] assms(3) written_groups(1)[OF assms(1)]])
next
  case (UpdateGroup i inp)
  show ?thesis by (rule replied_written[OF assms(2)[unfolded UpdateGroup dispatch.simps] assms(3) written_groups(2)[OF assms(1)]])
next
  case (DeleteGroup i)
  show ?thesis by (rule replied_written[OF assms(2)[unfolded DeleteGroup dispatch.simps] assms(3) written_groups(3)[OF assms(1)]])
next
  case (CreateClient n)
  show ?thesis by (rule replied_written[OF assms(2)[unfolded CreateClient dispatch.simps] assms(3) written_clients(1)[OF assms(1)]])
next
  case (UpdateClient i n)
  show ?thesis by (rule replied_written[OF assms(2)[unfolded UpdateClient dispatch.simps] assms(3) written_clients(2)[OF assms(1)]])
next
  case (RotateToken i)
  show ?thesis by (rule replied_written[OF assms(2)[unfolded RotateToken dispatch.simps] assms(3) written_clients(3)[OF assms(1)]])
next
  case (DeleteClient i)
  show ?thesis by (rule replied_written[OF assms(2)[unfolded DeleteClient dispatch.simps] assms(3) written_clients(4)[OF assms(1)]])
next
  case (PutSettings inp)
  show ?thesis by (rule replied_written[OF assms(2)[unfolded PutSettings dispatch.simps] assms(3) written_others(1)[OF assms(1)]])
next
  case (CreateToken n)
  show ?thesis by (rule replied_written[OF assms(2)[unfolded CreateToken dispatch.simps] assms(3) written_others(2)[OF assms(1)]])
next
  case (DeleteToken i)
  show ?thesis by (rule replied_written[OF assms(2)[unfolded DeleteToken dispatch.simps] assms(3) written_others(3)[OF assms(1)]])
qed

text \<open>The document on disk has the forwards and the clients of the one in memory.\<close>

definition durable :: "store \<Rightarrow> bool" where
  "durable s \<longleftrightarrow> (\<exists>d. sto_disk s = Some d \<and> same_config d (sto_mem s))"

lemma durable_written: "durable (sv_store sv) \<Longrightarrow> written sv sv' \<Longrightarrow> durable (sv_store sv')"
  by (auto simp: durable_def written_def)

lemma durable_Update:
  assumes "durable s" and "same_config (sto_mem s) (snd (fn (sto_mem s)))" and "Update saved fn s = (r, s')"
  shows "durable s'"
proof -
  obtain d where d: "sto_disk s = Some d" "same_config d (sto_mem s)" using assms(1) by (auto simp: durable_def)
  obtain q st where f: "fn (sto_mem s) = (q, st)" by fastforce
  have "sto_mem s' = st" using Update_mem[of saved fn s] assms(3) f by simp
  moreover have "sto_disk s' = Some st \<or> sto_disk s' = Some d"
    using assms(3) d(1) f by (cases saved; cases q) (auto simp: Update_def)
  ultimately show ?thesis using same_config_trans[OF d(2)] assms(2) f by (auto simp: durable_def)
qed

lemma dispatch_durable:
  assumes "server_ok (ev_deny env) sv" and "ev_saved env" and "new_ids env sv" and "durable (sv_store sv)"
    and "dispatch ss fp sha env req sv = (st, sv')"
  shows "durable (sv_store sv')"
proof (cases "st < 400")
  case True
  from durable_written[OF assms(4) dispatch_written[OF assms(2,5) True]] show ?thesis .
next
  case False
  show ?thesis
  proof (cases "is_put_settings req")
    case True
    then obtain inp where req: "req = PutSettings inp" by (cases req) (simp_all add: is_put_settings_def)
    obtain r s where u: "Update (ev_saved env) (put_settings inp) (sv_store sv) = (r, s)" by fastforce
    have "durable s" by (rule durable_Update[OF assms(4) closures_same_config(1) u])
    moreover have "sv_store sv' = s"
      using assms(5) u by (auto simp: req replied_def handlePutSettings_def Let_def split: sum.splits prod.splits if_splits)
    ultimately show ?thesis by simp
  next
    case False
    from dispatch_outcome[OF assms(1-3) False, of ss fp sha] assms(4,5) \<open>\<not> st < 400\<close> show ?thesis by (simp add: untouched_def)
  qed
qed

lemma tunnel_step_durable:
  assumes "tunnel_step (t, sto) (t', sto')" and "durable sto"
  shows "durable sto'"
  using assms(1)
proof (cases rule: tunnel_step.cases)
  case (Connect saved answered saved2 env remote h r)
  obtain r1 sto1 where u: "Update saved (hello_seen (te_now env) remote h) sto = (r1, sto1)" by fastforce
  have 1: "durable sto1" by (rule durable_Update[OF assms(2) closures_same_config(6) u])
  have "durable (snd (dropSession saved2 now sid t1 sto1))" for now sid t1
    unfolding dropSession_def Let_def snd_conv
    by (rule durable_Update[OF 1 _ prod.collapse[symmetric]]) (simp add: closures_same_config(7))
  with Connect u 1 assms(2) show ?thesis
    by (auto simp: handleConn_def split: if_splits sum.splits prod.splits) (metis snd_conv)+
next
  case (Drop sid saved now)
  have "durable (snd (dropSession saved now sid t sto))"
    unfolding dropSession_def Let_def snd_conv
    by (rule durable_Update[OF assms(2) _ prod.collapse[symmetric]]) (simp add: closures_same_config(7))
  with Drop show ?thesis by simp
qed (use assms(2) in simp_all)

lemma server_step_durable:
  assumes "server_step (deny, sv) (deny', sv')" and "server_ok deny sv" and "durable (sv_store sv)"
  shows "durable (sv_store sv')"
  using assms(1)
proof (cases rule: server_step.cases)
  case (Request env ss fp sha req st)
  with dispatch_durable[of env sv ss fp sha req st sv'] assms(2,3) show ?thesis by simp
next
  case (TunnelEvent t sto)
  with tunnel_step_durable[OF TunnelEvent(3) assms(3)] show ?thesis by simp
qed (use assms(3) in simp_all)

interpretation keeps_durable: step_system server_step
  "\<lambda>(deny, sv). server_ok deny sv \<and> durable (sv_store sv)" "\<lambda>(deny, sv). server_ok deny sv \<and> durable (sv_store sv)"
  by unfold_locales (use server_step_ok server_step_durable in \<open>blast\<close>, use server_step_ok server_step_durable in \<open>clarify, blast\<close>)



end
