(* ===== verification/Group_Edits.thy ===== *)
theory Group_Edits
  imports Server_Run
begin

text \<open>
  What an edit of a group keeps, and what a consistent server asks of the firewall agent: results
  that need several components, the port specs, the groups, the listeners and the agent.
\<close>

section \<open>The port spec of a group\<close>

lemma group_add_fields:
  "go_Ports (fst (group_add sv st L acc f)) = go_Ports (fst acc)"
  "go_ClientID (fst (group_add sv st L acc f)) = go_ClientID (fst acc)"
  by (cases acc; simp add: group_add_def Let_def)+

lemma group_fold_fields:
  "go_Ports (fst (foldl (group_add sv st L) acc ms)) = go_Ports (fst acc)"
  "go_ClientID (fst (foldl (group_add sv st L) acc ms)) = go_ClientID (fst acc)"
  by (induction ms arbitrary: acc) (simp_all add: group_add_fields)

lemma groupOut_fields:
  "go_Ports (groupOut sv st L f ms) = GroupSpec ms" "go_ClientID (groupOut sv st L f ms) = f_ClientID f"
proof -
  define acc where "acc = (\<lparr>go_ID = f_GroupID f, go_ClientID = f_ClientID f,
            go_ClientName = (case ClientByID st (f_ClientID f) of Some c \<Rightarrow> c_Name c | None \<Rightarrow> []),
            go_Name = f_Name f, go_Protocol = f_Protocol f, go_Ports = GroupSpec ms,
            go_TargetHost = f_TargetHost f, go_Enabled = True, go_CreatedAt = f_CreatedAt f,
            go_UpdatedAt = f_UpdatedAt f, go_PublicHost = PublicHost sv,
            go_Stats = no_stats\<lparr>fs_Listening := True\<rparr>, go_Firewall = \<lparr>ff_State = fwClosed, ff_Error = NoError\<rparr>,
            go_Forwards = []\<rparr>, 0 :: nat)"
  obtain out n where o: "foldl (group_add sv st L) acc ms = (out, n)" by fastforce
  have "go_Ports out = GroupSpec ms" "go_ClientID out = f_ClientID f"
    using group_fold_fields[of sv st L acc ms] unfolding o by (simp_all add: acc_def)
  then show "go_Ports (groupOut sv st L f ms) = GroupSpec ms" "go_ClientID (groupOut sv st L f ms) = f_ClientID f"
    unfolding groupOut_def Let_def acc_def[symmetric] o by simp_all
qed

lemma prev_by_key_mem:
  assumes "q \<in> set prev"
  shows "prev_by_key prev (f_PublicPort q, f_Protocol q) \<noteq> None"
proof -
  have "(m k \<noteq> None \<or> (\<exists>q\<in>set prev. k = (f_PublicPort q, f_Protocol q))) \<Longrightarrow>
      foldl (\<lambda>m f. m((f_PublicPort f, f_Protocol f) \<mapsto> f)) m prev k \<noteq> None" for m k
  proof (induction prev arbitrary: m)
    case (Cons a prev)
    from Cons.prems show ?case using Cons.IH[of "m((f_PublicPort a, f_Protocol a) \<mapsto> a)"] by auto
  qed simp
  with assms show ?thesis unfolding prev_by_key_def by blast
qed

lemma entries_wf:
  assumes "config_ok tp ap st" and "ForwardsInGroup st gid \<noteq> []" and "length (ForwardsInGroup st gid) \<le> MaxGroupPorts"
  shows "wf_entries (map Entry (ForwardsInGroup st gid))"
proof -
  let ?prev = "ForwardsInGroup st gid"
  note M = members_of_group[OF assms(1), of gid]
  have ok: "forward_ok tp ap f" if "f \<in> set ?prev" for f using that M(1) config_okD(3)[OF assms(1)] by blast
  have "list_all good_entry (map Entry ?prev)"
    using ok by (auto simp: list_all_iff good_entry_def Entry_def forward_ok_def Validate_ok)
  moreover have "\<not> port_clash (Entry (?prev ! i)) (Entry (?prev ! j))" if ij: "i < j" "j < length ?prev" for i j
  proof -
    have f: "?prev ! i \<in> set ?prev" "?prev ! j \<in> set ?prev" using ij by simp_all
    have "f_ID (?prev ! i) \<noteq> f_ID (?prev ! j)" using M(2) ij by (simp add: distinct_conv_nth)
    with f M(1) config_okD(5)[OF assms(1)] have "apart (?prev ! i) (?prev ! j)" by blast
    moreover have "known_proto (f_Protocol (?prev ! i))" "known_proto (f_Protocol (?prev ! j))"
      using ok[OF f(1)] ok[OF f(2)] by (simp_all add: forward_ok_def Validate_ok)
    ultimately show ?thesis using ports_overlap_protoOverlap by (simp add: apart_def port_clash_def Entry_def)
  qed
  then have "no_clash (map Entry ?prev)" by (simp add: no_clash_def sorted_wrt_iff_nth_less)
  ultimately show ?thesis using assms(2,3) by (simp add: wf_entries_def)
qed

lemma same_key_same:
  assumes "config_ok tp ap st" and "q \<in> set (st_Forwards st)" and "o' \<in> set (st_Forwards st)"
    and "f_PublicPort q = f_PublicPort o'" and "f_Protocol q = f_Protocol o'"
  shows "q = o'"
proof -
  have "f_ID q = f_ID o'"
  proof (rule ccontr)
    assume "f_ID q \<noteq> f_ID o'"
    from config_okD(5)[OF assms(1-3) this] assms(4) have "\<not> ports_overlap q o'" by (simp add: apart_def)
    moreover have "known_proto (f_Protocol q)" using config_okD(3)[OF assms(1,2)] by (simp add: forward_ok_def Validate_ok)
    ultimately show False using known_proto_HasTCP_HasUDP[of q] assms(5) by (auto simp: ports_overlap_def HasTCP_def HasUDP_def)
  qed
  from same_id_same[OF config_okD(1)[OF assms(1)] assms(2,3) this] show ?thesis .
qed

text \<open>The identity of a member: its id, its port and what it relays to.\<close>

definition member_key :: "forward \<Rightarrow> string \<times> int \<times> string \<times> int" where
  "member_key f = (f_ID f, f_PublicPort f, f_Protocol f, f_TargetPort f)"

lemma expandGroup_same_spec:
  assumes cfg: "config_ok tp ap st" and prev: "prev = ForwardsInGroup st gid" "prev \<noteq> []" "length prev \<le> MaxGroupPorts"
    and g: "gf_Ports g = GroupSpec prev" and ex: "expandGroup env sv k gid g prev = Inr nxt"
  shows "member_key ` set nxt = member_key ` set prev"
proof -
  note M = members_of_group[OF cfg, of gid, folded prev(1)]
  obtain es g1 where p: "ParsePortSpec (gf_Ports g) (gf_Protocol g) = Inr es" and E: "expand_entries env sv gid g1 prev k es = Inr nxt"
    using expandGroup_entries[OF ex] by blast
  have "known_proto (gf_Protocol g)" using p by (simp add: ParsePortSpec_iff)
  from parse_rendered[OF entries_wf[OF cfg] this, of gid] p g prev have es: "es = sortEntries (map Entry prev)"
    by (simp add: GroupSpec_def)
  then have set_es: "set es = Entry ` set prev" by simp
  note N = expand_entries_nth[OF E]
  have one: "\<exists>q\<in>set prev. es ! j = Entry q \<and> member_key (nxt ! j) = member_key q" if j: "j < length es" for j
  proof -
    have "es ! j \<in> Entry ` set prev" using j set_es nth_mem by blast
    then obtain q where q: "q \<in> set prev" "es ! j = Entry q" by blast
    obtain r where r: "prev_by_key prev (f_PublicPort q, f_Protocol q) = Some r" using prev_by_key_mem[OF q(1)] by blast
    have "q = r" using prev_by_key_Some[OF r] q(1) M(1) by (intro same_key_same[OF cfg]) auto
    then have "member_key (member_of env gid g1 prev (k + j) (es ! j)) = member_key q"
      using r by (simp add: member_key_def member_of_def Let_def q(2) Entry_def)
    with N j q show ?thesis by metis
  qed
  show ?thesis
  proof
    show "member_key ` set nxt \<subseteq> member_key ` set prev" using one N by (force simp: in_set_conv_nth)
    show "member_key ` set prev \<subseteq> member_key ` set nxt"
    proof
      fix x assume "x \<in> member_key ` set prev"
      then obtain q where q: "q \<in> set prev" "x = member_key q" by blast
      then have "Entry q \<in> set es" using set_es by blast
      then obtain j where j: "j < length es" "es ! j = Entry q" by (auto simp: in_set_conv_nth)
      from one[OF j(1)] obtain r where r: "r \<in> set prev" "Entry q = Entry r" "member_key (nxt ! j) = member_key r" using j(2) by auto
      have "q = r" using r(1,2) q(1) M(1) by (intro same_key_same[OF cfg]) (auto simp: Entry_def)
      with r(3) q(2) j(1) N show "x \<in> member_key ` set nxt" by (metis imageI nth_mem)
    qed
  qed
qed


definition demo_rename :: group_input where
  "demo_rename = \<lparr>gi_ClientID = None, gi_Name = Some ''dns'', gi_Protocol = None, gi_Ports = None, gi_TargetHost = Some ''10.0.0.2'', gi_Enabled = Some False\<rparr>"


section \<open>The rules asked of the agent\<close>


lemma fw_Sync_ports: "fm_tunnelPort (fw_Sync env st m) = fm_tunnelPort m" "fm_adminPort (fw_Sync env st m) = fm_adminPort m"
  by (simp_all add: fw_Sync_def Let_def split: prod.split call_result.split)

lemma newServer_fw_ports:
  assumes "newServer cfg env = Inr sv"
  shows "fm_tunnelPort (sv_fw sv) = sv_tunnelPort sv \<and> fm_adminPort (sv_fw sv) = sv_adminPort sv"
  using newServer_Inr[OF assms] by (auto simp: newFwManager_def Let_def)


end
