(* ===== verification/Web_Routes.thy ===== *)
theory Web_Routes
  imports Binaries
begin

text \<open>
  The table of routes of \<open>internal/server/api.go\<close> (\<open>routes\<close>, \<open>securityHeaders\<close>): which path and method
  reaches which handler, behind which guard. \<open>http.ServeMux\<close> belongs to the standard library: a path
  that is not clean is redirected, a pattern without wildcards at its end matches whole paths, and
  the most specific matching pattern wins. The table is unambiguous, so the first match is that one;
  the two patterns that end in a slash come after all others.
\<close>

section \<open>Patterns\<close>

datatype seg = Lit string | Param

text \<open>A pattern such as \<open>/api/v1/clients/{id}\<close>.\<close>

definition pattern :: "string \<Rightarrow> seg list" where
  "pattern p = map (\<lambda>e. if has_prefix ''{'' e then Param else Lit e) (split_on CHR ''/'' (drop 1 p))"

text \<open>The path values of a match; a wildcard takes one element that is not empty.\<close>

fun match_segs :: "seg list \<Rightarrow> string list \<Rightarrow> string list option" where
  "match_segs [] [] = Some []"
| "match_segs (Lit s # ss) (e # es) = (if e = s then match_segs ss es else None)"
| "match_segs (Param # ss) (e # es) = (if e = [] then None else map_option ((#) e) (match_segs ss es))"
| "match_segs _ _ = None"

section \<open>The table\<close>

text \<open>The wrapper around a handler: none, \<open>requireAuth\<close>, \<open>requireSession\<close>.\<close>

datatype access = Public | Authenticated | SessionOnly

datatype endpoint =
    EpHealth | EpLogin | EpLogout | EpClientScript | EpClientScriptWindows | EpDownload
  | EpMe | EpStatus | EpGetSettings | EpListClients | EpCreateClient | EpGetClient | EpUpdateClient | EpDeleteClient
  | EpRotateToken | EpUpdateBinary | EpUpdateAll
  | EpListForwards | EpCreateForward | EpGetForward | EpUpdateForward | EpDeleteForward
  | EpUpdateStatus | EpUpdateCheck | EpUpdateStart
  | EpListGroups | EpCreateGroup | EpGetGroup | EpUpdateGroup | EpDeleteGroup
  | EpPutSettings | EpChangePassword | EpListTokens | EpCreateToken | EpDeleteToken
  | EpUnknown | EpWebUI

definition routes :: "(string \<times> string \<times> access \<times> endpoint) list" where
  "routes =
     [(''GET'', ''/api/v1/health'', Public, EpHealth),
      (''POST'', ''/api/v1/auth/login'', Public, EpLogin),
      (''POST'', ''/api/v1/auth/logout'', Public, EpLogout),
      (''GET'', ''/install/client.sh'', Public, EpClientScript),
      (''GET'', ''/install/client.ps1'', Public, EpClientScriptWindows),
      (''GET'', ''/dl/{name}'', Public, EpDownload),
      (''GET'', ''/api/v1/auth/me'', Authenticated, EpMe),
      (''GET'', ''/api/v1/status'', Authenticated, EpStatus),
      (''GET'', ''/api/v1/settings'', Authenticated, EpGetSettings),
      (''GET'', ''/api/v1/clients'', Authenticated, EpListClients),
      (''POST'', ''/api/v1/clients'', Authenticated, EpCreateClient),
      (''GET'', ''/api/v1/clients/{id}'', Authenticated, EpGetClient),
      (''PATCH'', ''/api/v1/clients/{id}'', Authenticated, EpUpdateClient),
      (''DELETE'', ''/api/v1/clients/{id}'', Authenticated, EpDeleteClient),
      (''POST'', ''/api/v1/clients/{id}/rotate-token'', Authenticated, EpRotateToken),
      (''POST'', ''/api/v1/clients/{id}/update'', Authenticated, EpUpdateBinary),
      (''POST'', ''/api/v1/clients/update-all'', Authenticated, EpUpdateAll),
      (''GET'', ''/api/v1/forwards'', Authenticated, EpListForwards),
      (''POST'', ''/api/v1/forwards'', Authenticated, EpCreateForward),
      (''GET'', ''/api/v1/forwards/{id}'', Authenticated, EpGetForward),
      (''PATCH'', ''/api/v1/forwards/{id}'', Authenticated, EpUpdateForward),
      (''DELETE'', ''/api/v1/forwards/{id}'', Authenticated, EpDeleteForward),
      (''GET'', ''/api/v1/server/update'', SessionOnly, EpUpdateStatus),
      (''POST'', ''/api/v1/server/update/check'', SessionOnly, EpUpdateCheck),
      (''POST'', ''/api/v1/server/update'', SessionOnly, EpUpdateStart),
      (''GET'', ''/api/v1/forward-groups'', Authenticated, EpListGroups),
      (''POST'', ''/api/v1/forward-groups'', Authenticated, EpCreateGroup),
      (''GET'', ''/api/v1/forward-groups/{id}'', Authenticated, EpGetGroup),
      (''PATCH'', ''/api/v1/forward-groups/{id}'', Authenticated, EpUpdateGroup),
      (''DELETE'', ''/api/v1/forward-groups/{id}'', Authenticated, EpDeleteGroup),
      (''PUT'', ''/api/v1/settings'', SessionOnly, EpPutSettings),
      (''POST'', ''/api/v1/auth/password'', SessionOnly, EpChangePassword),
      (''GET'', ''/api/v1/tokens'', SessionOnly, EpListTokens),
      (''POST'', ''/api/v1/tokens'', SessionOnly, EpCreateToken),
      (''DELETE'', ''/api/v1/tokens/{id}'', SessionOnly, EpDeleteToken)]"

text \<open>A pattern with the method \<open>GET\<close> also takes \<open>HEAD\<close>.\<close>

definition method_matches :: "string \<Rightarrow> string \<Rightarrow> bool" where
  "method_matches m method \<longleftrightarrow> method = m \<or> (m = ''GET'' \<and> method = ''HEAD'')"

definition match_route :: "string \<Rightarrow> string \<Rightarrow> string \<times> string \<times> access \<times> endpoint \<Rightarrow> (access \<times> endpoint \<times> string list) option" where
  "match_route method path r =
     (case r of (m, p, acc, ep) \<Rightarrow>
        if method_matches m method then map_option (\<lambda>ps. (acc, ep, ps)) (match_segs (pattern p) (split_on CHR ''/'' (drop 1 path))) else None)"

text \<open>The path the multiplexer asks for instead: clean, with a slash at its end if there was one.\<close>

definition clean_path :: "string \<Rightarrow> string" where
  "clean_path p =
     (if p = [] then ''/''
      else let np = path_clean (if has_prefix ''/'' p then p else CHR ''/'' # p)
           in if last p = CHR ''/'' \<and> np \<noteq> ''/'' then np @ ''/'' else np)"

fun first_match :: "string \<Rightarrow> string \<Rightarrow> (string \<times> string \<times> access \<times> endpoint) list \<Rightarrow> (access \<times> endpoint \<times> string list) option" where
  "first_match method path [] = None"
| "first_match method path (r # rs) =
     (case match_route method path r of Some x \<Rightarrow> Some x | None \<Rightarrow> first_match method path rs)"

definition mux_find :: "string \<Rightarrow> string \<Rightarrow> access \<times> endpoint \<times> string list" where
  "mux_find method path =
     (case first_match method path routes of
        Some x \<Rightarrow> x
      | None \<Rightarrow> if has_prefix ''/api/'' path then (Public, EpUnknown, []) else (Public, EpWebUI, []))"

definition securityHeaders :: "string \<Rightarrow> (string \<times> string) list" where
  "securityHeaders path =
     [(''X-Content-Type-Options'', ''nosniff''), (''X-Frame-Options'', ''DENY''), (''Referrer-Policy'', ''no-referrer''), (''Cache-Control'', ''no-store'')]
     @ (if \<not> has_prefix ''/install/'' path \<and> \<not> has_prefix ''/dl/'' path
        then [(''Content-Security-Policy'', ''default-src 'self'; style-src 'self' 'unsafe-inline'; img-src 'self' data:'')] else [])"

section \<open>The table is unambiguous\<close>

text \<open>Two patterns that some path matches both.\<close>

fun overlap :: "seg list \<Rightarrow> seg list \<Rightarrow> bool" where
  "overlap [] [] = True"
| "overlap (Lit a # as) (Lit b # bs) = (a = b \<and> overlap as bs)"
| "overlap (Param # as) (Param # bs) = overlap as bs"
| "overlap (Lit a # as) (Param # bs) = (a \<noteq> [] \<and> overlap as bs)"
| "overlap (Param # as) (Lit b # bs) = (b \<noteq> [] \<and> overlap as bs)"
| "overlap _ _ = False"

lemma match_overlap: "match_segs as es = Some ps \<Longrightarrow> match_segs bs es = Some qs \<Longrightarrow> overlap as bs"
  by (induction as es arbitrary: bs ps qs rule: match_segs.induct; case_tac bs; case_tac "hd bs")
    (auto split: if_splits)

fun unambiguous :: "(string \<times> seg list) list \<Rightarrow> bool" where
  "unambiguous [] = True"
| "unambiguous ((m, s) # rs) = ((\<forall>(n, t)\<in>set rs. m = n \<longrightarrow> \<not> overlap s t) \<and> unambiguous rs)"

definition compiled :: "(string \<times> seg list) list" where
  "compiled = map (\<lambda>(m, p, _). (m, pattern p)) routes"

lemma routes_unambiguous: "unambiguous compiled"
  by code_simp

lemma unambiguousD:
  assumes "unambiguous rs" "(m, s) \<in> set rs" "(m, t) \<in> set rs" "overlap s t"
  shows "s = t"
  using assms
proof (induction rs)
  case (Cons r rs)
  obtain n u where r: "r = (n, u)" by fastforce
  have sym: "overlap a b \<longleftrightarrow> overlap b a" for a b by (induction a b rule: overlap.induct) auto
  from Cons.prems(1) have head: "\<And>v. (n, v) \<in> set rs \<Longrightarrow> \<not> overlap u v" and "unambiguous rs" by (auto simp: r)
  with Cons.IH have tail: "(m, s) \<in> set rs \<Longrightarrow> (m, t) \<in> set rs \<Longrightarrow> s = t" using Cons.prems(4) by blast
  show ?case using Cons.prems(2-4) head tail sym by (auto simp: r)
qed simp

text \<open>The pattern decides the handler: no pattern of a method is there twice.\<close>

lemma compiled_keys: "distinct compiled"
  by code_simp

lemma routes_functional:
  assumes "(m, p, acc, ep) \<in> set routes" "(m, q, acc', ep') \<in> set routes" "pattern p = pattern q"
  shows "(acc, ep) = (acc', ep')"
proof -
  let ?key = "\<lambda>(m, p, _). (m, pattern p)"
  have "inj_on ?key (set routes)" using compiled_keys by (simp add: compiled_def distinct_map)
  with assms show ?thesis by (auto dest: inj_onD[of _ _ "(m, p, acc, ep)" "(m, q, acc', ep')"])
qed

lemma routes_methods: "(m, p, acc, ep) \<in> set routes \<Longrightarrow> m \<noteq> ''HEAD''"
proof -
  have "''HEAD'' \<notin> fst ` set routes" by code_simp
  then show "(m, p, acc, ep) \<in> set routes \<Longrightarrow> m \<noteq> ''HEAD''" by force
qed

lemma first_match_cases:
  "first_match method path rs = Some x \<Longrightarrow> \<exists>r\<in>set rs. match_route method path r = Some x"
  by (induction rs) (auto split: option.splits)

lemma first_match_None: "first_match method path rs = None \<longleftrightarrow> (\<forall>r\<in>set rs. match_route method path r = None)"
  by (induction rs) (auto split: option.splits)

text \<open>The first match is the only one.\<close>

lemma mux_find_route:
  assumes "(m, p, acc, ep) \<in> set routes" "method_matches m method" "match_segs (pattern p) (split_on CHR ''/'' (drop 1 path)) = Some ps"
  shows "mux_find method path = (acc, ep, ps)"
proof -
  have here: "match_route method path (m, p, acc, ep) = Some (acc, ep, ps)" using assms(2,3) by (simp add: match_route_def)
  with assms(1) have "first_match method path routes \<noteq> None" unfolding first_match_None by force
  then obtain x where x: "first_match method path routes = Some x" by blast
  from first_match_cases[OF x] obtain n q acc' ep' where r: "(n, q, acc', ep') \<in> set routes" "match_route method path (n, q, acc', ep') = Some x"
    by fastforce
  then obtain qs where q: "method_matches n method" "match_segs (pattern q) (split_on CHR ''/'' (drop 1 path)) = Some qs" "x = (acc', ep', qs)"
    by (auto simp: match_route_def split: if_splits)
  have "n = m" using assms(2) q(1) routes_methods[OF assms(1)] routes_methods[OF r(1)] by (auto simp: method_matches_def)
  moreover have "(m, pattern p) \<in> set compiled" "(n, pattern q) \<in> set compiled" using assms(1) r(1) by (force simp: compiled_def)+
  moreover have "overlap (pattern p) (pattern q)" using assms(3) q(2) by (rule match_overlap)
  ultimately have "pattern q = pattern p" using unambiguousD[OF routes_unambiguous, of m "pattern p" "pattern q"] by simp
  with routes_functional[OF assms(1) r(1)[unfolded \<open>n = m\<close>]] assms(3) q(2,3) x show ?thesis by (simp add: mux_find_def)
qed

lemma mux_find_cases:
  assumes "mux_find method path = (acc, ep, ps)"
  shows "(\<exists>m p. (m, p, acc, ep) \<in> set routes \<and> method_matches m method \<and> match_segs (pattern p) (split_on CHR ''/'' (drop 1 path)) = Some ps)
    \<or> (acc = Public \<and> ep = EpUnknown \<and> has_prefix ''/api/'' path) \<or> (acc = Public \<and> ep = EpWebUI \<and> \<not> has_prefix ''/api/'' path)"
proof (cases "first_match method path routes")
  case None
  with assms show ?thesis by (auto simp: mux_find_def split: if_splits)
next
  case (Some x)
  from first_match_cases[OF this] Some assms show ?thesis
    by (fastforce simp: mux_find_def match_route_def split: if_splits)
qed

section \<open>Every route is reached\<close>

text \<open>The path of a pattern with values for its wildcards.\<close>

fun fill :: "seg list \<Rightarrow> string list \<Rightarrow> string list" where
  "fill [] vs = []"
| "fill (Lit s # ss) vs = s # fill ss vs"
| "fill (Param # ss) vs = hd vs # fill ss (tl vs)"

definition path_of :: "string \<Rightarrow> string list \<Rightarrow> string" where
  "path_of p vs = CHR ''/'' # join ''/'' (fill (pattern p) vs)"

definition params :: "seg list \<Rightarrow> nat" where
  "params ss = length (filter (\<lambda>s. s = Param) ss)"

text \<open>A path element that stays as it is.\<close>

definition plain_elem :: "string \<Rightarrow> bool" where
  "plain_elem e \<longleftrightarrow> e \<noteq> [] \<and> e \<noteq> ''.'' \<and> e \<noteq> ''..'' \<and> CHR ''/'' \<notin> set e"

lemma match_fill: "length vs = params ss \<Longrightarrow> \<forall>v\<in>set vs. v \<noteq> [] \<Longrightarrow> match_segs ss (fill ss vs) = Some vs"
proof (induction ss arbitrary: vs)
  case (Cons s ss)
  show ?case
  proof (cases s)
    case Param
    with Cons.prems obtain v ws where "vs = v # ws" by (cases vs) (auto simp: params_def)
    with Param Cons show ?thesis by (auto simp: params_def)
  qed (use Cons in \<open>auto simp: params_def\<close>)
qed (auto simp: params_def)

lemma fill_plain:
  "length vs = params ss \<Longrightarrow> \<forall>v\<in>set vs. plain_elem v \<Longrightarrow> \<forall>s. Lit s \<in> set ss \<longrightarrow> plain_elem s \<Longrightarrow> \<forall>e\<in>set (fill ss vs). plain_elem e"
proof (induction ss arbitrary: vs)
  case (Cons s ss)
  show ?case
  proof (cases s)
    case Param
    with Cons.prems obtain v ws where "vs = v # ws" by (cases vs) (auto simp: params_def)
    with Param Cons show ?thesis by (auto simp: params_def)
  qed (use Cons in \<open>auto simp: params_def\<close>)
qed simp

lemma fill_Nil: "fill ss vs = [] \<longleftrightarrow> ss = []"
  by (induction ss vs rule: fill.induct) auto

definition plain_pattern :: "seg list \<Rightarrow> bool" where
  "plain_pattern ss \<longleftrightarrow> ss \<noteq> [] \<and> (\<forall>s\<in>set ss. case s of Lit e \<Rightarrow> plain_elem e | Param \<Rightarrow> True)"

lemma patterns_plain: "(m, p, acc, ep) \<in> set routes \<Longrightarrow> plain_pattern (pattern p)"
proof -
  have "\<forall>(m, s)\<in>set compiled. plain_pattern s" unfolding plain_pattern_def plain_elem_def by code_simp
  then show "(m, p, acc, ep) \<in> set routes \<Longrightarrow> plain_pattern (pattern p)" by (force simp: compiled_def)
qed

lemma clean_plain: "\<forall>e\<in>set es. plain_elem e \<Longrightarrow> clean_elems rooted stack es = rev stack @ es"
  by (induction es arbitrary: stack) (auto simp: plain_elem_def)

lemma last_join: "es \<noteq> [] \<Longrightarrow> \<forall>e\<in>set es. e \<noteq> [] \<Longrightarrow> join ''/'' es \<noteq> [] \<and> last (join ''/'' es) = last (last es)"
proof (induction es rule: induct_list012)
  case (3 x y zs)
  then show ?case by (cases "join ''/'' (y # zs)") auto
qed auto



end
