(* ===== verification/Auth.thy ===== *)
theory Auth
  imports Server_Run
begin

text \<open>
  Who may do what, from \<open>internal/server/auth.go\<close> and the account handlers of \<open>api.go\<close>: browser
  sessions with sliding expiry, API tokens, the login rate limit, the guard in front of the
  handlers, and the requests behind it. Times are seconds; a request reads the clock once.
\<close>

section \<open>Sessions\<close>

definition sessionTTL :: int where "sessionTTL = 7 * 24 * 3600"

record principal =
  pr_Kind :: string
  pr_Name :: string
  pr_TokenID :: string
  pr_expiresAt :: time

type_synonym session_store = "(string \<times> principal) list"

definition ss_create :: "string \<Rightarrow> time \<Rightarrow> string \<Rightarrow> session_store \<Rightarrow> string \<times> session_store" where
  "ss_create rnd now name ss =
     (let i = hex_encode rnd in
      (i, AList.update i \<lparr>pr_Kind = ''session'', pr_Name = name, pr_TokenID = [], pr_expiresAt = now + sessionTTL\<rparr> ss))"

definition ss_get :: "time \<Rightarrow> string \<Rightarrow> session_store \<Rightarrow> principal option \<times> session_store" where
  "ss_get now i ss =
     (case map_of ss i of
        None \<Rightarrow> (None, ss)
      | Some p \<Rightarrow>
          if now > pr_expiresAt p then (None, AList.delete i ss)
          else (let p1 = p\<lparr>pr_expiresAt := now + sessionTTL\<rparr> in (Some p1, AList.update i p1 ss)))"

definition ss_delete :: "string \<Rightarrow> session_store \<Rightarrow> session_store" where
  "ss_delete i ss = AList.delete i ss"

definition ss_clear :: "session_store \<Rightarrow> session_store" where
  "ss_clear ss = []"

section \<open>Rate limit of logins\<close>

definition loginMaxFailures :: nat where "loginMaxFailures = 5"
definition loginWindow :: int where "loginWindow = 15 * 60"

type_synonym login_limiter = "(string \<times> time list) list"

definition failures :: "login_limiter \<Rightarrow> string \<Rightarrow> time list" where
  "failures l ip = (case map_of l ip of Some ts \<Rightarrow> ts | None \<Rightarrow> [])"

definition recent :: "time \<Rightarrow> string \<Rightarrow> login_limiter \<Rightarrow> time list \<times> login_limiter" where
  "recent now ip l =
     (let keep = filter (\<lambda>t. t > now - loginWindow) (failures l ip)
      in (keep, if keep = [] then AList.delete ip l else AList.update ip keep l))"

definition blocked :: "time \<Rightarrow> string \<Rightarrow> login_limiter \<Rightarrow> bool \<times> login_limiter" where
  "blocked now ip l = (case recent now ip l of (keep, l1) \<Rightarrow> (length keep \<ge> loginMaxFailures, l1))"

definition limiter_fail :: "time \<Rightarrow> string \<Rightarrow> login_limiter \<Rightarrow> login_limiter" where
  "limiter_fail now ip l = (case recent now ip l of (keep, l1) \<Rightarrow> AList.update ip (keep @ [now]) l1)"

definition limiter_reset :: "string \<Rightarrow> login_limiter \<Rightarrow> login_limiter" where
  "limiter_reset ip l = AList.delete ip l"

section \<open>Requests\<close>

text \<open>What the guard looks at; an absent header is the empty string, an absent cookie \<open>None\<close>.\<close>

record http_request =
  hr_Method :: string
  hr_Authorization :: string
  hr_Cookie :: "string option"
  hr_SecFetchSite :: string
  hr_Origin :: string
  hr_Host :: string
  hr_RemoteAddr :: string

definition clientIP :: "http_request \<Rightarrow> string" where
  "clientIP r = (case SplitHostPort (hr_RemoteAddr r) of Inl _ \<Rightarrow> hr_RemoteAddr r | Inr (host, _) \<Rightarrow> host)"

definition sameOrigin :: "http_request \<Rightarrow> bool" where
  "sameOrigin r =
     (if hr_SecFetchSite r \<noteq> [] then hr_SecFetchSite r = ''same-origin'' \<or> hr_SecFetchSite r = ''none''
      else if hr_Origin r = [] then True
      else equal_fold (trim_prefix ''http://'' (trim_prefix ''https://'' (hr_Origin r))) (hr_Host r))"

record app =
  ap_server :: server
  ap_sessions :: session_store
  ap_limiter :: login_limiter

definition touch_token :: "time \<Rightarrow> string \<Rightarrow> state \<Rightarrow> (error, unit) result \<times> state" where
  "touch_token now i st =
     (Inr (), st\<lparr>st_Tokens := update_first (\<lambda>t. t_ID t = i) (\<lambda>t. t\<lparr>t_LastUsedAt := Some now\<rparr>) (st_Tokens st)\<rparr>)"

text \<open>\<open>touched\<close>: whether the save of the time of last use works; its error is ignored.\<close>

definition authenticate :: "(string \<Rightarrow> string) \<Rightarrow> time \<Rightarrow> bool \<Rightarrow> http_request \<Rightarrow> app \<Rightarrow> principal option \<times> app" where
  "authenticate sha now touched r a =
     (let h = hr_Authorization r in
      if h \<noteq> [] then
        (if \<not> has_prefix ''bearer '' (to_lower h) then (None, a)
         else let tok = trim_space (drop 7 h) in
           if \<not> has_prefix APITokenPrefix tok then (None, a)
           else case TokenByHash (sv_state (ap_server a)) (HashToken sha tok) of
             None \<Rightarrow> (None, a)
           | Some t \<Rightarrow>
               (let p = \<lparr>pr_Kind = ''token'', pr_Name = t_Name t, pr_TokenID = t_ID t, pr_expiresAt = 0\<rparr>;
                    touch = (case t_LastUsedAt t of None \<Rightarrow> True | Some u \<Rightarrow> now - u > 60)
                in (Some p,
                    if touch then a\<lparr>ap_server := set_store (snd (Update touched (touch_token now (t_ID t)) (sv_store (ap_server a)))) (ap_server a)\<rparr>
                    else a)))
      else case hr_Cookie r of
        None \<Rightarrow> (None, a)
      | Some c \<Rightarrow>
          if c = [] then (None, a)
          else (case ss_get now c (ap_sessions a) of (p, ss) \<Rightarrow> (p, a\<lparr>ap_sessions := ss\<rparr>)))"

definition guard :: "(string \<Rightarrow> string) \<Rightarrow> time \<Rightarrow> bool \<Rightarrow> bool \<Rightarrow> http_request \<Rightarrow> app \<Rightarrow> (nat, principal) result \<times> app" where
  "guard sha now touched sessionOnly r a =
     (case authenticate sha now touched r a of
        (None, a1) \<Rightarrow> (Inl 401, a1)
      | (Some p, a1) \<Rightarrow>
          if sessionOnly \<and> pr_Kind p \<noteq> ''session'' then (Inl 403, a1)
          else if pr_Kind p = ''session'' \<and> hr_Method r \<noteq> ''GET'' \<and> hr_Method r \<noteq> ''HEAD'' \<and> \<not> sameOrigin r then (Inl 403, a1)
          else (Inr p, a1))"

section \<open>The account handlers\<close>

text \<open>The reply is a status and, for a login, the cookie.\<close>

definition handleLogin ::
  "kdf \<Rightarrow> time \<Rightarrow> string \<Rightarrow> http_request \<Rightarrow> string \<Rightarrow> string \<Rightarrow> app \<Rightarrow> (nat \<times> string option) \<times> app" where
  "handleLogin kdf now rnd r user pw a =
     (let ip = clientIP r in
      case blocked now ip (ap_limiter a) of
        (True, l) \<Rightarrow> ((429, None), a\<lparr>ap_limiter := l\<rparr>)
      | (False, l) \<Rightarrow>
          (let adm = st_Admin (sv_state (ap_server a)) in
           if \<not> (equal_fold user (a_Username adm) \<and> CheckPassword kdf adm pw)
           then ((401, None), a\<lparr>ap_limiter := limiter_fail now ip l\<rparr>)
           else (case ss_create rnd now (a_Username adm) (ap_sessions a) of
                   (i, ss) \<Rightarrow> ((200, Some i), a\<lparr>ap_limiter := limiter_reset ip l, ap_sessions := ss\<rparr>))))"

definition handleLogout :: "http_request \<Rightarrow> app \<Rightarrow> nat \<times> app" where
  "handleLogout r a =
     (200, case hr_Cookie r of None \<Rightarrow> a | Some c \<Rightarrow> a\<lparr>ap_sessions := ss_delete c (ap_sessions a)\<rparr>)"

definition change_password :: "kdf \<Rightarrow> string \<Rightarrow> string \<Rightarrow> string \<Rightarrow> state \<Rightarrow> (error, unit) result \<times> state" where
  "change_password kdf salt cur new st =
     (if \<not> CheckPassword kdf (st_Admin st) cur then (Inl (ErrValidation, WrongPassword), st)
      else case SetPassword kdf salt new (st_Admin st) of
        Inl e \<Rightarrow> (Inl e, st)
      | Inr adm \<Rightarrow> (Inr (), st\<lparr>st_Admin := adm\<rparr>))"

definition handleChangePassword :: "kdf \<Rightarrow> bool \<Rightarrow> string \<Rightarrow> string \<Rightarrow> string \<Rightarrow> app \<Rightarrow> nat \<times> app" where
  "handleChangePassword kdf saved salt cur new a =
     (if length new < 10 then (400, a)
      else case Update saved (change_password kdf salt cur new) (sv_store (ap_server a)) of
        (Inl e, s) \<Rightarrow> (store_error_status e, a\<lparr>ap_server := set_store s (ap_server a)\<rparr>)
      | (Inr _, s) \<Rightarrow> (200, a\<lparr>ap_server := set_store s (ap_server a), ap_sessions := ss_clear (ap_sessions a)\<rparr>))"

section \<open>Routes\<close>

definition session_only :: "request \<Rightarrow> bool" where
  "session_only req \<longleftrightarrow> (case req of PutSettings _ \<Rightarrow> True | CreateToken _ \<Rightarrow> True | DeleteToken _ \<Rightarrow> True | _ \<Rightarrow> False)"

definition route_method :: "request \<Rightarrow> string" where
  "route_method req =
     (case req of
        UpdateForward _ _ \<Rightarrow> ''PATCH'' | UpdateGroup _ _ \<Rightarrow> ''PATCH'' | UpdateClient _ _ \<Rightarrow> ''PATCH''
      | DeleteForward _ \<Rightarrow> ''DELETE'' | DeleteGroup _ \<Rightarrow> ''DELETE'' | DeleteClient _ \<Rightarrow> ''DELETE'' | DeleteToken _ \<Rightarrow> ''DELETE''
      | PutSettings _ \<Rightarrow> ''PUT'' | _ \<Rightarrow> ''POST'')"

text \<open>A path asked for with another method falls through to the unknown endpoint.\<close>

definition serve ::
  "(string \<Rightarrow> string) \<Rightarrow> bool \<Rightarrow> bool \<Rightarrow> string \<Rightarrow> request_env \<Rightarrow> http_request \<Rightarrow> request \<Rightarrow> app \<Rightarrow> nat \<times> app" where
  "serve sha touched ss fp env r req a =
     (if hr_Method r \<noteq> route_method req then (404, a)
      else case guard sha (ev_now env) touched (session_only req) r a of
        (Inl st, a1) \<Rightarrow> (st, a1)
      | (Inr p, a1) \<Rightarrow> (case dispatch ss fp sha env req (ap_server a1) of (st, sv) \<Rightarrow> (st, a1\<lparr>ap_server := sv\<rparr>)))"

definition serve_password ::
  "(string \<Rightarrow> string) \<Rightarrow> bool \<Rightarrow> kdf \<Rightarrow> request_env \<Rightarrow> http_request \<Rightarrow> string \<Rightarrow> string \<Rightarrow> app \<Rightarrow> nat \<times> app" where
  "serve_password sha touched kdf env r cur new a =
     (case guard sha (ev_now env) touched True r a of
        (Inl st, a1) \<Rightarrow> (st, a1)
      | (Inr p, a1) \<Rightarrow> handleChangePassword kdf (ev_saved env) (ev_rand env 0) cur new a1)"

section \<open>Histories\<close>

text \<open>What can happen to the sessions: logins, logouts, password changes and guarded requests.\<close>

datatype auth_event =
    Login time string http_request string string
  | Logout http_request
  | NewPassword bool request_env http_request string string
  | Guarded bool bool string request_env http_request request

fun auth_step :: "(string \<Rightarrow> string) \<Rightarrow> kdf \<Rightarrow> auth_event \<Rightarrow> app \<Rightarrow> nat \<times> app" where
  "auth_step sha kdf (Login now rnd r user pw) a = (case handleLogin kdf now rnd r user pw a of ((st, _), a1) \<Rightarrow> (st, a1))"
| "auth_step sha kdf (Logout r) a = handleLogout r a"
| "auth_step sha kdf (NewPassword touched env r cur new) a = serve_password sha touched kdf env r cur new a"
| "auth_step sha kdf (Guarded touched ss fp env r req) a = serve sha touched ss fp env r req a"

definition auth_run :: "(string \<Rightarrow> string) \<Rightarrow> kdf \<Rightarrow> auth_event list \<Rightarrow> app \<Rightarrow> app" where
  "auth_run sha kdf es a = foldl (\<lambda>a e. snd (auth_step sha kdf e a)) a es"

lemma auth_run_simps [simp]:
  "auth_run sha kdf [] a = a" "auth_run sha kdf (es @ [e]) a = snd (auth_step sha kdf e (auth_run sha kdf es a))"
  by (simp_all add: auth_run_def)

section \<open>Credentials\<close>

text \<open>A live session cookie, and a bearer token the store knows.\<close>

definition live_session :: "time \<Rightarrow> http_request \<Rightarrow> app \<Rightarrow> bool" where
  "live_session now r a \<longleftrightarrow> hr_Authorization r = [] \<and>
     (\<exists>c p. hr_Cookie r = Some c \<and> map_of (ap_sessions a) c = Some p \<and> now \<le> pr_expiresAt p)"

definition known_token :: "(string \<Rightarrow> string) \<Rightarrow> http_request \<Rightarrow> app \<Rightarrow> bool" where
  "known_token sha r a \<longleftrightarrow>
     (\<exists>t\<in>set (st_Tokens (sv_state (ap_server a))). \<exists>tok. has_prefix ''bearer '' (to_lower (hr_Authorization r))
        \<and> tok = trim_space (drop 7 (hr_Authorization r)) \<and> has_prefix APITokenPrefix tok \<and> t_TokenHash t = HashToken sha tok)"

text \<open>Only the time of last use of a token may change before the guard has decided.\<close>

definition only_touched :: "app \<Rightarrow> app \<Rightarrow> bool" where
  "only_touched a a1 \<longleftrightarrow>
     (\<exists>ts. sv_state (ap_server a1) = (sv_state (ap_server a))\<lparr>st_Tokens := ts\<rparr>
        \<and> map (\<lambda>t. t\<lparr>t_LastUsedAt := None\<rparr>) ts = map (\<lambda>t. t\<lparr>t_LastUsedAt := None\<rparr>) (st_Tokens (sv_state (ap_server a))))
     \<and> sv_tunnel (ap_server a1) = sv_tunnel (ap_server a) \<and> sv_fw (ap_server a1) = sv_fw (ap_server a)"

lemma only_touched_refl [simp]: "only_touched a a"
  by (auto simp: only_touched_def intro: exI[of _ "st_Tokens (sv_state (ap_server a))"])

lemma only_touched_sessions [simp]: "only_touched a (a\<lparr>ap_sessions := ss\<rparr>)"
  by (auto simp: only_touched_def intro: exI[of _ "st_Tokens (sv_state (ap_server a))"])

lemma only_touched_token:
  "only_touched a (a\<lparr>ap_server := set_store (snd (Update saved (touch_token now i) (sv_store (ap_server a)))) (ap_server a)\<rparr>)"
  unfolding only_touched_def
proof (intro conjI exI)
  let ?ts = "update_first (\<lambda>t. t_ID t = i) (\<lambda>t. t\<lparr>t_LastUsedAt := Some now\<rparr>) (st_Tokens (sv_state (ap_server a)))"
  show "sv_state (ap_server (a\<lparr>ap_server := set_store (snd (Update saved (touch_token now i) (sv_store (ap_server a)))) (ap_server a)\<rparr>))
      = (sv_state (ap_server a))\<lparr>st_Tokens := ?ts\<rparr>"
    by (simp add: Update_mem touch_token_def)
  show "map (\<lambda>t. t\<lparr>t_LastUsedAt := None\<rparr>) ?ts = map (\<lambda>t. t\<lparr>t_LastUsedAt := None\<rparr>) (st_Tokens (sv_state (ap_server a)))"
    by (rule map_update_first_same) simp
qed (simp_all add: set_store_def)

text \<open>Every stored session is a browser session.\<close>

definition sessions_typed :: "session_store \<Rightarrow> bool" where
  "sessions_typed ss \<longleftrightarrow> (\<forall>i p. map_of ss i = Some p \<longrightarrow> pr_Kind p = ''session'')"

lemma ss_get_cases:
  assumes "ss_get now c ss = (q, ss')"
  shows "(\<forall>i. map_of ss' i \<noteq> None \<longrightarrow> map_of ss i \<noteq> None) \<and> (sessions_typed ss \<longrightarrow> sessions_typed ss')
    \<and> (\<forall>p. q = Some p \<longrightarrow> (\<exists>p0. map_of ss c = Some p0 \<and> now \<le> pr_expiresAt p0 \<and> p = p0\<lparr>pr_expiresAt := now + sessionTTL\<rparr>))"
  using assms by (auto simp: ss_get_def Let_def sessions_typed_def update_conv' delete_conv' split: option.splits if_splits)

lemma authenticate_cases:
  assumes "sessions_typed (ap_sessions a)" and "authenticate sha now touched r a = (po, a1)"
  shows "only_touched a a1
    \<and> (\<forall>p. po = Some p \<longrightarrow> (pr_Kind p = ''session'' \<and> live_session now r a) \<or> (pr_Kind p = ''token'' \<and> known_token sha r a))"
proof (cases "hr_Authorization r = []")
  case True
  show ?thesis
  proof (cases "hr_Cookie r")
    case None
    with assms True show ?thesis by (simp add: authenticate_def)
  next
    case (Some c)
    obtain q ss where g: "ss_get now c (ap_sessions a) = (q, ss)" by fastforce
    have "pr_Kind p = ''session'' \<and> live_session now r a" if "q = Some p" for p
      using ss_get_cases[OF g] that assms(1) True Some by (auto simp: live_session_def sessions_typed_def)
    moreover have "a1 = a \<and> po = None \<or> a1 = a\<lparr>ap_sessions := ss\<rparr> \<and> po = q"
      using assms True Some g by (auto simp: authenticate_def split: if_splits)
    ultimately show ?thesis by auto
  qed
next
  case False
  let ?tok = "trim_space (drop 7 (hr_Authorization r))"
  show ?thesis
  proof (cases "has_prefix ''bearer '' (to_lower (hr_Authorization r)) \<and> has_prefix APITokenPrefix ?tok")
    case True
    show ?thesis
    proof (cases "TokenByHash (sv_state (ap_server a)) (HashToken sha ?tok)")
      case None
      with assms False True show ?thesis by (simp add: authenticate_def Let_def)
    next
      case (Some t)
      then have "t \<in> set (st_Tokens (sv_state (ap_server a))) \<and> t_TokenHash t = HashToken sha ?tok"
        by (auto simp: TokenByHash_def dest: find_Some_set)
      with True have "known_token sha r a" unfolding known_token_def by blast
      moreover have "only_touched a a1" "po = Some \<lparr>pr_Kind = ''token'', pr_Name = t_Name t, pr_TokenID = t_ID t, pr_expiresAt = 0\<rparr>"
        using assms False True Some only_touched_token by (auto simp: authenticate_def Let_def split: if_splits)
      ultimately show ?thesis by simp
    qed
  next
    case no: False
    with assms(2) False have "po = None \<and> a1 = a"
      by (cases "has_prefix ''bearer '' (to_lower (hr_Authorization r))") (simp_all add: authenticate_def Let_def)
    then show ?thesis by simp
  qed
qed


lemma authenticate_sessions:
  assumes "authenticate sha now touched r a = (po, a1)"
  shows "(\<forall>i. map_of (ap_sessions a1) i \<noteq> None \<longrightarrow> map_of (ap_sessions a) i \<noteq> None) \<and> (sessions_typed (ap_sessions a) \<longrightarrow> sessions_typed (ap_sessions a1))
    \<and> ap_limiter a1 = ap_limiter a"
proof -
  have "(\<exists>c q. ss_get now c (ap_sessions a) = (q, ap_sessions a1)) \<or> ap_sessions a1 = ap_sessions a" "ap_limiter a1 = ap_limiter a"
    using assms by (auto simp: authenticate_def Let_def split: if_splits option.splits prod.splits) blast
  moreover have "(\<forall>i. map_of (ap_sessions a1) i \<noteq> None \<longrightarrow> map_of (ap_sessions a) i \<noteq> None)
      \<and> (sessions_typed (ap_sessions a) \<longrightarrow> sessions_typed (ap_sessions a1))"
    if "ss_get now c (ap_sessions a) = (q, ap_sessions a1)" for c q using ss_get_cases[OF that] by simp
  ultimately show ?thesis by auto
qed

lemma guard_sessions:
  assumes "guard sha now touched so r a = (g, a1)"
  shows "(\<forall>i. map_of (ap_sessions a1) i \<noteq> None \<longrightarrow> map_of (ap_sessions a) i \<noteq> None) \<and> (sessions_typed (ap_sessions a) \<longrightarrow> sessions_typed (ap_sessions a1))
    \<and> ap_limiter a1 = ap_limiter a"
proof -
  obtain po a2 where p: "authenticate sha now touched r a = (po, a2)" by fastforce
  with assms have "a1 = a2" by (auto simp: guard_def split: option.splits if_splits)
  with authenticate_sessions[OF p] show ?thesis by simp
qed

lemma guard_cases:
  assumes "sessions_typed (ap_sessions a)" and "guard sha now touched so r a = (g, a1)"
  shows "only_touched a a1 \<and> (\<forall>st. g = Inl st \<longrightarrow> st = 401 \<or> st = 403)
    \<and> (\<forall>p. g = Inr p \<longrightarrow> (live_session now r a \<and> (hr_Method r \<in> {''GET'', ''HEAD''} \<or> sameOrigin r)) \<or> (\<not> so \<and> known_token sha r a))"
proof -
  obtain po a2 where p: "authenticate sha now touched r a = (po, a2)" by fastforce
  note A = authenticate_cases[OF assms(1) p]
  have "a1 = a2" using assms(2) p by (auto simp: guard_def split: option.splits if_splits)
  with A show ?thesis using assms(2) p by (auto simp: guard_def split: option.splits if_splits)
qed

text \<open>One event: new sessions come from successful logins only.\<close>

definition logs_in :: "kdf \<Rightarrow> string \<Rightarrow> auth_event \<Rightarrow> app \<Rightarrow> bool" where
  "logs_in kdf i e a \<longleftrightarrow>
     (\<exists>now rnd r user pw. e = Login now rnd r user pw \<and> i = hex_encode rnd
        \<and> equal_fold user (a_Username (st_Admin (sv_state (ap_server a)))) \<and> CheckPassword kdf (st_Admin (sv_state (ap_server a))) pw
        \<and> fst (handleLogin kdf now rnd r user pw a) = (200, Some i))"

definition changes_password :: "(string \<Rightarrow> string) \<Rightarrow> kdf \<Rightarrow> auth_event \<Rightarrow> app \<Rightarrow> bool" where
  "changes_password sha kdf e a \<longleftrightarrow>
     (\<exists>touched env r cur new. e = NewPassword touched env r cur new \<and> fst (auth_step sha kdf e a) = 200)"

lemma auth_step_sessions:
  assumes "sessions_typed (ap_sessions a)" and "auth_step sha kdf e a = (st, a1)"
  shows "sessions_typed (ap_sessions a1)
    \<and> (\<forall>i. map_of (ap_sessions a1) i \<noteq> None \<longrightarrow> (map_of (ap_sessions a) i \<noteq> None \<and> \<not> changes_password sha kdf e a) \<or> logs_in kdf i e a)"
proof (cases e)
  case (Login now rnd r user pw)
  then show ?thesis using assms
    by (auto simp: handleLogin_def Let_def ss_create_def sessions_typed_def logs_in_def changes_password_def update_conv'
        split: prod.splits bool.splits if_splits)
next
  case (Logout r)
  then show ?thesis using assms
    by (auto simp: handleLogout_def ss_delete_def sessions_typed_def changes_password_def delete_conv' split: option.splits if_splits)
next
  case (Guarded touched ss fp env r req)
  obtain g a2 where g: "guard sha (ev_now env) touched (session_only req) r a = (g, a2)" by fastforce
  have "a1 = a \<or> ap_sessions a1 = ap_sessions a2"
    using assms(2) Guarded g by (auto simp: serve_def split: if_splits sum.splits prod.splits)
  with guard_sessions[OF g] assms(1) show ?thesis using Guarded by (auto simp: changes_password_def)
next
  case (NewPassword touched env r cur new)
  obtain g a2 where g: "guard sha (ev_now env) touched True r a = (g, a2)" by fastforce
  show ?thesis
  proof (cases g)
    case (Inl s)
    then have "a1 = a2" "st = s" using assms(2) NewPassword g by (simp_all add: serve_password_def)
    moreover have "s = 401 \<or> s = 403" using guard_cases[OF assms(1) g] Inl by blast
    ultimately show ?thesis using guard_sessions[OF g] assms NewPassword by (auto simp: changes_password_def)
  next
    case (Inr p)
    then have h: "handleChangePassword kdf (ev_saved env) (ev_rand env 0) cur new a2 = (st, a1)"
      using assms(2) NewPassword g by (simp add: serve_password_def)
    have "store_error_status x \<noteq> 200" for x using store_error_status_not_ok[of x] by auto
    with h have "(st = 200 \<and> ap_sessions a1 = []) \<or> (st \<noteq> 200 \<and> ap_sessions a1 = ap_sessions a2)"
      by (auto simp: handleChangePassword_def ss_clear_def split: if_splits prod.splits sum.splits)
    then show ?thesis using guard_sessions[OF g] assms NewPassword by (auto simp: changes_password_def sessions_typed_def)
  qed
qed

lemma auth_run_typed:
  assumes "sessions_typed (ap_sessions a)"
  shows "sessions_typed (ap_sessions (auth_run sha kdf es a))"
proof (induction es rule: rev_induct)
  case (snoc e es)
  obtain st a1 where "auth_step sha kdf e (auth_run sha kdf es a) = (st, a1)" by fastforce
  with auth_step_sessions[OF snoc this] show ?case by simp
qed (simp add: assms)

lemma session_has_login:
  assumes "ap_sessions a = []" and "map_of (ap_sessions (auth_run sha kdf es a)) i \<noteq> None"
  shows "\<exists>es1 e es2. es = es1 @ e # es2 \<and> logs_in kdf i e (auth_run sha kdf es1 a)
    \<and> (\<forall>es3 e' es4. es2 = es3 @ e' # es4 \<longrightarrow> \<not> changes_password sha kdf e' (auth_run sha kdf (es1 @ e # es3) a))"
  using assms(2)
proof (induction es rule: rev_induct)
  case Nil
  then show ?case by (simp add: assms(1))
next
  case (snoc x es)
  obtain st a1 where x: "auth_step sha kdf x (auth_run sha kdf es a) = (st, a1)" by fastforce
  have t: "sessions_typed (ap_sessions (auth_run sha kdf es a))"
    by (rule auth_run_typed) (simp add: assms(1) sessions_typed_def)
  have "map_of (ap_sessions a1) i \<noteq> None" using snoc.prems x by simp
  with auth_step_sessions[OF t x] have
    "(map_of (ap_sessions (auth_run sha kdf es a)) i \<noteq> None \<and> \<not> changes_password sha kdf x (auth_run sha kdf es a))
      \<or> logs_in kdf i x (auth_run sha kdf es a)" by blast
  then show ?case
  proof
    assume "logs_in kdf i x (auth_run sha kdf es a)"
    then have "es @ [x] = es @ x # [] \<and> logs_in kdf i x (auth_run sha kdf es a)
      \<and> (\<forall>es3 e' es4. [] = es3 @ e' # es4 \<longrightarrow> \<not> changes_password sha kdf e' (auth_run sha kdf (es @ x # es3) a))" by simp
    then show ?thesis by blast
  next
    assume h: "map_of (ap_sessions (auth_run sha kdf es a)) i \<noteq> None \<and> \<not> changes_password sha kdf x (auth_run sha kdf es a)"
    from snoc.IH[OF conjunct1[OF h]] obtain es1 e es2 where e: "es = es1 @ e # es2" "logs_in kdf i e (auth_run sha kdf es1 a)"
      "\<And>es3 e' es4. es2 = es3 @ e' # es4 \<Longrightarrow> \<not> changes_password sha kdf e' (auth_run sha kdf (es1 @ e # es3) a)" by blast
    have "\<not> changes_password sha kdf e' (auth_run sha kdf (es1 @ e # es3) a)" if "es2 @ [x] = es3 @ e' # es4" for es3 e' es4
    proof (cases es4 rule: rev_cases)
      case Nil
      with that have "es3 = es2" "e' = x" by simp_all
      with h e(1) show ?thesis by simp
    next
      case (snoc zs z)
      with that have "es2 = es3 @ e' # zs" by simp
      with e(3) show ?thesis by blast
    qed
    then have "es @ [x] = es1 @ e # (es2 @ [x]) \<and> logs_in kdf i e (auth_run sha kdf es1 a)
      \<and> (\<forall>es3 e' es4. es2 @ [x] = es3 @ e' # es4 \<longrightarrow> \<not> changes_password sha kdf e' (auth_run sha kdf (es1 @ e # es3) a))"
      using e(1,2) by simp
    then show ?thesis by blast
  qed
qed

section \<open>Properties of the guard and the login\<close>

lemma route_method_changes: "route_method req \<noteq> ''GET'' \<and> route_method req \<noteq> ''HEAD''"
  by (simp add: route_method_def split: request.split)

text \<open>
  C2: no change without credentials. Whatever logins, logouts, password changes and requests came
  before, a changing request has one of three outcomes: it is turned away (401, 403 or an unknown
  endpoint) with forwards, clients, settings, listeners and firewall untouched, and of the tokens
  all but the time of last use; or it came with a live session cookie, from the same origin, and
  that session goes back to a login with the administrator's name and password after which the
  password was not changed; or it is not one of the requests kept for browsers (settings and
  tokens) and came with a bearer token whose hash is stored.
\<close>

theorem changes_need_credentials:
  assumes "ap_sessions a0 = []" and "a = auth_run sha kdf es a0" and "serve sha touched ss fp env r req a = (st, a1)"
  shows "(st \<in> {401, 403, 404} \<and> only_touched a a1)
    \<or> (live_session (ev_now env) r a \<and> sameOrigin r
        \<and> (\<exists>i es1 e es2. hr_Cookie r = Some i \<and> es = es1 @ e # es2 \<and> logs_in kdf i e (auth_run sha kdf es1 a0)
             \<and> (\<forall>es3 e' es4. es2 = es3 @ e' # es4 \<longrightarrow> \<not> changes_password sha kdf e' (auth_run sha kdf (es1 @ e # es3) a0))))
    \<or> (\<not> session_only req \<and> known_token sha r a)"
proof (cases "hr_Method r = route_method req")
  case False
  with assms(3) show ?thesis by (simp add: serve_def)
next
  case True
  have t: "sessions_typed (ap_sessions a)"
    unfolding assms(2) by (rule auth_run_typed) (simp add: assms(1) sessions_typed_def)
  obtain g a2 where g: "guard sha (ev_now env) touched (session_only req) r a = (g, a2)" by fastforce
  note G = guard_cases[OF t g]
  show ?thesis
  proof (cases g)
    case (Inl s)
    then have "st = s" "a1 = a2" using assms(3) True g by (simp_all add: serve_def)
    with G Inl show ?thesis by auto
  next
    case (Inr p)
    with G route_method_changes[of req] True have
      "(live_session (ev_now env) r a \<and> sameOrigin r) \<or> (\<not> session_only req \<and> known_token sha r a)" by auto
    then show ?thesis
    proof
      assume l: "live_session (ev_now env) r a \<and> sameOrigin r"
      then obtain i where i: "hr_Cookie r = Some i" "map_of (ap_sessions (auth_run sha kdf es a0)) i \<noteq> None"
        by (auto simp: live_session_def assms(2))
      from session_has_login[OF assms(1) i(2)] i(1) l show ?thesis by blast
    qed blast
  qed
qed

text \<open>The limiter's lists of failures.\<close>

lemma failures_recent:
  "failures (snd (recent now ip l)) j = (if j = ip then filter (\<lambda>t. t > now - loginWindow) (failures l ip) else failures l j)"
  "fst (recent now ip l) = filter (\<lambda>t. t > now - loginWindow) (failures l ip)"
  by (auto simp: recent_def Let_def failures_def delete_conv' update_conv' split: option.splits)

lemma failures_fail:
  "failures (limiter_fail now ip l) j
    = (if j = ip then filter (\<lambda>t. t > now - loginWindow) (failures l ip) @ [now] else failures l j)"
proof -
  obtain k l1 where r: "recent now ip l = (k, l1)" by fastforce
  have "failures (AList.update ip (k @ [now]) l1) j = (if j = ip then k @ [now] else failures l1 j)"
    by (simp add: failures_def update_conv')
  with failures_recent[of now ip l] show ?thesis by (simp add: limiter_fail_def r)
qed

lemma failures_reset: "failures (limiter_reset ip l) j = (if j = ip then [] else failures l j)"
  by (simp add: failures_def limiter_reset_def delete_conv')

definition in_window :: "time \<Rightarrow> time list \<Rightarrow> time list" where
  "in_window T ts = filter (\<lambda>t. T - loginWindow < t \<and> t \<le> T) ts"

text \<open>The limiter knows the failures \<open>F\<close> that still count, and they are few.\<close>

definition limited :: "time list \<Rightarrow> time list \<Rightarrow> time \<Rightarrow> bool" where
  "limited F l t0 \<longleftrightarrow> (\<forall>t\<in>set F. t \<le> t0)
     \<and> (\<forall>T\<ge>t0. filter (\<lambda>t. t > T - loginWindow) l = filter (\<lambda>t. t > T - loginWindow) F)
     \<and> (\<forall>T. length (in_window T F) \<le> loginMaxFailures)"

lemma filter_window: "(T0 :: int) \<le> T \<Longrightarrow> filter (\<lambda>t. t > T - w) (filter (\<lambda>t. t > T0 - w) l) = filter (\<lambda>t. t > T - w) l"
  by (induction l) auto

lemma limited_later:
  assumes "limited F l t0" and "t0 \<le> now"
  shows "limited F (filter (\<lambda>t. t > now - loginWindow) l) now"
proof -
  have "filter (\<lambda>t. t > T - loginWindow) (filter (\<lambda>t. t > now - loginWindow) l) = filter (\<lambda>t. t > T - loginWindow) F"
    if "now \<le> T" for T
    unfolding filter_window[OF that] using assms that by (simp add: limited_def)
  then show ?thesis using assms unfolding limited_def by fastforce
qed

lemma limited_fail:
  assumes "limited F l t0" and "t0 \<le> now" and "length (filter (\<lambda>t. t > now - loginWindow) l) < loginMaxFailures"
  shows "limited (F @ [now]) (filter (\<lambda>t. t > now - loginWindow) l @ [now]) now"
  unfolding limited_def
proof (intro conjI allI impI ballI)
  have le: "\<forall>t\<in>set F. t \<le> now" using assms(1,2) by (auto simp: limited_def)
  show "t \<le> now" if "t \<in> set (F @ [now])" for t using that le by auto
  have eq: "filter (\<lambda>t. t > T - loginWindow) l = filter (\<lambda>t. t > T - loginWindow) F" if "now \<le> T" for T
    using assms(1,2) that by (simp add: limited_def)
  show "filter (\<lambda>t. t > T - loginWindow) (filter (\<lambda>t. t > now - loginWindow) l @ [now])
      = filter (\<lambda>t. t > T - loginWindow) (F @ [now])" if "now \<le> T" for T
    unfolding filter_append filter_window[OF that] eq[OF that] ..
  show "length (in_window T (F @ [now])) \<le> loginMaxFailures" for T
  proof (cases "T - loginWindow < now \<and> now \<le> T")
    case True
    have "in_window T F = filter (\<lambda>t. t > T - loginWindow) F"
      unfolding in_window_def by (rule filter_cong) (use le True in auto)
    also have "\<dots> = filter (\<lambda>t. t > T - loginWindow) (filter (\<lambda>t. t > now - loginWindow) l)"
      by (rule trans[OF eq[symmetric] filter_window[symmetric]]) (use True in simp_all)
    also have "length \<dots> \<le> length (filter (\<lambda>t. t > now - loginWindow) l)" by (rule length_filter_le)
    finally have "length (in_window T F) < loginMaxFailures" using assms(3) by simp
    then show ?thesis using True by (simp add: in_window_def)
  next
    case False
    then have "in_window T (F @ [now]) = in_window T F" by (auto simp: in_window_def)
    with assms(1) show ?thesis by (simp add: limited_def)
  qed
qed

text \<open>The failed logins of an address in a history, and that none of its logins succeeds.\<close>

fun failed_logins :: "(string \<Rightarrow> string) \<Rightarrow> kdf \<Rightarrow> string \<Rightarrow> auth_event list \<Rightarrow> app \<Rightarrow> time list" where
  "failed_logins sha kdf ip [] a = []"
| "failed_logins sha kdf ip (e # es) a =
     (case auth_step sha kdf e a of (st, a1) \<Rightarrow>
        (case e of Login now _ r _ _ \<Rightarrow> (if clientIP r = ip \<and> st = 401 then [now] else []) | _ \<Rightarrow> [])
        @ failed_logins sha kdf ip es a1)"

fun no_login :: "(string \<Rightarrow> string) \<Rightarrow> kdf \<Rightarrow> string \<Rightarrow> auth_event list \<Rightarrow> app \<Rightarrow> bool" where
  "no_login sha kdf ip [] a \<longleftrightarrow> True"
| "no_login sha kdf ip (e # es) a \<longleftrightarrow>
     (case auth_step sha kdf e a of (st, a1) \<Rightarrow>
        (case e of Login now _ r _ _ \<Rightarrow> clientIP r = ip \<longrightarrow> st \<noteq> 200 | _ \<Rightarrow> True) \<and> no_login sha kdf ip es a1)"

fun login_times :: "auth_event list \<Rightarrow> time list" where
  "login_times [] = []"
| "login_times (Login now _ _ _ _ # es) = now # login_times es"
| "login_times (_ # es) = login_times es"

lemma login_limiter_step:
  assumes "handleLogin kdf now rnd r user pw a = ((st, c), a1)"
  shows "st = 200
    \<or> (st = 429 \<and> failures (ap_limiter a1) (clientIP r) = filter (\<lambda>t. t > now - loginWindow) (failures (ap_limiter a) (clientIP r)))
    \<or> (st = 401 \<and> length (filter (\<lambda>t. t > now - loginWindow) (failures (ap_limiter a) (clientIP r))) < loginMaxFailures
        \<and> failures (ap_limiter a1) (clientIP r) = filter (\<lambda>t. t > now - loginWindow) (failures (ap_limiter a) (clientIP r)) @ [now])"
    and "j \<noteq> clientIP r \<Longrightarrow> failures (ap_limiter a1) j = failures (ap_limiter a) j"
proof -
  obtain k l where r: "recent now (clientIP r) (ap_limiter a) = (k, l)" by fastforce
  note R = failures_recent[of now "clientIP r" "ap_limiter a", unfolded r]
  show "st = 200
    \<or> (st = 429 \<and> failures (ap_limiter a1) (clientIP r) = filter (\<lambda>t. t > now - loginWindow) (failures (ap_limiter a) (clientIP r)))
    \<or> (st = 401 \<and> length (filter (\<lambda>t. t > now - loginWindow) (failures (ap_limiter a) (clientIP r))) < loginMaxFailures
        \<and> failures (ap_limiter a1) (clientIP r) = filter (\<lambda>t. t > now - loginWindow) (failures (ap_limiter a) (clientIP r)) @ [now])"
    using assms R by (auto simp: handleLogin_def Let_def blocked_def r failures_fail filter_window split: if_splits prod.splits bool.splits)
  show "j \<noteq> clientIP r \<Longrightarrow> failures (ap_limiter a1) j = failures (ap_limiter a) j"
    using assms R(1)[of j] by (auto simp: handleLogin_def Let_def blocked_def r failures_fail failures_reset split: if_splits prod.splits bool.splits)
qed

lemma other_event_limiter:
  assumes "auth_step sha kdf e a = (st, a1)" and "\<And>now rnd r user pw. e \<noteq> Login now rnd r user pw"
  shows "ap_limiter a1 = ap_limiter a"
proof (cases e)
  case (Login now rnd r user pw)
  with assms(2)[of now rnd r user pw] show ?thesis by simp
next
  case (Logout r)
  with assms(1) show ?thesis by (auto simp: handleLogout_def split: option.splits)
next
  case (Guarded touched ss fp env r req)
  obtain g a2 where g: "guard sha (ev_now env) touched (session_only req) r a = (g, a2)" by fastforce
  have "a1 = a \<or> ap_limiter a1 = ap_limiter a2"
    using assms(1) Guarded g by (auto simp: serve_def split: if_splits sum.splits prod.splits)
  with guard_sessions[OF g] show ?thesis by auto
next
  case (NewPassword touched env r cur new)
  obtain g a2 where g: "guard sha (ev_now env) touched True r a = (g, a2)" by fastforce
  have "ap_limiter a1 = ap_limiter a2"
    using assms(1) NewPassword g by (auto simp: serve_password_def handleChangePassword_def split: if_splits sum.splits prod.splits)
  with guard_sessions[OF g] show ?thesis by auto
qed

lemma failed_logins_limited:
  assumes "limited F (failures (ap_limiter a) ip) t0" and "\<forall>t\<in>set (login_times es). t0 \<le> t" and "sorted (login_times es)"
    and "no_login sha kdf ip es a"
  shows "length (in_window T (F @ failed_logins sha kdf ip es a)) \<le> loginMaxFailures"
  using assms
proof (induction es arbitrary: a F t0)
  case Nil
  then show ?case by (simp add: limited_def)
next
  case (Cons e es)
  obtain st a1 where s: "auth_step sha kdf e a = (st, a1)" by fastforce
  show ?case
  proof (cases "\<exists>now rnd r user pw. e = Login now rnd r user pw")
    case False
    then have "ap_limiter a1 = ap_limiter a" using other_event_limiter[OF s] by blast
    moreover have "login_times (e # es) = login_times es" "failed_logins sha kdf ip (e # es) a = failed_logins sha kdf ip es a1"
      "no_login sha kdf ip es a1" using False s Cons.prems(4) by (cases e; auto)+
    ultimately show ?thesis using Cons.IH[of F a1 t0] Cons.prems by simp
  next
    case True
    then obtain now rnd r user pw where e: "e = Login now rnd r user pw" by blast
    obtain c where h: "handleLogin kdf now rnd r user pw a = ((st, c), a1)" using s e by (auto split: prod.splits)
    note L = login_limiter_step[OF h]
    have now: "t0 \<le> now" "\<forall>t\<in>set (login_times es). now \<le> t" "sorted (login_times es)" using Cons.prems(2,3) e by simp_all
    have nl: "no_login sha kdf ip es a1" "clientIP r = ip \<Longrightarrow> st \<noteq> 200" using Cons.prems(4) s e by simp_all
    show ?thesis
    proof (cases "clientIP r = ip")
      case False
      then have "failures (ap_limiter a1) ip = failures (ap_limiter a) ip" using L(2) by metis
      moreover have "limited F (failures (ap_limiter a) ip) now" using Cons.prems(1) now(1) by (auto simp: limited_def)
      ultimately show ?thesis using Cons.IH[of F a1 now] now nl(1) s e False by simp
    next
      case ip: True
      show ?thesis
      proof (cases "st = 401")
        case True
        then have f: "length (filter (\<lambda>t. t > now - loginWindow) (failures (ap_limiter a) ip)) < loginMaxFailures"
          "failures (ap_limiter a1) ip = filter (\<lambda>t. t > now - loginWindow) (failures (ap_limiter a) ip) @ [now]"
          using L(1) ip by auto
        have "limited (F @ [now]) (failures (ap_limiter a1) ip) now"
          unfolding f(2) by (rule limited_fail[OF Cons.prems(1) now(1) f(1)])
        from Cons.IH[OF this now(2,3) nl(1)] s e ip True show ?thesis by simp
      next
        case False
        then have f: "failures (ap_limiter a1) ip = filter (\<lambda>t. t > now - loginWindow) (failures (ap_limiter a) ip)"
          using L(1) ip nl(2) by auto
        have "limited F (failures (ap_limiter a1) ip) now" unfolding f by (rule limited_later[OF Cons.prems(1) now(1)])
        from Cons.IH[OF this now(2,3) nl(1)] s e ip False show ?thesis by simp
      qed
    qed
  qed
qed


section \<open>A browser and a guesser\<close>

definition demo_app :: app where
  "demo_app = \<lparr>ap_server = demo_server, ap_sessions = [], ap_limiter = []\<rparr>"

definition demo_browser :: http_request where
  "demo_browser = \<lparr>hr_Method = ''POST'', hr_Authorization = [], hr_Cookie = Some ''6b'', hr_SecFetchSite = ''same-origin'',
     hr_Origin = [], hr_Host = ''relay:8443'', hr_RemoteAddr = ''10.0.0.9:50''\<rparr>"

definition demo_logged_in :: app where
  "demo_logged_in = auth_run (\<lambda>s. s) demo_kdf [Login 100 ''k'' demo_browser ''Admin'' ''secret''] demo_app"

definition demo_guesses :: "auth_event list" where
  "demo_guesses = map (\<lambda>t. Login t ''k'' demo_browser ''root'' ''guess'') [1, 2, 3, 4, 5, 6, 1000]"

lemma demo_token_made: "fst (serve (\<lambda>s. s) True False [] demo_renv demo_browser (CreateToken ''ci'') demo_logged_in) \<notin> {401, 403, 404}"
  by code_simp

lemma demo_guesses_facts:
  "login_times demo_guesses = [1, 2, 3, 4, 5, 6, 1000]" "no_login (\<lambda>s. s) demo_kdf ''10.0.0.9'' demo_guesses demo_app"
  "failed_logins (\<lambda>s. s) demo_kdf ''10.0.0.9'' demo_guesses demo_app = [1, 2, 3, 4, 5, 1000]"
  by code_simp+

theorem changes_need_credentials_witness:
  "\<exists>st a1. serve (\<lambda>s. s) True False [] demo_renv demo_browser (CreateToken ''ci'') demo_logged_in = (st, a1)
     \<and> live_session (ev_now demo_renv) demo_browser demo_logged_in \<and> sameOrigin demo_browser"
proof -
  obtain st a1 where s: "serve (\<lambda>s. s) True False [] demo_renv demo_browser (CreateToken ''ci'') demo_logged_in = (st, a1)" by fastforce
  moreover have "st \<notin> {401, 403, 404}" using demo_token_made by (simp add: s)
  moreover have "session_only (CreateToken ''ci'')" by (simp add: session_only_def)
  ultimately show ?thesis
    using changes_need_credentials[OF _ demo_logged_in_def s] by (auto simp: demo_app_def)
qed


end
