(* ===== verification/Releases.thy ===== *)
theory Releases
  imports Store Binaries
begin

text \<open>
  Releases: tags and their order (\<open>internal/server/selfupdate.go\<close>), download addresses, checksum
  files, and the binary inside a release tarball (\<open>internal/agent/update.go\<close>). HTTP, SHA-256 and
  the gzip and tar readers are parameters. Errors are their messages.
\<close>

section \<open>Tags\<close>

text \<open>\<open>ValidTag\<close>, the expression \<open>^v\d+\.\d+\.\d+$\<close>: three runs of digits around two dots.\<close>

definition digits :: "string \<Rightarrow> bool" where
  "digits s \<longleftrightarrow> s \<noteq> [] \<and> list_all is_digit s"

definition ValidTag :: "string \<Rightarrow> bool" where
  "ValidTag s =
     (case s of
        [] \<Rightarrow> False
      | c # r \<Rightarrow> c = CHR ''v'' \<and> (case split_on CHR ''.'' r of [a, b, p] \<Rightarrow> digits a \<and> digits b \<and> digits p | _ \<Rightarrow> False))"

text \<open>\<open>parseVersion\<close>: the three numbers, or \<open>None\<close> where the code returns \<open>ok = false\<close>.\<close>

fun parse_parts :: "string list \<Rightarrow> int list option" where
  "parse_parts [] = Some []"
| "parse_parts (p # ps) =
     (case atoi p of
        (n, False) \<Rightarrow> None
      | (n, True) \<Rightarrow> map_option (\<lambda>ns. n # ns) (parse_parts ps))"

definition parseVersion :: "string \<Rightarrow> int list option" where
  "parseVersion v = (if \<not> ValidTag v then None else parse_parts (split_on CHR ''.'' (trim_prefix ''v'' v)))"

fun newer_parts :: "int list \<Rightarrow> int list \<Rightarrow> bool" where
  "newer_parts (a # as) (b # bs) = (if a \<noteq> b then a > b else newer_parts as bs)"
| "newer_parts _ _ = False"

definition newerVersion :: "string \<Rightarrow> string \<Rightarrow> bool" where
  "newerVersion a b =
     (case (parseVersion a, parseVersion b) of
        (Some pa, Some pb) \<Rightarrow> newer_parts pa pb
      | _ \<Rightarrow> False)"

section \<open>Assets\<close>

definition ReleaseURL :: "string \<Rightarrow> string \<Rightarrow> string \<Rightarrow> string" where
  "ReleaseURL repo version asset =
     ''https://github.com/'' @ repo @ ''/releases/download/'' @ version @ ''/'' @ asset"

text \<open>A response is a status and a body that may fail while it is read.\<close>

type_synonym http_get = "string \<Rightarrow> (string, nat \<times> (string, string) result) result"

definition downloadLimit :: nat where "downloadLimit = 512 * 2 ^ 20"

definition httpDownload :: "http_get \<Rightarrow> string \<Rightarrow> (string, string) result" where
  "httpDownload get url =
     rbind (get url) (\<lambda>(status, body).
       if status \<noteq> 200 then Inl (url @ '': HTTP '' @ itoa (int status))
       else rbind body (\<lambda>b. Inr (take downloadLimit b)))"

definition su_download :: "http_get \<Rightarrow> string \<Rightarrow> (string, string) result" where
  "su_download get url =
     rbind (get url) (\<lambda>(status, body).
       if status \<noteq> 200 then Inl (''HTTP '' @ itoa (int status))
       else rbind body (\<lambda>b. Inr (take downloadLimit b)))"

type_synonym checksums = "string \<rightharpoonup> string"

definition sums_line :: "checksums \<Rightarrow> string \<Rightarrow> checksums" where
  "sums_line sums line =
     (case Go_Strings.fields line of
        [h, n] \<Rightarrow> sums(trim_prefix ''*'' n \<mapsto> to_lower h)
      | _ \<Rightarrow> sums)"

definition ParseSums :: "string \<Rightarrow> checksums" where
  "ParseSums b = foldl sums_line Map.empty (split_on CHR 0x0A b)"

definition VerifySum :: "(string \<Rightarrow> string) \<Rightarrow> checksums \<Rightarrow> string \<Rightarrow> string \<Rightarrow> (string, unit) result" where
  "VerifySum sha sums name data =
     (case sums name of
        None \<Rightarrow> Inl (name @ '' is not listed in SHA256SUMS'')
      | Some want \<Rightarrow>
          if hex_encode (sha data) \<noteq> want then Inl (''checksum mismatch for '' @ name)
          else Inr ())"

text \<open>
  What the gzip and tar readers give for a tarball: an error of the gzip header, or the entries
  in order, ended by the end of the archive (\<open>None\<close>) or by an error.
\<close>

record tar_entry =
  ta_Name :: string
  ta_regular :: bool
  ta_data :: "(string, string) result"

type_synonym untar = "string \<Rightarrow> (string, tar_entry list \<times> string option) result"

fun tar_next :: "tar_entry list \<Rightarrow> string option \<Rightarrow> (string, string) result" where
  "tar_next [] None = Inl ''tarball does not contain spawnrelay''"
| "tar_next [] (Some e) = Inl (''tarball: '' @ e)"
| "tar_next (h # hs) e =
     (if path_base (ta_Name h) = ''spawnrelay'' \<and> ta_regular h
      then rbind (ta_data h) (\<lambda>b. Inr (take downloadLimit b))
      else tar_next hs e)"

definition extractBinary :: "untar \<Rightarrow> string \<Rightarrow> (string, string) result" where
  "extractBinary untar tarball =
     (case untar tarball of
        Inl e \<Rightarrow> Inl (''tarball: '' @ e)
      | Inr (entries, e) \<Rightarrow> tar_next entries e)"

text \<open>An error with a prefix, as \<open>fmt.Errorf(pre + ": %w", err)\<close> makes it.\<close>

definition prefixed :: "string \<Rightarrow> (string, 'a) result \<Rightarrow> (string, 'a) result" where
  "prefixed pre r = (case r of Inl e \<Rightarrow> Inl (pre @ '': '' @ e) | Inr x \<Rightarrow> Inr x)"

definition fetchBinary ::
  "(string \<Rightarrow> (string, string) result) \<Rightarrow> (string \<Rightarrow> string) \<Rightarrow> untar \<Rightarrow> string \<Rightarrow> string \<Rightarrow> string \<Rightarrow> (string, string) result" where
  "fetchBinary download sha untar repo arch version =
     (let asset = ''spawnrelay_linux_'' @ arch @ ''.tar.gz'' in
      rbind (prefixed ''SHA256SUMS'' (download (ReleaseURL repo version ''SHA256SUMS''))) (\<lambda>sumsRaw.
      rbind (prefixed asset (download (ReleaseURL repo version asset))) (\<lambda>tarball.
      rbind (VerifySum sha (ParseSums sumsRaw) asset tarball) (\<lambda>_.
      extractBinary untar tarball))))"

text \<open>\<open>verifyBinary\<close>: what the binary prints when it is run with the argument \<open>version\<close>.\<close>

type_synonym exec_version = "string \<Rightarrow> (string, string) result"

definition quoted :: "string \<Rightarrow> string" where
  "quoted s = CHR 0x22 # s @ [CHR 0x22]"

definition verifyBinary :: "exec_version \<Rightarrow> string \<Rightarrow> string \<Rightarrow> (string, unit) result" where
  "verifyBinary exec binary version =
     rbind (prefixed ''new binary does not run'' (exec binary)) (\<lambda>out.
       if trim_space out \<noteq> version
       then Inl (''new binary reports version '' @ quoted (trim_space out) @ '', expected '' @ quoted version)
       else Inr ())"

section \<open>Update records\<close>

definition UpdatePending :: string where "UpdatePending = ''pending''"
definition UpdateDone :: string where "UpdateDone = ''done''"
definition UpdateFailed :: string where "UpdateFailed = ''failed''"
definition UpdateRolledBack :: string where "UpdateRolledBack = ''rolled_back''"

record update_record =
  ur_State :: string
  ur_From :: string
  ur_To :: string
  ur_Detail :: string
  ur_StartedAt :: time
  ur_FinishedAt :: "time option"

text \<open>\<open>ReadRecord\<close>: the document in the record file, if it decodes.\<close>

definition ReadRecord :: "update_record option \<Rightarrow> update_record option" where
  "ReadRecord doc = (case doc of None \<Rightarrow> None | Some rec \<Rightarrow> if ur_State rec = [] then None else Some rec)"

section \<open>The order of releases\<close>

text \<open>The order the comparison is meant to be: major, then minor, then patch.\<close>

datatype release = Release (rel_major: int) (rel_minor: int) (rel_patch: int)

instantiation release :: linorder
begin

definition less_release :: "release \<Rightarrow> release \<Rightarrow> bool" where
  "r < s \<longleftrightarrow> rel_major r < rel_major s
     \<or> (rel_major r = rel_major s \<and> (rel_minor r < rel_minor s \<or> (rel_minor r = rel_minor s \<and> rel_patch r < rel_patch s)))"

definition less_eq_release :: "release \<Rightarrow> release \<Rightarrow> bool" where
  "(r :: release) \<le> s \<longleftrightarrow> r < s \<or> r = s"

instance
proof
  show "x < y \<longleftrightarrow> x \<le> y \<and> \<not> y \<le> x" for x y :: release by (auto simp: less_eq_release_def less_release_def)
  show "x \<le> x" for x :: release by (simp add: less_eq_release_def)
  show "x \<le> z" if "x \<le> y" "y \<le> z" for x y z :: release
    using that by (auto simp: less_eq_release_def less_release_def)
  show "x = y" if "x \<le> y" "y \<le> x" for x y :: release
    using that by (auto simp: less_eq_release_def less_release_def)
  show "x \<le> y \<or> y \<le> x" for x y :: release
    by (cases x; cases y) (auto simp: less_eq_release_def less_release_def)
qed

end

text \<open>A tag denotes the release its three numbers make, when they fit in an \<open>int\<close>.\<close>

definition denotes :: "string \<Rightarrow> release \<Rightarrow> bool" where
  "denotes v r \<longleftrightarrow>
     (\<exists>a b p. v = CHR ''v'' # a @ CHR ''.'' # b @ CHR ''.'' # p \<and> digits a \<and> digits b \<and> digits p
        \<and> r = Release (digits_val a) (digits_val b) (digits_val p)
        \<and> digits_val a < 2 ^ 63 \<and> digits_val b < 2 ^ 63 \<and> digits_val p < 2 ^ 63)"

section \<open>Facts\<close>

lemma digits_no_dot: "digits s \<Longrightarrow> CHR ''.'' \<notin> set s"
  by (auto simp: digits_def list_all_iff is_digit_def)

lemma digits_atoi:
  assumes "digits s"
  shows "atoi s = (if digits_val s < 2 ^ 63 then (digits_val s, True) else (2 ^ 63 - 1, False))"
proof -
  have "hd s \<noteq> CHR ''-''" "hd s \<noteq> CHR ''+''" "s \<noteq> []" "list_all is_digit s"
    using assms by (cases s; auto simp: digits_def is_digit_def)+
  then show ?thesis by (simp add: atoi_def Let_def)
qed

lemma join_Cons: "ws \<noteq> [] \<Longrightarrow> join sep (w # ws) = w @ sep @ join sep ws"
  by (cases ws) simp_all

lemma split_on_concat: "join [c] (split_on c s) = s"
proof (induction s)
  case (Cons x s)
  obtain w ws where w: "split_on c s = w # ws" by (cases "split_on c s") auto
  show ?case
  proof (cases "ws = []")
    case True
    with Cons w show ?thesis by simp
  next
    case False
    then have "join [c] ((x # w) # ws) = x # join [c] (w # ws)" by (simp add: join_Cons)
    with Cons w show ?thesis by (simp add: join_Cons)
  qed
qed simp

lemma ValidTag_iff:
  "ValidTag v \<longleftrightarrow> (\<exists>a b p. v = CHR ''v'' # a @ CHR ''.'' # b @ CHR ''.'' # p \<and> digits a \<and> digits b \<and> digits p)"
proof
  assume "\<exists>a b p. v = CHR ''v'' # a @ CHR ''.'' # b @ CHR ''.'' # p \<and> digits a \<and> digits b \<and> digits p"
  then show "ValidTag v" by (auto simp: ValidTag_def split_on_append split_on_no_sep digits_no_dot)
next
  assume v: "ValidTag v"
  then obtain r where r: "v = CHR ''v'' # r" by (auto simp: ValidTag_def split: list.splits)
  with v obtain a b p where s: "split_on CHR ''.'' r = [a, b, p]" and d: "digits a" "digits b" "digits p"
    by (auto simp: ValidTag_def split: list.splits)
  have "r = a @ CHR ''.'' # b @ CHR ''.'' # p" using split_on_concat[of "CHR ''.''" r] by (simp add: s)
  with r d show "\<exists>a b p. v = CHR ''v'' # a @ CHR ''.'' # b @ CHR ''.'' # p \<and> digits a \<and> digits b \<and> digits p" by blast
qed

lemma parseVersion_Some:
  "parseVersion v = Some ns \<longleftrightarrow> (\<exists>x y z. ns = [x, y, z] \<and> denotes v (Release x y z))"
proof (cases "ValidTag v")
  case False
  then have "\<not> denotes v r" for r unfolding denotes_def ValidTag_iff by blast
  with False show ?thesis by (simp add: parseVersion_def)
next
  case True
  then obtain a b p where v: "v = CHR ''v'' # a @ CHR ''.'' # b @ CHR ''.'' # p" and d: "digits a" "digits b" "digits p"
    unfolding ValidTag_iff by blast
  have s: "split_on CHR ''.'' (trim_prefix ''v'' v) = [a, b, p]"
    using d by (simp add: v trim_prefix_def has_prefix_def split_on_append split_on_no_sep digits_no_dot)
  have u: "denotes v r \<longleftrightarrow> r = Release (digits_val a) (digits_val b) (digits_val p)
      \<and> digits_val a < 2 ^ 63 \<and> digits_val b < 2 ^ 63 \<and> digits_val p < 2 ^ 63" for r
  proof
    assume "denotes v r"
    then obtain a' b' p' where v': "v = CHR ''v'' # a' @ CHR ''.'' # b' @ CHR ''.'' # p'" "digits a'" "digits b'" "digits p'"
      and r: "r = Release (digits_val a') (digits_val b') (digits_val p')"
        "digits_val a' < 2 ^ 63 \<and> digits_val b' < 2 ^ 63 \<and> digits_val p' < 2 ^ 63"
      unfolding denotes_def by blast
    have "split_on CHR ''.'' (trim_prefix ''v'' v) = [a', b', p']"
      using v'(2-4) by (simp add: v'(1) trim_prefix_def has_prefix_def split_on_append split_on_no_sep digits_no_dot)
    with s r show "r = Release (digits_val a) (digits_val b) (digits_val p)
      \<and> digits_val a < 2 ^ 63 \<and> digits_val b < 2 ^ 63 \<and> digits_val p < 2 ^ 63" by simp
  next
    assume "r = Release (digits_val a) (digits_val b) (digits_val p)
      \<and> digits_val a < 2 ^ 63 \<and> digits_val b < 2 ^ 63 \<and> digits_val p < 2 ^ 63"
    then show "denotes v r" unfolding denotes_def using v d by blast
  qed
  define small where "small \<longleftrightarrow> digits_val a < 2 ^ 63 \<and> digits_val b < 2 ^ 63 \<and> digits_val p < 2 ^ 63"
  have "parse_parts [a, b, p] = (if small then Some [digits_val a, digits_val b, digits_val p] else None)"
    unfolding parse_parts.simps digits_atoi[OF d(1)] digits_atoi[OF d(2)] digits_atoi[OF d(3)] small_def
    by (auto simp del: power_numeral_even power_numeral_odd)
  then have "parseVersion v = (if small then Some [digits_val a, digits_val b, digits_val p] else None)"
    by (simp only: parseVersion_def s True simp_thms if_False)
  moreover have "denotes v r \<longleftrightarrow> r = Release (digits_val a) (digits_val b) (digits_val p) \<and> small" for r
    unfolding u small_def ..
  ultimately show ?thesis by (cases small) auto
qed

lemma denotes_unique: "denotes v r \<Longrightarrow> denotes v s \<Longrightarrow> r = s"
  using parseVersion_Some[of v "[rel_major r, rel_minor r, rel_patch r]"]
    parseVersion_Some[of v "[rel_major s, rel_minor s, rel_patch s]"] by (cases r; cases s) auto

lemma newerVersion_iff: "newerVersion a b \<longleftrightarrow> (\<exists>r s. denotes a r \<and> denotes b s \<and> s < r)"
proof (cases "parseVersion a = None \<or> parseVersion b = None")
  case True
  have "parseVersion v \<noteq> None" if "denotes v r" for v r
    using that parseVersion_Some[of v "[rel_major r, rel_minor r, rel_patch r]"] by (cases r) auto
  then have "\<not> (\<exists>r s. denotes a r \<and> denotes b s)" using True by metis
  moreover have "\<not> newerVersion a b" using True by (auto simp: newerVersion_def split: option.splits)
  ultimately show ?thesis by blast
next
  case False
  then obtain x y z x' y' z' where p: "parseVersion a = Some [x, y, z]" "parseVersion b = Some [x', y', z']"
    and d: "denotes a (Release x y z)" "denotes b (Release x' y' z')"
    using parseVersion_Some by (metis option.exhaust)
  have "(\<exists>r s. denotes a r \<and> denotes b s \<and> s < r) \<longleftrightarrow> Release x' y' z' < Release x y z"
    using d denotes_unique by metis
  then show ?thesis by (auto simp: newerVersion_def p less_release_def)
qed

lemma newerVersion_strict: "\<not> newerVersion a a" "newerVersion a b \<Longrightarrow> newerVersion b c \<Longrightarrow> newerVersion a c"
proof -
  note unique = denotes_unique
  show "\<not> newerVersion a a" using unique[of a] by (auto simp: newerVersion_iff)
  show "newerVersion a c" if "newerVersion a b" "newerVersion b c"
  proof -
    obtain r s s' t where d: "denotes a r" "denotes b s" "s < r" "denotes b s'" "denotes c t" "t < s'"
      using \<open>newerVersion a b\<close> \<open>newerVersion b c\<close> unfolding newerVersion_iff by blast
    have "s' = s" by (rule unique[OF d(4,2)])
    with d have "t < r" using less_trans by blast
    with d show ?thesis unfolding newerVersion_iff by blast
  qed
qed

text \<open>Numbers below \<open>2 ^ 63\<close> printed as a tag denote themselves.\<close>

definition tag_of :: "release \<Rightarrow> string" where
  "tag_of r = CHR ''v'' # itoa (rel_major r) @ CHR ''.'' # itoa (rel_minor r) @ CHR ''.'' # itoa (rel_patch r)"

definition small_release :: "release \<Rightarrow> bool" where
  "small_release r \<longleftrightarrow> (\<forall>n\<in>{rel_major r, rel_minor r, rel_patch r}. 0 \<le> n \<and> n < 2 ^ 63)"

lemma tag_of_denotes: "small_release r \<Longrightarrow> denotes (tag_of r) r"
  unfolding denotes_def tag_of_def small_release_def
  by (intro exI[of _ "itoa (rel_major r)"] exI[of _ "itoa (rel_minor r)"] exI[of _ "itoa (rel_patch r)"])
    (auto simp: digits_def itoa_nonneg list_all_iff nat_digits_all_digits)

text \<open>
  C30: the numbers of a tag are read back (round trip) and \<open>newerVersion\<close>, a loop over the parsed
  numbers, is the order of releases, major before minor before patch, on everything that is
  a tag of such numbers; on anything else it is false, so it never holds both ways.
\<close>

theorem newerVersion_is_release_order:
  "(small_release r \<longrightarrow> parseVersion (tag_of r) = Some [rel_major r, rel_minor r, rel_patch r])
   \<and> (small_release r \<and> small_release s \<longrightarrow> (newerVersion (tag_of r) (tag_of s) \<longleftrightarrow> s < r))
   \<and> (newerVersion a b \<longleftrightarrow> (\<exists>r s. denotes a r \<and> denotes b s \<and> s < r))"
proof (intro conjI impI)
  show "parseVersion (tag_of r) = Some [rel_major r, rel_minor r, rel_patch r]" if "small_release r"
    using tag_of_denotes[OF that] parseVersion_Some[of "tag_of r"] by (cases r) auto
  show "newerVersion (tag_of r) (tag_of s) \<longleftrightarrow> s < r" if "small_release r \<and> small_release s"
    using tag_of_denotes[of r] tag_of_denotes[of s] that denotes_unique unfolding newerVersion_iff by metis
qed (rule newerVersion_iff)

theorem newerVersion_is_release_order_witness:
  "newerVersion (tag_of (Release 1 10 0)) (tag_of (Release 1 9 9)) \<and> parseVersion (tag_of (Release 1 10 0)) = Some [1, 10, 0]"
  using newerVersion_is_release_order[of "Release 1 10 0" "Release 1 9 9" "[]" "[]"] by (simp add: small_release_def less_release_def)

end
