(* ===== verification/Agent_Update.thy ===== *)
theory Agent_Update
  imports Agent Releases "HOL-Library.Word"
begin

text \<open>
  The agent's updater (\<open>internal/agent/update.go\<close>) and the requests an agent answers
  (\<open>handle\<close>, \<open>update\<close> and \<open>reply\<close> of \<open>agent.go\<close>). The state is the updater's memory, the files
  at the paths it touches, the record document on disk and the rest of the host. Every file
  call can fail (\<open>ae_os\<close>); commands and the health probe act on the host. Times are whole
  seconds; the context of an update is detached and never cancelled.
\<close>

section \<open>State\<close>

type_synonym files = "string \<rightharpoonup> string"

datatype os_call = WriteNew | RemoveNew | RemovePrevious | KeepPrevious | InstallNew | UndoKeep | RestorePrevious
  | WriteRecord | RenameRecord

record 'h updater =
  ud_Repo :: string
  ud_BinPath :: string
  ud_ServerUnit :: string
  ud_AgentUnit :: string
  ud_Arch :: string
  ud_Version :: string
  ud_Timeout :: int
  ud_busy :: bool
  ud_last :: "update_record option"
  ud_files :: files
  ud_record :: "update_record option"
  ud_host :: 'h

record 'h update_env =
  ae_now :: time
  ae_get :: http_get
  ae_sha :: "string \<Rightarrow> string"
  ae_untar :: untar
  ae_exec :: exec_version
  ae_os :: "os_call \<Rightarrow> string option"
  ae_partial :: "string option"
  ae_Run :: "string list \<Rightarrow> files \<Rightarrow> 'h \<Rightarrow> string option \<times> 'h"
  ae_Probe :: "files \<Rightarrow> 'h \<Rightarrow> (string, string) result \<times> nat \<times> 'h"

section \<open>File calls\<close>

definition fs_remove :: "'h update_env \<Rightarrow> os_call \<Rightarrow> string \<Rightarrow> 'h updater \<Rightarrow> 'h updater" where
  "fs_remove env c p u = (if ae_os env c = None then u\<lparr>ud_files := (ud_files u)(p := None)\<rparr> else u)"

definition fs_write :: "'h update_env \<Rightarrow> os_call \<Rightarrow> string \<Rightarrow> string \<Rightarrow> 'h updater \<Rightarrow> string option \<times> 'h updater" where
  "fs_write env c p data u =
     (case ae_os env c of
        None \<Rightarrow> (None, u\<lparr>ud_files := (ud_files u)(p \<mapsto> data)\<rparr>)
      | Some e \<Rightarrow> (Some e, u\<lparr>ud_files := (ud_files u)(p := ae_partial env)\<rparr>))"

definition fs_rename :: "'h update_env \<Rightarrow> os_call \<Rightarrow> string \<Rightarrow> string \<Rightarrow> 'h updater \<Rightarrow> string option \<times> 'h updater" where
  "fs_rename env c p q u =
     (case ae_os env c of
        Some e \<Rightarrow> (Some e, u)
      | None \<Rightarrow>
          (case ud_files u p of
             None \<Rightarrow> (Some ''no such file or directory'', u)
           | Some data \<Rightarrow> (None, u\<lparr>ud_files := (ud_files u)(p := None, q \<mapsto> data)\<rparr>)))"

definition new_path :: "'h updater \<Rightarrow> string" where "new_path u = ud_BinPath u @ ''.new''"
definition prev_path :: "'h updater \<Rightarrow> string" where "prev_path u = ud_BinPath u @ ''.previous''"

section \<open>The record\<close>

definition persist :: "'h update_env \<Rightarrow> 'h updater \<Rightarrow> 'h updater" where
  "persist env u =
     (if ae_os env WriteRecord = None \<and> ae_os env RenameRecord = None then u\<lparr>ud_record := ud_last u\<rparr> else u)"

definition set_update :: "'h update_env \<Rightarrow> string \<Rightarrow> string \<Rightarrow> 'h updater \<Rightarrow> 'h updater" where
  "set_update env state detail u =
     persist env (u\<lparr>ud_last := map_option (\<lambda>r. r\<lparr>ur_State := state, ur_Detail := detail,
                       ur_FinishedAt := (if state \<noteq> UpdatePending then Some (ae_now env) else ur_FinishedAt r)\<rparr>) (ud_last u)\<rparr>)"

definition Last :: "'h updater \<Rightarrow> update_record option" where
  "Last u = ud_last u"

definition init_updater :: "string \<Rightarrow> string \<Rightarrow> 'h updater \<Rightarrow> 'h updater" where
  "init_updater cfgVersion goarch u = u\<lparr>ud_Version := (if ud_Version u = [] then cfgVersion else ud_Version u),
     ud_Arch := (if ud_Arch u = [] then goarch else ud_Arch u), ud_Timeout := (if ud_Timeout u = 0 then 60 else ud_Timeout u), ud_last := ReadRecord (ud_record u)\<rparr>"

text \<open>
  The default probe: \<open>get\<close> is the request to the server's health endpoint, whose certificate is not
  checked, and the version its JSON body gives.
\<close>

definition httpProbe :: "(string \<Rightarrow> (string, (string, string) result) result) \<Rightarrow> string \<Rightarrow> (string, string) result" where
  "httpProbe get adminAddr =
     (let addr = (if has_prefix '':'' adminAddr then ''127.0.0.1'' @ adminAddr else adminAddr)
      in rbind (get (''https://'' @ addr @ ''/api/v1/health'')) (\<lambda>body. body))"

section \<open>Starting an update\<close>

definition Start :: "'h update_env \<Rightarrow> string \<Rightarrow> 'h updater \<Rightarrow> (agent_error, update_record) result \<times> 'h updater" where
  "Start env version u =
     (if \<not> ValidTag version then (Inl (InvalidTag version), u)
      else if ud_Repo u = [] \<or> ud_BinPath u = [] \<or> ud_ServerUnit u = [] then (Inl NotConfigured, u)
      else if ud_busy u then (Inl UpdateInProgress, u)
      else let rec = \<lparr>ur_State = UpdatePending, ur_From = ud_Version u, ur_To = version, ur_Detail = ''downloading'',
                      ur_StartedAt = ae_now env, ur_FinishedAt = None\<rparr>
           in (Inr rec, persist env (u\<lparr>ud_busy := True, ud_last := Some rec\<rparr>)))"

section \<open>Waiting for the new server\<close>

text \<open>A duration of whole seconds as \<open>%s\<close> prints it.\<close>

definition duration_string :: "int \<Rightarrow> string" where
  "duration_string d =
     (if d < 0 then ''-'' else []) @
     (let h = abs d div 3600; m = abs d div 60 mod 60; s = abs d mod 60
      in (if h > 0 then itoa h @ ''h'' else []) @ (if h > 0 \<or> m > 0 then itoa m @ ''m'' else []) @ itoa s @ ''s'')"

text \<open>
  Every round sleeps a second and probes; \<open>t\<close> are the seconds since the start, which a probe
  advances by what it takes. The result is the error or \<open>None\<close>, with the time and the host.
\<close>

function wait_healthy ::
  "('h \<Rightarrow> (string, string) result \<times> nat \<times> 'h) \<Rightarrow> string \<Rightarrow> int \<Rightarrow> int \<Rightarrow> string option \<Rightarrow> 'h \<Rightarrow> string option \<times> int \<times> 'h" where
  "wait_healthy probe version timeout t lastErr h =
     (if t < timeout then
        (case probe h of (got, d, h1) \<Rightarrow>
           (case got of
              Inl e \<Rightarrow> wait_healthy probe version timeout (t + 1 + int d) (Some e) h1
            | Inr v \<Rightarrow>
                if v = version then (None, t + 1 + int d, h1)
                else wait_healthy probe version timeout (t + 1 + int d) (Some (''server reports version '' @ quoted v)) h1))
      else (Some (''after '' @ duration_string timeout @ '': '' @ (case lastErr of None \<Rightarrow> ''no answer'' | Some e \<Rightarrow> e)), t, h))"
  by pat_completeness auto
termination
  by (relation "measure (\<lambda>(probe, version, timeout, t, lastErr, h). nat (timeout - t))") auto

declare wait_healthy.simps [simp del]

section \<open>Installing\<close>

definition restart_cmd :: "'h updater \<Rightarrow> string list" where
  "restart_cmd u = [''systemctl'', ''restart'', ud_ServerUnit u]"

definition run_cmd :: "'h update_env \<Rightarrow> string list \<Rightarrow> 'h updater \<Rightarrow> string option \<times> 'h updater" where
  "run_cmd env cmd u = (case ae_Run env cmd (ud_files u) (ud_host u) of (e, h) \<Rightarrow> (e, u\<lparr>ud_host := h\<rparr>))"

definition rollback :: "'h update_env \<Rightarrow> string \<Rightarrow> string \<Rightarrow> 'h updater \<Rightarrow> 'h updater" where
  "rollback env why cause u =
     (let detail = why @ '': '' @ cause in
      case fs_rename env RestorePrevious (prev_path u) (ud_BinPath u) u of
        (Some e, u1) \<Rightarrow> set_update env UpdateFailed (detail @ '' (and the previous binary could not be restored: '' @ e @ '')'') u1
      | (None, u1) \<Rightarrow>
          (case run_cmd env (restart_cmd u1) u1 of
             (Some e, u2) \<Rightarrow> set_update env UpdateFailed (detail @ '' (previous binary restored, but restarting it failed: '' @ e @ '')'') u2
           | (None, u2) \<Rightarrow> set_update env UpdateRolledBack (detail @ ''; previous version restored'') u2))"

definition waitHealthy :: "'h update_env \<Rightarrow> string \<Rightarrow> 'h updater \<Rightarrow> string option \<times> 'h updater" where
  "waitHealthy env version u =
     (case wait_healthy (ae_Probe env (ud_files u)) version (ud_Timeout u) 0 None (ud_host u) of
        (e, t, h) \<Rightarrow> (e, u\<lparr>ud_host := h\<rparr>))"

text \<open>The third and the fourth part of \<open>run\<close>: restart the server, then the agent.\<close>

definition restart_updated :: "'h update_env \<Rightarrow> string \<Rightarrow> 'h updater \<Rightarrow> 'h updater" where
  "restart_updated env version u0 =
     (let u = set_update env UpdatePending ''restarting'' u0 in
      case run_cmd env (restart_cmd u) u of
        (Some e, u1) \<Rightarrow> rollback env ''restart failed'' e u1
      | (None, u1) \<Rightarrow>
          (case waitHealthy env version u1 of
             (Some e, u2) \<Rightarrow> rollback env ''new server did not become healthy'' e u2
           | (None, u2) \<Rightarrow>
               (let u3 = set_update env UpdateDone (''updated to '' @ version) u2 in
                if ud_AgentUnit u3 \<noteq> []
                then snd (run_cmd env [''systemd-run'', ''--quiet'', ''--on-active=2'', ''systemctl'', ''restart'', ud_AgentUnit u3] u3)
                else u3)))"

text \<open>The second part: the swap that keeps exactly one previous binary.\<close>

definition swap_binary :: "'h update_env \<Rightarrow> string \<Rightarrow> 'h updater \<Rightarrow> 'h updater" where
  "swap_binary env version u0 =
     (let u = fs_remove env RemovePrevious (prev_path u0) u0 in
      case fs_rename env KeepPrevious (ud_BinPath u) (prev_path u) u of
        (Some e, u1) \<Rightarrow> set_update env UpdateFailed (''keep previous binary: '' @ e) (fs_remove env RemoveNew (new_path u1) u1)
      | (None, u1) \<Rightarrow>
          (case fs_rename env InstallNew (new_path u1) (ud_BinPath u1) u1 of
             (Some e, u2) \<Rightarrow>
               set_update env UpdateFailed (''install binary: '' @ e) (snd (fs_rename env UndoKeep (prev_path u2) (ud_BinPath u2) u2))
           | (None, u2) \<Rightarrow> restart_updated env version u2))"

definition run_update :: "'h update_env \<Rightarrow> string \<Rightarrow> 'h updater \<Rightarrow> 'h updater" where
  "run_update env version u =
     (case fetchBinary (httpDownload (ae_get env)) (ae_sha env) (ae_untar env) (ud_Repo u) (ud_Arch u) version of
        Inl e \<Rightarrow> set_update env UpdateFailed (''download: '' @ e) u
      | Inr binary \<Rightarrow>
          (let u1 = set_update env UpdatePending ''installing'' u in
           case fs_write env WriteNew (new_path u1) binary u1 of
             (Some e, u2) \<Rightarrow> set_update env UpdateFailed (''write binary: '' @ e) u2
           | (None, u2) \<Rightarrow>
               (case verifyBinary (ae_exec env) binary version of
                  Inl e \<Rightarrow> set_update env UpdateFailed (''verify binary: '' @ e) (fs_remove env RemoveNew (new_path u2) u2)
                | Inr _ \<Rightarrow> swap_binary env version u2)))"

definition updater_run :: "'h update_env \<Rightarrow> string \<Rightarrow> 'h updater \<Rightarrow> 'h updater" where
  "updater_run env version u = (run_update env version u)\<lparr>ud_busy := False\<rparr>"

section \<open>The requests of the agent\<close>

definition OpSync :: string where [op_defs]: "OpSync = ''sync''"
definition OpUpdate :: string where [op_defs]: "OpUpdate = ''update''"
definition OpStatus :: string where [op_defs]: "OpStatus = ''status''"

record agent_request = sync_request +
  rq_Op :: string
  rq_Version :: string

record agent_response = response +
  rp_Version :: string
  rp_Update :: "update_record option"
  rp_CanUpdate :: bool

text \<open>\<open>answer\<close> is a response before \<open>reply\<close> fills in version and \<open>CanUpdate\<close>.\<close>

definition answer :: "response \<Rightarrow> update_record option \<Rightarrow> agent_response" where
  "answer r rec = response.extend r \<lparr>rp_Version = [], rp_Update = rec, rp_CanUpdate = False\<rparr>"

definition plain_ok :: response where
  "plain_ok = \<lparr>rp_OK = True, rp_Error = None, rp_Backend = [], rp_Active = False, rp_Note = [], rp_Rules = []\<rparr>"

record ('h, 'w) agent =
  ag_Version :: string
  ag_Updater :: "'h updater option"
  ag_firewall :: "'w fd_host"

definition reply :: "('h, 'w) agent \<Rightarrow> agent_response \<Rightarrow> agent_response" where
  "reply a resp = resp\<lparr>rp_Version := ag_Version a, rp_CanUpdate := (ag_Updater a \<noteq> None)\<rparr>"

definition agent_update :: "'h update_env \<Rightarrow> agent_request \<Rightarrow> ('h, 'w) agent \<Rightarrow> agent_response \<times> ('h, 'w) agent" where
  "agent_update env req a =
     (case ag_Updater a of
        None \<Rightarrow> (answer (refuse [] NoUpdater) None, a)
      | Some u \<Rightarrow>
          (case Start env (rq_Version req) u of
             (Inl e, u1) \<Rightarrow> (answer (refuse [] e) (Last u1), a\<lparr>ag_Updater := Some u1\<rparr>)
           | (Inr rec, u1) \<Rightarrow> (answer plain_ok (Some rec), a\<lparr>ag_Updater := Some u1\<rparr>)))"

definition agent_handle ::
  "host_env \<Rightarrow> 'w run \<Rightarrow> 'h update_env \<Rightarrow> agent_request \<Rightarrow> ('h, 'w) agent \<Rightarrow> agent_response \<times> ('h, 'w) agent" where
  "agent_handle henv run env req a =
     (case (if rq_Op req = OpSync then
              (case agent_sync henv run (sync_request.truncate req) (ag_firewall a) of
                 (r, h) \<Rightarrow> (answer r None, a\<lparr>ag_firewall := h\<rparr>))
            else if rq_Op req = OpStatus then
              (answer plain_ok (case ag_Updater a of None \<Rightarrow> None | Some u \<Rightarrow> Last u), a)
            else if rq_Op req = OpUpdate then agent_update env req a
            else (answer (refuse [] (UnknownOp (rq_Op req))) None, a)) of
        (resp, a1) \<Rightarrow> (reply a1 resp, a1))"

section \<open>Starting the agent\<close>

text \<open>
  \<open>Serve\<close> up to its accept loop; every connection is then one \<open>agent_handle\<close>. The socket is left
  to root and to the owner of the data directory.
\<close>

record serve_env =
  av_mkdir :: "string option"
  av_listen :: "string option"
  av_chmod :: "string option"
  av_windows :: bool
  av_stat :: "string \<Rightarrow> (32 word \<times> 32 word) option option"
  av_euid :: int
  av_chown :: "int \<Rightarrow> int \<Rightarrow> string option"
  av_dir :: "string \<Rightarrow> string"
  av_goarch :: string

text \<open>
  \<open>ownerOf\<close> on Unix and on Windows; \<open>av_stat\<close> is what \<open>os.Stat\<close> tells (\<open>None\<close> an error, \<open>Some None\<close> a
  description without owner). An \<open>int\<close> of the program has 64 bits and holds every user id.
\<close>

definition ownerOf_unix :: "serve_env \<Rightarrow> string \<Rightarrow> (int \<times> int) option" where
  "ownerOf_unix env path =
     (case av_stat env path of
        None \<Rightarrow> None
      | Some sys \<Rightarrow> (case sys of None \<Rightarrow> None | Some (uid, gid) \<Rightarrow> Some (uint uid, uint gid)))"

definition ownerOf_windows :: "string \<Rightarrow> (int \<times> int) option" where
  "ownerOf_windows path = None"

definition ownerOf :: "serve_env \<Rightarrow> string \<Rightarrow> (int \<times> int) option" where
  "ownerOf env path = (if av_windows env then ownerOf_windows path else ownerOf_unix env path)"

definition restrictSocket :: "serve_env \<Rightarrow> string \<Rightarrow> string option" where
  "restrictSocket env dataDir =
     (case av_chmod env of
        Some e \<Rightarrow> Some e
      | None \<Rightarrow>
          (case ownerOf env dataDir of
             None \<Rightarrow> None
           | Some (uid, gid) \<Rightarrow> if av_euid env \<noteq> 0 then None else av_chown env uid gid))"

definition agent_start ::
  "serve_env \<Rightarrow> string \<Rightarrow> string \<Rightarrow> string \<Rightarrow> 'h updater option \<Rightarrow> 'w fd_host \<Rightarrow> (string, ('h, 'w) agent) result" where
  "agent_start env socket dataDir0 version upd h =
     (if socket = [] then Inl ''socket path is required''
      else if length socket > 100
      then Inl (''socket path '' @ quoted socket @ '' is too long for a unix socket (max ~100 bytes); pass a shorter --socket'')
      else let dataDir = (if dataDir0 = [] then av_dir env socket else dataDir0) in
        case av_mkdir env of
          Some e \<Rightarrow> Inl e
        | None \<Rightarrow>
            (case av_listen env of
               Some e \<Rightarrow> Inl (''listen '' @ socket @ '': '' @ e)
             | None \<Rightarrow>
                 (case restrictSocket env dataDir of
                    Some e \<Rightarrow> Inl e
                  | None \<Rightarrow> Inr \<lparr>ag_Version = version, ag_Updater = map_option (init_updater version (av_goarch env)) upd,
                                ag_firewall = h\<rparr>)))"

section \<open>Waiting ends in time\<close>

text \<open>Time and host before the \<open>n\<close>-th probe.\<close>

fun after_probes :: "('h \<Rightarrow> (string, string) result \<times> nat \<times> 'h) \<Rightarrow> nat \<Rightarrow> int \<Rightarrow> 'h \<Rightarrow> int \<times> 'h" where
  "after_probes probe 0 t h = (t, h)"
| "after_probes probe (Suc n) t h = (case probe h of (got, d, h1) \<Rightarrow> after_probes probe n (t + 1 + int d) h1)"

definition answers_in_time :: "('h \<Rightarrow> (string, string) result \<times> nat \<times> 'h) \<Rightarrow> string \<Rightarrow> int \<Rightarrow> int \<Rightarrow> 'h \<Rightarrow> bool" where
  "answers_in_time probe version timeout t h \<longleftrightarrow>
     (\<exists>n. fst (after_probes probe n t h) < timeout \<and> fst (probe (snd (after_probes probe n t h))) = Inr version)"

lemma after_probes_mono: "t \<le> fst (after_probes probe n t h)"
proof (induction n arbitrary: t h)
  case (Suc n)
  obtain got d h1 where p: "probe h = (got, d, h1)" by (metis prod.exhaust)
  from Suc[of "t + 1 + int d" h1] show ?case by (simp add: p)
qed simp

lemma answers_in_time_unfold:
  "answers_in_time probe version timeout t h \<longleftrightarrow>
     t < timeout \<and> (case probe h of (got, d, h1) \<Rightarrow> got = Inr version \<or> answers_in_time probe version timeout (t + 1 + int d) h1)"
proof -
  obtain got d h1 where p: "probe h = (got, d, h1)" by (metis prod.exhaust)
  have "(\<exists>n. P n) \<longleftrightarrow> P 0 \<or> (\<exists>n. P (Suc n))" for P :: "nat \<Rightarrow> bool" by (metis not0_implies_Suc)
  note split = this[of "\<lambda>n. fst (after_probes probe n t h) < timeout \<and> fst (probe (snd (after_probes probe n t h))) = Inr version"]
  have "\<not> t < timeout \<Longrightarrow> \<not> fst (after_probes probe n (t + 1 + int d) h1) < timeout" for n
    using after_probes_mono[of "t + 1 + int d" probe n h1] by simp
  then show ?thesis unfolding answers_in_time_def split by (auto simp: p)
qed

lemma wait_healthy_result:
  assumes "wait_healthy probe version timeout t l h = (e, t1, h1)"
  shows "(e = None \<longleftrightarrow> answers_in_time probe version timeout t h)
    \<and> ((\<forall>h. fst (snd (probe h)) \<le> D) \<longrightarrow> t1 \<le> max t (timeout + int D))
    \<and> (e = None \<longrightarrow> (\<exists>h0 d. probe h0 = (Inr version, d, h1)))"
  using assms
proof (induction probe version timeout t l h rule: wait_healthy.induct)
  case (1 probe version timeout t l h)
  show ?case
  proof (cases "t < timeout")
    case False
    then have "\<not> answers_in_time probe version timeout t h" by (simp add: answers_in_time_unfold[of _ _ _ t])
    moreover have "e \<noteq> None" "t1 = t" using False "1.prems" by (auto simp: wait_healthy.simps[of _ _ _ t])
    ultimately show ?thesis by auto
  next
    case True
    obtain got d h2 where p: "probe h = (got, d, h2)" by (metis prod.exhaust)
    have d: "(\<forall>h. fst (snd (probe h)) \<le> D) \<Longrightarrow> d \<le> D" using p by (metis fst_conv snd_conv)
    show ?thesis
    proof (cases "got = Inr version")
      case v: True
      with "1.prems" True p have "e = None" "t1 = t + 1 + int d" "h1 = h2"
        by (simp_all add: wait_healthy.simps[of _ _ _ t])
      moreover have "answers_in_time probe version timeout t h"
        using True v p by (simp add: answers_in_time_unfold[of _ _ _ t])
      ultimately show ?thesis using True d p v by fastforce
    next
      case v: False
      then obtain l2 where "wait_healthy probe version timeout (t + 1 + int d) l2 h2 = (e, t1, h1)"
        and ih: "(e = None \<longleftrightarrow> answers_in_time probe version timeout (t + 1 + int d) h2)
          \<and> ((\<forall>h. fst (snd (probe h)) \<le> D) \<longrightarrow> t1 \<le> max (t + 1 + int d) (timeout + int D)) \<and> (e = None \<longrightarrow> (\<exists>h0 d. probe h0 = (Inr version, d, h1)))"
        using "1.prems" True p "1.IH" by (cases got) (auto simp: wait_healthy.simps[of _ _ _ t])
      moreover have "answers_in_time probe version timeout t h \<longleftrightarrow> answers_in_time probe version timeout (t + 1 + int d) h2"
        using True v p by (simp add: answers_in_time_unfold[of _ _ _ t])
      ultimately show ?thesis using True d by fastforce
    qed
  qed
qed

lemma wait_healthy_succeeds:
  "wait_healthy probe version timeout t l h = (None, t1, h1) \<Longrightarrow> \<exists>h0 d. probe h0 = (Inr version, d, h1)"
  using wait_healthy_result by (metis (no_types, lifting))


text \<open>A host that counts the probes and answers the third.\<close>

definition demo_probe :: "nat \<Rightarrow> (string, string) result \<times> nat \<times> nat" where
  "demo_probe n = ((if n < 2 then Inl ''connection refused'' else Inr ''v1.1.0''), 1, Suc n)"


section \<open>An update ends with a server that can run\<close>

lemma set_update_frame [simp]:
  "ud_files (set_update env st d u) = ud_files u" "ud_BinPath (set_update env st d u) = ud_BinPath u"
  "new_path (set_update env st d u) = new_path u" "prev_path (set_update env st d u) = prev_path u"
  "ud_last (set_update env st d u) = None \<longleftrightarrow> ud_last u = None"
  "(\<exists>r. ud_last (set_update env st d u) = Some r) \<longleftrightarrow> (\<exists>r. ud_last u = Some r)"
  "ud_AgentUnit (set_update env st d u) = ud_AgentUnit u"
  by (simp_all add: set_update_def persist_def new_path_def prev_path_def)

lemma paths_differ [simp]:
  "new_path u \<noteq> ud_BinPath u" "prev_path u \<noteq> ud_BinPath u" "new_path u \<noteq> prev_path u"
  "ud_BinPath u \<noteq> new_path u" "ud_BinPath u \<noteq> prev_path u" "prev_path u \<noteq> new_path u"
  by (simp_all add: new_path_def prev_path_def)

lemma file_frames:
  "ud_BinPath (fs_remove env c p u) = ud_BinPath u" "ud_last (fs_remove env c p u) = ud_last u"
  "fs_write env c p data u = (e, u1) \<Longrightarrow> ud_BinPath u1 = ud_BinPath u \<and> ud_last u1 = ud_last u"
  "fs_rename env c p q u = (e, u1) \<Longrightarrow> ud_BinPath u1 = ud_BinPath u \<and> ud_last u1 = ud_last u"
  "run_cmd env cmd u = (e, u1) \<Longrightarrow> ud_BinPath u1 = ud_BinPath u \<and> ud_last u1 = ud_last u \<and> ud_files u1 = ud_files u"
  "waitHealthy env v u = (e, u1) \<Longrightarrow> ud_BinPath u1 = ud_BinPath u \<and> ud_last u1 = ud_last u \<and> ud_files u1 = ud_files u"
  by (auto simp: fs_remove_def fs_write_def fs_rename_def run_cmd_def waitHealthy_def split: option.splits prod.splits)

lemma files_of_calls:
  "q \<noteq> p \<Longrightarrow> ud_files (fs_remove env c p u) q = ud_files u q"
  "fs_write env c p data u = (e, u1) \<Longrightarrow> q \<noteq> p \<Longrightarrow> ud_files u1 q = ud_files u q"
  "fs_write env c p data u = (None, u1) \<Longrightarrow> ud_files u1 p = Some data"
  "fs_rename env c p q u = (Some x, u1) \<Longrightarrow> u1 = u \<and> (ud_files u p = None \<or> ae_os env c \<noteq> None)"
  "fs_rename env c p q u = (None, u1) \<Longrightarrow> p \<noteq> q \<Longrightarrow>
     ud_files u1 p = None \<and> ud_files u1 q = ud_files u p \<and> ud_files u p \<noteq> None \<and> (\<forall>r. r \<noteq> p \<and> r \<noteq> q \<longrightarrow> ud_files u1 r = ud_files u r)"
  by (auto simp: fs_remove_def fs_write_def fs_rename_def split: option.splits)

lemma paths_of: "ud_BinPath u1 = ud_BinPath u \<Longrightarrow> new_path u1 = new_path u \<and> prev_path u1 = prev_path u"
  by (simp add: new_path_def prev_path_def)

text \<open>How an update may end: in a final state, with the old binary safe.\<close>

definition ended :: "'h update_env \<Rightarrow> string \<Rightarrow> (string \<Rightarrow> bool) \<Rightarrow> string \<Rightarrow> 'h updater \<Rightarrow> bool" where
  "ended env version good old u \<longleftrightarrow>
     (\<exists>r. ud_last u = Some r \<and>
        (ur_State r = UpdateDone \<and> ud_files u (prev_path u) = Some old
           \<and> (\<exists>new h d h1. ud_files u (ud_BinPath u) = Some new \<and> good new \<and> ae_Probe env (ud_files u) h = (Inr version, d, h1))
         \<or> ur_State r = UpdateRolledBack \<and> ud_files u (ud_BinPath u) = Some old
         \<or> ur_State r = UpdateFailed \<and> (ud_files u (ud_BinPath u) = Some old
              \<or> ud_files u (prev_path u) = Some old \<and> (\<exists>c. ae_os env c \<noteq> None))))"

lemma set_update_last:
  assumes "ud_last u \<noteq> None"
  shows "\<exists>r. ud_last (set_update env st d u) = Some r \<and> ur_State r = st"
  using assms by (cases "ud_last u") (simp_all add: set_update_def persist_def)

lemma ended_set:
  assumes "ud_last u \<noteq> None"
    and "st = UpdateDone \<and> ud_files u (prev_path u) = Some old
           \<and> (\<exists>new h d h1. ud_files u (ud_BinPath u) = Some new \<and> good new \<and> ae_Probe env (ud_files u) h = (Inr version, d, h1))
         \<or> st = UpdateRolledBack \<and> ud_files u (ud_BinPath u) = Some old
         \<or> st = UpdateFailed \<and> (ud_files u (ud_BinPath u) = Some old
              \<or> ud_files u (prev_path u) = Some old \<and> (\<exists>c. ae_os env c \<noteq> None))"
  shows "ended env version good old (set_update env st d u)"
proof -
  obtain r where r: "ud_last (set_update env st d u) = Some r" "ur_State r = st" using set_update_last[OF assms(1)] by blast
  show ?thesis unfolding ended_def set_update_frame by (rule exI[of _ r]) (use r assms(2) in simp)
qed

lemma ended_failed:
  assumes "ud_last u \<noteq> None"
    and "ud_files u (ud_BinPath u) = Some old \<or> ud_files u (prev_path u) = Some old \<and> (\<exists>c. ae_os env c \<noteq> None)"
  shows "ended env version good old (set_update env UpdateFailed d u)"
  by (rule ended_set[OF assms(1)]) (use assms(2) in simp)

lemma rollback_ended:
  assumes "ud_last u \<noteq> None" and "ud_files u (prev_path u) = Some old"
  shows "ended env version good old (rollback env why cause u)"
proof -
  obtain e u1 where r: "fs_rename env RestorePrevious (prev_path u) (ud_BinPath u) u = (e, u1)" by fastforce
  show ?thesis
  proof (cases e)
    case (Some x)
    with r files_of_calls(4)[of env RestorePrevious "prev_path u" "ud_BinPath u" u x u1] assms
    have "u1 = u" "\<exists>c. ae_os env c \<noteq> None" by auto
    with assms r Some show ?thesis by (simp add: rollback_def Let_def ended_failed)
  next
    case None
    then have b: "ud_files u1 (ud_BinPath u) = Some old" "ud_BinPath u1 = ud_BinPath u" "ud_last u1 = ud_last u"
      using files_of_calls(5)[of env RestorePrevious "prev_path u" "ud_BinPath u" u u1] file_frames(4)[OF r] r assms(2) by auto
    obtain e2 u2 where c: "run_cmd env (restart_cmd u1) u1 = (e2, u2)" by fastforce
    note C = file_frames(5)[OF c]
    show ?thesis
    proof (cases e2)
      case (Some x)
      have "ended env version good old (set_update env UpdateFailed
          (why @ '': '' @ cause @ '' (previous binary restored, but restarting it failed: '' @ x @ '')'') u2)"
        by (rule ended_failed) (use b C assms in auto)
      with r c None Some show ?thesis by (simp add: rollback_def Let_def)
    next
      case None2: None
      have "ended env version good old (set_update env UpdateRolledBack (why @ '': '' @ cause @ ''; previous version restored'') u2)"
        by (rule ended_set) (use b C assms in auto)
      with r c None None2 show ?thesis by (simp add: rollback_def Let_def)
    qed
  qed
qed

lemma restart_updated_ended:
  assumes "ud_last u \<noteq> None" and "ud_files u (prev_path u) = Some old" and "ud_files u (ud_BinPath u) = Some new" and "good new"
  shows "ended env version good old (restart_updated env version u)"
proof -
  let ?u = "set_update env UpdatePending ''restarting'' u"
  obtain e u1 where r: "run_cmd env (restart_cmd ?u) ?u = (e, u1)" by fastforce
  have b1: "ud_BinPath u1 = ud_BinPath u" "ud_files u1 = ud_files u" "ud_last u1 \<noteq> None"
    using file_frames(5)[OF r] assms(1) by auto
  note p1 = paths_of[OF b1(1)]
  show ?thesis
  proof (cases e)
    case (Some x)
    have "ended env version good old (rollback env ''restart failed'' x u1)"
      by (rule rollback_ended) (use b1 p1 assms in simp_all)
    with r Some show ?thesis by (simp add: restart_updated_def Let_def)
  next
    case None
    obtain e2 u2 where w: "waitHealthy env version u1 = (e2, u2)" by fastforce
    have b2: "ud_BinPath u2 = ud_BinPath u" "ud_files u2 = ud_files u" "ud_last u2 \<noteq> None"
      using file_frames(6)[OF w] b1 by auto
    note p2 = paths_of[OF b2(1)]
    show ?thesis
    proof (cases e2)
      case (Some x)
      have "ended env version good old (rollback env ''new server did not become healthy'' x u2)"
        by (rule rollback_ended) (use b2 p2 assms in simp_all)
      with r w None Some show ?thesis by (simp add: restart_updated_def Let_def)
    next
      case None2: None
      obtain t h where "wait_healthy (ae_Probe env (ud_files u1)) version (ud_Timeout u1) 0 None (ud_host u1) = (None, t, h)"
        using w None2 by (auto simp: waitHealthy_def split: prod.splits)
      then have "\<exists>h d h1. ae_Probe env (ud_files u) h = (Inr version, d, h1)"
        unfolding b1(2) by (blast dest: wait_healthy_succeeds)
      then have d: "ended env version good old (set_update env UpdateDone x u2)" for x
        by (intro ended_set[OF b2(3)]) (use b2 p2 assms in auto)
      obtain e3 u3 where s: "run_cmd env [''systemd-run'', ''--quiet'', ''--on-active=2'', ''systemctl'', ''restart'', ud_AgentUnit u2]
          (set_update env UpdateDone (''updated to '' @ version) u2) = (e3, u3)" by fastforce
      have "ended env version good old u3"
        using d[of "''updated to '' @ version"] file_frames(5)[OF s] paths_of[of u3 u2] by (simp add: ended_def)
      then show ?thesis using r w None None2 d s
        by (simp add: restart_updated_def Let_def)
    qed
  qed
qed

lemma swap_binary_ended:
  assumes "ud_last u \<noteq> None" and "ud_files u (ud_BinPath u) = Some old" and "ud_files u (new_path u) = Some new" and "good new"
  shows "ended env version good old (swap_binary env version u)"
proof -
  let ?u = "fs_remove env RemovePrevious (prev_path u) u"
  have b: "ud_BinPath ?u = ud_BinPath u" "ud_last ?u \<noteq> None" using assms(1) by (simp_all add: file_frames)
  note p = paths_of[OF b(1)]
  have f: "ud_files ?u (ud_BinPath u) = Some old" "ud_files ?u (new_path u) = Some new"
    using assms by (simp_all add: files_of_calls(1))
  obtain e u1 where k: "fs_rename env KeepPrevious (ud_BinPath u) (prev_path u) ?u = (e, u1)" by fastforce
  have b1: "ud_BinPath u1 = ud_BinPath u" "ud_last u1 \<noteq> None" using file_frames(4)[OF k] b by auto
  note p1 = paths_of[OF b1(1)]
  show ?thesis
  proof (cases e)
    case (Some x)
    then have "u1 = ?u" using files_of_calls(4)[of env KeepPrevious "ud_BinPath u" "prev_path u" ?u x u1] k by simp
    then have "ended env version good old (set_update env UpdateFailed (''keep previous binary: '' @ x) (fs_remove env RemoveNew (new_path u1) u1))"
      by (intro ended_failed) (use b f p in \<open>simp_all add: file_frames files_of_calls(1)\<close>)
    with k b p Some show ?thesis by (simp add: swap_binary_def Let_def)
  next
    case None
    then have f1: "ud_files u1 (prev_path u) = Some old" "ud_files u1 (new_path u) = Some new"
      using files_of_calls(5)[of env KeepPrevious "ud_BinPath u" "prev_path u" ?u u1] k f by auto
    obtain e2 u2 where i: "fs_rename env InstallNew (new_path u) (ud_BinPath u) u1 = (e2, u2)" by fastforce
    have b2: "ud_BinPath u2 = ud_BinPath u" "ud_last u2 \<noteq> None" using file_frames(4)[OF i] b1 by auto
    note p2 = paths_of[OF b2(1)]
    show ?thesis
    proof (cases e2)
      case (Some x)
      then have u2: "u2 = u1" "\<exists>c. ae_os env c \<noteq> None"
        using files_of_calls(4)[of env InstallNew "new_path u" "ud_BinPath u" u1 x u2] i f1 by auto
      obtain e3 u3 where n: "fs_rename env UndoKeep (prev_path u) (ud_BinPath u) u1 = (e3, u3)" by fastforce
      have b3: "ud_BinPath u3 = ud_BinPath u" "ud_last u3 \<noteq> None" using file_frames(4)[OF n] b1 by auto
      have "ud_files u3 (ud_BinPath u) = Some old \<or> ud_files u3 (prev_path u) = Some old"
        using files_of_calls(4)[of env UndoKeep "prev_path u" "ud_BinPath u" u1 _ u3]
          files_of_calls(5)[of env UndoKeep "prev_path u" "ud_BinPath u" u1 u3] n f1 by (cases e3) auto
      then have "ended env version good old (set_update env UpdateFailed (''install binary: '' @ x) u3)"
        by (intro ended_failed) (use b3 paths_of[OF b3(1)] u2(2) in auto)
      with k i n u2 b p b1 p1 None Some show ?thesis by (simp add: swap_binary_def Let_def)
    next
      case None2: None
      then have "ud_files u2 (prev_path u) = Some old" "ud_files u2 (ud_BinPath u) = Some new"
        using files_of_calls(5)[of env InstallNew "new_path u" "ud_BinPath u" u1 u2] i f1 by auto
      then have "ended env version good old (restart_updated env version u2)"
        by (intro restart_updated_ended[OF b2(2)]) (use b2 p2 assms(4) in simp_all)
      with k i b p b1 p1 None None2 show ?thesis by (simp add: swap_binary_def Let_def)
    qed
  qed
qed

lemma run_update_ended:
  assumes "ud_last u \<noteq> None" and "ud_files u (ud_BinPath u) = Some old"
  shows "ended env version (\<lambda>new. fetchBinary (httpDownload (ae_get env)) (ae_sha env) (ae_untar env) (ud_Repo u) (ud_Arch u) version = Inr new
           \<and> verifyBinary (ae_exec env) new version = Inr ()) old (run_update env version u)"
    (is "ended _ _ ?good _ _")
proof (cases "fetchBinary (httpDownload (ae_get env)) (ae_sha env) (ae_untar env) (ud_Repo u) (ud_Arch u) version")
  case (Inl e)
  have "ended env version ?good old (set_update env UpdateFailed (''download: '' @ e) u)"
    by (intro ended_failed) (use assms in simp_all)
  with Inl show ?thesis by (simp add: run_update_def)
next
  case (Inr new)
  let ?u = "set_update env UpdatePending ''installing'' u"
  obtain e u1 where w: "fs_write env WriteNew (new_path ?u) new ?u = (e, u1)" by fastforce
  have b1: "ud_BinPath u1 = ud_BinPath u" "ud_last u1 \<noteq> None" using file_frames(3)[OF w] assms(1) by auto
  note p1 = paths_of[OF b1(1)]
  have f1: "ud_files u1 (ud_BinPath u) = Some old" using files_of_calls(2)[OF w, of "ud_BinPath u"] assms(2) by simp
  consider (unwritten) x where "e = Some x" | (bad) x where "e = None" "verifyBinary (ae_exec env) new version = Inl x"
    | (ok) "e = None" "verifyBinary (ae_exec env) new version = Inr ()" by (cases e; cases "verifyBinary (ae_exec env) new version") auto
  then show ?thesis
  proof cases
    case unwritten
    have "ended env version ?good old (set_update env UpdateFailed (''write binary: '' @ x) u1)"
      by (intro ended_failed) (use b1 f1 in simp_all)
    with Inr w unwritten show ?thesis by (simp add: run_update_def Let_def)
  next
    case bad
    have "ended env version ?good old (set_update env UpdateFailed (''verify binary: '' @ x) (fs_remove env RemoveNew (new_path u1) u1))"
      by (intro ended_failed) (use b1 p1 f1 in \<open>simp_all add: file_frames files_of_calls(1)\<close>)
    with Inr w bad show ?thesis by (simp add: run_update_def Let_def)
  next
    case ok
    then have "ud_files u1 (new_path u) = Some new" using files_of_calls(3)[of env WriteNew "new_path ?u" new ?u u1] w by simp
    then have "ended env version ?good old (swap_binary env version u1)"
      by (intro swap_binary_ended[OF b1(2)]) (use b1 p1 f1 Inr ok in simp_all)
    with Inr w ok show ?thesis by (simp add: run_update_def Let_def)
  qed
qed

text \<open>
  C5: an update always ends, and never without a server binary. From a host whose server binary
  is \<open>old\<close>, an accepted request runs to one of three ends, with the updater free again. Done: the
  installed binary came out of the release tarball whose hash is in the release's SHA256SUMS,
  printed the new version when run, the restarted server reported that version, and \<open>old\<close> is
  kept as the previous binary. Rolled back: \<open>old\<close> is installed again. Failed: \<open>old\<close> is
  installed, or at least kept as the previous binary when a call of the file system failed.
\<close>

theorem update_keeps_a_working_binary:
  assumes "Start env version u0 = (Inr rec, u)" and "ud_files u0 (ud_BinPath u0) = Some old"
  shows "\<exists>r. ud_last (updater_run env version u) = Some r \<and> \<not> ud_busy (updater_run env version u)
    \<and> (let u1 = updater_run env version u in
        (ur_State r = UpdateDone \<and> ud_files u1 (prev_path u1) = Some old
           \<and> (\<exists>new. ud_files u1 (ud_BinPath u1) = Some new \<and> verifyBinary (ae_exec env) new version = Inr ()
                \<and> fetchBinary (httpDownload (ae_get env)) (ae_sha env) (ae_untar env) (ud_Repo u0) (ud_Arch u0) version = Inr new)
           \<and> (\<exists>h d h1. ae_Probe env (ud_files u1) h = (Inr version, d, h1)))
        \<or> (ur_State r = UpdateRolledBack \<and> ud_files u1 (ud_BinPath u1) = Some old)
        \<or> (ur_State r = UpdateFailed \<and> (ud_files u1 (ud_BinPath u1) = Some old
              \<or> ud_files u1 (prev_path u1) = Some old \<and> (\<exists>c. ae_os env c \<noteq> None))))"
proof -
  have u: "ud_last u \<noteq> None" "ud_files u (ud_BinPath u) = Some old" "ud_Repo u = ud_Repo u0" "ud_Arch u = ud_Arch u0"
    using assms by (auto simp: Start_def persist_def Let_def split: if_splits)
  from run_update_ended[OF u(1,2), of env version] u(3,4) show ?thesis
    unfolding ended_def updater_run_def Let_def by (auto simp: prev_path_def)
qed

text \<open>A release with its checksum file, a tarball of one file, and a host that takes the update.\<close>

definition demo_sums :: string where
  "demo_sums = ''544152  *spawnrelay_linux_amd64.tar.gz'' @ [CHR 0x0A]"

definition demo_get :: http_get where
  "demo_get url =
     Inr (200, Inr (if url = ReleaseURL ''o/r'' ''v1.1.0'' ''SHA256SUMS''
                    then demo_sums else ''TAR''))"

definition demo_update_env :: "nat update_env" where
  "demo_update_env = \<lparr>ae_now = 100, ae_get = demo_get, ae_sha = (\<lambda>s. s),
     ae_untar = (\<lambda>_. Inr ([\<lparr>ta_Name = ''./spawnrelay'', ta_regular = True, ta_data = Inr ''NEW''\<rparr>], None)),
     ae_exec = (\<lambda>_. Inr (''v1.1.0'' @ [CHR 0x0A])), ae_os = (\<lambda>_. None), ae_partial = None,
     ae_Run = (\<lambda>_ _ h. (None, h)), ae_Probe = (\<lambda>_. demo_probe)\<rparr>"

definition demo_updater :: "nat updater" where
  "demo_updater = \<lparr>ud_Repo = ''o/r'', ud_BinPath = ''/bin/spawnrelay'', ud_ServerUnit = ''spawnrelay'', ud_AgentUnit = [],
     ud_Arch = ''amd64'', ud_Version = ''v1.0.0'', ud_Timeout = 60, ud_busy = False, ud_last = None,
     ud_files = [''/bin/spawnrelay'' \<mapsto> ''OLD''], ud_record = None, ud_host = 0\<rparr>"

definition demo_upgraded :: "nat updater" where
  "demo_upgraded = updater_run demo_update_env ''v1.1.0'' (snd (Start demo_update_env ''v1.1.0'' demo_updater))"

lemma demo_start_accepted: "case fst (Start demo_update_env ''v1.1.0'' demo_updater) of Inl _ \<Rightarrow> False | Inr _ \<Rightarrow> True"
  by code_simp

lemma demo_fetch: "fetchBinary (httpDownload demo_get) (\<lambda>s. s) (ae_untar demo_update_env) ''o/r'' ''amd64'' ''v1.1.0'' = Inr ''NEW''"
proof -
  have l: "length s < 1000 \<Longrightarrow> take downloadLimit s = s" for s :: string by (simp add: downloadLimit_def)
  have d: "httpDownload demo_get (ReleaseURL ''o/r'' ''v1.1.0'' ''SHA256SUMS'') = Inr demo_sums"
    "httpDownload demo_get (ReleaseURL ''o/r'' ''v1.1.0'' ''spawnrelay_linux_amd64.tar.gz'') = Inr ''TAR''"
    by (simp_all add: httpDownload_def demo_get_def ReleaseURL_def l demo_sums_def)
  have v: "VerifySum (\<lambda>s. s) (ParseSums demo_sums) ''spawnrelay_linux_amd64.tar.gz'' ''TAR'' = Inr ()"
    by code_simp
  have x: "path_base ''./spawnrelay'' = ''spawnrelay''" by code_simp
  show ?thesis unfolding fetchBinary_def Let_def append.simps d prefixed_def sum.case rbind.simps v
    by (simp add: extractBinary_def demo_update_env_def x l)
qed

lemma demo_update_state: "map_option ur_State (ud_last demo_upgraded) = Some UpdateDone"
proof -
  obtain rec u where s: "Start demo_update_env ''v1.1.0'' demo_updater = (Inr rec, u)"
    using demo_start_accepted by (cases "Start demo_update_env ''v1.1.0'' demo_updater") (auto split: sum.splits)
  have "ValidTag ''v1.1.0''" by code_simp
  with s[symmetric] have u: "u = demo_updater\<lparr>ud_busy := True, ud_last := Some rec, ud_record := Some rec\<rparr>"
    by (simp add: Start_def persist_def demo_updater_def demo_update_env_def Let_def)
  have v: "verifyBinary (\<lambda>_. Inr (''v1.1.0'' @ [CHR 0x0A])) ''NEW'' ''v1.1.0'' = Inr ()" by code_simp
  have "fst (wait_healthy demo_probe ''v1.1.0'' 60 0 None 0) = None" by code_simp
  then obtain th where w: "wait_healthy demo_probe ''v1.1.0'' 60 0 None 0 = (None, th)" by (metis prod.collapse)
  show ?thesis unfolding demo_upgraded_def s snd_conv using demo_fetch v w
    by (simp add: u updater_run_def run_update_def demo_updater_def demo_update_env_def set_update_def persist_def fs_write_def fs_rename_def
        fs_remove_def swap_binary_def restart_updated_def run_cmd_def waitHealthy_def new_path_def prev_path_def Let_def split: prod.splits)
qed

theorem update_keeps_a_working_binary_witness:
  "\<exists>r new. ud_last demo_upgraded = Some r \<and> ur_State r = UpdateDone \<and> \<not> ud_busy demo_upgraded
    \<and> ud_files demo_upgraded (prev_path demo_upgraded) = Some ''OLD'' \<and> ud_files demo_upgraded (ud_BinPath demo_upgraded) = Some new
    \<and> verifyBinary (ae_exec demo_update_env) new ''v1.1.0'' = Inr ()"
proof -
  obtain rec u where s: "Start demo_update_env ''v1.1.0'' demo_updater = (Inr rec, u)"
    using demo_start_accepted by (cases "Start demo_update_env ''v1.1.0'' demo_updater") (auto split: sum.splits)
  have "demo_upgraded = updater_run demo_update_env ''v1.1.0'' u" by (simp add: demo_upgraded_def s)
  moreover have "UpdateDone \<noteq> UpdateRolledBack" "UpdateDone \<noteq> UpdateFailed"
    by (simp_all add: UpdateDone_def UpdateRolledBack_def UpdateFailed_def)
  ultimately show ?thesis
    using update_keeps_a_working_binary[OF s, of "''OLD''"] demo_update_state by (auto simp: demo_updater_def Let_def)
qed

end
