(* ===== verification/Self_Update.thy ===== *)
theory Self_Update
  imports Agent_Update
begin

text \<open>
  The server's self-update (\<open>internal/server/selfupdate.go\<close>): the release check, what the interface
  shows, the start of an update, the staging of the client binaries, the hand-over to the agent,
  and the adoption of the staged binaries by the new server. The directories \<open>updates/\<close> and \<open>bin/\<close> of
  the data directory are association lists; GitHub, the agent behind its socket and the file calls are
  parameters. A request reads the clock once.
\<close>

section \<open>State\<close>

definition stalePendingAfter :: int where "stalePendingAfter = 15 * 60"
definition stagingKeepFor :: int where "stagingKeepFor = 7 * 24 * 3600"
definition DefaultUpdateRepo :: string where "DefaultUpdateRepo = ''Ruben-C/SpawnRelay''"

definition clientPlatforms :: "string list" where
  "clientPlatforms = [''linux_amd64'', ''linux_arm64'', ''linux_arm'', ''darwin_amd64'', ''darwin_arm64'',
     ''windows_amd64.exe'', ''windows_arm64.exe'', ''freebsd_amd64'']"

record staging =
  sd_ModTime :: time
  sd_Files :: "(string \<times> string) list"

record self_updater =
  su_version :: string
  su_repo :: string
  su_latest :: string
  su_checkedAt :: "time option"
  su_checkErr :: string
  su_local :: "update_record option"
  su_busy :: bool
  su_record :: "update_record option"
  su_staged :: "(string \<times> staging) list"
  su_bin :: "(string \<times> string) list"

record self_env =
  se_now :: time
  se_get :: http_get
  se_tag :: "string \<Rightarrow> (string, string) result"
  se_socket :: "string \<times> bool"
  se_Available :: "string \<Rightarrow> bool"
  se_Status :: "string \<Rightarrow> (string, bool) result"
  se_Update :: "string \<Rightarrow> string \<Rightarrow> string option"
  se_sha :: "string \<Rightarrow> string"
  se_mkdir :: "string \<Rightarrow> string option"
  se_write :: "string \<Rightarrow> string option"
  se_partial :: "string option"
  se_rename :: "string \<Rightarrow> bool"
  se_removeAll :: "string \<Rightarrow> bool"
  se_readdir :: bool
  se_info :: "string \<Rightarrow> bool"

definition newSelfUpdater :: "string \<Rightarrow> string \<Rightarrow> update_record option \<Rightarrow> (string \<times> staging) list \<Rightarrow> (string \<times> string) list \<Rightarrow> self_updater" where
  "newSelfUpdater version repo rec staged bin =
     \<lparr>su_version = version, su_repo = (if repo = [] then DefaultUpdateRepo else repo), su_latest = [], su_checkedAt = None,
      su_checkErr = [], su_local = None, su_busy = False, su_record = rec, su_staged = staged, su_bin = bin\<rparr>"

section \<open>The release check\<close>

definition fetchLatest :: "self_env \<Rightarrow> self_updater \<Rightarrow> (string, string) result" where
  "fetchLatest env u =
     rbind (se_get env (''https://api.github.com/repos/'' @ su_repo u @ ''/releases/latest'')) (\<lambda>(status, body).
       if status \<noteq> 200 then Inl (''GitHub answered HTTP '' @ itoa (int status))
       else rbind (prefixed ''bad release response'' (rbind body (\<lambda>b. se_tag env (take (2 ^ 20) b)))) (\<lambda>tag.
         if \<not> ValidTag tag then Inl (''latest release has an unexpected tag '' @ quoted tag) else Inr tag))"

definition check :: "self_env \<Rightarrow> self_updater \<Rightarrow> self_updater" where
  "check env u =
     (case fetchLatest env u of
        Inl e \<Rightarrow> u\<lparr>su_checkedAt := Some (se_now env), su_checkErr := e\<rparr>
      | Inr tag \<Rightarrow> u\<lparr>su_checkedAt := Some (se_now env), su_checkErr := [], su_latest := tag\<rparr>)"

text \<open>\<open>run\<close>: a check at the start and one at every tick, each with its own surroundings.\<close>

definition self_run :: "self_env list \<Rightarrow> self_updater \<Rightarrow> self_updater" where
  "self_run envs u = foldl (\<lambda>u env. check env u) u envs"

definition availability :: "self_updater \<Rightarrow> bool \<times> string \<times> string" where
  "availability u =
     (if parseVersion (su_version u) = None
      then (False, su_latest u, ''this is a development build; updates are paused until it runs a release version'')
      else if su_latest u = [] then
        (if su_checkErr u \<noteq> [] then (False, [], ''could not check for releases: '' @ su_checkErr u)
         else (False, [], ''no release information yet''))
      else if \<not> newerVersion (su_latest u) (su_version u) then (False, su_latest u, ''already on the latest release'')
      else (True, su_latest u, []))"

definition supported :: "self_env \<Rightarrow> bool \<times> string \<times> string" where
  "supported env =
     (case se_socket env of
        (socket, legacy) \<Rightarrow>
          if \<not> se_Available env socket then (False, ''the agent is not installed on this host (re-run the server installer)'', socket)
          else if legacy then (False, ''the agent is older than the server; re-run the server installer'', socket)
          else (case se_Status env socket of
             Inl e \<Rightarrow> (False, ''the agent did not answer: '' @ e, socket)
           | Inr can \<Rightarrow>
               if \<not> can then (False, ''the agent is not configured to install updates; re-run the server installer'', socket)
               else (True, [], socket)))"

definition last_update :: "self_env \<Rightarrow> self_updater \<Rightarrow> update_record option" where
  "last_update env u =
     (let rec = ReadRecord (su_record u);
          rec1 = (case su_local u of
                    None \<Rightarrow> rec
                  | Some l \<Rightarrow> (case rec of None \<Rightarrow> Some l | Some r \<Rightarrow> if \<not> ur_StartedAt r > ur_StartedAt l then Some l else rec))
      in map_option (\<lambda>r. if ur_State r = UpdatePending \<and> se_now env - ur_StartedAt r > stalePendingAfter
                          then r\<lparr>ur_State := UpdateFailed, ur_Detail := ''update did not finish: '' @ ur_Detail r\<rparr> else r) rec1)"

section \<open>What the interface shows\<close>

record update_out_server =
  uo_RunningVersion :: string
  uo_LatestVersion :: string
  uo_CheckedAt :: "time option"
  uo_CheckError :: string
  uo_Available :: bool
  uo_Reason :: string
  uo_Supported :: bool
  uo_InstallCommand :: string
  uo_Last :: "update_record option"

definition installCommand :: "self_updater \<Rightarrow> string" where
  "installCommand u = ''curl -fsSL https://raw.githubusercontent.com/'' @ su_repo u @ ''/main/scripts/install-server.sh | sudo bash''"

definition self_out :: "self_env \<Rightarrow> self_updater \<Rightarrow> update_out_server" where
  "self_out env u =
     (case availability u of (available, latest, reason) \<Rightarrow>
      case supported env of (isSupported, why, _) \<Rightarrow>
        \<lparr>uo_RunningVersion = su_version u, uo_LatestVersion = latest, uo_CheckedAt = su_checkedAt u, uo_CheckError = su_checkErr u,
         uo_Available = available, uo_Reason = (if reason = [] \<and> \<not> isSupported then why else reason), uo_Supported = isSupported,
         uo_InstallCommand = installCommand u, uo_Last = last_update env u\<rparr>)"

definition statusOut :: "self_updater \<Rightarrow> bool \<times> string option" where
  "statusOut u = (case availability u of (available, latest, _) \<Rightarrow> (available, if available then Some latest else None))"

section \<open>Starting an update\<close>

text \<open>What \<open>start\<close> decides from the requested version alone: the target, or a status and a message.\<close>

definition update_target :: "string \<Rightarrow> bool \<Rightarrow> self_updater \<Rightarrow> (nat \<times> string, string) result" where
  "update_target version reinstall u =
     (case availability u of (available, latest, reason) \<Rightarrow>
        if version = [] then (if \<not> available then Inl (409, reason) else Inr latest)
        else if version = su_version u \<and> reinstall then
          (if parseVersion version = None then Inl (400, ''a development build cannot be reinstalled from a release'') else Inr version)
        else if version = latest \<and> available then Inr version
        else if \<not> ValidTag version then Inl (400, quoted version @ '' is not a release tag (expected vMAJOR.MINOR.PATCH)'')
        else if version = su_version u then Inl (400, ''already running '' @ version @ ''; pass reinstall to install it again'')
        else if \<not> newerVersion version (su_version u)
          then Inl (400, version @ '' is older than the running '' @ su_version u @ ''; downgrades are not installed'')
        else Inl (400, version @ '' is not the latest release ('' @ latest @ '')''))"

definition start_update :: "self_env \<Rightarrow> string \<Rightarrow> bool \<Rightarrow> self_updater \<Rightarrow> (nat \<times> string, string) result \<times> self_updater" where
  "start_update env version reinstall u =
     (case update_target version reinstall u of
        Inl e \<Rightarrow> (Inl e, u)
      | Inr target \<Rightarrow>
          (case supported env of (ok, why, _) \<Rightarrow>
             if \<not> ok then (Inl (409, why), u)
             else if (case last_update env u of None \<Rightarrow> False | Some r \<Rightarrow> ur_State r = UpdatePending)
             then (Inl (409, ''an update is already in progress''), u)
             else if su_busy u then (Inl (409, ''an update is already in progress''), u)
             else (Inr target,
               u\<lparr>su_busy := True,
                 su_local := Some \<lparr>ur_State = UpdatePending, ur_From = su_version u, ur_To = target,
                   ur_Detail = ''downloading client binaries'', ur_StartedAt = se_now env, ur_FinishedAt = None\<rparr>\<rparr>)))"

definition handleUpdateStart :: "self_env \<Rightarrow> string \<Rightarrow> bool \<Rightarrow> self_updater \<Rightarrow> nat \<times> self_updater" where
  "handleUpdateStart env version reinstall u =
     (case start_update env version reinstall u of
        (Inl (code, _), u1) \<Rightarrow> (code, u1)
      | (Inr _, u1) \<Rightarrow> (202, u1))"

definition handleUpdateCheck :: "self_env \<Rightarrow> self_updater \<Rightarrow> update_out_server \<times> self_updater" where
  "handleUpdateCheck env u = (let u1 = check env u in (self_out env u1, u1))"

definition setLocal :: "self_env \<Rightarrow> string \<Rightarrow> string \<Rightarrow> self_updater \<Rightarrow> self_updater" where
  "setLocal env state detail u =
     u\<lparr>su_local := map_option (\<lambda>r. r\<lparr>ur_State := state, ur_Detail := detail,
          ur_FinishedAt := (if state \<noteq> UpdatePending then Some (se_now env) else ur_FinishedAt r)\<rparr>) (su_local u)\<rparr>"

section \<open>Staging\<close>

definition staged_files :: "string \<Rightarrow> self_updater \<Rightarrow> (string \<times> string) list" where
  "staged_files version u = (case map_of (su_staged u) version of None \<Rightarrow> [] | Some d \<Rightarrow> sd_Files d)"

definition put_staged :: "self_env \<Rightarrow> string \<Rightarrow> string \<Rightarrow> string option \<Rightarrow> self_updater \<Rightarrow> self_updater" where
  "put_staged env version name data u =
     u\<lparr>su_staged := AList.update version
          \<lparr>sd_ModTime = se_now env,
           sd_Files = (case data of None \<Rightarrow> staged_files version u | Some b \<Rightarrow> AList.update name b (staged_files version u))\<rparr> (su_staged u)\<rparr>"

definition staging_dir :: "self_env \<Rightarrow> string \<Rightarrow> self_updater \<Rightarrow> self_updater" where
  "staging_dir env version u = (if map_of (su_staged u) version = None then put_staged env version [] None u else u)"

definition remove_staged :: "self_env \<Rightarrow> string \<Rightarrow> self_updater \<Rightarrow> self_updater" where
  "remove_staged env version u = (if se_removeAll env version then u\<lparr>su_staged := AList.delete version (su_staged u)\<rparr> else u)"

fun stage_files :: "self_env \<Rightarrow> string \<Rightarrow> checksums \<Rightarrow> string list \<Rightarrow> self_updater \<Rightarrow> string option \<times> self_updater" where
  "stage_files env version sums [] u = (None, u)"
| "stage_files env version sums (p # ps) u =
     (let name = ''spawnrelay_'' @ p;
          u1 = setLocal env UpdatePending (''downloading '' @ name) u in
      case prefixed name (su_download (se_get env) (ReleaseURL (su_repo u) version name)) of
        Inl e \<Rightarrow> (Some e, u1)
      | Inr b \<Rightarrow>
          (case VerifySum (se_sha env) sums name b of
             Inl e \<Rightarrow> (Some e, u1)
           | Inr _ \<Rightarrow>
               (case se_write env name of
                  Some e \<Rightarrow> (Some e, put_staged env version name (se_partial env) u1)
                | None \<Rightarrow> stage_files env version sums ps (put_staged env version name (Some b) u1))))"

definition stageClientBinaries :: "self_env \<Rightarrow> string \<Rightarrow> self_updater \<Rightarrow> string option \<times> self_updater" where
  "stageClientBinaries env version u =
     (case se_mkdir env version of
        Some e \<Rightarrow> (Some e, u)
      | None \<Rightarrow>
          (case (let u1 = staging_dir env version u in
                 case prefixed ''SHA256SUMS'' (su_download (se_get env) (ReleaseURL (su_repo u) version ''SHA256SUMS'')) of
                   Inl e \<Rightarrow> (Some e, u1)
                 | Inr sumsRaw \<Rightarrow> stage_files env version (ParseSums sumsRaw) clientPlatforms u1) of
             (None, u2) \<Rightarrow> (None, u2)
           | (Some e, u2) \<Rightarrow> (Some e, remove_staged env version u2)))"

definition stage_and_hand_over :: "self_env \<Rightarrow> string \<Rightarrow> self_updater \<Rightarrow> self_updater" where
  "stage_and_hand_over env version u =
     (case stageClientBinaries env version u of
        (Some e, u1) \<Rightarrow> setLocal env UpdateFailed e u1
      | (None, u1) \<Rightarrow>
          (let u2 = setLocal env UpdatePending (''asking the agent to install '' @ version) u1 in
           case supported env of (ok, why, socket) \<Rightarrow>
             if \<not> ok then setLocal env UpdateFailed why u2
             else (case se_Update env socket version of
                Some e \<Rightarrow> setLocal env UpdateFailed (''agent: '' @ e) u2
              | None \<Rightarrow> u2\<lparr>su_local := None\<rparr>)))"

definition stageAndInstall :: "self_env \<Rightarrow> string \<Rightarrow> self_updater \<Rightarrow> self_updater" where
  "stageAndInstall env version u = (stage_and_hand_over env version u)\<lparr>su_busy := False\<rparr>"

section \<open>Adoption\<close>

text \<open>Moves what it can into \<open>bin\<close>; the second list is what stays in the staging directory.\<close>

fun adopt_files :: "self_env \<Rightarrow> (string \<times> string) list \<Rightarrow> (string \<times> string) list \<Rightarrow> (string \<times> string) list \<times> (string \<times> string) list" where
  "adopt_files env [] bin = (bin, [])"
| "adopt_files env ((name, data) # fs) bin =
     (if \<not> has_prefix ''spawnrelay_'' name \<or> \<not> se_rename env name
      then (case adopt_files env fs bin of (bin1, rest) \<Rightarrow> (bin1, (name, data) # rest))
      else adopt_files env fs (AList.update name data bin))"

definition adopt_entry :: "self_env \<Rightarrow> self_updater \<Rightarrow> string \<times> staging \<Rightarrow> self_updater" where
  "adopt_entry env u e =
     (case e of (name, d) \<Rightarrow>
        if name = su_version u then
          (if se_mkdir env ''bin'' \<noteq> None then u
           else (case adopt_files env (sd_Files d) (su_bin u) of
              (bin, rest) \<Rightarrow>
                remove_staged env name (u\<lparr>su_bin := bin, su_staged := AList.update name (d\<lparr>sd_Files := rest\<rparr>) (su_staged u)\<rparr>)))
        else if se_info env name \<and> se_now env - sd_ModTime d > stagingKeepFor then remove_staged env name u
        else u)"

definition adoptStaged :: "self_env \<Rightarrow> self_updater \<Rightarrow> self_updater" where
  "adoptStaged env u = (if \<not> se_readdir env then u else foldl (adopt_entry env) u (su_staged u))"

section \<open>No downgrades\<close>

lemma newer_release: "newerVersion a b \<Longrightarrow> parseVersion a \<noteq> None \<and> parseVersion b \<noteq> None \<and> a \<noteq> b"
  using newerVersion_strict(1)[of a] by (cases "a = b") (auto simp: newerVersion_def split: option.splits)

lemma available_newer:
  "availability u = (True, latest, reason) \<Longrightarrow> latest = su_latest u \<and> newerVersion latest (su_version u)"
  by (auto simp: availability_def split: if_splits)

lemma update_target_Inr:
  assumes "update_target version reinstall u = Inr target"
  shows "(target = su_version u \<and> reinstall \<and> parseVersion target \<noteq> None) \<or> (target = su_latest u \<and> newerVersion target (su_version u))"
proof -
  obtain av latest reason where a: "availability u = (av, latest, reason)" by (metis prod.exhaust)
  then have "latest = su_latest u \<and> newerVersion latest (su_version u)" if av using available_newer that by simp
  with assms show ?thesis by (auto simp: update_target_def a split: if_splits)
qed

lemma parseVersion_tag: "parseVersion v \<noteq> None \<Longrightarrow> ValidTag v"
  by (auto simp: parseVersion_def split: if_splits)


definition demo_self_env :: self_env where
  "demo_self_env = \<lparr>se_now = 100, se_get = demo_get, se_tag = (\<lambda>_. Inr ''v1.10.0''), se_socket = (''/run/agent.sock'', False),
     se_Available = (\<lambda>_. True), se_Status = (\<lambda>_. Inr True), se_Update = (\<lambda>_ _. None), se_sha = (\<lambda>s. s), se_mkdir = (\<lambda>_. None),
     se_write = (\<lambda>_. None), se_partial = None, se_rename = (\<lambda>_. True), se_removeAll = (\<lambda>_. True), se_readdir = True, se_info = (\<lambda>_. True)\<rparr>"

definition demo_self :: self_updater where
  "demo_self = newSelfUpdater ''v1.9.9'' ''o/r'' None [] []"

lemma demo_start_update:
  "map_prod (\<lambda>r. case r of Inl _ \<Rightarrow> None | Inr t \<Rightarrow> Some t) su_busy (start_update demo_self_env [] False (demo_self\<lparr>su_latest := ''v1.10.0''\<rparr>))
     = (Some ''v1.10.0'', True)"
  by code_simp


section \<open>The served client binaries\<close>

text \<open>The directories hold every name once.\<close>

definition dirs_ok :: "self_updater \<Rightarrow> bool" where
  "dirs_ok u \<longleftrightarrow> distinct (map fst (su_staged u)) \<and> (\<forall>(v, d)\<in>set (su_staged u). distinct (map fst (sd_Files d)))"

lemma setLocal_frame [simp]:
  "su_staged (setLocal env st d u) = su_staged u" "su_bin (setLocal env st d u) = su_bin u" "su_repo (setLocal env st d u) = su_repo u"
  "su_version (setLocal env st d u) = su_version u" "staged_files v (setLocal env st d u) = staged_files v u"
  by (simp_all add: setLocal_def staged_files_def)

lemma put_staged_frame [simp]:
  "su_bin (put_staged env v n b u) = su_bin u" "su_repo (put_staged env v n b u) = su_repo u" "su_version (put_staged env v n b u) = su_version u"
  by (simp_all add: put_staged_def)

lemma staged_put:
  "staged_files v (put_staged env v n b u) = (case b of None \<Rightarrow> staged_files v u | Some x \<Rightarrow> AList.update n x (staged_files v u))"
  "w \<noteq> v \<Longrightarrow> map_of (su_staged (put_staged env v n b u)) w = map_of (su_staged u) w"
  by (simp_all add: put_staged_def staged_files_def update_conv')

lemma staged_distinct: "dirs_ok u \<Longrightarrow> distinct (map fst (staged_files v u))"
  by (auto simp: dirs_ok_def staged_files_def split: option.splits dest: map_of_SomeD)

lemma set_update_AList: "set (AList.update k v al) \<subseteq> insert (k, v) (set al)"
  by (induction al) auto

lemma put_staged_ok: "dirs_ok u \<Longrightarrow> dirs_ok (put_staged env v n b u)"
proof -
  assume u: "dirs_ok u"
  let ?d = "\<lparr>sd_ModTime = se_now env, sd_Files = (case b of None \<Rightarrow> staged_files v u | Some x \<Rightarrow> AList.update n x (staged_files v u))\<rparr>"
  have "distinct (map fst (sd_Files ?d))" using staged_distinct[OF u] by (simp add: distinct_update split: option.splits)
  moreover have "set (AList.update v ?d (su_staged u)) \<subseteq> insert (v, ?d) (set (su_staged u))" by (rule set_update_AList)
  ultimately show ?thesis using u unfolding dirs_ok_def put_staged_def by (auto simp: distinct_update)
qed

text \<open>Staging keeps what was staged before, and the last file of each name is a verified download.\<close>

definition released :: "self_env \<Rightarrow> string \<Rightarrow> string \<Rightarrow> string \<Rightarrow> string \<Rightarrow> bool" where
  "released env repo version name b \<longleftrightarrow>
     (\<exists>sums. su_download (se_get env) (ReleaseURL repo version ''SHA256SUMS'') = Inr sums
        \<and> su_download (se_get env) (ReleaseURL repo version name) = Inr b
        \<and> ParseSums sums name = Some (hex_encode (se_sha env b)))"

lemma released_unique: "released env repo version n b \<Longrightarrow> released env repo version n c \<Longrightarrow> b = c"
  by (auto simp: released_def)

lemma stage_files_frame:
  assumes "stage_files env version sums ps u = (e, u1)"
  shows "su_bin u1 = su_bin u \<and> su_repo u1 = su_repo u \<and> su_version u1 = su_version u
    \<and> (\<forall>w. w \<noteq> version \<longrightarrow> map_of (su_staged u1) w = map_of (su_staged u) w) \<and> (dirs_ok u \<longrightarrow> dirs_ok u1)"
  using assms
proof (induction ps arbitrary: u)
  case (Cons p ps)
  let ?n = "''spawnrelay_'' @ p"
  let ?u = "setLocal env UpdatePending (''downloading '' @ ?n) u"
  have s: "dirs_ok ?u \<longleftrightarrow> dirs_ok u" by (simp add: dirs_ok_def)
  consider "u1 = ?u" | "u1 = put_staged env version ?n (se_partial env) ?u"
    | b where "stage_files env version sums ps (put_staged env version ?n (Some b) ?u) = (e, u1)"
    using Cons.prems by (auto simp: Let_def split: sum.splits option.splits)
  then show ?case
  proof cases
    case 3
    from Cons.IH[OF 3] put_staged_ok[of ?u env version ?n "Some b"] s staged_put(2)[of _ version env ?n "Some b" ?u] show ?thesis by simp
  qed (use s staged_put(2)[of _ version env ?n "se_partial env" ?u] put_staged_ok[of ?u env version ?n "se_partial env"] in simp_all)
qed simp

lemma stage_files_all:
  assumes "stage_files env version (ParseSums sums) ps u = (None, u1)"
    and "su_download (se_get env) (ReleaseURL (su_repo u) version ''SHA256SUMS'') = Inr sums"
  shows "(\<forall>p\<in>set ps. \<exists>b. map_of (staged_files version u1) (''spawnrelay_'' @ p) = Some b \<and> released env (su_repo u) version (''spawnrelay_'' @ p) b)
    \<and> (\<forall>n b. map_of (staged_files version u) n = Some b \<and> released env (su_repo u) version n b \<longrightarrow>
         map_of (staged_files version u1) n = Some b)"
  using assms
proof (induction ps arbitrary: u)
  case (Cons p ps)
  let ?n = "''spawnrelay_'' @ p"
  let ?u = "setLocal env UpdatePending (''downloading '' @ ?n) u"
  obtain b where d: "su_download (se_get env) (ReleaseURL (su_repo u) version ?n) = Inr b"
    and v: "VerifySum (se_sha env) (ParseSums sums) ?n b = Inr ()"
    and s: "stage_files env version (ParseSums sums) ps (put_staged env version ?n (Some b) ?u) = (None, u1)"
    using Cons.prems(1) by (auto simp: Let_def prefixed_def split: sum.splits option.splits)
  have r: "released env (su_repo u) version ?n b"
    using d v Cons.prems(2) unfolding released_def by (auto simp: VerifySum_def split: option.splits if_splits)
  have put: "map_of (staged_files version (put_staged env version ?n (Some b) ?u)) m = (if m = ?n then Some b else map_of (staged_files version u) m)" for m
    by (simp add: staged_put update_conv')
  from Cons.IH[OF s] Cons.prems(2) have ih:
    "\<forall>p\<in>set ps. \<exists>b. map_of (staged_files version u1) (''spawnrelay_'' @ p) = Some b \<and> released env (su_repo u) version (''spawnrelay_'' @ p) b"
    "\<And>m c. map_of (staged_files version (put_staged env version ?n (Some b) ?u)) m = Some c \<Longrightarrow> released env (su_repo u) version m c \<Longrightarrow>
       map_of (staged_files version u1) m = Some c" by simp_all
  have "map_of (staged_files version u1) m = Some c" if "map_of (staged_files version u) m = Some c" "released env (su_repo u) version m c" for m c
  proof (cases "m = ?n")
    case True
    have "c = b" by (rule released_unique) (use that True r in blast)+
    with ih(2)[of m b] that True put show ?thesis by simp
  next
    case False
    with ih(2)[of m c] that put show ?thesis by simp
  qed
  with ih(1) ih(2)[of ?n b] put r show ?case by auto
qed simp

lemma adopt_files_result:
  assumes "\<forall>n. se_rename env n" and "distinct (map fst fs)"
  shows "map_of (fst (adopt_files env fs bin)) n
    = (case map_of fs n of Some d \<Rightarrow> if has_prefix ''spawnrelay_'' n then Some d else map_of bin n | None \<Rightarrow> map_of bin n)"
  using assms(2)
proof (induction fs arbitrary: bin)
  case (Cons f fs)
  obtain m d where f: "f = (m, d)" by fastforce
  have "map_of fs m = None" using Cons.prems f by (simp add: map_of_eq_None_iff)
  moreover have "adopt_files env (f # fs) bin = (case adopt_files env fs bin of (bin1, rest) \<Rightarrow> (bin1, (m, d) # rest))"
    if "\<not> has_prefix ''spawnrelay_'' m" using that f by simp
  moreover have "adopt_files env (f # fs) bin = adopt_files env fs (AList.update m d bin)"
    if "has_prefix ''spawnrelay_'' m" using that f assms(1) by simp
  ultimately show ?case using Cons.IH[of bin] Cons.IH[of "AList.update m d bin"] Cons.prems f
    by (cases "has_prefix ''spawnrelay_'' m") (auto simp: split_beta update_conv' split: option.splits)
qed simp

lemma adopt_entry_frame:
  "su_version (adopt_entry env u e) = su_version u" "fst e \<noteq> su_version u \<Longrightarrow> su_bin (adopt_entry env u e) = su_bin u"
  "fst e = su_version u \<Longrightarrow> se_mkdir env ''bin'' = None \<Longrightarrow>
     su_bin (adopt_entry env u e) = fst (adopt_files env (sd_Files (snd e)) (su_bin u))"
  by (auto simp: adopt_entry_def remove_staged_def split: prod.splits)

lemma adopt_entries_other:
  "su_version u \<notin> fst ` set es \<Longrightarrow> su_bin (foldl (adopt_entry env) u es) = su_bin u"
proof (induction es arbitrary: u)
  case (Cons e es)
  have "su_bin (adopt_entry env u e) = su_bin u" by (rule adopt_entry_frame(2)) (use Cons.prems in auto)
  moreover have "su_bin (foldl (adopt_entry env) (adopt_entry env u e) es) = su_bin (adopt_entry env u e)"
    by (rule Cons.IH) (use Cons.prems in \<open>simp add: adopt_entry_frame(1)\<close>)
  ultimately show ?case by simp
qed simp

lemma adopt_entries_own:
  assumes "distinct (map fst es)" and "map_of es (su_version u) = Some d" and "se_mkdir env ''bin'' = None"
  shows "su_bin (foldl (adopt_entry env) u es) = fst (adopt_files env (sd_Files d) (su_bin u))"
  using assms(1,2)
proof (induction es arbitrary: u)
  case (Cons e es)
  let ?u = "adopt_entry env u e"
  show ?case
  proof (cases "fst e = su_version u")
    case True
    then have "snd e = d" using Cons.prems(2) by (cases e) simp
    then have "su_bin ?u = fst (adopt_files env (sd_Files d) (su_bin u))" using adopt_entry_frame(3)[OF True assms(3)] by simp
    moreover have "su_version ?u \<notin> fst ` set es" using True Cons.prems(1) by (simp add: adopt_entry_frame(1))
    ultimately show ?thesis by (simp add: adopt_entries_other)
  next
    case False
    then have "map_of es (su_version ?u) = Some d" using Cons.prems(2) by (cases e) (simp add: adopt_entry_frame(1))
    with Cons.IH[of ?u] Cons.prems(1) False show ?thesis by (simp add: adopt_entry_frame)
  qed
qed simp

lemma adopted_lookup:
  assumes "dirs_ok u" and "map_of (staged_files (su_version u) u) n = Some b" and "has_prefix ''spawnrelay_'' n"
    and "\<forall>n. se_rename env n" and "se_mkdir env ''bin'' = None" and "se_readdir env"
  shows "map_of (su_bin (adoptStaged env u)) n = Some b"
proof -
  obtain d where d: "map_of (su_staged u) (su_version u) = Some d" "sd_Files d = staged_files (su_version u) u"
    using assms(2) by (cases "map_of (su_staged u) (su_version u)") (simp_all add: staged_files_def)
  have dist: "distinct (map fst (su_staged u))" "distinct (map fst (sd_Files d))"
    using assms(1) staged_distinct[OF assms(1), of "su_version u"] d(2) by (simp_all add: dirs_ok_def)
  have "su_bin (adoptStaged env u) = fst (adopt_files env (sd_Files d) (su_bin u))"
    using adopt_entries_own[OF dist(1) d(1) assms(5)] assms(6) by (simp add: adoptStaged_def)
  with adopt_files_result[OF assms(4) dist(2), of "su_bin u" n] assms(2,3) d(2) show ?thesis by simp
qed

lemma delete_set: "set (AList.delete k al) \<subseteq> set al"
  by (simp add: AList.delete_eq)

lemma stage_result:
  assumes "stageClientBinaries env v u = (r, u1)" and "dirs_ok u"
  shows "dirs_ok u1 \<and> su_bin u1 = su_bin u \<and> (\<forall>w. w \<noteq> v \<longrightarrow> map_of (su_staged u1) w = map_of (su_staged u) w)
    \<and> (r \<noteq> None \<and> se_mkdir env v = None \<and> se_removeAll env v \<longrightarrow> map_of (su_staged u1) v = None)
    \<and> (r = None \<longrightarrow> (\<forall>p\<in>set clientPlatforms. \<exists>b. map_of (staged_files v u1) (''spawnrelay_'' @ p) = Some b
          \<and> released env (su_repo u) v (''spawnrelay_'' @ p) b))"
proof (cases "se_mkdir env v")
  case (Some e)
  with assms(1) have "r = Some e" "u1 = u" by (auto simp: stageClientBinaries_def)
  with Some assms(2) show ?thesis by auto
next
  case None
  let ?u = "staging_dir env v u"
  have u: "dirs_ok ?u" "su_bin ?u = su_bin u" "su_repo ?u = su_repo u" "\<forall>w. w \<noteq> v \<longrightarrow> map_of (su_staged ?u) w = map_of (su_staged u) w"
    using assms(2) put_staged_ok[OF assms(2)] staged_put(2) by (simp_all add: staging_dir_def)
  have rm: "dirs_ok (remove_staged env v x)" "su_bin (remove_staged env v x) = su_bin x"
    "\<forall>w. w \<noteq> v \<longrightarrow> map_of (su_staged (remove_staged env v x)) w = map_of (su_staged x) w"
    "se_removeAll env v \<longrightarrow> map_of (su_staged (remove_staged env v x)) v = None" if "dirs_ok x" for x
    using that delete_set[of v "su_staged x"] unfolding dirs_ok_def by (auto simp: remove_staged_def delete_conv' distinct_delete)
  let ?d = "su_download (se_get env) (ReleaseURL (su_repo u) v ''SHA256SUMS'')"
  show ?thesis
  proof (cases ?d)
    case (Inl e)
    then have "r \<noteq> None" "u1 = remove_staged env v ?u"
      using assms(1) None by (auto simp: stageClientBinaries_def Let_def prefixed_def)
    with rm[OF u(1)] u show ?thesis by auto
  next
    case (Inr sums)
    obtain e u2 where s: "stage_files env v (ParseSums sums) clientPlatforms ?u = (e, u2)" by fastforce
    note F = stage_files_frame[OF s]
    show ?thesis
    proof (cases e)
      case e: None
      then have "r = None" "u1 = u2" using assms(1) None Inr s by (auto simp: stageClientBinaries_def Let_def prefixed_def)
      with F u stage_files_all[of env v sums clientPlatforms ?u u2] s e Inr show ?thesis by simp
    next
      case (Some x)
      then have "r \<noteq> None" "u1 = remove_staged env v u2" using assms(1) None Inr s by (auto simp: stageClientBinaries_def Let_def prefixed_def)
      with F u rm[of u2] show ?thesis by auto
    qed
  qed
qed

text \<open>
  C28: clients are only ever offered binaries of the release the server runs. Staging a release
  leaves the served binaries alone; when it fails its directory is gone. When it succeeds, the
  server of that version serves, after its start, for every platform the file of that name that
  the release publishes and its SHA256SUMS confirm, whatever happened in between to everything but
  the staging directories. A server of any other version keeps serving what it served.
\<close>

theorem adopted_binaries_are_the_release:
  assumes "stageClientBinaries env v u = (r, u1)" and "dirs_ok u"
  shows "su_bin u1 = su_bin u
    \<and> (r \<noteq> None \<and> se_mkdir env v = None \<and> se_removeAll env v \<longrightarrow> map_of (su_staged u1) v = None)
    \<and> (\<forall>u2 env2. r = None \<and> su_version u2 = v \<and> su_staged u2 = su_staged u1
         \<and> (\<forall>n. se_rename env2 n) \<and> se_mkdir env2 ''bin'' = None \<and> se_readdir env2 \<longrightarrow>
         (\<forall>p\<in>set clientPlatforms. \<exists>b. map_of (su_bin (adoptStaged env2 u2)) (''spawnrelay_'' @ p) = Some b
            \<and> released env (su_repo u) v (''spawnrelay_'' @ p) b))
    \<and> (\<forall>u2 env2. map_of (su_staged u2) (su_version u2) = None \<longrightarrow> su_bin (adoptStaged env2 u2) = su_bin u2)"
proof (intro conjI allI impI ballI)
  note S = stage_result[OF assms]
  show "su_bin u1 = su_bin u" using S by blast
  show "map_of (su_staged u1) v = None" if "r \<noteq> None \<and> se_mkdir env v = None \<and> se_removeAll env v" using S that by blast
  show "su_bin (adoptStaged env2 u2) = su_bin u2" if "map_of (su_staged u2) (su_version u2) = None" for u2 env2
    using that adopt_entries_other[of u2 "su_staged u2" env2] by (simp add: adoptStaged_def map_of_eq_None_iff)
  show "\<exists>b. map_of (su_bin (adoptStaged env2 u2)) (''spawnrelay_'' @ p) = Some b \<and> released env (su_repo u) v (''spawnrelay_'' @ p) b"
    if h: "r = None \<and> su_version u2 = v \<and> su_staged u2 = su_staged u1
         \<and> (\<forall>n. se_rename env2 n) \<and> se_mkdir env2 ''bin'' = None \<and> se_readdir env2" and p: "p \<in> set clientPlatforms" for u2 env2 p
  proof -
    obtain b where b: "map_of (staged_files v u1) (''spawnrelay_'' @ p) = Some b" "released env (su_repo u) v (''spawnrelay_'' @ p) b"
      using S h p by blast
    have "map_of (su_bin (adoptStaged env2 u2)) (''spawnrelay_'' @ p) = Some b"
      by (rule adopted_lookup) (use S h b(1) in \<open>simp_all add: dirs_ok_def staged_files_def\<close>)
    with b(2) show ?thesis by blast
  qed
qed

lemma stage_files_succeeds:
  assumes "\<forall>p\<in>set ps. \<exists>b. su_download (se_get env) (ReleaseURL (su_repo u) v (''spawnrelay_'' @ p)) = Inr b
      \<and> VerifySum (se_sha env) sums (''spawnrelay_'' @ p) b = Inr ()" and "\<forall>n. se_write env n = None"
  shows "fst (stage_files env v sums ps u) = None"
  using assms(1)
proof (induction ps arbitrary: u)
  case (Cons p ps)
  then obtain b where "su_download (se_get env) (ReleaseURL (su_repo u) v (''spawnrelay_'' @ p)) = Inr b"
    "VerifySum (se_sha env) sums (''spawnrelay_'' @ p) b = Inr ()" by auto
  with Cons.IH[of "put_staged env v (''spawnrelay_'' @ p) (Some b) (setLocal env UpdatePending (''downloading '' @ ''spawnrelay_'' @ p) u)"]
    Cons.prems assms(2) show ?case by (simp add: Let_def prefixed_def)
qed simp

definition demo_all_sums :: string where
  "demo_all_sums = concat (map (\<lambda>p. ''544152  spawnrelay_'' @ p @ [CHR 0x0A]) clientPlatforms)"

definition demo_release_get :: http_get where
  "demo_release_get url = Inr (200, Inr (if url = ReleaseURL ''o/r'' ''v1.10.0'' ''SHA256SUMS'' then demo_all_sums else ''TAR''))"

definition demo_stage_env :: self_env where
  "demo_stage_env = demo_self_env\<lparr>se_get := demo_release_get\<rparr>"

lemma demo_release_download:
  "su_download demo_release_get url = Inr (if url = ReleaseURL ''o/r'' ''v1.10.0'' ''SHA256SUMS'' then demo_all_sums else ''TAR'')"
proof -
  have "length demo_all_sums < 1000" by code_simp
  then have "take downloadLimit demo_all_sums = demo_all_sums" "take downloadLimit ''TAR'' = ''TAR''" by (simp_all add: downloadLimit_def)
  then show ?thesis by (simp add: su_download_def demo_release_get_def)
qed

lemma demo_sums_hold: "\<forall>p\<in>set clientPlatforms. VerifySum (\<lambda>s. s) (ParseSums demo_all_sums) (''spawnrelay_'' @ p) ''TAR'' = Inr ()"
  by code_simp

lemma demo_staged: "fst (stageClientBinaries demo_stage_env ''v1.10.0'' demo_self) = None"
proof -
  let ?u = "staging_dir demo_stage_env ''v1.10.0'' demo_self"
  have e: "se_get demo_stage_env = demo_release_get" "se_sha demo_stage_env = (\<lambda>s. s)" "\<forall>n. se_write demo_stage_env n = None"
    "se_mkdir demo_stage_env ''v1.10.0'' = None" "su_repo ?u = ''o/r''" "su_repo demo_self = ''o/r''"
    by (simp_all add: demo_stage_env_def demo_self_env_def demo_self_def newSelfUpdater_def staging_dir_def)
  have "fst (stage_files demo_stage_env ''v1.10.0'' (ParseSums demo_all_sums) clientPlatforms ?u) = None"
    by (rule stage_files_succeeds) (use demo_sums_hold in \<open>simp_all add: e demo_release_download ReleaseURL_def\<close>)
  then show ?thesis by (auto simp: stageClientBinaries_def e demo_release_download prefixed_def Let_def split: prod.splits option.splits)
qed

theorem adopted_binaries_are_the_release_witness:
  "\<exists>u1 b. stageClientBinaries demo_stage_env ''v1.10.0'' demo_self = (None, u1)
     \<and> map_of (su_bin (adoptStaged demo_stage_env (u1\<lparr>su_version := ''v1.10.0''\<rparr>))) (''spawnrelay_'' @ ''linux_arm'') = Some b
     \<and> released demo_stage_env ''o/r'' ''v1.10.0'' (''spawnrelay_'' @ ''linux_arm'') b"
proof -
  obtain u1 where s: "stageClientBinaries demo_stage_env ''v1.10.0'' demo_self = (None, u1)"
    using demo_staged by (metis prod.collapse)
  have "dirs_ok demo_self" by (simp add: dirs_ok_def demo_self_def newSelfUpdater_def)
  note T = adopted_binaries_are_the_release[OF s this]
  have env: "(\<forall>n. se_rename demo_stage_env n) \<and> se_mkdir demo_stage_env ''bin'' = None \<and> se_readdir demo_stage_env"
    "''linux_arm'' \<in> set clientPlatforms" "su_repo demo_self = ''o/r''"
    by (simp_all add: demo_stage_env_def demo_self_env_def clientPlatforms_def demo_self_def newSelfUpdater_def)
  from T have "\<exists>b. map_of (su_bin (adoptStaged env2 u2)) (''spawnrelay_'' @ p) = Some b
      \<and> released demo_stage_env (su_repo demo_self) ''v1.10.0'' (''spawnrelay_'' @ p) b"
    if "su_version u2 = ''v1.10.0''" "su_staged u2 = su_staged u1"
      "(\<forall>n. se_rename env2 n) \<and> se_mkdir env2 ''bin'' = None \<and> se_readdir env2" "p \<in> set clientPlatforms" for u2 env2 p
    using that by blast
  note adopted = this
  have "\<exists>b. map_of (su_bin (adoptStaged demo_stage_env (u1\<lparr>su_version := ''v1.10.0''\<rparr>))) (''spawnrelay_'' @ ''linux_arm'') = Some b
      \<and> released demo_stage_env (su_repo demo_self) ''v1.10.0'' (''spawnrelay_'' @ ''linux_arm'') b"
    by (rule adopted) (use env in simp_all)
  with s env(3) show ?thesis by auto
qed

end
