(* ===== verification/Web_Server.thy ===== *)
theory Web_Server
  imports Web_Routes Auth Self_Update
begin

text \<open>
  A whole HTTP request to the management server (\<open>internal/server/api.go\<close>): the redirect of unclean
  paths, the route, the guard, the JSON body (\<open>readJSON\<close>) and the handler, those included that only
  show something: the status, the lists, the install scripts and the binaries. \<open>encoding/json\<close> is a
  parameter, one decoder for each type of body; the text of a script is the template's, here its
  parameters. The replies to changes are the handlers' of the earlier theories; here they are their
  status.
\<close>

section \<open>Bodies\<close>

text \<open>A decoder reads the first value of what the server lets it see, and knows whether that was cut off.\<close>

datatype decode_error = NoBody | Malformed string

type_synonym 'a decoder = "string \<Rightarrow> bool \<Rightarrow> (decode_error, 'a) result"

definition max_body :: nat where "max_body = 64 * 1024"

definition readJSON :: "'a decoder \<Rightarrow> string \<Rightarrow> (nat \<times> string, 'a) result" where
  "readJSON dec body =
     (case dec (take max_body body) (length body > max_body) of
        Inl NoBody \<Rightarrow> Inl (400, ''request body is required'')
      | Inl (Malformed e) \<Rightarrow> Inl (400, ''invalid JSON body: '' @ e)
      | Inr v \<Rightarrow> Inr v)"

record codec =
  cd_login :: "(string \<times> string) decoder"
  cd_password :: "(string \<times> string) decoder"
  cd_forward :: "forward_input decoder"
  cd_group :: "group_input decoder"
  cd_name :: "string decoder"
  cd_rename :: "string option decoder"
  cd_settings :: "settings_input decoder"
  cd_update :: "(string \<times> bool) decoder"

text \<open>The change a request asks for.\<close>

definition make_request :: "codec \<Rightarrow> endpoint \<Rightarrow> string list \<Rightarrow> string \<Rightarrow> (nat \<times> string, request) result option" where
  "make_request cd ep ps body =
     (let i = hd ps in
      case ep of
        EpCreateForward \<Rightarrow> Some (map_sum id CreateForward (readJSON (cd_forward cd) body))
      | EpUpdateForward \<Rightarrow> Some (map_sum id (UpdateForward i) (readJSON (cd_forward cd) body))
      | EpDeleteForward \<Rightarrow> Some (Inr (DeleteForward i))
      | EpCreateGroup \<Rightarrow> Some (map_sum id CreateGroup (readJSON (cd_group cd) body))
      | EpUpdateGroup \<Rightarrow> Some (map_sum id (UpdateGroup i) (readJSON (cd_group cd) body))
      | EpDeleteGroup \<Rightarrow> Some (Inr (DeleteGroup i))
      | EpCreateClient \<Rightarrow> Some (map_sum id CreateClient (readJSON (cd_name cd) body))
      | EpUpdateClient \<Rightarrow> Some (map_sum id (UpdateClient i) (readJSON (cd_rename cd) body))
      | EpDeleteClient \<Rightarrow> Some (Inr (DeleteClient i))
      | EpRotateToken \<Rightarrow> Some (Inr (RotateToken i))
      | EpUpdateBinary \<Rightarrow> Some (Inr (UpdateBinary i))
      | EpUpdateAll \<Rightarrow> Some (Inr UpdateAll)
      | EpPutSettings \<Rightarrow> Some (map_sum id PutSettings (readJSON (cd_settings cd) body))
      | EpCreateToken \<Rightarrow> Some (map_sum id CreateToken (readJSON (cd_name cd) body))
      | EpDeleteToken \<Rightarrow> Some (Inr (DeleteToken i))
      | _ \<Rightarrow> None)"

section \<open>State and surroundings\<close>

record web_request =
  wq_http :: http_request
  wq_path :: string
  wq_query :: "string \<Rightarrow> string"
  wq_ContentLength :: int
  wq_body :: string

record web =
  wb_app :: app
  wb_updater :: self_updater

record web_env =
  we_sha :: "string \<Rightarrow> string"
  we_kdf :: kdf
  we_touched :: bool
  we_codec :: codec
  we_req :: request_env
  we_self :: self_env
  we_binary :: binary_env
  we_selfSigned :: bool
  we_fingerprint :: string
  we_startedAt :: time

section \<open>Pages\<close>

record status_out =
  sa_version :: string
  sa_server_time :: time
  sa_uptime :: time
  sa_public_host :: string
  sa_tunnel_port :: int
  sa_tunnel_addr :: string
  sa_fingerprint :: string
  sa_admin_url :: string
  sa_self_signed :: bool
  sa_clients_total :: nat
  sa_clients_online :: nat
  sa_forwards_total :: nat
  sa_groups_total :: nat
  sa_server_update :: "bool \<times> string option"
  sa_os :: string
  sa_arch :: string

definition handleStatus :: "web_env \<Rightarrow> web \<Rightarrow> status_out" where
  "handleStatus env w =
     (let sv = ap_server (wb_app w); st = sv_state sv; clientIDs = map c_ID (st_Clients st) in
      \<lparr>sa_version = tn_version (sv_tunnel sv), sa_server_time = ev_now (we_req env),
       sa_uptime = ev_now (we_req env) - we_startedAt env, sa_public_host = PublicHost sv,
       sa_tunnel_port = sv_tunnelPort sv, sa_tunnel_addr = TunnelAddr sv, sa_fingerprint = we_fingerprint env,
       sa_admin_url = AdminURL sv, sa_self_signed = we_selfSigned env,
       sa_clients_total = length (st_Clients st),
       sa_clients_online = length (filter (\<lambda>i. cs_Online (ClientStatus (sv_tunnel sv) i)) clientIDs),
       sa_forwards_total = length (st_Forwards st), sa_groups_total = length (GroupIDs st),
       sa_server_update = statusOut (wb_updater w), sa_os = be_GOOS (we_binary env), sa_arch = be_GOARCH (we_binary env)\<rparr>)"

record install_params =
  in_Server :: string
  in_Token :: string
  in_Fingerprint :: string
  in_AdminURL :: string
  in_CurlFlags :: string
  in_SkipCert :: bool
  in_Version :: string
  in_ClientName :: string

definition handleInstallScript :: "web_env \<Rightarrow> string \<Rightarrow> server \<Rightarrow> install_params option" where
  "handleInstallScript env token sv =
     (let clientName = (case ClientByToken (sv_state sv) token of None \<Rightarrow> [] | Some c \<Rightarrow> c_Name c) in
      if clientName = [] then None
      else Some \<lparr>in_Server = TunnelAddr sv, in_Token = token, in_Fingerprint = we_fingerprint env, in_AdminURL = AdminURL sv,
        in_CurlFlags = (if we_selfSigned env then ''-k'' else []), in_SkipCert = we_selfSigned env,
        in_Version = tn_version (sv_tunnel sv), in_ClientName = clientName\<rparr>)"

text \<open>What a reply carries besides its status; \<open>Denied\<close> is a refusal of the guard.\<close>

datatype content =
    ErrorText string
  | StoreError error
  | Denied
  | HealthOut string
  | Cookie "string option"
  | Script string install_params
  | BinaryFile string string
  | Page
  | RedirectTo string
  | MeOut principal
  | StatusOut status_out
  | SettingsOut settings_out
  | ClientsOut "client_out list"
  | ClientOut client_out
  | ForwardsOut "forward_out list"
  | ForwardOut forward_out
  | GroupsOut "group_out list"
  | GroupOut group_out
  | TokensOut "(string \<times> string \<times> string \<times> time \<times> time option) list"
  | UpdateOut update_out_server
  | Outcome

definition handleDownload :: "web_env \<Rightarrow> string \<Rightarrow> nat \<times> content" where
  "handleDownload env name =
     (case binaryPath (we_binary env) name of
        Inl e \<Rightarrow> (404, ErrorText e)
      | Inr path \<Rightarrow> (200, BinaryFile name path))"

section \<open>Handlers behind the routes\<close>

abbreviation wb_server :: "web \<Rightarrow> server" where
  "wb_server w \<equiv> ap_server (wb_app w)"

definition put_server :: "server \<Rightarrow> web \<Rightarrow> web" where
  "put_server sv w = w\<lparr>wb_app := (wb_app w)\<lparr>ap_server := sv\<rparr>\<rparr>"

definition script_page :: "web_env \<Rightarrow> web_request \<Rightarrow> string \<Rightarrow> web \<Rightarrow> nat \<times> content" where
  "script_page env q contentType w =
     (case handleInstallScript env (wq_query q ''token'') (wb_server w) of
        None \<Rightarrow> (401, ErrorText ''echo 'SpawnRelay: unknown or missing client token'; exit 1'')
      | Some p \<Rightarrow> (200, Script (contentType @ ''; charset=utf-8'') p))"

definition serve_public :: "web_env \<Rightarrow> web_request \<Rightarrow> endpoint \<Rightarrow> string list \<Rightarrow> web \<Rightarrow> (nat \<times> content) \<times> web" where
  "serve_public env q ep ps w =
     (case ep of
        EpHealth \<Rightarrow> ((200, HealthOut (tn_version (sv_tunnel (wb_server w)))), w)
      | EpLogin \<Rightarrow>
          (case readJSON (cd_login (we_codec env)) (wq_body q) of
             Inl (st, e) \<Rightarrow> ((st, ErrorText e), w)
           | Inr (user, pw) \<Rightarrow>
               (case handleLogin (we_kdf env) (ev_now (we_req env)) (ev_rand (we_req env) 0) (wq_http q) user pw (wb_app w) of
                  ((st, cookie), a) \<Rightarrow> ((st, Cookie cookie), w\<lparr>wb_app := a\<rparr>)))
      | EpLogout \<Rightarrow> (case handleLogout (wq_http q) (wb_app w) of (st, a) \<Rightarrow> ((st, Cookie None), w\<lparr>wb_app := a\<rparr>))
      | EpClientScript \<Rightarrow> (script_page env q ''text/x-shellscript'' w, w)
      | EpClientScriptWindows \<Rightarrow> (script_page env q ''text/plain'' w, w)
      | EpDownload \<Rightarrow> (handleDownload env (hd ps), w)
      | EpUnknown \<Rightarrow> ((404, ErrorText ''unknown endpoint''), w)
      | _ \<Rightarrow> ((200, Page), w))"

definition shown :: "('a \<Rightarrow> content) \<Rightarrow> (error, 'a) result \<Rightarrow> nat \<times> content" where
  "shown c r = (case r of Inl e \<Rightarrow> (store_error_status e, StoreError e) | Inr x \<Rightarrow> (200, c x))"

definition serve_page :: "web_env \<Rightarrow> web_request \<Rightarrow> endpoint \<Rightarrow> string list \<Rightarrow> principal \<Rightarrow> web \<Rightarrow> (nat \<times> content) \<times> web" where
  "serve_page env q ep ps p w =
     (let sv = wb_server w; ss = we_selfSigned env; fp = we_fingerprint env; r = we_req env in
      case ep of
        EpMe \<Rightarrow> ((200, MeOut p), w)
      | EpStatus \<Rightarrow> ((200, StatusOut (handleStatus env w)), w)
      | EpGetSettings \<Rightarrow> ((200, SettingsOut (handleGetSettings sv)), w)
      | EpListClients \<Rightarrow> (case handleListClients r ss fp sv of (cs, sv1) \<Rightarrow> ((200, ClientsOut cs), put_server sv1 w))
      | EpGetClient \<Rightarrow> (case handleGetClient r ss fp (hd ps) sv of (c, sv1) \<Rightarrow> (shown ClientOut c, put_server sv1 w))
      | EpListForwards \<Rightarrow> ((200, ForwardsOut (handleListForwards (wq_query q ''client_id'') sv)), w)
      | EpGetForward \<Rightarrow> (shown ForwardOut (handleGetForward (hd ps) sv), w)
      | EpListGroups \<Rightarrow> ((200, GroupsOut (handleListGroups (wq_query q ''client_id'') sv)), w)
      | EpGetGroup \<Rightarrow> (shown GroupOut (handleGetGroup (hd ps) sv), w)
      | EpListTokens \<Rightarrow> ((200, TokensOut (handleListTokens sv)), w)
      | EpUpdateStatus \<Rightarrow> ((200, UpdateOut (self_out (we_self env) (wb_updater w))), w)
      | EpUpdateCheck \<Rightarrow> (case handleUpdateCheck (we_self env) (wb_updater w) of (o', u) \<Rightarrow> ((200, UpdateOut o'), w\<lparr>wb_updater := u\<rparr>))
      | EpUpdateStart \<Rightarrow>
          (case (if wq_ContentLength q = 0 then Inr ([], False) else readJSON (cd_update (we_codec env)) (wq_body q)) of
             Inl (st, e) \<Rightarrow> ((st, ErrorText e), w)
           | Inr (version, reinstall) \<Rightarrow>
               (case handleUpdateStart (we_self env) version reinstall (wb_updater w) of
                  (st, u) \<Rightarrow> ((st, Outcome), w\<lparr>wb_updater := u\<rparr>)))
      | EpChangePassword \<Rightarrow>
          (case readJSON (cd_password (we_codec env)) (wq_body q) of
             Inl (st, e) \<Rightarrow> ((st, ErrorText e), w)
           | Inr (cur, new) \<Rightarrow>
               (case handleChangePassword (we_kdf env) (ev_saved r) (ev_rand r 0) cur new (wb_app w) of
                  (st, a) \<Rightarrow> ((st, Outcome), w\<lparr>wb_app := a\<rparr>)))
      | _ \<Rightarrow>
          (case make_request (we_codec env) ep ps (wq_body q) of
             Some (Inr req) \<Rightarrow> (case dispatch ss fp (we_sha env) r req sv of (st, sv1) \<Rightarrow> ((st, Outcome), put_server sv1 w))
           | Some (Inl (st, e)) \<Rightarrow> ((st, ErrorText e), w)
           | None \<Rightarrow> ((404, ErrorText ''unknown endpoint''), w)))"

text \<open>
  The multiplexer sends a client to the clean path first, and from \<open>/api\<close> to \<open>/api/\<close>.
\<close>

definition redirect :: "string \<Rightarrow> string \<Rightarrow> string option" where
  "redirect method path =
     (if method \<noteq> ''CONNECT'' \<and> clean_path path \<noteq> path then Some (clean_path path)
      else if path = ''/api'' then Some ''/api/'' else None)"

definition serve_web :: "web_env \<Rightarrow> web_request \<Rightarrow> web \<Rightarrow> (nat \<times> content) \<times> web" where
  "serve_web env q w =
     (case redirect (hr_Method (wq_http q)) (wq_path q) of
        Some p \<Rightarrow> ((301, RedirectTo p), w)
      | None \<Rightarrow>
          (case mux_find (hr_Method (wq_http q)) (wq_path q) of
             (acc, ep, ps) \<Rightarrow>
               if acc = Public then serve_public env q ep ps w
               else (case guard (we_sha env) (ev_now (we_req env)) (we_touched env) (acc = SessionOnly) (wq_http q) (wb_app w) of
                  (Inl st, a) \<Rightarrow> ((st, Denied), w\<lparr>wb_app := a\<rparr>)
                | (Inr p, a) \<Rightarrow> serve_page env q ep ps p (w\<lparr>wb_app := a\<rparr>))))"

section \<open>What the handlers leave alone\<close>

lemma put_server_frames [simp]:
  "wb_updater (put_server sv w) = wb_updater w" "ap_sessions (wb_app (put_server sv w)) = ap_sessions (wb_app w)"
  "wb_server (put_server sv w) = sv"
  by (simp_all add: put_server_def)

text \<open>What anyone may see.\<close>

definition public_content :: "web_env \<Rightarrow> web_request \<Rightarrow> web \<Rightarrow> content \<Rightarrow> bool" where
  "public_content env q w c \<longleftrightarrow>
     (case c of
        ErrorText _ \<Rightarrow> True | Denied \<Rightarrow> True | HealthOut _ \<Rightarrow> True | Cookie _ \<Rightarrow> True | Page \<Rightarrow> True | RedirectTo _ \<Rightarrow> True
      | Script _ p \<Rightarrow> in_Token p = wq_query q ''token'' \<and> (\<exists>cl\<in>set (st_Clients (sv_state (wb_server w))). c_Token cl = in_Token p)
      | BinaryFile name path \<Rightarrow> downloadName name \<noteq> None
          \<and> (path = path_join [be_DataDir (we_binary env), ''bin''] @ ''/'' @ name \<or> be_exe (we_binary env) = Some path)
      | _ \<Rightarrow> False)"

lemma public_simps [simp]:
  "public_content env q w (ErrorText e)" "public_content env q w Denied" "public_content env q w (HealthOut v)"
  "public_content env q w (Cookie k)" "public_content env q w Page" "public_content env q w (RedirectTo p)"
  by (simp_all add: public_content_def)

lemma script_page_public:
  assumes "script_page env q t w = (st, c)"
  shows "public_content env q w c"
proof (cases "ClientByToken (sv_state (wb_server w)) (wq_query q ''token'')")
  case None
  with assms show ?thesis by (auto simp: script_page_def handleInstallScript_def public_content_def)
next
  case (Some cl)
  then have "cl \<in> set (st_Clients (sv_state (wb_server w)))" "c_Token cl = wq_query q ''token''"
    by (auto simp: ClientByToken_def dest!: find_Some_set split: if_splits)
  with assms Some show ?thesis
    by (auto simp: script_page_def handleInstallScript_def public_content_def Let_def split: if_splits)
qed

lemma handleDownload_public: "handleDownload env name = (st, c) \<Longrightarrow> public_content env q w c"
  by (auto simp: handleDownload_def binaryPath_def public_content_def Let_def binary_path_inside split: sum.splits option.splits if_splits)

lemma handleLogin_frame:
  assumes "handleLogin kdf now rnd r user pw a = (x, a1)"
  shows "ap_server a1 = ap_server a"
  using assms by (auto simp: handleLogin_def Let_def split: prod.splits bool.splits if_splits)

lemma serve_public_frame:
  assumes "serve_public env q ep ps w = ((st, c), w1)"
  shows "wb_server w1 = wb_server w \<and> wb_updater w1 = wb_updater w \<and> public_content env q w c"
proof -
  have login: ?thesis if "ep = EpLogin"
    using assms that handleLogin_frame by (auto simp: serve_public_def public_content_def split: sum.splits prod.splits)
  have logout: ?thesis if "ep = EpLogout"
    using assms that by (auto simp: serve_public_def public_content_def handleLogout_def split: option.splits)
  have pages: "script_page env q t w = (st, c) \<Longrightarrow> public_content env q w c" "handleDownload env n = (st, c) \<Longrightarrow> public_content env q w c" for t n
    by (rule script_page_public handleDownload_public; assumption)+
  show ?thesis
  proof (cases ep)
    case EpClientScript
    with assms pages(1) show ?thesis by (auto simp: serve_public_def)
  next
    case EpClientScriptWindows
    with assms pages(1) show ?thesis by (auto simp: serve_public_def)
  next
    case EpDownload
    with assms pages(2) show ?thesis by (auto simp: serve_public_def)
  next
    case EpLogin
    then show ?thesis by (rule login)
  next
    case EpLogout
    then show ?thesis by (rule logout)
  qed (use assms in \<open>simp_all add: serve_public_def\<close>, use public_simps in \<open>blast+\<close>)
qed

lemma serve_public_sessions:
  assumes "serve_public env q ep ps w = (x, w1)" and "sessions_typed (ap_sessions (wb_app w))"
  shows "sessions_typed (ap_sessions (wb_app w1))"
proof -
  have login: ?thesis if "ep = EpLogin"
  proof (cases "readJSON (cd_login (we_codec env)) (wq_body q)")
    case (Inr up)
    obtain user pw where up: "up = (user, pw)" by fastforce
    let ?e = "Login (ev_now (we_req env)) (ev_rand (we_req env) 0) (wq_http q) user pw"
    obtain s1 a1 where a: "auth_step (we_sha env) (we_kdf env) ?e (wb_app w) = (s1, a1)" by fastforce
    from auth_step_sessions[OF assms(2) a] have "sessions_typed (ap_sessions a1)" by simp
    moreover have "wb_app w1 = a1" using assms(1) that Inr up a by (auto simp: serve_public_def split: prod.splits)
    ultimately show ?thesis by simp
  qed (use assms that in \<open>auto simp: serve_public_def split: prod.splits\<close>)
  have logout: ?thesis if "ep = EpLogout"
  proof -
    obtain s1 a1 where a: "auth_step (we_sha env) (we_kdf env) (Logout (wq_http q)) (wb_app w) = (s1, a1)" by fastforce
    from auth_step_sessions[OF assms(2) a] assms(1) that a show ?thesis by (auto simp: serve_public_def)
  qed
  show ?thesis by (cases ep) (use assms login logout in \<open>auto simp: serve_public_def\<close>)
qed

lemma handleChangePassword_sessions:
  "handleChangePassword kdf saved salt cur new a = (st, a1) \<Longrightarrow> ap_sessions a1 \<in> {ap_sessions a, []}"
  by (auto simp: handleChangePassword_def ss_clear_def split: if_splits prod.splits sum.splits)

lemma serve_page_sessions:
  assumes "serve_page env q ep ps p w = (x, w1)"
  shows "ap_sessions (wb_app w1) \<in> {ap_sessions (wb_app w), []}"
proof -
  have pw: ?thesis if "ep = EpChangePassword"
    using assms that handleChangePassword_sessions by (fastforce simp: serve_page_def Let_def split: sum.splits prod.splits)
  have start: ?thesis if "ep = EpUpdateStart"
    using assms that by (auto simp: serve_page_def Let_def split: sum.splits prod.splits)
  have change: "ap_sessions (wb_app w1) = ap_sessions (wb_app w)"
    if "(case make_request (we_codec env) ep ps (wq_body q) of
             Some (Inr req) \<Rightarrow> (case dispatch (we_selfSigned env) (we_fingerprint env) (we_sha env) (we_req env) req (wb_server w) of
               (st, sv1) \<Rightarrow> ((st, Outcome), put_server sv1 w))
           | Some (Inl (st, e)) \<Rightarrow> ((st, ErrorText e), w)
           | None \<Rightarrow> ((404, ErrorText ''unknown endpoint''), w)) = (x, w1)"
    using that by (auto split: option.splits sum.splits prod.splits)
  show ?thesis
  proof (cases ep)
    case EpListClients
    with assms show ?thesis by (auto simp: serve_page_def Let_def split: prod.splits)
  next
    case EpGetClient
    with assms show ?thesis by (auto simp: serve_page_def Let_def split: prod.splits)
  next
    case EpUpdateCheck
    with assms show ?thesis by (auto simp: serve_page_def Let_def split: prod.splits)
  qed (use assms pw start change in \<open>simp_all add: serve_page_def Let_def\<close>)
qed

lemma serve_web_sessions:
  assumes "sessions_typed (ap_sessions (wb_app w))"
  shows "sessions_typed (ap_sessions (wb_app (snd (serve_web env q w))))"
proof (cases "redirect (hr_Method (wq_http q)) (wq_path q)")
  case None
  obtain acc ep ps where m: "mux_find (hr_Method (wq_http q)) (wq_path q) = (acc, ep, ps)" by (metis prod.exhaust)
  show ?thesis
  proof (cases "acc = Public")
    case True
    with None m serve_public_sessions[OF _ assms, of env q ep ps] show ?thesis by (cases "serve_public env q ep ps w") (auto simp: serve_web_def)
  next
    case False
    obtain g a where g: "guard (we_sha env) (ev_now (we_req env)) (we_touched env) (acc = SessionOnly) (wq_http q) (wb_app w) = (g, a)" by fastforce
    with guard_sessions[OF g] assms have t: "sessions_typed (ap_sessions a)" by blast
    show ?thesis
    proof (cases g)
      case (Inr p)
      obtain x w1 where s: "serve_page env q ep ps p (w\<lparr>wb_app := a\<rparr>) = (x, w1)" by fastforce
      from serve_page_sessions[OF s] t Inr None False m g s show ?thesis
        by (auto simp: serve_web_def sessions_typed_def)
    qed (use None False m g t in \<open>simp add: serve_web_def\<close>)
  qed
qed (use assms in \<open>simp add: serve_web_def\<close>)

text \<open>Requests, and whatever the tunnel, the updater and the operator do in between.\<close>

inductive web_step :: "web \<Rightarrow> web \<Rightarrow> bool" where
  Request: "web_step w (snd (serve_web env q w))"
| Elsewhere: "web_step w ((put_server sv w)\<lparr>wb_updater := u\<rparr>)"

interpretation web: step_system web_step "\<lambda>w. ap_sessions (wb_app w) = []" "\<lambda>w. sessions_typed (ap_sessions (wb_app w))"
proof unfold_locales
  show "sessions_typed (ap_sessions (wb_app s))" if "ap_sessions (wb_app s) = []" for s using that by (simp add: sessions_typed_def)
  show "sessions_typed (ap_sessions (wb_app t))" if "sessions_typed (ap_sessions (wb_app s))" "web_step s t" for s t
    using that(2,1) by cases (auto intro: serve_web_sessions)
qed

section \<open>Properties of the web server\<close>


text \<open>A visitor without credentials asks for the clients, and for the script of one client.\<close>

definition demo_web_env :: web_env where
  "demo_web_env = \<lparr>we_sha = (\<lambda>s. s), we_kdf = demo_kdf, we_touched = True,
     we_codec = \<lparr>cd_login = (\<lambda>_ _. Inl NoBody), cd_password = (\<lambda>_ _. Inl NoBody), cd_forward = (\<lambda>_ _. Inl NoBody), cd_group = (\<lambda>_ _. Inl NoBody),
       cd_name = (\<lambda>_ _. Inl NoBody), cd_rename = (\<lambda>_ _. Inl NoBody), cd_settings = (\<lambda>_ _. Inl NoBody), cd_update = (\<lambda>_ _. Inl NoBody)\<rparr>,
     we_req = demo_renv, we_self = demo_self_env,
     we_binary = \<lparr>be_DataDir = ''/d'', be_exists = (\<lambda>_. True), be_GOOS = ''linux'', be_GOARCH = ''amd64'', be_exe = None\<rparr>,
     we_selfSigned = True, we_fingerprint = ''sha256:00'', we_startedAt = 0\<rparr>"

definition demo_visit :: "string \<Rightarrow> web_request" where
  "demo_visit path = \<lparr>wq_http = \<lparr>hr_Method = ''GET'', hr_Authorization = [], hr_Cookie = None, hr_SecFetchSite = [], hr_Origin = [], hr_Host = [],
     hr_RemoteAddr = ''10.0.0.9:1''\<rparr>, wq_path = path, wq_query = (\<lambda>_. []), wq_ContentLength = 0, wq_body = []\<rparr>"


text \<open>The routes that change something are those of \<open>request\<close>, with its method and guard.\<close>

lemma change_routes:
  assumes "(m, p, acc, ep) \<in> set routes" "make_request cd ep ps body = Some (Inr req)"
  shows "acc \<noteq> Public \<and> m = route_method req \<and> m \<noteq> ''GET'' \<and> (acc = SessionOnly \<longleftrightarrow> session_only req)"
  using assms unfolding routes_def
  by (simp only: list.set insert_iff prod.inject empty_iff)
    (elim disjE conjE; auto simp: make_request_def route_method_def session_only_def map_sum_def split: sum.splits)

lemma serve_page_change:
  assumes "make_request (we_codec env) ep ps (wq_body q) = Some (Inr req)"
  shows "serve_page env q ep ps p w =
    (case dispatch (we_selfSigned env) (we_fingerprint env) (we_sha env) (we_req env) req (wb_server w) of (st, sv1) \<Rightarrow> ((st, Outcome), put_server sv1 w))"
  using assms by (cases ep) (simp_all add: serve_page_def make_request_def Let_def)

text \<open>
  C39: a change that arrives over HTTP is exactly the guarded request it asks for. When a request's
  path needs no redirect and its body decodes, its status and the new state are those of the
  abstract \<open>serve\<close>, whose guard and effects the other properties are about; the updater is not
  involved.
\<close>

theorem web_changes_are_guarded_requests:
  assumes "redirect (hr_Method (wq_http q)) (wq_path q) = None" and "mux_find (hr_Method (wq_http q)) (wq_path q) = (acc, ep, ps)"
    and "make_request (we_codec env) ep ps (wq_body q) = Some (Inr req)"
  shows "fst (fst (serve_web env q w)) = fst (serve (we_sha env) (we_touched env) (we_selfSigned env) (we_fingerprint env) (we_req env) (wq_http q) req (wb_app w))
    \<and> wb_app (snd (serve_web env q w)) = snd (serve (we_sha env) (we_touched env) (we_selfSigned env) (we_fingerprint env) (we_req env) (wq_http q) req (wb_app w))
    \<and> wb_updater (snd (serve_web env q w)) = wb_updater w"
proof -
  have "\<not> (ep = EpUnknown \<or> ep = EpWebUI)" using assms(3) by (auto simp: make_request_def)
  with mux_find_cases[OF assms(2)] obtain m p where r: "(m, p, acc, ep) \<in> set routes" "method_matches m (hr_Method (wq_http q))" by blast
  from change_routes[OF r(1) assms(3)] r(2)
  have c: "acc \<noteq> Public" "hr_Method (wq_http q) = route_method req" "(acc = SessionOnly) = session_only req"
    by (auto simp: method_matches_def)
  obtain g a where g: "guard (we_sha env) (ev_now (we_req env)) (we_touched env) (session_only req) (wq_http q) (wb_app w) = (g, a)" by fastforce
  show ?thesis
    by (cases g) (use assms c g in \<open>simp_all add: serve_web_def serve_def serve_page_change put_server_def split: prod.splits\<close>)
qed

theorem web_changes_are_guarded_requests_witness:
  "let q = (demo_visit ''/api/v1/forwards/f1'')\<lparr>wq_http := (wq_http (demo_visit []))\<lparr>hr_Method := ''DELETE''\<rparr>\<rparr>;
       w = \<lparr>wb_app = demo_app, wb_updater = demo_self\<rparr> in
    fst (fst (serve_web demo_web_env q w)) = fst (serve (\<lambda>s. s) True True ''sha256:00'' demo_renv (wq_http q) (DeleteForward ''f1'') demo_app)"
proof -
  let ?q = "(demo_visit ''/api/v1/forwards/f1'')\<lparr>wq_http := (wq_http (demo_visit []))\<lparr>hr_Method := ''DELETE''\<rparr>\<rparr>"
  let ?w = "\<lparr>wb_app = demo_app, wb_updater = demo_self\<rparr>"
  have "redirect ''DELETE'' ''/api/v1/forwards/f1'' = None" "mux_find ''DELETE'' ''/api/v1/forwards/f1'' = (Authenticated, EpDeleteForward, [''f1''])" by code_simp+
  then have "redirect (hr_Method (wq_http ?q)) (wq_path ?q) = None"
    "mux_find (hr_Method (wq_http ?q)) (wq_path ?q) = (Authenticated, EpDeleteForward, [''f1''])" by (simp_all add: demo_visit_def)
  moreover have "make_request (we_codec demo_web_env) EpDeleteForward [''f1''] (wq_body ?q) = Some (Inr (DeleteForward ''f1''))"
    by (simp add: make_request_def)
  moreover have "we_sha demo_web_env = (\<lambda>s. s)" "we_touched demo_web_env" "we_selfSigned demo_web_env" "we_fingerprint demo_web_env = ''sha256:00''"
    "we_req demo_web_env = demo_renv" by (simp_all add: demo_web_env_def)
  ultimately show ?thesis using web_changes_are_guarded_requests[of ?q Authenticated EpDeleteForward "[''f1'']" demo_web_env _ ?w] by (simp add: Let_def)
qed

text \<open>What the status page counts.\<close>

lemma status_counts:
  "sa_clients_online (handleStatus env w) \<le> sa_clients_total (handleStatus env w)"
  "sa_groups_total (handleStatus env w) \<le> sa_forwards_total (handleStatus env w)"
proof -
  show "sa_clients_online (handleStatus env w) \<le> sa_clients_total (handleStatus env w)"
    by (simp add: handleStatus_def Let_def)
  have "length (GroupIDs st) = card (f_GroupID ` set (st_Forwards st))" for st
    using GroupIDs_correct[of st] distinct_card by metis
  also have "card (f_GroupID ` set (st_Forwards st)) \<le> length (st_Forwards st)" for st
    by (meson card_image_le card_length finite_set le_trans)
  finally show "sa_groups_total (handleStatus env w) \<le> sa_forwards_total (handleStatus env w)"
    by (simp add: handleStatus_def Let_def)
qed

end
