(* ===== verification/Tls.thy ===== *)
theory Tls
  imports Store
begin

text \<open>
  The certificate helpers of \<open>internal/tlsutil/tlsutil.go\<close>: fingerprints, their normal form, the
  check of a pinned certificate, and the pair that is generated once and loaded from then on.
  SHA-256, the calls of \<open>crypto/x509\<close> and the loading of a key pair are parameters.
\<close>

section \<open>Fingerprints\<close>

definition Fingerprint :: "(string \<Rightarrow> string) \<Rightarrow> string \<Rightarrow> string" where
  "Fingerprint sha der = ''sha256:'' @ hex_encode (sha der)"

datatype fingerprint_error = NotADigest | NotHex

definition NormalizeFingerprint :: "string \<Rightarrow> (fingerprint_error, string) result" where
  "NormalizeFingerprint fp0 =
     (let fp = filter (\<lambda>c. c \<noteq> CHR '':'') (trim_prefix ''sha256:'' (trim_space (to_lower fp0))) in
      if length fp \<noteq> 64 then Inl NotADigest
      else if hex_decode fp = None then Inl NotHex
      else Inr (''sha256:'' @ fp))"

datatype pin_error = NoCertificate | FingerprintMismatch string string

fun PinnedVerifier :: "(string \<Rightarrow> string) \<Rightarrow> string \<Rightarrow> string list \<Rightarrow> (pin_error, unit) result" where
  "PinnedVerifier sha fingerprint [] = Inl NoCertificate"
| "PinnedVerifier sha fingerprint (der # rest) =
     (if Fingerprint sha der \<noteq> fingerprint then Inl (FingerprintMismatch (Fingerprint sha der) fingerprint) else Inr ())"

section \<open>The certificate of a server\<close>

text \<open>
  What \<open>GenerateSelfSigned\<close> fills into the template, and the calls it makes: key generation, a random
  serial number below \<open>2^128\<close>, the signature and the two encodings are parameters.
\<close>

record cert_template =
  ct_Serial :: int
  ct_CommonName :: string
  ct_Organization :: "string list"
  ct_NotBefore :: time
  ct_NotAfter :: time
  ct_IPAddresses :: "string list"
  ct_DNSNames :: "string list"

record x509_env =
  xe_now :: time
  xe_key :: "(string, string) result"
  xe_serial :: "(string, int) result"
  xe_parseIP :: "string \<Rightarrow> string option"
  xe_create :: "cert_template \<Rightarrow> string \<Rightarrow> (string, string) result"
  xe_marshalKey :: "string \<Rightarrow> (string, string) result"
  xe_pem :: "string \<Rightarrow> string \<Rightarrow> string"

definition add_host :: "x509_env \<Rightarrow> cert_template \<Rightarrow> string \<Rightarrow> cert_template" where
  "add_host env tmpl h =
     (case xe_parseIP env h of
        Some ip \<Rightarrow> tmpl\<lparr>ct_IPAddresses := ct_IPAddresses tmpl @ [ip]\<rparr>
      | None \<Rightarrow> if h \<noteq> [] then tmpl\<lparr>ct_DNSNames := ct_DNSNames tmpl @ [h]\<rparr> else tmpl)"

definition GenerateSelfSigned :: "x509_env \<Rightarrow> string \<Rightarrow> string list \<Rightarrow> time \<Rightarrow> (string, string \<times> string) result" where
  "GenerateSelfSigned env commonName hosts validity =
     rbind (xe_key env) (\<lambda>key.
     rbind (xe_serial env) (\<lambda>serial.
       let tmpl = foldl (add_host env)
             \<lparr>ct_Serial = serial, ct_CommonName = commonName, ct_Organization = [''SpawnRelay''],
              ct_NotBefore = xe_now env - 3600 * 1000000000, ct_NotAfter = xe_now env + validity,
              ct_IPAddresses = [], ct_DNSNames = []\<rparr> hosts
       in rbind (xe_create env tmpl key) (\<lambda>der.
          rbind (xe_marshalKey env key) (\<lambda>keyDER.
            Inr (xe_pem env ''CERTIFICATE'' der, xe_pem env ''EC PRIVATE KEY'' keyDER)))))"

text \<open>\<open>lc_keyPair\<close> is \<open>tls.X509KeyPair\<close> on the contents of the two files: the chain, leaf first.\<close>

record cert_env =
  lc_x509 :: x509_env
  lc_mkdir :: "string option"
  lc_writeCert :: "string option"
  lc_writeKey :: "string option"
  lc_keyPair :: "string \<Rightarrow> string \<Rightarrow> (string, string list) result"

definition load_pair ::
  "(string \<Rightarrow> string) \<Rightarrow> cert_env \<Rightarrow> string \<Rightarrow> string \<Rightarrow> bool \<Rightarrow> (string \<rightharpoonup> string) \<Rightarrow> (string, string list \<times> string \<times> bool) result" where
  "load_pair sha env certPath keyPath created files =
     (case (case (files certPath, files keyPath) of
              (Some c, Some k) \<Rightarrow> lc_keyPair env c k
            | _ \<Rightarrow> Inl ''no such file or directory'') of
        Inl e \<Rightarrow> Inl (''load certificate '' @ certPath @ '': '' @ e)
      | Inr [] \<Rightarrow> Inl ''certificate file contains no certificates''
      | Inr (leaf # chain) \<Rightarrow> Inr (leaf # chain, Fingerprint sha leaf, created))"

definition LoadOrCreate ::
  "(string \<Rightarrow> string) \<Rightarrow> cert_env \<Rightarrow> string \<Rightarrow> string \<Rightarrow> string \<Rightarrow> string list \<Rightarrow> time \<Rightarrow> (string \<rightharpoonup> string)
     \<Rightarrow> (string, string list \<times> string \<times> bool) result \<times> (string \<rightharpoonup> string)" where
  "LoadOrCreate sha env certPath keyPath commonName hosts validity files =
     (if files certPath = None \<or> files keyPath = None then
        (case GenerateSelfSigned (lc_x509 env) commonName hosts validity of
           Inl e \<Rightarrow> (Inl (''generate certificate: '' @ e), files)
         | Inr (certPEM, keyPEM) \<Rightarrow>
             (case (lc_mkdir env, lc_writeCert env, lc_writeKey env) of
                (Some e, _, _) \<Rightarrow> (Inl e, files)
              | (None, Some e, _) \<Rightarrow> (Inl e, files)
              | (None, None, Some e) \<Rightarrow> (Inl e, files(certPath \<mapsto> certPEM))
              | (None, None, None) \<Rightarrow>
                  (let files1 = files(certPath \<mapsto> certPEM, keyPath \<mapsto> keyPEM)
                   in (load_pair sha env certPath keyPath True files1, files1))))
      else (load_pair sha env certPath keyPath False files, files))"

section \<open>Normal forms\<close>

definition hex_digest :: "string \<Rightarrow> bool" where
  "hex_digest h \<longleftrightarrow> length h = 64 \<and> hex_decode h \<noteq> None \<and> (\<forall>c\<in>set h. lower_char c = c)"

lemma hex_decode_chars: "hex_decode s \<noteq> None \<Longrightarrow> c \<in> set s \<Longrightarrow> hex_val c \<noteq> None"
  by (induction s rule: hex_decode.induct) (auto split: option.splits)

lemma hex_val_plain: "hex_val c \<noteq> None \<Longrightarrow> c \<noteq> CHR '':'' \<and> \<not> is_space c"
  by (auto simp: hex_val_def is_space_def Let_def split: if_splits)

lemma normal_digest:
  assumes "hex_digest h"
  shows "NormalizeFingerprint (''sha256:'' @ h) = Inr (''sha256:'' @ h)"
proof -
  have h: "length h = 64" "hex_decode h \<noteq> None" "\<forall>c\<in>set h. lower_char c = c" using assms by (simp_all add: hex_digest_def)
  have p: "\<forall>c\<in>set h. c \<noteq> CHR '':'' \<and> \<not> is_space c" using hex_decode_chars[OF h(2)] hex_val_plain by blast
  have "h \<noteq> []" using h(1) by auto
  then have l: "\<not> is_space (last (''sha256:'' @ h))" using p last_in_set[of h] by simp
  have low: "to_lower (''sha256:'' @ h) = ''sha256:'' @ h"
    using h(3) by (simp add: to_lower_def map_idI lower_char_def Let_def)
  have "hd (rev (''sha256:'' @ h)) = last (''sha256:'' @ h)" by (rule hd_rev)
  then have "dropWhile is_space (rev (''sha256:'' @ h)) = rev (''sha256:'' @ h)"
    using l by (cases "rev (''sha256:'' @ h)") simp_all
  then have t: "trim_space (''sha256:'' @ h) = ''sha256:'' @ h"
    unfolding trim_space_def by (simp add: is_space_def)
  have f: "filter (\<lambda>c. c \<noteq> CHR '':'') h = h" using p by (simp add: filter_id_conv)
  show ?thesis unfolding NormalizeFingerprint_def Let_def low t trim_prefix_append f using h(1,2) by simp
qed

lemma normalized_digest: "NormalizeFingerprint fp = Inr n \<Longrightarrow> \<exists>h. n = ''sha256:'' @ h \<and> hex_digest h"
proof -
  assume n: "NormalizeFingerprint fp = Inr n"
  let ?t = "trim_prefix ''sha256:'' (trim_space (to_lower fp))"
  have sub: "set (trim_space s) \<subseteq> set s" for s
    unfolding trim_space_def by (metis set_dropWhileD set_rev subsetI)
  have pre: "set (trim_prefix p s) \<subseteq> set s" for p s by (auto simp: trim_prefix_def dest: in_set_dropD)
  have "set ?t \<subseteq> set (to_lower fp)" by (rule subset_trans[OF pre sub])
  then have "\<forall>c\<in>set ?t. lower_char c = c" by (auto simp: to_lower_def)
  then have "\<forall>c\<in>set (filter (\<lambda>c. c \<noteq> CHR '':'') ?t). lower_char c = c" by simp
  with n show ?thesis unfolding NormalizeFingerprint_def Let_def hex_digest_def by (auto split: if_splits)
qed

lemma fingerprint_digest: "length (sha der) = 32 \<Longrightarrow> hex_digest (hex_encode (sha der))"
proof -
  have "lower_char (hex_char n) = hex_char n" if "n < 16" for n
    using that by (auto simp: hex_char_def lower_char_def Let_def of_char_of)
  moreover have "(of_char b :: nat) div 16 < 16" "(of_char b :: nat) mod 16 < 16" for b :: char
    using nat_of_char_less_256[of b] by (simp_all del: nat_of_char_less_256)
  ultimately have "\<forall>c\<in>set (hex_encode bs). lower_char c = c" for bs by (auto simp: hex_encode_def)
  then show "length (sha der) = 32 \<Longrightarrow> hex_digest (hex_encode (sha der))"
    by (simp add: hex_digest_def length_hex_encode)
qed

lemma load_pair_Inr:
  assumes "load_pair sha env certPath keyPath b files = Inr (chain, fp, created)"
  shows "files certPath \<noteq> None \<and> files keyPath \<noteq> None \<and> (\<forall>b'. load_pair sha env certPath keyPath b' files = Inr (chain, fp, b'))
    \<and> (\<exists>leaf rest. chain = leaf # rest \<and> fp = Fingerprint sha leaf)"
  using assms by (cases "files certPath"; cases "files keyPath") (auto simp: load_pair_def split: sum.splits list.splits)


definition demo_x509 :: x509_env where
  "demo_x509 = \<lparr>xe_now = 0, xe_key = Inr ''K'', xe_serial = Inr 1, xe_parseIP = (\<lambda>_. None), xe_create = (\<lambda>_ _. Inr ''C''),
     xe_marshalKey = (\<lambda>k. Inr k), xe_pem = (\<lambda>_ d. d)\<rparr>"

definition demo_cert_env :: cert_env where
  "demo_cert_env = \<lparr>lc_x509 = demo_x509, lc_mkdir = None, lc_writeCert = None, lc_writeKey = None,
     lc_keyPair = (\<lambda>c k. Inr [c])\<rparr>"

definition demo_sha32 :: "string \<Rightarrow> string" where
  "demo_sha32 s = take 32 (s @ replicate 32 CHR ''j'')"


end
