(* ===== verification/Client.thy ===== *)
theory Client
  imports Tls Protocol Server_Boot
begin

text \<open>
  The client (\<open>internal/client/client.go\<close>): its configuration, the connection attempts with their
  delays, the checks of one attempt, the control messages, and the streams the server opens. The
  network is a parameter: what a dial meets, what a target accepts. A list of attempts that ends is
  a context that ends.
\<close>

section \<open>Configuration\<close>

record client_config =
  cc_Server :: string
  cc_Token :: string
  cc_Fingerprint :: string
  cc_AllowUpdate :: bool
  cc_Version :: string

datatype client_error = MissingConfig | BadFingerprint fingerprint_error | BadServerAddress address_error | DialFailed
  | MuxFailed | NoControlStream | HelloNotSent | NoHelloResponse wire_error | AuthRejected string | SessionClosed

text \<open>What \<open>Run\<close> checks before its loop; the fingerprint is normalised.\<close>

definition client_start :: "client_config \<Rightarrow> (client_error, client_config) result" where
  "client_start cfg =
     (if cc_Server cfg = [] \<or> cc_Token cfg = [] then Inl MissingConfig
      else if cc_Fingerprint cfg \<noteq> [] then
        (case NormalizeFingerprint (cc_Fingerprint cfg) of
           Inl e \<Rightarrow> Inl (BadFingerprint e)
         | Inr fp \<Rightarrow> Inr (cfg\<lparr>cc_Fingerprint := fp\<rparr>))
      else Inr cfg)"

section \<open>One attempt\<close>

text \<open>
  What an attempt meets: the certificates the peer presents, whether the system's authorities vouch
  for them, and whether each later step works.
\<close>

record dial_env =
  de_reachable :: bool
  de_certs :: "string list"
  de_system :: "string \<Rightarrow> string list \<Rightarrow> bool"
  de_sha :: "string \<Rightarrow> string"
  de_mux :: bool
  de_control :: bool
  de_sent :: bool
  de_response :: "(wire_error, hello_response) result"
  de_Hostname :: string
  de_OS :: string
  de_Arch :: string

definition certificate_accepted :: "dial_env \<Rightarrow> client_config \<Rightarrow> string \<Rightarrow> bool" where
  "certificate_accepted env cfg host =
     (if cc_Fingerprint cfg \<noteq> [] then (case PinnedVerifier (de_sha env) (cc_Fingerprint cfg) (de_certs env) of Inl _ \<Rightarrow> False | Inr _ \<Rightarrow> True)
      else de_system env host (de_certs env))"

definition client_hello :: "dial_env \<Rightarrow> client_config \<Rightarrow> hello" where
  "client_hello env cfg =
     \<lparr>h_Version = Version, h_Token = cc_Token cfg, h_Hostname = de_Hostname env, h_OS = de_OS env, h_Arch = de_Arch env,
      h_ClientVersion = cc_Version cfg, h_AllowUpdate = cc_AllowUpdate cfg\<rparr>"

text \<open>The error that ends an attempt, whether it was connected before, and the greeting that left the client.\<close>

definition runOnce :: "dial_env \<Rightarrow> client_config \<Rightarrow> client_error \<times> bool \<times> hello option" where
  "runOnce env cfg =
     (case SplitHostPort (cc_Server cfg) of
        Inl e \<Rightarrow> (BadServerAddress e, False, None)
      | Inr (host, _) \<Rightarrow>
          if \<not> de_reachable env \<or> \<not> certificate_accepted env cfg host then (DialFailed, False, None)
          else if \<not> de_mux env then (MuxFailed, False, None)
          else if \<not> de_control env then (NoControlStream, False, None)
          else if \<not> de_sent env then (HelloNotSent, False, None)
          else (case de_response env of
             Inl e \<Rightarrow> (NoHelloResponse e, False, Some (client_hello env cfg))
           | Inr resp \<Rightarrow>
               if \<not> hr_OK resp then (AuthRejected (hr_Error resp), False, Some (client_hello env cfg))
               else (SessionClosed, True, Some (client_hello env cfg))))"

section \<open>Reconnecting\<close>

definition reconnect_delay :: "nat \<Rightarrow> client_error \<times> bool \<Rightarrow> nat" where
  "reconnect_delay backoff a =
     (case a of (e, connected) \<Rightarrow>
        (case e of AuthRejected _ \<Rightarrow> 30 | _ \<Rightarrow> if connected then 1 else backoff))"

definition next_backoff :: "nat \<Rightarrow> nat" where
  "next_backoff backoff = (if backoff < 30 then 2 * backoff else backoff)"

text \<open>The seconds waited after each attempt.\<close>

fun client_delays :: "nat \<Rightarrow> (client_error \<times> bool) list \<Rightarrow> nat list" where
  "client_delays backoff [] = []"
| "client_delays backoff (a # as) =
     (let d = reconnect_delay backoff a in d # client_delays (next_backoff d) as)"

definition client_Run :: "client_config \<Rightarrow> dial_env list \<Rightarrow> (client_error, nat list) result" where
  "client_Run cfg envs =
     rbind (client_start cfg) (\<lambda>cfg. Inr (client_delays 1 (map (\<lambda>env. case runOnce env cfg of (e, c, _) \<Rightarrow> (e, c)) envs)))"

section \<open>Control messages\<close>

datatype client_action = LogForwards "forward_info list" | RunUpdate update_info | NoUpdateDetails | Disconnect string | Ignored

definition client_control :: "control_message \<Rightarrow> client_action" where
  "client_control msg =
     (if cm_Type msg = ''forwards'' then LogForwards (cm_Forwards msg)
      else if cm_Type msg = ''update'' then (case cm_Update msg of None \<Rightarrow> NoUpdateDetails | Some u \<Rightarrow> RunUpdate u)
      else if cm_Type msg = ''shutdown'' then Disconnect (cm_Message msg)
      else Ignored)"

fun control_reader :: "control_message list \<Rightarrow> client_action list" where
  "control_reader [] = []"
| "control_reader (m # ms) =
     (case client_control m of Disconnect s \<Rightarrow> [Disconnect s] | a \<Rightarrow> a # control_reader ms)"

section \<open>Streams\<close>

text \<open>The datagrams read from a stream until an error of the stream or of the socket.\<close>

function deliver_frames :: "(string \<Rightarrow> bool) \<Rightarrow> string \<Rightarrow> string list" where
  "deliver_frames written s =
     (case ReadFrame MaxDatagram s of
        Inl _ \<Rightarrow> []
      | Inr (payload, rest) \<Rightarrow> if written payload then payload # deliver_frames written rest else [])"
  by pat_completeness auto
termination
proof (relation "measure (\<lambda>(w, s). length s)", goal_cases)
  case (2 w s x payload rest)
  then have "ReadFrame MaxDatagram s = Inr (payload, rest)" by simp
  then have "2 \<le> length s" "length rest \<le> length s - 2"
    by (auto simp: ReadFrame_def read_full_def Let_def split: if_splits)
  then show ?case by simp
qed simp

declare deliver_frames.simps [simp del]

text \<open>The datagrams of the target, written to the stream until one cannot be.\<close>

fun frames_back :: "(string \<Rightarrow> bool) \<Rightarrow> string list \<Rightarrow> string" where
  "frames_back sent [] = []"
| "frames_back sent (p # ps) =
     (case WriteFrame p of
        Inl _ \<Rightarrow> []
      | Inr b \<Rightarrow> if sent p then b @ frames_back sent ps else [])"

text \<open>
  What comes of a stream: closed, or relayed to a target. A TCP relay hands over what follows the
  header, which the buffered reader may already hold.
\<close>

datatype stream_end = StreamClosed | TcpRelay string string | UdpRelay string "string list"

record target_env =
  tg_dial :: "string \<Rightarrow> bool"
  tg_resolve :: "string \<Rightarrow> bool"
  tg_written :: "string \<Rightarrow> bool"

definition handleStream :: "target_env \<Rightarrow> (string \<Rightarrow> stream_header option) \<Rightarrow> string \<Rightarrow> stream_end" where
  "handleStream env unmarshal s =
     (case ReadJSONLine unmarshal s of
        Inl _ \<Rightarrow> StreamClosed
      | Inr (hdr, rest) \<Rightarrow>
          if sh_Type hdr = ''tcp'' then (if tg_dial env (sh_Target hdr) then TcpRelay (sh_Target hdr) rest else StreamClosed)
          else if sh_Type hdr = ''udp'' then
            (if tg_resolve env (sh_Target hdr) \<and> tg_dial env (sh_Target hdr)
             then UdpRelay (sh_Target hdr) (deliver_frames (tg_written env) rest) else StreamClosed)
          else StreamClosed)"

section \<open>Facts\<close>

text \<open>Frames that were written one after the other are all delivered.\<close>

definition frame :: "string \<Rightarrow> string" where
  "frame p = PutUint16 (of_nat (length p)) @ p"

lemma deliver_frame:
  "length p \<le> MaxDatagram \<Longrightarrow> deliver_frames w (frame p @ s) = (if w p then p # deliver_frames w s else [])"
  by (subst deliver_frames.simps) (simp add: frame_def ReadFrame_WriteFrame)

lemma deliver_nothing [simp]: "deliver_frames w [] = []"
  by (subst deliver_frames.simps) (simp add: ReadFrame_def read_full_def)

lemma deliver_all:
  "\<forall>p\<in>set ps. length p \<le> MaxDatagram \<and> w p \<Longrightarrow> deliver_frames w (concat (map frame ps)) = ps"
  by (induction ps) (simp_all add: deliver_frame)

lemma client_delays_range: "b \<in> {1, 2, 4, 8, 16, 30, 32} \<Longrightarrow> set (client_delays b as) \<subseteq> {1, 2, 4, 8, 16, 30, 32}"
proof (induction as arbitrary: b)
  case (Cons a as)
  have "reconnect_delay b a \<in> {1, 2, 4, 8, 16, 30, 32}"
    using Cons.prems by (auto simp: reconnect_delay_def split: prod.splits client_error.splits)
  moreover from this have "next_backoff (reconnect_delay b a) \<in> {1, 2, 4, 8, 16, 30, 32}" by (auto simp: next_backoff_def)
  ultimately show ?case using Cons.IH by (simp add: Let_def)
qed simp

text \<open>
  C11: the token goes to the pinned server only. A client with a fingerprint in its configuration
  starts only when that normalises; from then on, whatever it meets on the network, its greeting,
  which carries the token, leaves it only to a peer whose leaf certificate has the pinned hash, and
  it counts as connected only when that peer accepted it; and between attempts it waits at
  least one and at most 32 seconds, exactly 30 after a rejected token.
\<close>

theorem token_only_to_the_pinned_server:
  assumes "cc_Fingerprint cfg0 \<noteq> []" and "client_start cfg0 = Inr cfg"
  shows "NormalizeFingerprint (cc_Fingerprint cfg0) = Inr (cc_Fingerprint cfg)
    \<and> (\<forall>env e c h. runOnce env cfg = (e, c, Some h) \<longrightarrow>
         h_Token h = cc_Token cfg0 \<and> (\<exists>leaf rest. de_certs env = leaf # rest \<and> ''sha256:'' @ hex_encode (de_sha env leaf) = cc_Fingerprint cfg))
    \<and> (\<forall>env e h. runOnce env cfg = (e, True, h) \<longrightarrow> h \<noteq> None \<and> (\<exists>resp. de_response env = Inr resp \<and> hr_OK resp))
    \<and> (\<forall>envs ds. client_Run cfg0 envs = Inr ds \<longrightarrow> length ds = length envs \<and> (\<forall>d\<in>set ds. 1 \<le> d \<and> d \<le> 32)
         \<and> (\<forall>i<length envs. (\<exists>msg c h. runOnce (envs ! i) cfg = (AuthRejected msg, c, h)) \<longrightarrow> ds ! i = 30))"
proof (intro conjI allI impI ballI)
  have fp: "NormalizeFingerprint (cc_Fingerprint cfg0) = Inr (cc_Fingerprint cfg)" "cc_Token cfg = cc_Token cfg0"
    using assms by (auto simp: client_start_def split: if_splits sum.splits)
  obtain dig where dig: "cc_Fingerprint cfg = ''sha256:'' @ dig" using normalized_digest[OF fp(1)] by blast
  show "NormalizeFingerprint (cc_Fingerprint cfg0) = Inr (cc_Fingerprint cfg)" by (rule fp(1))
  show "h_Token h = cc_Token cfg0" if "runOnce env cfg = (e, c, Some h)" for env e c h
    using that fp(2) by (auto simp: runOnce_def client_hello_def split: sum.splits if_splits prod.splits)
  show "\<exists>leaf rest. de_certs env = leaf # rest \<and> ''sha256:'' @ hex_encode (de_sha env leaf) = cc_Fingerprint cfg"
    if "runOnce env cfg = (e, c, Some h)" for env e c h
  proof -
    have "\<exists>host. certificate_accepted env cfg host"
    proof (rule ccontr)
      assume "\<nexists>host. certificate_accepted env cfg host"
      with that show False by (simp add: runOnce_def split: sum.splits prod.splits)
    qed
    then obtain host where "certificate_accepted env cfg host" ..
    then have "PinnedVerifier (de_sha env) (cc_Fingerprint cfg) (de_certs env) = Inr ()"
      by (auto simp: certificate_accepted_def dig split: sum.splits)
    then show ?thesis by (cases "de_certs env") (auto simp: Fingerprint_def split: if_splits)
  qed
  show "h \<noteq> None" "\<exists>resp. de_response env = Inr resp \<and> hr_OK resp" if "runOnce env cfg = (e, True, h)" for env e h
    using that by (auto simp: runOnce_def split: sum.splits if_splits prod.splits)
  fix envs ds assume r: "client_Run cfg0 envs = Inr ds"
  let ?as = "map (\<lambda>env. case runOnce env cfg of (e, c, _) \<Rightarrow> (e, c)) envs"
  have ds: "ds = client_delays 1 ?as" using r assms(2) by (simp add: client_Run_def)
  have len: "length (client_delays b as) = length as" for b as by (induction as arbitrary: b) (simp_all add: Let_def)
  show "length ds = length envs" by (simp add: ds len)
  show "1 \<le> d" "d \<le> 32" if "d \<in> set ds" for d using client_delays_range[of 1 ?as] that by (auto simp: ds)
  have auth: "client_delays b as ! i = 30" if "i < length as" "as ! i = (AuthRejected msg, c)" for b as i msg c
    using that by (induction as arbitrary: b i) (auto simp: Let_def nth_Cons reconnect_delay_def split: nat.splits)
  show "ds ! i = 30" if "i < length envs" "\<exists>msg c h. runOnce (envs ! i) cfg = (AuthRejected msg, c, h)" for i
    using that auth[of i ?as _ _ 1] by (auto simp: ds)
qed

definition demo_client :: client_config where
  "demo_client = \<lparr>cc_Server = ''relay:7443'', cc_Token = ''sr_secret'', cc_Fingerprint = Fingerprint demo_sha32 ''C'',
     cc_AllowUpdate = True, cc_Version = ''v1''\<rparr>"

definition demo_dial :: dial_env where
  "demo_dial = \<lparr>de_reachable = True, de_certs = [''C''], de_system = (\<lambda>_ _. False), de_sha = demo_sha32, de_mux = True, de_control = True,
     de_sent = True, de_response = Inr \<lparr>hr_OK = True, hr_Error = [], hr_ClientID = ''c1'', hr_ClientName = ''home'', hr_ServerVersion = ''v1''\<rparr>,
     de_Hostname = ''host'', de_OS = ''linux'', de_Arch = ''amd64''\<rparr>"

lemma demo_client_facts:
  "client_start demo_client = Inr demo_client"
  "runOnce demo_dial demo_client = (SessionClosed, True, Some (client_hello demo_dial demo_client))"
proof -
  have "length (demo_sha32 ''C'') = 32" by (simp add: demo_sha32_def)
  with normal_digest[OF fingerprint_digest[of demo_sha32 "''C''"]]
  have "NormalizeFingerprint (Fingerprint demo_sha32 ''C'') = Inr (Fingerprint demo_sha32 ''C'')" by (simp add: Fingerprint_def)
  then show "client_start demo_client = Inr demo_client" by (simp add: client_start_def demo_client_def)
  have "SplitHostPort ''relay:7443'' = Inr (''relay'', ''7443'')" by code_simp
  then show "runOnce demo_dial demo_client = (SessionClosed, True, Some (client_hello demo_dial demo_client))"
    by (simp add: runOnce_def demo_dial_def demo_client_def certificate_accepted_def Fingerprint_def)
qed

theorem token_only_to_the_pinned_server_witness:
  "runOnce demo_dial demo_client = (SessionClosed, True, Some (client_hello demo_dial demo_client))
     \<and> (\<exists>leaf rest. de_certs demo_dial = leaf # rest \<and> ''sha256:'' @ hex_encode (de_sha demo_dial leaf) = cc_Fingerprint demo_client)"
proof -
  have s: "client_start demo_client = Inr demo_client"
    and r: "runOnce demo_dial demo_client = (SessionClosed, True, Some (client_hello demo_dial demo_client))"
    by (rule demo_client_facts)+
  have "cc_Fingerprint demo_client \<noteq> []" by (simp add: demo_client_def Fingerprint_def)
  from token_only_to_the_pinned_server[OF this s] r show ?thesis by blast
qed

end
