(* ===== verification/Connecting.thy ===== *)
theory Connecting
  imports Client Sessions
begin

text \<open>
  A tunnel connection from its first byte (\<open>Serve\<close> and the head of \<open>handleConn\<close> in
  \<open>internal/server/tunnel.go\<close>), and both ends of it together: what the server makes of a client's
  attempt and what the client makes of the server's answer. The TLS handshake, the multiplexer and
  the timeouts of the first stream and line are parameters; the two lines travel as bytes.
\<close>

section \<open>The server's end\<close>

text \<open>Accepting until the listener fails; the error is dropped when the server is stopping.\<close>

fun tunnel_Serve :: "bool \<Rightarrow> (string, 'c) result list \<Rightarrow> 'c list \<times> string option" where
  "tunnel_Serve stopping [] = ([], None)"
| "tunnel_Serve stopping (Inl e # rs) = ([], if stopping then None else Some e)"
| "tunnel_Serve stopping (Inr c # rs) = (case tunnel_Serve stopping rs of (cs, e) \<Rightarrow> (c # cs, e))"

record raw_conn =
  rc_remote :: string
  rc_handshake :: bool
  rc_mux :: bool
  rc_control :: bool
  rc_bytes :: string

datatype conn_outcome = HandshakeFailed | MuxNotStarted | NoControlInTime | BadHello wire_error | TurnedAway reject | Accepted nat

definition reject_message :: "reject \<Rightarrow> string" where
  "reject_message rj =
     (case rj of
        UnsupportedVersion v \<Rightarrow> ''unsupported protocol version '' @ itoa v @ '' (server speaks '' @ itoa Version @ '')''
      | InvalidToken \<Rightarrow> ''invalid token''
      | AnswerFailed \<Rightarrow> [])"

definition rejection :: "string \<Rightarrow> hello_response" where
  "rejection msg = \<lparr>hr_OK = False, hr_Error = msg, hr_ClientID = [], hr_ClientName = [], hr_ServerVersion = []\<rparr>"

definition acceptance :: "state \<Rightarrow> hello \<Rightarrow> string \<Rightarrow> hello_response" where
  "acceptance st h version =
     (case ClientByToken st (h_Token h) of
        None \<Rightarrow> rejection []
      | Some c \<Rightarrow> \<lparr>hr_OK = True, hr_Error = [], hr_ClientID = c_ID c, hr_ClientName = c_Name c, hr_ServerVersion = version\<rparr>)"

text \<open>The outcome, and the answer that was written, if any.\<close>

definition accept_conn ::
  "bool \<Rightarrow> bool \<Rightarrow> bool \<Rightarrow> tunnel_env \<Rightarrow> (string \<Rightarrow> hello option) \<Rightarrow> raw_conn \<Rightarrow> tunnel \<Rightarrow> store
    \<Rightarrow> conn_outcome \<times> hello_response option \<times> tunnel \<times> store" where
  "accept_conn saved answered saved2 env unmarshal raw t sto =
     (if \<not> rc_handshake raw then (HandshakeFailed, None, t, sto)
      else if \<not> rc_mux raw then (MuxNotStarted, None, t, sto)
      else if \<not> rc_control raw then (NoControlInTime, None, t, sto)
      else case ReadJSONLine unmarshal (rc_bytes raw) of
        Inl e \<Rightarrow> (BadHello e, None, t, sto)
      | Inr (h, _) \<Rightarrow>
          (case handleConn saved answered saved2 env (rc_remote raw) h t sto of
             (Inl AnswerFailed, t1, sto1) \<Rightarrow> (TurnedAway AnswerFailed, None, t1, sto1)
           | (Inl rj, t1, sto1) \<Rightarrow> (TurnedAway rj, Some (rejection (reject_message rj)), t1, sto1)
           | (Inr sid, t1, sto1) \<Rightarrow> (Accepted sid, Some (acceptance (sto_mem sto) h (tn_version t)), t1, sto1)))"

text \<open>The bytes of the answer on the control stream.\<close>

definition answer_bytes :: "(hello_response \<Rightarrow> string option) \<Rightarrow> hello_response option \<Rightarrow> string" where
  "answer_bytes marshal a = (case a of None \<Rightarrow> [] | Some r \<Rightarrow> (case WriteJSONLine marshal r of Inl _ \<Rightarrow> [] | Inr b \<Rightarrow> b))"

section \<open>Both ends\<close>

lemma line_back:
  assumes "json_codec marshal unmarshal" "marshal v = Some b" "length b < maxLine"
  shows "WriteJSONLine marshal v = Inr (b @ [newline])" "ReadJSONLine unmarshal (b @ newline # rest) = Inr (v, rest)"
  using assms by (auto simp: json_codec_def WriteJSONLine_def ReadJSONLine_def read_slice_line)

lemma answer_back:
  assumes "json_codec marshal unmarshal" "\<And>r. \<exists>b. marshal r = Some b \<and> length b < maxLine"
  shows "ReadJSONLine unmarshal (answer_bytes marshal (Some r)) = Inr (r, [])" "ReadJSONLine unmarshal (answer_bytes marshal None) = Inl UnexpectedEOF"
proof -
  obtain b where "marshal r = Some b" "length b < maxLine" using assms(2) by blast
  from line_back[OF assms(1) this] show "ReadJSONLine unmarshal (answer_bytes marshal (Some r)) = Inr (r, [])" by (simp add: answer_bytes_def)
  show "ReadJSONLine unmarshal (answer_bytes marshal None) = Inl UnexpectedEOF"
    by (simp add: answer_bytes_def ReadJSONLine_def read_slice_def maxLine_def Let_def)
qed

lemma handleConn_cases:
  assumes "handleConn saved answered saved2 env remote h t sto = (r, t1, sto1)"
  shows "case r of
      Inl (UnsupportedVersion v) \<Rightarrow> v = h_Version h \<and> v \<noteq> Version \<and> t1 = t \<and> sto1 = sto
    | Inl InvalidToken \<Rightarrow> h_Version h = Version \<and> t1 = t \<and> (saved \<longrightarrow> ClientByToken (sto_mem sto) (h_Token h) = None)
    | Inl AnswerFailed \<Rightarrow> h_Version h = Version \<and> \<not> answered
    | Inr sid \<Rightarrow> h_Version h = Version \<and> answered \<and> (\<exists>c. ClientByToken (sto_mem sto) (h_Token h) = Some c)"
  using assms
  by (auto simp: handleConn_def Update_def hello_seen_def split: if_splits prod.splits sum.splits option.splits)

lemma unanswered_not_registered:
  assumes "handleConn saved answered saved2 env remote h t sto = (Inl AnswerFailed, t1, sto1)"
    and "ClientByToken (sto_mem sto) (h_Token h) = Some c"
  shows "session_id t1 (c_ID c) = None"
proof -
  obtain r sto2 where up: "Update saved (hello_seen (te_now env) remote h) sto = (r, sto2)" by fastforce
  with assms have c: "r = Inr c" "h_Version h = Version"
    by (auto simp: handleConn_def Update_def hello_seen_def split: if_splits option.splits prod.splits sum.splits)
  obtain sid t2 where reg: "register (c_ID c) remote (te_now env) h t = (sid, t2)" by fastforce
  have t1: "t1 = fst (dropSession saved2 (te_now env) sid t2 sto2)"
    using assms(1) c reg up by (auto simp: handleConn_def split: if_splits prod.splits)
  have "session_id t2 (c_ID c) = Some sid" "se_ClientID (tn_objs t2 ! sid) = c_ID c"
    by (use reg in \<open>auto simp: register_def Let_def session_id_def update_conv' nth_append split: option.splits\<close>)
  then show ?thesis by (simp add: t1 dropSession_def Let_def session_id_def delete_conv')
qed

text \<open>What the client reads of the server's answer, and what its attempt comes to once its greeting is through.\<close>

lemma answer_read:
  assumes "json_codec mr ur" and "\<And>r. a = Some r \<Longrightarrow> \<exists>b. mr r = Some b \<and> length b < maxLine"
  shows "map_sum id fst (ReadJSONLine ur (answer_bytes mr a)) = (case a of None \<Rightarrow> Inl UnexpectedEOF | Some r \<Rightarrow> Inr r)"
proof (cases a)
  case None
  then show ?thesis by (simp add: answer_bytes_def ReadJSONLine_def read_slice_def maxLine_def Let_def)
next
  case (Some r)
  then obtain b where "mr r = Some b" "length b < maxLine" using assms(2) by blast
  with line_back[OF assms(1) this] Some show ?thesis by (simp add: answer_bytes_def)
qed

lemma runOnce_greeted:
  assumes "SplitHostPort (cc_Server cfg) = Inr (host, port)" "de_reachable denv" "certificate_accepted denv cfg host"
    "de_mux denv" "de_control denv" "de_sent denv"
  shows "runOnce denv cfg = (case de_response denv of
       Inl e \<Rightarrow> (NoHelloResponse e, False, Some (client_hello denv cfg))
     | Inr resp \<Rightarrow> if \<not> hr_OK resp then (AuthRejected (hr_Error resp), False, Some (client_hello denv cfg))
         else (SessionClosed, True, Some (client_hello denv cfg)))"
  using assms by (simp add: runOnce_def)

section \<open>Properties of a connection\<close>

text \<open>
  C10: both ends agree on a connection. A client that trusts the peer's certificate and gets its
  greeting through meets exactly one of three fates, and the two ends see the same one. Connected:
  exactly then the server has registered a session, which is the open one of the client the token
  belongs to and holds that greeting. Turned away: exactly when the server refused the token, the
  client is told so and waits 30 seconds, and the tunnel is untouched. Or the server could not
  write its answer: the client has none, and the session that was just registered is gone.
\<close>

theorem both_ends_agree:
  assumes accepted: "accept_conn saved answered saved2 env uh raw t sto = (out, a, t1, sto1)"
    and codecs: "json_codec mh uh" "json_codec mr ur"
    and hello: "mh (client_hello denv cfg) = Some hb" "length hb < maxLine" "rc_bytes raw = hb @ [newline]"
    and answer: "\<And>r. a = Some r \<Longrightarrow> \<exists>b. mr r = Some b \<and> length b < maxLine"
      "de_response denv = map_sum id fst (ReadJSONLine ur (answer_bytes mr a))"
    and server: "rc_handshake raw" "rc_mux raw" "rc_control raw" "saved"
    and client: "SplitHostPort (cc_Server cfg) = Inr (host, port)" "de_reachable denv" "certificate_accepted denv cfg host"
      "de_mux denv" "de_control denv" "de_sent denv"
  shows "((\<exists>sid. out = Accepted sid) \<longleftrightarrow> runOnce denv cfg = (SessionClosed, True, Some (client_hello denv cfg)))
    \<and> (\<forall>sid. out = Accepted sid \<longrightarrow> (\<exists>c. ClientByToken (sto_mem sto) (cc_Token cfg) = Some c
          \<and> session_id t1 (c_ID c) = Some sid \<and> faces t1 ! sid = (c_ID c, client_hello denv cfg, True)))
    \<and> (out = TurnedAway InvalidToken \<longleftrightarrow> runOnce denv cfg = (AuthRejected ''invalid token'', False, Some (client_hello denv cfg)))
    \<and> (out = TurnedAway InvalidToken \<longrightarrow> ClientByToken (sto_mem sto) (cc_Token cfg) = None \<and> t1 = t
          \<and> reconnect_delay backoff (AuthRejected ''invalid token'', False) = 30)
    \<and> (out = TurnedAway AnswerFailed \<longleftrightarrow> runOnce denv cfg = (NoHelloResponse UnexpectedEOF, False, Some (client_hello denv cfg)))
    \<and> (out = TurnedAway AnswerFailed \<longrightarrow> (\<forall>c. ClientByToken (sto_mem sto) (cc_Token cfg) = Some c \<longrightarrow> session_id t1 (c_ID c) = None))
    \<and> ((\<exists>sid. out = Accepted sid) \<or> out = TurnedAway InvalidToken \<or> out = TurnedAway AnswerFailed)"
proof -
  let ?h = "client_hello denv cfg"
  have v: "h_Version ?h = Version" "h_Token ?h = cc_Token cfg" by (simp_all add: client_hello_def)
  have read: "ReadJSONLine uh (rc_bytes raw) = Inr (?h, [])" using line_back(2)[OF codecs(1) hello(1,2), of "[]"] hello(3) by simp
  note run = runOnce_greeted[OF client]
  have answered: "de_response denv = (case a of None \<Rightarrow> Inl UnexpectedEOF | Some r \<Rightarrow> Inr r)"
    using answer(2) answer_read[OF codecs(2) answer(1)] by simp
  obtain r t2 sto2 where h: "handleConn saved answered saved2 env (rc_remote raw) ?h t sto = (r, t2, sto2)" by (metis prod.exhaust)
  note fate = handleConn_cases[OF h]
  show ?thesis
  proof (cases r)
    case (Inr sid)
    from handleConn_registers[OF h[unfolded Inr]] obtain c where c: "ClientByToken (sto_mem sto) (cc_Token cfg) = Some c"
      "session_id t2 (c_ID c) = Some sid" "faces t2 ! sid = (c_ID c, ?h, True)" by (auto simp: v)
    have o: "out = Accepted sid" "t1 = t2" "a = Some (acceptance (sto_mem sto) ?h (tn_version t))"
      using accepted server(1-3) read h Inr by (simp_all add: accept_conn_def)
    have "runOnce denv cfg = (SessionClosed, True, Some ?h)" using run answered o(3) c(1) by (simp add: acceptance_def v)
    with o c show ?thesis by simp
  next
    case (Inl rj)
    show ?thesis
    proof (cases rj)
      case (UnsupportedVersion n)
      with fate Inl v have False by auto
      then show ?thesis ..
    next
      case InvalidToken
      then have o: "out = TurnedAway InvalidToken" "t1 = t2" "a = Some (rejection (reject_message InvalidToken))"
        using accepted server(1-3) read h Inl by (simp_all add: accept_conn_def)
      have "runOnce denv cfg = (AuthRejected ''invalid token'', False, Some ?h)"
        using run answered o(3) by (simp add: rejection_def reject_message_def)
      with o fate Inl InvalidToken server(4) v show ?thesis by (simp add: reconnect_delay_def)
    next
      case AnswerFailed
      then have o: "out = TurnedAway AnswerFailed" "t1 = t2" "a = None"
        using accepted server(1-3) read h Inl by (simp_all add: accept_conn_def)
      have "runOnce denv cfg = (NoHelloResponse UnexpectedEOF, False, Some ?h)" using run answered o(3) by simp
      moreover have "session_id t2 (c_ID c) = None" if "ClientByToken (sto_mem sto) (cc_Token cfg) = Some c" for c
        using unanswered_not_registered[OF h[unfolded Inl AnswerFailed]] that v by simp
      ultimately show ?thesis using o by simp
    qed
  qed
qed

text \<open>The client of the examples, with the token of the client the example server knows.\<close>

definition demo_known :: client_config where
  "demo_known = Client.demo_client\<lparr>cc_Token := ''sr_c_1''\<rparr>"

theorem both_ends_agree_witness:
  "\<exists>denv uh raw sid a t1 sto1. accept_conn True True True demo_tenv uh raw (new_tunnel ''v2'') demo_store = (Accepted sid, a, t1, sto1)
    \<and> runOnce denv demo_known = (SessionClosed, True, Some (client_hello denv demo_known))"
proof -
  let ?h = "client_hello demo_dial demo_known"
  let ?mh = "\<lambda>h. if h = ?h then Some ''h'' else None" and ?uh = "\<lambda>s. if s = ''h'' then Some ?h else None"
  let ?raw = "\<lparr>rc_remote = ''1.2.3.4:5'', rc_handshake = True, rc_mux = True, rc_control = True, rc_bytes = ''h'' @ [newline]\<rparr>"
  obtain out a t1 sto1 where acc: "accept_conn True True True demo_tenv ?uh ?raw (new_tunnel ''v2'') demo_store = (out, a, t1, sto1)"
    by (metis prod.exhaust)
  let ?mr = "\<lambda>r. if Some r = a then Some ''a'' else None" and ?ur = "\<lambda>s. if s = ''a'' then a else None"
  let ?d = "demo_dial\<lparr>de_response := map_sum id fst (ReadJSONLine ?ur (answer_bytes ?mr a))\<rparr>"
  have hello: "client_hello ?d demo_known = ?h" by (simp add: client_hello_def)
  have codecs: "json_codec ?mh ?uh" "json_codec ?mr ?ur" by (auto simp: json_codec_def newline_def)
  have cert: "certificate_accepted ?d demo_known ''relay''"
    by (simp add: certificate_accepted_def demo_dial_def demo_known_def Client.demo_client_def Fingerprint_def)
  have addr: "SplitHostPort (cc_Server demo_known) = Inr (''relay'', ''7443'')"
    unfolding demo_known_def Client.demo_client_def by code_simp
  have steps: "de_reachable ?d" "de_mux ?d" "de_control ?d" "de_sent ?d" by (simp_all add: demo_dial_def)
  have sent: "(if client_hello ?d demo_known = ?h then Some ''h'' else None) = Some ''h''" "length ''h'' < maxLine" by (simp_all add: hello maxLine_def)
  note agree = both_ends_agree[OF acc codecs, of ?d demo_known "''h''" "''relay''" "''7443''" 1, OF sent(1) sent(2) _ _ _ _ _ _ _ addr steps(1) cert steps(2-4)]
  have known: "ClientByToken (sto_mem demo_store) (cc_Token demo_known) = Some Sessions.demo_client"
    by (simp add: demo_known_def ClientByToken_def demo_store_def Sessions.demo_client_def)
  have "out \<noteq> TurnedAway AnswerFailed"
    using acc by (auto simp: accept_conn_def handleConn_def split: sum.splits prod.splits reject.splits if_splits)
  with agree known acc show ?thesis by (force simp: maxLine_def)
qed

end
