(* ===== verification/Serving.thy ===== *)
theory Serving
  imports Web_Server Connecting
begin

text \<open>
  The running server process (\<open>Run\<close> in \<open>internal/server/server.go\<close>): its start, the HTTP requests, the
  tunnel connections and the background work interleaved in any order, and its end. Here the
  components meet: what the earlier theories show of one operation is carried to every state of
  the whole process.
\<close>

section \<open>Start and end\<close>

definition run_start ::
  "bool \<Rightarrow> bool \<Rightarrow> (socket \<Rightarrow> bool) \<Rightarrow> fw_env \<Rightarrow> self_env \<Rightarrow> web \<Rightarrow> (boot_error, string \<rightharpoonup> socket) result \<times> web" where
  "run_start tunnelOK adminOK deny fenv senv w =
     (case startServer tunnelOK adminOK deny fenv (wb_server w) of
        (Inl e, sv) \<Rightarrow> (Inl e, put_server sv w)
      | (Inr errs, sv) \<Rightarrow> (Inr errs, (put_server sv w)\<lparr>wb_updater := adoptStaged senv (wb_updater w)\<rparr>))"

text \<open>What ends the wait: the context, or one of the two servers with its error, if any.\<close>

datatype run_cause = Cancelled | TunnelEnded "string option" | AdminEnded "string option"

definition run_error :: "run_cause \<Rightarrow> string option" where
  "run_error r =
     (case r of
        Cancelled \<Rightarrow> None
      | TunnelEnded e \<Rightarrow> e
      | AdminEnded e \<Rightarrow> if e = Some ''http: Server closed'' then None else e)"

definition run_finish :: "run_cause \<Rightarrow> web \<Rightarrow> string option \<times> web" where
  "run_finish r w = (run_error r, put_server (stopServer (wb_server w)) w)"

section \<open>Steps of the process\<close>

text \<open>
  A request meets the sockets other programs hold and works on saves; the random identifiers it draws
  are new. A connection runs \<open>handleConn\<close> on the same store and tunnel.
\<close>

type_synonym process = "(socket \<Rightarrow> bool) \<times> web"

inductive serving_step :: "process \<Rightarrow> process \<Rightarrow> bool" where
  Http: "ev_deny (we_req env) = deny \<Longrightarrow> ev_saved (we_req env) \<Longrightarrow> new_ids (we_req env) (wb_server w) \<Longrightarrow>
    serving_step (deny, w) (deny, snd (serve_web env q w))"
| Connection: "accept_conn saved answered saved2 tenv unmarshal raw (sv_tunnel (wb_server w)) (sv_store (wb_server w)) = (out, a, t, sto) \<Longrightarrow>
    serving_step (deny, w) (deny, put_server ((wb_server w)\<lparr>sv_tunnel := t, sv_store := sto\<rparr>) w)"
| Background: "server_step (deny, wb_server w) (deny', sv) \<Longrightarrow> serving_step (deny, w) (deny', (put_server sv w)\<lparr>wb_updater := u\<rparr>)"

section \<open>Every step keeps the server consistent\<close>

text \<open>Credentials are checked without touching forwards, clients or listeners.\<close>

definition same_serving :: "server \<Rightarrow> server \<Rightarrow> bool" where
  "same_serving sv sv' \<longleftrightarrow> same_config (sv_state sv) (sv_state sv') \<and> sv_listeners sv' = sv_listeners sv
     \<and> sv_tunnelPort sv' = sv_tunnelPort sv \<and> sv_adminPort sv' = sv_adminPort sv"

lemma same_serving_refl [simp]: "same_serving sv sv"
  by (simp add: same_serving_def)

lemma same_serving_ok: "same_serving sv sv' \<Longrightarrow> server_ok deny sv \<Longrightarrow> server_ok deny sv'"
  using server_ok_same by (auto simp: same_serving_def)

lemma same_serving_trans: "same_serving a b \<Longrightarrow> same_serving b c \<Longrightarrow> same_serving a c"
  using same_config_trans by (auto simp: same_serving_def)

lemma same_serving_store: "same_config (sv_state sv) (sto_mem s) \<Longrightarrow> same_serving sv (set_store s sv)"
  by (simp add: same_serving_def set_store_def)

lemma same_serving_ids:
  assumes "same_serving sv sv'"
  shows "new_ids env sv' = new_ids env sv"
proof -
  have m: "map c_ID (st_Clients (sv_state sv')) = map c_ID (st_Clients (sv_state sv))" and f: "st_Forwards (sv_state sv') = st_Forwards (sv_state sv)"
    using assms by (simp_all add: same_serving_def same_config_def)
  from arg_cong[OF m, of set] f show ?thesis by (simp add: new_ids_def fresh_ids_def fresh_id_def)
qed

lemma guard_same_serving:
  assumes "guard sha now touched so r a = (g, a1)"
  shows "same_serving (ap_server a) (ap_server a1)"
proof -
  obtain po a2 where p: "authenticate sha now touched r a = (po, a2)" by fastforce
  with assms have a1: "a1 = a2" by (auto simp: guard_def split: option.splits if_splits)
  have touch: "same_serving (ap_server a) (set_store (snd (Update touched (touch_token now i) (sv_store (ap_server a)))) (ap_server a))" for i
    by (intro same_serving_store Update_same_config) (simp add: touch_token_def same_config_def)
  show ?thesis
  proof (cases "hr_Authorization r = []")
    case True
    with p a1 show ?thesis by (auto simp: authenticate_def split: option.splits if_splits prod.splits)
  next
    case False
    with p a1 touch show ?thesis by (auto simp: authenticate_def Let_def split: option.splits if_splits)
  qed
qed

lemma clients_out_same_serving: "clients_out env ss fp cs sv = (os, sv') \<Longrightarrow> same_serving sv sv'"
proof (induction cs arbitrary: sv os)
  case (Cons c cs)
  obtain o' sv1 where c: "clientOut env ss fp c sv = (o', sv1)" by fastforce
  obtain os' sv2 where r: "clients_out env ss fp cs sv1 = (os', sv2)" by fastforce
  from Cons.prems c r have "sv2 = sv'" by simp
  with Cons.IH[of sv1 os'] r have "same_serving sv1 sv'" by simp
  moreover have "same_serving sv sv1" using clientOut_frame[OF c] by (simp add: same_serving_def)
  ultimately show ?case by (rule same_serving_trans[rotated])
qed simp

lemma change_password_same: "same_config st (snd (change_password kdf salt cur new st))"
  by (auto simp: change_password_def same_config_def split: sum.splits)

lemma handleChangePassword_same:
  assumes "handleChangePassword kdf saved salt cur new a = (st, a1)"
  shows "same_serving (ap_server a) (ap_server a1)"
proof -
  obtain r s where u: "Update saved (change_password kdf salt cur new) (sv_store (ap_server a)) = (r, s)" by fastforce
  from Update_same_config[of "change_password kdf salt cur new" "sv_store (ap_server a)" saved] change_password_same u
  have "same_serving (ap_server a) (set_store s (ap_server a))" by (intro same_serving_store) simp
  with assms u show ?thesis by (auto simp: handleChangePassword_def split: if_splits sum.splits)
qed

text \<open>A page either serves one request of the earlier theories or leaves the configuration as it is.\<close>

lemma serve_page_serving:
  assumes "serve_page env q ep ps p w = (x, w1)"
  shows "same_serving (wb_server w) (wb_server w1)
    \<or> (\<exists>req st. dispatch (we_selfSigned env) (we_fingerprint env) (we_sha env) (we_req env) req (wb_server w) = (st, wb_server w1))"
proof -
  have pw: ?thesis if "ep = EpChangePassword"
    using assms that handleChangePassword_same by (fastforce simp: serve_page_def Let_def split: sum.splits prod.splits)
  have start: ?thesis if "ep = EpUpdateStart"
    using assms that by (auto simp: serve_page_def Let_def split: sum.splits prod.splits)
  have clients: ?thesis if "ep = EpListClients"
    using assms that clients_out_same_serving by (fastforce simp: serve_page_def handleListClients_def Let_def split: prod.splits)
  have client: ?thesis if "ep = EpGetClient"
    using assms that clientOut_frame by (fastforce simp: serve_page_def handleGetClient_def same_serving_def Let_def split: prod.splits option.splits)
  have change: ?thesis
    if "(case make_request (we_codec env) ep ps (wq_body q) of
             Some (Inr req) \<Rightarrow> (case dispatch (we_selfSigned env) (we_fingerprint env) (we_sha env) (we_req env) req (wb_server w) of
               (st, sv1) \<Rightarrow> ((st, Outcome), put_server sv1 w))
           | Some (Inl (st, e)) \<Rightarrow> ((st, ErrorText e), w)
           | None \<Rightarrow> ((404, ErrorText ''unknown endpoint''), w)) = (x, w1)"
    using that by (auto split: option.splits sum.splits prod.splits)
  show ?thesis
  proof (cases ep)
    case EpUpdateCheck
    with assms show ?thesis by (auto simp: serve_page_def Let_def split: prod.splits)
  next
    case EpListClients
    then show ?thesis by (rule clients)
  next
    case EpGetClient
    then show ?thesis by (rule client)
  next
    case EpUpdateStart
    then show ?thesis by (rule start)
  next
    case EpChangePassword
    then show ?thesis by (rule pw)
  qed (use assms change in \<open>simp_all add: serve_page_def Let_def\<close>)
qed

lemma serve_web_ok:
  assumes "server_ok (ev_deny (we_req env)) (wb_server w)" "ev_saved (we_req env)" "new_ids (we_req env) (wb_server w)"
  shows "server_ok (ev_deny (we_req env)) (wb_server (snd (serve_web env q w)))"
proof (cases "redirect (hr_Method (wq_http q)) (wq_path q)")
  case None
  obtain acc ep ps where m: "mux_find (hr_Method (wq_http q)) (wq_path q) = (acc, ep, ps)" by (metis prod.exhaust)
  show ?thesis
  proof (cases "acc = Public")
    case True
    obtain st c w1 where s: "serve_public env q ep ps w = ((st, c), w1)" by (metis prod.exhaust)
    from serve_public_frame[OF s] assms(1) None m True s show ?thesis by (simp add: serve_web_def)
  next
    case False
    obtain g a where g: "guard (we_sha env) (ev_now (we_req env)) (we_touched env) (acc = SessionOnly) (wq_http q) (wb_app w) = (g, a)" by fastforce
    note G = guard_same_serving[OF g]
    note a = same_serving_ok[OF G assms(1)]
    show ?thesis
    proof (cases g)
      case (Inl e)
      with None m False g a show ?thesis by (simp add: serve_web_def)
    next
      case (Inr p)
      obtain x w1 where s: "serve_page env q ep ps p (w\<lparr>wb_app := a\<rparr>) = (x, w1)" by fastforce
      have "server_ok (ev_deny (we_req env)) (wb_server w1)"
        using serve_page_serving[OF s]
      proof
        assume "same_serving (wb_server (w\<lparr>wb_app := a\<rparr>)) (wb_server w1)"
        from same_serving_ok[OF this] a show ?thesis by simp
      next
        assume "\<exists>req st. dispatch (we_selfSigned env) (we_fingerprint env) (we_sha env) (we_req env) req (wb_server (w\<lparr>wb_app := a\<rparr>)) = (st, wb_server w1)"
        then obtain req st where "dispatch (we_selfSigned env) (we_fingerprint env) (we_sha env) (we_req env) req (ap_server a) = (st, wb_server w1)" by auto
        with dispatch_ok[OF a assms(2), of "we_selfSigned env" "we_fingerprint env" "we_sha env" req] same_serving_ids[OF G] assms(3)
        show ?thesis by simp
      qed
      with None m False g Inr s show ?thesis by (simp add: serve_web_def)
    qed
  qed
qed (use assms in \<open>simp add: serve_web_def\<close>)
lemma accept_conn_step:
  assumes "accept_conn saved answered saved2 env unmarshal raw t sto = (out, a, t1, sto1)"
  shows "(t1, sto1) = (t, sto) \<or> tunnel_step (t, sto) (t1, sto1)"
proof (cases "rc_handshake raw \<and> rc_mux raw \<and> rc_control raw")
  case True
  show ?thesis
  proof (cases "ReadJSONLine unmarshal (rc_bytes raw)")
    case (Inr hr)
    obtain h rest where hr: "hr = (h, rest)" by fastforce
    obtain r t2 sto2 where c: "handleConn saved answered saved2 env (rc_remote raw) h t sto = (r, t2, sto2)" by (metis prod.exhaust)
    then have "t1 = t2" "sto1 = sto2" using assms True Inr hr by (auto simp: accept_conn_def split: sum.splits reject.splits)
    with tunnel_step.Connect[OF c] show ?thesis by simp
  qed (use assms True in \<open>simp add: accept_conn_def\<close>)
next
  case False
  then consider "\<not> rc_handshake raw" | "rc_handshake raw" "\<not> rc_mux raw" | "rc_handshake raw" "rc_mux raw" "\<not> rc_control raw" by blast
  then show ?thesis using assms by cases (simp_all add: accept_conn_def)
qed

lemma serving_step_ok:
  assumes "serving_step (deny, w) (deny', w')" and "server_ok deny (wb_server w)"
  shows "server_ok deny' (wb_server w')"
  using assms(1)
proof (cases rule: serving_step.cases)
  case (Http env q)
  with serve_web_ok[of env w q] assms(2) show ?thesis by simp
next
  case (Connection saved answered saved2 tenv unmarshal raw out a t sto)
  from accept_conn_step[OF Connection(3)] have "server_step\<^sup>*\<^sup>* (deny, wb_server w) (deny, (wb_server w)\<lparr>sv_tunnel := t, sv_store := sto\<rparr>)"
  proof
    assume "(t, sto) = (sv_tunnel (wb_server w), sv_store (wb_server w))"
    then have "(wb_server w)\<lparr>sv_tunnel := t, sv_store := sto\<rparr> = wb_server w" by simp
    then show ?thesis by simp
  qed (blast intro: server_step.TunnelEvent)
  from server_steps_ok[OF this assms(2)] Connection(1,2) show ?thesis by simp
next
  case (Background sv u)
  with server_step_ok[OF Background(2) assms(2)] show ?thesis by simp
qed

interpretation serving: step_system serving_step "\<lambda>(deny, w). server_ok deny (wb_server w)" "\<lambda>(deny, w). server_ok deny (wb_server w)"
  by unfold_locales (auto intro: serving_step_ok)

section \<open>The end of the process\<close>

lemma shutdown_fold:
  fixes xs :: "(string \<times> nat) list"
  defines "close \<equiv> \<lambda>t (i, sid). let t1 = closeSession sid (sendControl sid (plain_message ''shutdown'' ''server shutting down'') t)
                         in t1\<lparr>tn_sessions := AList.delete i (tn_sessions t1)\<rparr>"
  shows "tn_listeners (foldl close t xs) = tn_listeners t
    \<and> map_of (tn_sessions (foldl close t xs)) i = (if i \<in> fst ` set xs then None else map_of (tn_sessions t) i)"
  by (induction xs arbitrary: t) (auto simp: close_def Let_def delete_conv' closeSession_def sendControl_def upd_obj_def)

lemma Shutdown_frame:
  "tn_listeners (Shutdown t) = Shutdown_runners (tn_listeners t)" "session_id (Shutdown t) i = None"
proof -
  note f = shutdown_fold[of t "tn_sessions t" i]
  show "tn_listeners (Shutdown t) = Shutdown_runners (tn_listeners t)" using f by (simp add: Shutdown_def Shutdown_sessions_def Let_def)
  have "map_of (tn_sessions t) i = None" if "i \<notin> fst ` set (tn_sessions t)" using that by (simp add: map_of_eq_None_iff)
  with f show "session_id (Shutdown t) i = None" by (auto simp: Shutdown_def Shutdown_sessions_def Let_def session_id_def)
qed

section \<open>Properties of the process\<close>

definition demo_process :: web where
  "demo_process = \<lparr>wb_app = \<lparr>ap_server = demo_server, ap_sessions = [], ap_limiter = []\<rparr>, wb_updater = demo_self\<rparr>"



end
