(* ===== verification/Fw_Commands.thy ===== *)
theory Fw_Commands
  imports Agent Binaries
begin

text \<open>
  How the agent runs a firewall tool (\<open>lookPath\<close>, \<open>run\<close> and \<open>hasBinary\<close> of
  \<open>internal/firewall/firewall.go\<close>), the real instance of the runner that the backends take as a
  parameter. What the operating system does is a parameter: the search path, the files, and what a
  started process prints and returns.
\<close>

unbundle bit_operations_syntax

section \<open>Finding a tool\<close>

record file_info =
  fi_IsDir :: bool
  fi_Mode :: nat

text \<open>The outcome of a process: it ran and succeeded, it ran and failed, or it did not run to its end.\<close>

datatype exec_outcome = Succeeded string | ExitedWith int string string | DidNotRun string

record 'h exec_env =
  xe_LookPath :: "string \<Rightarrow> string option"
  xe_Stat :: "string \<Rightarrow> file_info option"
  xe_Environ :: "string list"
  xe_Exec :: "string \<Rightarrow> string list \<Rightarrow> string list \<Rightarrow> 'h \<Rightarrow> exec_outcome \<times> 'h"

definition extraPath :: "string list" where
  "extraPath = [''/usr/sbin'', ''/sbin'', ''/usr/bin'', ''/bin'', ''/usr/local/sbin'', ''/usr/local/bin'']"

definition executable :: "file_info \<Rightarrow> bool" where
  "executable st \<longleftrightarrow> \<not> fi_IsDir st \<and> fi_Mode st AND 0x49 \<noteq> 0"

fun search_dirs :: "('h, 'z) exec_env_scheme \<Rightarrow> string \<Rightarrow> string list \<Rightarrow> string option" where
  "search_dirs env name [] = None"
| "search_dirs env name (dir # dirs) =
     (let p = path_join [dir, name] in
      case xe_Stat env p of
        None \<Rightarrow> search_dirs env name dirs
      | Some st \<Rightarrow> if executable st then Some p else search_dirs env name dirs)"

definition lookPath :: "('h, 'z) exec_env_scheme \<Rightarrow> string \<Rightarrow> (string, string) result" where
  "lookPath env name =
     (case xe_LookPath env name of
        Some p \<Rightarrow> Inr p
      | None \<Rightarrow> (case search_dirs env name extraPath of Some p \<Rightarrow> Inr p | None \<Rightarrow> Inl (name @ '': not found'')))"

definition hasBinary :: "('h, 'z) exec_env_scheme \<Rightarrow> string \<Rightarrow> bool" where
  "hasBinary env name = (case lookPath env name of Inl _ \<Rightarrow> False | Inr _ \<Rightarrow> True)"

section \<open>Running it\<close>

text \<open>The message of an \<open>exitError\<close>: what the tool said, or its exit status when it said nothing.\<close>

definition exit_message :: "int \<Rightarrow> string \<Rightarrow> string \<Rightarrow> string" where
  "exit_message code stderr cmd =
     (let msg = trim_space stderr; msg1 = (if msg = [] then ''exit status '' @ itoa code else msg) in cmd @ '': '' @ msg1)"

fun run_tool :: "('h, 'z) exec_env_scheme \<Rightarrow> 'h run" where
  "run_tool env [] h = (Inl (CHR '':'' # '' not found''), h)"
| "run_tool env (name # args) h =
     (case lookPath env name of
        Inl e \<Rightarrow> (Inl e, h)
      | Inr path \<Rightarrow>
          (case xe_Exec env path args (xe_Environ env @ [''LC_ALL=C'', ''LANG=C'']) h of
             (Succeeded out, h1) \<Rightarrow> (Inr out, h1)
           | (ExitedWith code out stderr, h1) \<Rightarrow> (Inl (exit_message code (stderr @ out) (name @ '' '' @ join '' '' args)), h1)
           | (DidNotRun e, h1) \<Rightarrow> (Inl (name @ '': '' @ e), h1)))"

section \<open>Facts\<close>

text \<open>A tool outside the search path is the first executable file of the extra directories.\<close>

lemma search_dirs_Some:
  "search_dirs env name dirs = Some p \<Longrightarrow>
    \<exists>pre dir post. dirs = pre @ dir # post \<and> p = path_join [dir, name]
      \<and> (\<exists>st. xe_Stat env p = Some st \<and> executable st)
      \<and> (\<forall>d\<in>set pre. \<forall>st. xe_Stat env (path_join [d, name]) = Some st \<longrightarrow> \<not> executable st)"
proof (induction dirs)
  case (Cons d dirs)
  show ?case
  proof (cases "\<exists>st. xe_Stat env (path_join [d, name]) = Some st \<and> executable st")
    case True
    with Cons.prems show ?thesis by (intro exI[of _ "[]"] exI[of _ d] exI[of _ dirs]) (auto simp: Let_def)
  next
    case False
    with Cons.prems have "search_dirs env name dirs = Some p" by (auto simp: Let_def split: option.splits if_splits)
    from Cons.IH[OF this] obtain pre dir post where r: "dirs = pre @ dir # post" "p = path_join [dir, name]"
      "\<exists>st. xe_Stat env p = Some st \<and> executable st"
      "\<forall>d\<in>set pre. \<forall>st. xe_Stat env (path_join [d, name]) = Some st \<longrightarrow> \<not> executable st" by blast
    with False show ?thesis by (intro exI[of _ "d # pre"] exI[of _ dir] exI[of _ post]) auto
  qed
qed simp

text \<open>A failed command always names itself and a reason, whatever it printed.\<close>

lemma exit_message_says_why: "\<exists>why. exit_message code stderr cmd = cmd @ '': '' @ why \<and> why \<noteq> []"
  by (auto simp: exit_message_def Let_def)

text \<open>A tool that is not found is not run, and the host stays as it is.\<close>

lemma missing_tool_not_run: "\<not> hasBinary env name \<Longrightarrow> run_tool env (name # args) h = (Inl (name @ '': not found''), h)"
  by (auto simp: hasBinary_def lookPath_def split: option.splits)

text \<open>
  Every process the agent starts belongs to the relay's own commands: a property of the host that
  those processes keep, when started by their found path with the fixed locale, is kept by every
  command the backends may give.
\<close>

lemma run_tool_owned:
  assumes "\<And>name args path h. agent_owned (name # args) \<Longrightarrow> lookPath env name = Inr path \<Longrightarrow> P h \<Longrightarrow>
      P (snd (xe_Exec env path args (xe_Environ env @ [''LC_ALL=C'', ''LANG=C'']) h))"
    and c: "agent_owned c" "P h"
  shows "P (snd (run_tool env c h))"
proof (cases c)
  case (Cons name args)
  show ?thesis
  proof (cases "lookPath env name")
    case (Inr path)
    obtain o' h1 where e: "xe_Exec env path args (xe_Environ env @ [''LC_ALL=C'', ''LANG=C'']) h = (o', h1)" by fastforce
    have "P h1" using assms(1)[of name args path h] c Cons Inr e by simp
    then show ?thesis by (cases o') (simp_all add: Cons Inr e)
  qed (simp add: Cons c)
qed (simp add: c)

end
