(* ===== verification/Agent_Socket.thy ===== *)
theory Agent_Socket
  imports Agent_Update Fw_Manager Fw_Commands Protocol
begin

text \<open>
  Requests to the agent as bytes on its socket: the accept loop and \<open>handle\<close> on one side, \<open>Call\<close> on the
  other (\<open>internal/agent/agent.go\<close>). \<open>encoding/json\<close> is a parameter: \<open>mreq\<close>, \<open>mresp\<close> encode and
  \<open>ureq\<close>, \<open>uresp\<close> decode, each with the text of its error. Deadlines are read errors.
\<close>

definition maxRequestBytes :: nat where "maxRequestBytes = 1048576"

text \<open>
  \<open>ReadBytes\<close> on a reader limited to \<open>limit\<close> bytes: what arrives is \<open>s\<close>, followed by the end of the
  stream or by an error. The end is not an error for the caller, so an unfinished line counts.
\<close>

definition read_bytes :: "nat \<Rightarrow> string \<times> string option \<Rightarrow> (string, string) result" where
  "read_bytes limit inp =
     (case inp of (s, broken) \<Rightarrow>
        let t = take limit s in
        if newline \<in> set t then Inr (takeWhile (\<lambda>c. c \<noteq> newline) t @ [newline])
        else if length s < limit then (case broken of Some e \<Rightarrow> Inl e | None \<Rightarrow> Inr t)
        else Inr t)"

section \<open>The agent's side\<close>

definition handle_conn ::
  "host_env \<Rightarrow> 'w run \<Rightarrow> 'h update_env \<Rightarrow> (string \<Rightarrow> (string, agent_request) result) \<Rightarrow> string \<times> string option
     \<Rightarrow> ('h, 'w) agent \<Rightarrow> agent_response \<times> ('h, 'w) agent" where
  "handle_conn henv run env ureq inp a =
     (case read_bytes maxRequestBytes inp of
        Inl e \<Rightarrow> (reply a (answer (refuse [] (RequestNotRead e)) None), a)
      | Inr line \<Rightarrow>
          (case ureq line of
             Inl e \<Rightarrow> (reply a (answer (refuse [] (RequestNotParsed e)) None), a)
           | Inr req \<Rightarrow> agent_handle henv run env req a))"

text \<open>\<open>reply\<close> writes its line even when the response cannot be encoded.\<close>

definition reply_bytes :: "(agent_response \<Rightarrow> (string, string) result) \<Rightarrow> agent_response \<Rightarrow> string" where
  "reply_bytes mresp resp = (case mresp resp of Inl _ \<Rightarrow> [] | Inr b \<Rightarrow> b) @ [newline]"

definition serve_conn ::
  "host_env \<Rightarrow> 'w run \<Rightarrow> 'h update_env \<Rightarrow> (string \<Rightarrow> (string, agent_request) result) \<Rightarrow> (agent_response \<Rightarrow> (string, string) result)
     \<Rightarrow> string \<times> string option \<Rightarrow> ('h, 'w) agent \<Rightarrow> string \<times> ('h, 'w) agent" where
  "serve_conn henv run env ureq mresp inp a =
     (case handle_conn henv run env ureq inp a of (resp, a1) \<Rightarrow> (reply_bytes mresp resp, a1))"

text \<open>
  The accept loop, on what \<open>Accept\<close> returns in turn; it ends with an error unless the agent was told
  to stop. Connections are served one after the other.
\<close>

datatype accepted = Conn "string \<times> string option" | AcceptFailed string bool

fun accept_loop ::
  "(string \<times> string option \<Rightarrow> ('h, 'w) agent \<Rightarrow> string \<times> ('h, 'w) agent) \<Rightarrow> accepted list \<Rightarrow> ('h, 'w) agent
     \<Rightarrow> string list \<times> string option \<times> ('h, 'w) agent" where
  "accept_loop serve [] a = ([], None, a)"
| "accept_loop serve (Conn inp # es) a =
     (case serve inp a of (out, a1) \<Rightarrow> (case accept_loop serve es a1 of (outs, r) \<Rightarrow> (out # outs, r)))"
| "accept_loop serve (AcceptFailed e stopped # es) a = ([], (if stopped then None else Some e), a)"

section \<open>The server's side\<close>

datatype call_fault = DialFailed string | NotEncoded string | WriteFailed string | AnswerNotRead string | BadResponse string

datatype called = NoAnswer call_fault | Refusal agent_response agent_error | Answered agent_response

definition judge_response :: "agent_response \<Rightarrow> called" where
  "judge_response resp =
     (if rp_OK resp then Answered resp
      else (case rp_Error resp of
              None \<Rightarrow> Refusal (resp\<lparr>rp_Error := Some UnknownError\<rparr>) UnknownError
            | Some e \<Rightarrow> Refusal resp e))"

definition read_answer :: "(string \<Rightarrow> (string, agent_response) result) \<Rightarrow> string \<times> string option \<Rightarrow> called" where
  "read_answer uresp inp =
     (case read_bytes maxRequestBytes inp of
        Inl e \<Rightarrow> NoAnswer (AnswerNotRead e)
      | Inr line \<Rightarrow> (case uresp line of Inl e \<Rightarrow> NoAnswer (BadResponse e) | Inr resp \<Rightarrow> judge_response resp))"

text \<open>
  \<open>Call\<close> against whatever answers at the socket; a write that fails has sent a first part. The
  connection is closed at the end, so what the peer reads ends there.
\<close>

record socket_env =
  so_dial :: "string option"
  so_write :: "(nat \<times> string) option"
  so_read :: "string option"

definition call_socket ::
  "socket_env \<Rightarrow> (agent_request \<Rightarrow> (string, string) result) \<Rightarrow> (string \<Rightarrow> (string, agent_response) result)
     \<Rightarrow> (string \<times> string option \<Rightarrow> 's \<Rightarrow> string \<times> 's) \<Rightarrow> agent_request \<Rightarrow> 's \<Rightarrow> called \<times> 's" where
  "call_socket env mreq uresp peer req s =
     (case so_dial env of
        Some e \<Rightarrow> (NoAnswer (DialFailed e), s)
      | None \<Rightarrow>
          (case mreq req of
             Inl e \<Rightarrow> (NoAnswer (NotEncoded e), snd (peer ([], None) s))
           | Inr b \<Rightarrow>
               (case so_write env of
                  Some (n, e) \<Rightarrow> (NoAnswer (WriteFailed e), snd (peer (take n (b @ [newline]), None) s))
                | None \<Rightarrow>
                    (case peer (b @ [newline], None) s of (out, s1) \<Rightarrow> (read_answer uresp (out, so_read env), s1)))))"

text \<open>The three requests the server makes.\<close>

definition sync_req :: "string \<Rightarrow> rule list \<Rightarrow> agent_request" where
  "sync_req mode rules = \<lparr>rq_Mode = mode, rq_Rules = rules, rq_Op = OpSync, rq_Version = []\<rparr>"

definition status_req :: agent_request where
  "status_req = \<lparr>rq_Mode = [], rq_Rules = [], rq_Op = OpStatus, rq_Version = []\<rparr>"

definition update_req :: "string \<Rightarrow> agent_request" where
  "update_req version = \<lparr>rq_Mode = [], rq_Rules = [], rq_Op = OpUpdate, rq_Version = version\<rparr>"

section \<open>The two sides together\<close>

lemma read_bytes_line:
  assumes "newline \<notin> set b" and "length b < limit"
  shows "read_bytes limit (b @ newline # rest, broken) = Inr (b @ [newline])"
proof -
  obtain k where k: "limit - length b = Suc k" using assms(2) by (metis Suc_diff_Suc)
  then have t: "take limit (b @ newline # rest) = b @ newline # take k rest" using assms(2) by simp
  have "takeWhile (\<lambda>c. c \<noteq> newline) (b @ newline # take k rest) = b" using assms(1) by (induction b) auto
  with t show ?thesis by (simp add: read_bytes_def Let_def)
qed

lemma read_bytes_cut:
  assumes "newline \<notin> set b" and "limit \<le> length b"
  shows "read_bytes limit (b @ newline # rest, broken) = Inr (take limit b)"
proof -
  have "newline \<notin> set (take limit b)" using assms(1) by (meson in_set_takeD)
  with assms(2) show ?thesis by (simp add: read_bytes_def Let_def)
qed

lemma read_bytes_short:
  assumes "newline \<notin> set s" and "length s < limit"
  shows "read_bytes limit (s, None) = Inr s"
  using assms by (simp add: read_bytes_def Let_def)

text \<open>
  What the code relies on of \<open>encoding/json\<close>: an encoded object has no line break, it decodes to
  what was encoded with or without the line break after it, and no proper prefix of it decodes,
  nor does an empty line.
\<close>

definition json_lines :: "('v \<Rightarrow> (string, string) result) \<Rightarrow> (string \<Rightarrow> (string, 'v) result) \<Rightarrow> bool" where
  "json_lines m u \<longleftrightarrow>
     (\<exists>e. u [newline] = Inl e)
     \<and> (\<forall>v b. m v = Inr b \<longrightarrow> newline \<notin> set b \<and> u b = Inr v \<and> u (b @ [newline]) = Inr v \<and> (\<forall>n<length b. \<exists>e. u (take n b) = Inl e))"

lemma json_linesD:
  assumes "json_lines m u" and "m v = Inr b"
  shows "newline \<notin> set b" "u b = Inr v" "u (b @ [newline]) = Inr v" "n < length b \<Longrightarrow> \<exists>e. u (take n b) = Inl e"
  using assms by (auto simp: json_lines_def)

text \<open>A line within the limit is decoded whole; a longer one, or one cut short, is not decoded at all.\<close>

lemma limited_line:
  assumes "json_lines m u" and "m v = Inr b"
  shows "length b \<le> limit \<Longrightarrow> \<exists>line. read_bytes limit (b @ [newline], broken) = Inr line \<and> u line = Inr v"
    and "limit < length b \<Longrightarrow> \<exists>line e. read_bytes limit (b @ [newline], broken) = Inr line \<and> u line = Inl e"
    and "n < length b \<Longrightarrow> \<exists>line e. read_bytes limit (take n (b @ [newline]), None) = Inr line \<and> u line = Inl e"
proof -
  note J = json_linesD[OF assms]
  show "\<exists>line. read_bytes limit (b @ [newline], broken) = Inr line \<and> u line = Inr v" if "length b \<le> limit"
    using that J(2,3) read_bytes_line[OF J(1), of limit "[]"] read_bytes_cut[OF J(1), of limit "[]"] by (cases "length b = limit") auto
  show "\<exists>line e. read_bytes limit (b @ [newline], broken) = Inr line \<and> u line = Inl e" if "limit < length b"
    using that J(4) read_bytes_cut[OF J(1), of limit "[]"] by auto
  show "\<exists>line e. read_bytes limit (take n (b @ [newline]), None) = Inr line \<and> u line = Inl e" if "n < length b"
  proof -
    have "newline \<notin> set (take k b)" for k using J(1) by (meson in_set_takeD)
    then have "read_bytes limit (take n b, None) = Inr (take (min limit n) b)" using that
      by (auto simp: read_bytes_def Let_def min_def)
    moreover have "min limit n < length b" using that by simp
    then obtain e where "u (take (min limit n) b) = Inl e" using json_linesD(4)[OF assms] by blast
    ultimately show ?thesis using that by simp
  qed
qed

lemma call_written:
  "so_dial env = None \<Longrightarrow> mreq req = Inr b \<Longrightarrow> so_write env = None \<Longrightarrow> peer (b @ [newline], None) s = (out, s1) \<Longrightarrow>
     call_socket env mreq uresp peer req s = (read_answer uresp (out, so_read env), s1)"
  by (simp add: call_socket_def)

lemma handle_conn_line: "read_bytes maxRequestBytes inp = Inr line \<Longrightarrow> ureq line = Inr req \<Longrightarrow>
    handle_conn henv run env ureq inp a = agent_handle henv run env req a"
  by (simp add: handle_conn_def)

lemma handle_conn_bad: "read_bytes maxRequestBytes inp = Inr line \<Longrightarrow> ureq line = Inl e \<Longrightarrow>
    handle_conn henv run env ureq inp a = (reply a (answer (refuse [] (RequestNotParsed e)) None), a)"
  by (simp add: handle_conn_def)

text \<open>A refusal is never taken for a success, however its answer is encoded.\<close>

lemma refusal_not_answered:
  assumes "json_lines mresp uresp" and "\<not> rp_OK resp"
  shows "read_answer uresp (reply_bytes mresp resp, broken) \<noteq> Answered r"
proof (cases "mresp resp")
  case (Inl e)
  then have "read_bytes maxRequestBytes (reply_bytes mresp resp, broken) = Inr [newline]"
    by (simp add: reply_bytes_def read_bytes_def maxRequestBytes_def)
  with assms(1) show ?thesis by (auto simp: json_lines_def read_answer_def)
next
  case (Inr c)
  then have rb: "reply_bytes mresp resp = c @ [newline]" by (simp add: reply_bytes_def)
  show ?thesis
  proof (cases "length c \<le> maxRequestBytes")
    case True
    with limited_line(1)[OF assms(1) Inr True, of broken] assms(2) show ?thesis
      by (auto simp: rb read_answer_def judge_response_def split: option.splits)
  next
    case False
    then have "maxRequestBytes < length c" by simp
    from limited_line(2)[OF assms(1) Inr this, of broken] show ?thesis by (auto simp: rb read_answer_def)
  qed
qed

text \<open>The server's manager reads the classified answer without the version and the record.\<close>

lemma Call_judges:
  "Call (Inr (response.truncate resp)) =
     (case judge_response resp of
        NoAnswer _ \<Rightarrow> CallFailed AgentUnreachable
      | Refusal r e \<Rightarrow> CallRefused (response.truncate r) e
      | Answered r \<Rightarrow> CallOK (response.truncate r))"
  by (simp add: Call_def judge_response_def response.defs split: option.split)

text \<open>
  C21: a request to the agent arrives whole or not at all. When the request and the answer fit
  the limit of 1 MiB, the server gets exactly the answer the agent's handler computes for that very
  request, and the agent is left as the handler leaves it. A request over the limit, and one whose
  write fails before its last byte, changes nothing on the agent and is not taken for a success.
\<close>

theorem agent_gets_the_request_whole:
  assumes "json_lines mreq ureq" and "json_lines mresp uresp" and "mreq req = Inr b" and "so_dial env = None"
    and "call_socket env mreq uresp (serve_conn henv run uenv ureq mresp) req a = (res, a1)"
    and "agent_handle henv run uenv req a = (resp, a2)"
  shows "(so_write env = None \<and> length b \<le> maxRequestBytes \<longrightarrow>
       a1 = a2 \<and> (\<forall>c. mresp resp = Inr c \<and> length c \<le> maxRequestBytes \<longrightarrow> res = judge_response resp))
    \<and> (so_write env = None \<and> maxRequestBytes < length b \<longrightarrow> a1 = a \<and> (\<forall>r. res \<noteq> Answered r))
    \<and> (\<forall>n e. so_write env = Some (n, e) \<and> n < length b \<longrightarrow> a1 = a \<and> res = NoAnswer (WriteFailed e))"
proof (intro conjI impI allI)
  let ?serve = "serve_conn henv run uenv ureq mresp"
  { assume w: "so_write env = None \<and> length b \<le> maxRequestBytes"
    then obtain line where "read_bytes maxRequestBytes (b @ [newline], None) = Inr line" "ureq line = Inr req"
      using limited_line(1)[OF assms(1,3)] by blast
    then have "?serve (b @ [newline], None) a = (reply_bytes mresp resp, a2)" by (simp add: serve_conn_def handle_conn_line assms(6))
    from trans[OF sym[OF call_written[where peer = ?serve and mreq = mreq and uresp = uresp, OF assms(4,3) conjunct1[OF w] this]] assms(5)]
    have r: "res = read_answer uresp (reply_bytes mresp resp, so_read env)" "a1 = a2" by (blast dest: sym)+
    then show "a1 = a2" by simp
    fix c assume c: "mresp resp = Inr c \<and> length c \<le> maxRequestBytes"
    then have "\<exists>line. read_bytes maxRequestBytes (c @ [newline], so_read env) = Inr line \<and> uresp line = Inr resp"
      using limited_line(1)[OF assms(2)] by blast
    then show "res = judge_response resp" using c by (auto simp: r read_answer_def reply_bytes_def)
  }
  { assume w: "so_write env = None \<and> maxRequestBytes < length b"
    then obtain line e where "read_bytes maxRequestBytes (b @ [newline], None) = Inr line" "ureq line = Inl e"
      using limited_line(2)[OF assms(1,3)] by blast
    then have "?serve (b @ [newline], None) a = (reply_bytes mresp (reply a (answer (refuse [] (RequestNotParsed e)) None)), a)"
      by (simp add: serve_conn_def handle_conn_bad)
    from trans[OF sym[OF call_written[where peer = ?serve and mreq = mreq and uresp = uresp, OF assms(4,3) conjunct1[OF w] this]] assms(5)]
    have r: "res = read_answer uresp (reply_bytes mresp (reply a (answer (refuse [] (RequestNotParsed e)) None)), so_read env)" "a1 = a"
      by (blast dest: sym)+
    then show "a1 = a" by simp
    have "\<not> rp_OK (reply a (answer (refuse [] (RequestNotParsed e)) None))" by (simp add: reply_def answer_def refuse_def response.defs)
    from refusal_not_answered[OF assms(2) this] r show "res \<noteq> Answered r" for r by simp
  }
  fix n e assume w: "so_write env = Some (n, e) \<and> n < length b"
  then obtain line e' where "read_bytes maxRequestBytes (take n (b @ [newline]), None) = Inr line" "ureq line = Inl e'"
    using limited_line(3)[OF assms(1,3)] by blast
  then have "snd (?serve (take n (b @ [newline]), None) a) = a" by (simp add: serve_conn_def handle_conn_bad)
  with assms(3-5) w show "a1 = a" "res = NoAnswer (WriteFailed e)" by (auto simp: call_socket_def)
qed

definition demo_doc :: string where "demo_doc = ''{status}''"

definition demo_mreq :: "agent_request \<Rightarrow> (string, string) result" where
  "demo_mreq q = (if q = status_req then Inr demo_doc else Inl ''unsupported'')"

definition demo_ureq :: "string \<Rightarrow> (string, agent_request) result" where
  "demo_ureq s = (if s = demo_doc \<or> s = demo_doc @ [newline] then Inr status_req else Inl ''unexpected end of JSON input'')"

definition demo_response :: agent_response where
  "demo_response = (answer plain_ok None)\<lparr>rp_Version := ''v2''\<rparr>"

definition demo_mresp :: "agent_response \<Rightarrow> (string, string) result" where
  "demo_mresp r = (if r = demo_response then Inr demo_doc else Inl ''unsupported'')"

definition demo_uresp :: "string \<Rightarrow> (string, agent_response) result" where
  "demo_uresp s = (if s = demo_doc \<or> s = demo_doc @ [newline] then Inr demo_response else Inl ''unexpected end of JSON input'')"

definition demo_bare_agent :: "(nat, string list list) agent" where
  "demo_bare_agent = \<lparr>ag_Version = ''v2'', ag_Updater = None, ag_firewall = demo_host\<rparr>"

definition demo_socket :: socket_env where
  "demo_socket = \<lparr>so_dial = None, so_write = None, so_read = None\<rparr>"

lemma one_document_codec:
  assumes "newline \<notin> set d" and "d \<noteq> []"
  shows "json_lines (\<lambda>v. if v = x then Inr d else Inl e) (\<lambda>s. if s = d \<or> s = d @ [newline] then Inr x else Inl e')"
proof -
  have "take n d \<noteq> d" "take n d \<noteq> d @ [newline]" if "n < length d" for n
    using that by (metis length_take min.absorb4 less_irrefl, metis length_append length_take min.absorb4 not_add_less1)
  moreover have "[newline] \<noteq> d" using assms(1) by auto
  ultimately show ?thesis using assms by (auto simp: json_lines_def)
qed

lemma demo_codecs: "json_lines demo_mreq demo_ureq" "json_lines demo_mresp demo_uresp"
  unfolding demo_mreq_def[abs_def] demo_ureq_def[abs_def] demo_mresp_def[abs_def] demo_uresp_def[abs_def]
  by (rule one_document_codec; simp add: demo_doc_def newline_def)+

lemma agent_gets_the_request_whole_witness:
  "call_socket demo_socket demo_mreq demo_uresp (serve_conn demo_env log_run demo_update_env demo_ureq demo_mresp) status_req demo_bare_agent
     = (Answered demo_response, demo_bare_agent)"
proof -
  have h: "agent_handle demo_env log_run demo_update_env status_req demo_bare_agent = (demo_response, demo_bare_agent)"
    by (simp add: agent_handle_def status_req_def op_defs reply_def demo_bare_agent_def demo_response_def answer_def response.defs)
  obtain res a1 where c: "call_socket demo_socket demo_mreq demo_uresp (serve_conn demo_env log_run demo_update_env demo_ureq demo_mresp)
      status_req demo_bare_agent = (res, a1)" by fastforce
  have "rp_OK demo_response" by (simp add: demo_response_def answer_def plain_ok_def response.defs)
  then have "judge_response demo_response = Answered demo_response" by (simp add: judge_response_def)
  with agent_gets_the_request_whole[OF demo_codecs _ _ c h] c show ?thesis
    by (simp add: demo_mreq_def demo_mresp_def demo_socket_def demo_doc_def maxRequestBytes_def)
qed

section \<open>Whatever arrives on the socket\<close>

text \<open>The connections \<open>Accept\<close> returns before it fails.\<close>

fun served :: "accepted list \<Rightarrow> nat" where
  "served [] = 0"
| "served (Conn inp # es) = Suc (served es)"
| "served (AcceptFailed e stopped # es) = 0"

lemma accept_loop_inv:
  assumes "\<And>inp a. I a \<Longrightarrow> I (snd (serve inp a))" and "I a" and "accept_loop serve es a = (outs, r, a1)"
  shows "I a1"
  using assms(2,3)
proof (induction es arbitrary: a outs)
  case (Cons e es)
  show ?case
  proof (cases e)
    case (Conn inp)
    with Cons assms(1)[OF Cons(2), of inp] show ?thesis by (auto split: prod.splits)
  qed (use Cons in auto)
qed simp

lemma accept_loop_answers:
  assumes "accept_loop serve es a = (outs, r, a1)"
  shows "length outs = served es \<and> (\<forall>out\<in>set outs. \<exists>inp a. out = fst (serve inp a))"
  using assms
proof (induction es arbitrary: a outs)
  case (Cons e es)
  show ?case
  proof (cases e)
    case (Conn inp)
    obtain out a2 where s: "serve inp a = (out, a2)" by fastforce
    obtain outs' r' a3 where l: "accept_loop serve es a2 = (outs', r', a3)" by (metis prod.exhaust)
    have ex: "\<exists>inp a. out = fst (serve inp a)" by (metis fst_conv s)
    have o: "accept_loop serve es a2 = (outs', r, a1)" "outs = out # outs'" using Cons.prems Conn s l by simp_all
    from Cons.IH[OF o(1)] ex show ?thesis by (simp add: o(2) Conn)
  qed (use Cons in auto)
qed simp

lemma handle_conn_keeps:
  assumes "\<And>req. snd (agent_handle henv run uenv req a) \<in> A" and "a \<in> A"
  shows "snd (handle_conn henv run uenv ureq inp a) \<in> A"
  using assms by (auto simp: handle_conn_def split: sum.splits)

lemma agent_handle_host:
  assumes "\<And>req s. P (fd_host s) \<Longrightarrow> P (fd_host (snd (agent_sync henv run req s)))" and "P (fd_host (ag_firewall a))"
  shows "P (fd_host (ag_firewall (snd (agent_handle henv run uenv req a))))"
proof -
  obtain r h where s: "agent_sync henv run (sync_request.truncate req) (ag_firewall a) = (r, h)" by fastforce
  have "P (fd_host h)" using assms(1)[OF assms(2), of "sync_request.truncate req"] by (simp add: s)
  with s assms(2) show ?thesis
    by (auto simp: agent_handle_def agent_update_def split: prod.splits option.splits sum.splits)
qed


text \<open>A host with ufw, and three connections: no JSON, a sync request, one that never ends its line.\<close>

definition demo_sync_ureq :: "string \<Rightarrow> (string, agent_request) result" where
  "demo_sync_ureq s = (if s = ''{sync}'' @ [newline] then Inr (sync_req ModeUFW [demo_rule]) else Inl ''invalid character'')"

definition demo_exec :: "string list list exec_env" where
  "demo_exec = \<lparr>xe_LookPath = (\<lambda>n. if n = ''ufw'' then Some ''/usr/sbin/ufw'' else None), xe_Stat = (\<lambda>_. None), xe_Environ = [],
     xe_Exec = (\<lambda>path args e h. (Succeeded [], h @ [''ufw'' # args]))\<rparr>"

definition demo_bytes :: "accepted list" where
  "demo_bytes = [Conn (''GET / HTTP/1.1'', None), Conn (''{sync}'' @ [newline], None), Conn ([], Some ''i/o timeout''), AcceptFailed ''closed'' True]"


end
