(* ===== verification/Client_Update.thy ===== *)
theory Client_Update
  imports Client Sessions Releases
begin

text \<open>
  The update of a client (\<open>internal/client/update.go\<close>): the download over the tunnel, the checks, the
  swap of the executable and the restart; and the whole way of a pushed update, together with the
  server's side in \<open>Sessions\<close>. File calls, the answer to the download request and the run of the new
  binary are parameters, and so is what the system answers to the call that starts the new
  executable (\<open>restart_unix.go\<close>, \<open>restart_windows.go\<close>).
\<close>

section \<open>State\<close>

definition maxBinarySize :: int where "maxBinarySize = 256 * 2 ^ 20"

datatype client_call = OpenTmp | CopyTmp | RemoveTmp | ChmodTmp | RemoveOld | RenameToOld | RenameNew | UndoOld

text \<open>How the new executable takes over: in the place of this process, or as a child that outlives it.\<close>

datatype takeover = Exec string "string list" | Spawn "32 word" string "string list"

record client_host =
  kh_files :: "string \<rightharpoonup> string"
  kh_status :: "(string \<times> string) list"
  kh_updating :: bool
  kh_restarted :: "takeover option"

record client_env =
  ke_executable :: "(string, string) result"
  ke_real :: "string \<Rightarrow> string option"
  ke_dir :: string
  ke_pid :: int
  ke_windows :: bool
  ke_request :: "client_request \<Rightarrow> (string, download_response \<times> string) result"
  ke_call :: "client_call \<Rightarrow> string option"
  ke_partial :: string
  ke_sha :: "string \<Rightarrow> string"
  ke_exec :: "string \<Rightarrow> (string \<times> string, string) result"
  ke_args :: "string list"
  ke_start :: "takeover \<Rightarrow> string option"

definition sendStatus :: "string \<Rightarrow> string \<Rightarrow> client_host \<Rightarrow> client_host" where
  "sendStatus st message h = h\<lparr>kh_status := kh_status h @ [(st, message)]\<rparr>"

text \<open>\<open>os.Executable\<close> with its symbolic links resolved where they resolve.\<close>

definition currentExecutable :: "client_env \<Rightarrow> (string, string) result" where
  "currentExecutable env =
     (case ke_executable env of
        Inl e \<Rightarrow> Inl (''cannot determine own executable: '' @ e)
      | Inr exe \<Rightarrow> (case ke_real env exe of Some real \<Rightarrow> Inr real | None \<Rightarrow> Inr exe))"

text \<open>The message that carries a status to the server.\<close>

definition status_message :: "string \<times> string \<Rightarrow> control_message" where
  "status_message s = (plain_message ''update_status'' (snd s))\<lparr>cm_Status := fst s\<rparr>"

section \<open>File calls\<close>

definition kh_remove :: "client_env \<Rightarrow> client_call \<Rightarrow> string \<Rightarrow> client_host \<Rightarrow> client_host" where
  "kh_remove env c p h = (if ke_call env c = None then h\<lparr>kh_files := (kh_files h)(p := None)\<rparr> else h)"

definition kh_rename :: "client_env \<Rightarrow> client_call \<Rightarrow> string \<Rightarrow> string \<Rightarrow> client_host \<Rightarrow> string option \<times> client_host" where
  "kh_rename env c p q h =
     (case ke_call env c of
        Some e \<Rightarrow> (Some e, h)
      | None \<Rightarrow>
          (case kh_files h p of
             None \<Rightarrow> (Some ''no such file or directory'', h)
           | Some data \<Rightarrow> (None, h\<lparr>kh_files := (kh_files h)(p := None, q \<mapsto> data)\<rparr>)))"

section \<open>The update\<close>

definition client_download :: "client_env \<Rightarrow> update_info \<Rightarrow> string \<Rightarrow> client_host \<Rightarrow> (string, unit) result \<times> client_host" where
  "client_download env info path h =
     (if ui_Size info \<le> 0 \<or> ui_Size info > maxBinarySize then (Inl (''refusing update with size '' @ itoa (ui_Size info)), h)
      else case ke_request env \<lparr>cr_Type = ''download'', cr_Name = ui_Name info\<rparr> of
        Inl e \<Rightarrow> (Inl e, h)
      | Inr (resp, body) \<Rightarrow>
          if \<not> dr_OK resp then (Inl (''server refused download: '' @ dr_Error resp), h)
          else if dr_Size resp \<noteq> ui_Size info \<or> \<not> equal_fold (dr_SHA256 resp) (ui_SHA256 info)
            then (Inl ''server's download header does not match the update announcement'', h)
          else (case ke_call env OpenTmp of
             Some e \<Rightarrow> (Inl (''create '' @ path @ '': '' @ e), h)
           | None \<Rightarrow>
               (case ke_call env CopyTmp of
                  Some e \<Rightarrow> (Inl (''download: '' @ e), h\<lparr>kh_files := (kh_files h)(path \<mapsto> ke_partial env)\<rparr>)
                | None \<Rightarrow>
                    (let data = take (nat (ui_Size info)) body;
                         h1 = h\<lparr>kh_files := (kh_files h)(path \<mapsto> data)\<rparr>
                     in if int (length data) \<noteq> ui_Size info
                        then (Inl (''download truncated: got '' @ itoa (int (length data)) @ '' of '' @ itoa (ui_Size info) @ '' bytes''), h1)
                        else if \<not> equal_fold (hex_encode (ke_sha env data)) (ui_SHA256 info)
                        then (Inl (''sha256 mismatch: got '' @ hex_encode (ke_sha env data) @ '', expected '' @ ui_SHA256 info), h1)
                        else (Inr (), h1)))))"

text \<open>The binary is run from the path; a file that is not there does not run.\<close>

definition client_verifyBinary :: "client_env \<Rightarrow> string \<Rightarrow> string \<Rightarrow> client_host \<Rightarrow> (string, unit) result" where
  "client_verifyBinary env path expected h =
     (case ke_call env ChmodTmp of
        Some e \<Rightarrow> Inl e
      | None \<Rightarrow>
          (case (case kh_files h path of None \<Rightarrow> Inl (''no such file or directory'', []) | Some binary \<Rightarrow> ke_exec env binary) of
             Inl (e, out) \<Rightarrow> Inl (''new binary does not run: '' @ e @ '': '' @ trim_space out)
           | Inr out \<Rightarrow>
               (let got = trim_space out in
                if got = [] then Inl ''new binary printed no version''
                else if expected \<noteq> [] \<and> got \<noteq> expected
                then Inl (''new binary reports version '' @ quoted got @ '', expected '' @ quoted expected)
                else Inr ())))"

definition installBinary :: "client_env \<Rightarrow> string \<Rightarrow> string \<Rightarrow> client_host \<Rightarrow> string option \<times> client_host" where
  "installBinary env tmp exe h =
     (if ke_windows env then
        (let old = exe @ ''.old''; h1 = kh_remove env RemoveOld old h in
         case kh_rename env RenameToOld exe old h1 of
           (Some e, h2) \<Rightarrow> (Some e, h2)
         | (None, h2) \<Rightarrow>
             (case kh_rename env RenameNew tmp exe h2 of
                (Some e, h3) \<Rightarrow> (Some e, snd (kh_rename env UndoOld old exe h3))
              | (None, h3) \<Rightarrow> (None, h3)))
      else kh_rename env RenameNew tmp exe h)"

definition tmp_path :: "client_env \<Rightarrow> string" where
  "tmp_path env = path_join [ke_dir env, ''.spawnrelay.new-'' @ itoa (ke_pid env)]"

unbundle bit_operations_syntax

text \<open>
  The new process gets the arguments of the old one (\<open>os.Args\<close>, which starts with the program's
  name) under the new executable's name.
\<close>

definition restart_unix :: "string \<Rightarrow> string list \<Rightarrow> takeover" where
  "restart_unix exe args = Exec exe (exe # tl args)"

definition detachedProcess :: "32 word" where "detachedProcess = 0x00000008"

definition restart_windows :: "string \<Rightarrow> string list \<Rightarrow> takeover" where
  "restart_windows exe args = Spawn (0x00000200 OR detachedProcess) exe (exe # tl args)"

definition takeover_by :: "client_env \<Rightarrow> string \<Rightarrow> takeover" where
  "takeover_by env exe = (if ke_windows env then restart_windows exe (ke_args env) else restart_unix exe (ke_args env))"

definition restart :: "client_env \<Rightarrow> string \<Rightarrow> string option" where
  [simp]: "restart env exe = ke_start env (takeover_by env exe)"

definition doUpdate :: "client_env \<Rightarrow> client_config \<Rightarrow> update_info \<Rightarrow> client_host \<Rightarrow> string option \<times> client_host" where
  "doUpdate env cfg info h =
     (if ui_Version info \<noteq> [] \<and> ui_Version info = cc_Version cfg then (Some (''already running '' @ ui_Version info), h)
      else case currentExecutable env of
        Inl e \<Rightarrow> (Some e, h)
      | Inr exe \<Rightarrow>
          (let tmp = tmp_path env;
               h1 = sendStatus ''downloading'' (''downloading '' @ ui_Name info @ '' ('' @ itoa (ui_Size info) @ '' bytes)'') h in
           case client_download env info tmp h1 of
             (Inl e, h2) \<Rightarrow> (Some e, kh_remove env RemoveTmp tmp h2)
           | (Inr _, h2) \<Rightarrow>
               (let h3 = sendStatus ''installing'' ''verifying the new binary'' h2 in
                case client_verifyBinary env tmp (ui_Version info) h3 of
                  Inl e \<Rightarrow> (Some e, kh_remove env RemoveTmp tmp h3)
                | Inr _ \<Rightarrow>
                    (case installBinary env tmp exe h3 of
                       (Some e, h4) \<Rightarrow> (Some (''install: '' @ e), kh_remove env RemoveTmp tmp h4)
                     | (None, h4) \<Rightarrow>
                         (let h5 = sendStatus ''restarting'' (''installed '' @ ui_Version info @ '', restarting'') h4 in
                          case restart env exe of
                            Some e \<Rightarrow> (Some e, h5)
                          | None \<Rightarrow> (None, h5\<lparr>kh_restarted := Some (takeover_by env exe)\<rparr>))))))"

definition runUpdate :: "client_env \<Rightarrow> client_config \<Rightarrow> update_info \<Rightarrow> client_host \<Rightarrow> client_host" where
  "runUpdate env cfg info h =
     (if \<not> cc_AllowUpdate cfg then sendStatus ''failed'' ''updates are disabled on this client'' h
      else if kh_updating h then sendStatus ''failed'' ''an update is already in progress'' h
      else (case doUpdate env cfg info (h\<lparr>kh_updating := True\<rparr>) of
        (Some e, h1) \<Rightarrow> (sendStatus ''failed'' e h1)\<lparr>kh_updating := False\<rparr>
      | (None, h1) \<Rightarrow> h1\<lparr>kh_updating := False\<rparr>))"

definition cleanupUpdateLeftovers :: "client_env \<Rightarrow> string list option \<Rightarrow> client_host \<Rightarrow> client_host" where
  "cleanupUpdateLeftovers env entries h =
     (case currentExecutable env of
        Inl _ \<Rightarrow> h
      | Inr exe \<Rightarrow>
          (let h1 = (if ke_windows env then kh_remove env RemoveOld (exe @ ''.old'') h else h) in
           case entries of
             None \<Rightarrow> h1
           | Some names \<Rightarrow>
               foldl (\<lambda>h n. kh_remove env RemoveTmp (path_join [ke_dir env, n]) h) h1
                 (filter (has_prefix ''.spawnrelay.new-'') names)))"

section \<open>What an update leaves behind\<close>

lemma sendStatus_frame [simp]:
  "kh_files (sendStatus s m h) = kh_files h" "kh_updating (sendStatus s m h) = kh_updating h" "kh_restarted (sendStatus s m h) = kh_restarted h"
  by (simp_all add: sendStatus_def)

lemma kh_remove_frame:
  "q \<noteq> p \<Longrightarrow> kh_files (kh_remove env c p h) q = kh_files h q" "kh_restarted (kh_remove env c p h) = kh_restarted h"
  by (simp_all add: kh_remove_def)

lemma kh_rename_cases:
  assumes "kh_rename env c p q h = (e, h1)"
  shows "kh_restarted h1 = kh_restarted h \<and>
    ((\<exists>x. e = Some x \<and> h1 = h \<and> (ke_call env c \<noteq> None \<or> kh_files h p = None))
     \<or> (e = None \<and> (\<exists>data. kh_files h p = Some data \<and> kh_files h1 = (kh_files h)(p := None, q \<mapsto> data))))"
  using assms by (auto simp: kh_rename_def split: option.splits)

lemma kh_remove_status [simp]: "kh_status (kh_remove env c p h) = kh_status h" "kh_updating (kh_remove env c p h) = kh_updating h"
  by (simp_all add: kh_remove_def)

text \<open>The checks a download passes.\<close>

definition announced :: "client_env \<Rightarrow> update_info \<Rightarrow> string \<Rightarrow> bool" where
  "announced env info data \<longleftrightarrow>
     0 < ui_Size info \<and> ui_Size info \<le> maxBinarySize \<and> int (length data) = ui_Size info
     \<and> equal_fold (hex_encode (ke_sha env data)) (ui_SHA256 info)"

definition runs_as :: "client_env \<Rightarrow> string \<Rightarrow> string \<Rightarrow> bool" where
  "runs_as env version data \<longleftrightarrow>
     (\<exists>out. ke_exec env data = Inr out \<and> trim_space out \<noteq> [] \<and> (version \<noteq> [] \<longrightarrow> trim_space out = version))"

lemma client_download_cases:
  assumes "client_download env info path h = (r, h1)"
  shows "kh_restarted h1 = kh_restarted h \<and> (\<forall>q. q \<noteq> path \<longrightarrow> kh_files h1 q = kh_files h q)
    \<and> (r = Inr () \<longrightarrow> (\<exists>data. kh_files h1 path = Some data \<and> announced env info data))"
  using assms by (auto simp: client_download_def announced_def Let_def split: if_splits sum.splits option.splits)

lemma client_verify_cases:
  assumes "client_verifyBinary env path version h = Inr ()" and "kh_files h path = Some data"
  shows "runs_as env version data"
  using assms by (auto simp: client_verifyBinary_def runs_as_def Let_def split: option.splits sum.splits if_splits)

lemma install_cases:
  assumes "installBinary env tmp exe h = (r, h1)" and "kh_files h exe = Some old" and "kh_files h tmp = Some new"
    and "tmp \<noteq> exe" and "tmp \<noteq> exe @ ''.old''"
  shows "kh_restarted h1 = kh_restarted h
    \<and> (r = None \<longrightarrow> kh_files h1 exe = Some new)
    \<and> (r \<noteq> None \<longrightarrow> kh_files h1 exe = Some old
        \<or> ke_windows env \<and> kh_files h1 (exe @ ''.old'') = Some old \<and> (\<exists>c. ke_call env c \<noteq> None))"
proof (cases "ke_windows env")
  case False
  with assms(1) have "kh_rename env RenameNew tmp exe h = (r, h1)" by (simp add: installBinary_def)
  from kh_rename_cases[OF this] assms(2-4) show ?thesis by auto
next
  case True
  let ?old = "exe @ ''.old''"
  let ?h = "kh_remove env RemoveOld ?old h"
  have h: "kh_files ?h exe = Some old" "kh_files ?h tmp = Some new" "kh_restarted ?h = kh_restarted h"
    using assms(2,3,5) by (simp_all add: kh_remove_frame)
  obtain e2 h2 where r2: "kh_rename env RenameToOld exe ?old ?h = (e2, h2)" by fastforce
  note R2 = kh_rename_cases[OF r2]
  show ?thesis
  proof (cases e2)
    case (Some x)
    with assms(1) True r2 have "r = Some x" "h1 = h2" by (simp_all add: installBinary_def Let_def)
    with R2 Some h show ?thesis by auto
  next
    case None
    then have f2: "kh_files h2 ?old = Some old" "kh_files h2 tmp = Some new" "kh_restarted h2 = kh_restarted h"
      using R2 h assms(4,5) by auto
    obtain e3 h3 where r3: "kh_rename env RenameNew tmp exe h2 = (e3, h3)" by fastforce
    note R3 = kh_rename_cases[OF r3]
    show ?thesis
    proof (cases e3)
      case None3: None
      with assms(1) True r2 r3 None have "r = None" "h1 = h3" by (simp_all add: installBinary_def Let_def)
      with R3 None3 f2 show ?thesis by auto
    next
      case (Some x)
      obtain e4 h4 where r4: "kh_rename env UndoOld ?old exe h3 = (e4, h4)" by fastforce
      with assms(1) True r2 r3 None Some have "r = Some x" "h1 = h4" by (simp_all add: installBinary_def Let_def)
      moreover have "h3 = h2" "\<exists>c. ke_call env c \<noteq> None" using R3 Some f2(2) by auto
      ultimately show ?thesis using kh_rename_cases[OF r4] f2 True by auto
    qed
  qed
qed

text \<open>
  The executable after an update: the old one, the announced one, or, when Windows refused a
  rename, the old one under its \<open>.old\<close> name.
\<close>

definition kept :: "string \<Rightarrow> string \<Rightarrow> client_host \<Rightarrow> bool" where
  "kept exe old h \<longleftrightarrow> kh_files h exe = Some old"

definition installed :: "client_env \<Rightarrow> update_info \<Rightarrow> string \<Rightarrow> client_host \<Rightarrow> bool" where
  "installed env info exe h \<longleftrightarrow> (\<exists>new. kh_files h exe = Some new \<and> announced env info new \<and> runs_as env (ui_Version info) new)"

definition set_aside :: "client_env \<Rightarrow> string \<Rightarrow> string \<Rightarrow> client_host \<Rightarrow> bool" where
  "set_aside env exe old h \<longleftrightarrow> ke_windows env \<and> (\<exists>c. ke_call env c \<noteq> None) \<and> kh_files h (exe @ ''.old'') = Some old"

lemma doUpdate_cases:
  assumes d: "doUpdate env cfg info h = (r, h1)" and exe: "currentExecutable env = Inr exe" and old: "kh_files h exe = Some old"
    and tmp: "tmp_path env \<noteq> exe" "tmp_path env \<noteq> exe @ ''.old''"
  shows "r \<noteq> None \<and> kh_restarted h1 = kh_restarted h \<and> (kept exe old h1 \<or> set_aside env exe old h1)
    \<or> installed env info exe h1 \<and> (ui_Version info \<noteq> [] \<longrightarrow> ui_Version info \<noteq> cc_Version cfg)
        \<and> kh_restarted h1 = (if r = None then Some (takeover_by env exe) else kh_restarted h) \<and> restart env exe = r"
proof (cases "ui_Version info \<noteq> [] \<and> ui_Version info = cc_Version cfg")
  case True
  from d[unfolded doUpdate_def if_P[OF True]] old show ?thesis by (auto simp: kept_def)
next
  case new: False
  let ?t = "tmp_path env"
  obtain h0 where h0: "h0 = sendStatus ''downloading'' (''downloading '' @ ui_Name info @ '' ('' @ itoa (ui_Size info) @ '' bytes)'') h" by simp
  obtain r2 h2 where r2: "client_download env info ?t h0 = (r2, h2)" by fastforce
  note dl = client_download_cases[OF r2]
  have f2: "kh_files h2 exe = Some old" "kh_restarted h2 = kh_restarted h" using dl old tmp(1) h0 by auto
  note step = d[unfolded doUpdate_def if_not_P[OF new] exe sum.case Let_def, folded h0, unfolded r2 prod.case]
  show ?thesis
  proof (cases r2)
    case (Inl e)
    with step have "r = Some e" "h1 = kh_remove env RemoveTmp ?t h2" by simp_all
    with f2 tmp show ?thesis by (simp add: kept_def kh_remove_frame)
  next
    case (Inr _)
    with dl obtain data where data: "kh_files h2 ?t = Some data" "announced env info data" by auto
    obtain h3 where h3: "h3 = sendStatus ''installing'' ''verifying the new binary'' h2" by simp
    note step3 = step[unfolded Inr sum.case, folded h3]
    show ?thesis
    proof (cases "client_verifyBinary env ?t (ui_Version info) h3")
      case (Inl e)
      with step3 have "r = Some e" "h1 = kh_remove env RemoveTmp ?t h3" by simp_all
      with f2 tmp h3 show ?thesis by (simp add: kept_def kh_remove_frame)
    next
      case v: (Inr _)
      then have runs: "runs_as env (ui_Version info) data" using client_verify_cases data(1) h3 by auto
      obtain r4 h4 where r4: "installBinary env ?t exe h3 = (r4, h4)" by fastforce
      have f3: "kh_files h3 exe = Some old" "kh_files h3 ?t = Some data" using f2 data h3 by auto
      note ins = install_cases[OF r4 f3 tmp]
      show ?thesis
      proof (cases r4)
        case (Some e)
        with step3 v r4 have "r = Some (''install: '' @ e)" "h1 = kh_remove env RemoveTmp ?t h4" by simp_all
        with Some ins f2 h3 tmp show ?thesis by (auto simp: kept_def set_aside_def kh_remove_frame)
      next
        case None
        with step3 v r4 ins data runs new f2 h3 show ?thesis
          by (auto simp: installed_def split: option.splits if_splits)
      qed
    qed
  qed
qed

text \<open>
  C12: An update pushed to a client installs only the announced binary. After \<open>runUpdate\<close> the
  executable is either the one it was, and the server is told of the failure; or a file with the
  announced size and hash that ran and printed the announced version, installed only where
  updates are allowed, no other update was running and the version is another one, and the
  client restarts on it (or says why it could not). Only on Windows, when a file call failed, can
  the old executable be left under its \<open>.old\<close> name. The guard is open again afterwards.
\<close>

theorem client_installs_only_the_announced_binary:
  assumes "runUpdate env cfg info h = h1" and "currentExecutable env = Inr exe" and "kh_files h exe = Some old"
    and "tmp_path env \<noteq> exe" "tmp_path env \<noteq> exe @ ''.old''"
  shows "(fst (last (kh_status h1)) = ''failed'' \<and> kh_restarted h1 = kh_restarted h \<and> (kept exe old h1 \<or> set_aside env exe old h1)
    \<or> cc_AllowUpdate cfg \<and> \<not> kh_updating h \<and> (ui_Version info \<noteq> [] \<longrightarrow> ui_Version info \<noteq> cc_Version cfg)
        \<and> installed env info exe h1
        \<and> (case restart env exe of
             None \<Rightarrow> kh_restarted h1 = Some (takeover_by env exe)
           | Some e \<Rightarrow> kh_restarted h1 = kh_restarted h \<and> last (kh_status h1) = (''failed'', e)))
    \<and> kh_updating h1 = kh_updating h"
proof (intro conjI)
  have last_sent: "last (kh_status (sendStatus st m k)) = (st, m)" for st m k by (simp add: sendStatus_def)
  show "kh_updating h1 = kh_updating h"
    using assms(1) by (auto simp: runUpdate_def split: if_splits prod.splits option.splits)
  show "fst (last (kh_status h1)) = ''failed'' \<and> kh_restarted h1 = kh_restarted h \<and> (kept exe old h1 \<or> set_aside env exe old h1)
    \<or> cc_AllowUpdate cfg \<and> \<not> kh_updating h \<and> (ui_Version info \<noteq> [] \<longrightarrow> ui_Version info \<noteq> cc_Version cfg)
        \<and> installed env info exe h1
        \<and> (case restart env exe of
             None \<Rightarrow> kh_restarted h1 = Some (takeover_by env exe)
           | Some e \<Rightarrow> kh_restarted h1 = kh_restarted h \<and> last (kh_status h1) = (''failed'', e))"
  proof (cases "cc_AllowUpdate cfg \<and> \<not> kh_updating h")
    case False
    then obtain m where "h1 = sendStatus ''failed'' m h" using assms(1) by (auto simp: runUpdate_def split: if_splits)
    with assms(3) show ?thesis by (simp add: kept_def last_sent)
  next
    case True
    obtain r k where k: "doUpdate env cfg info (h\<lparr>kh_updating := True\<rparr>) = (r, k)" by fastforce
    have "kh_files (h\<lparr>kh_updating := True\<rparr>) exe = Some old" using assms(3) by simp
    note cases = doUpdate_cases[OF k assms(2) this assms(4,5)]
    have "h1 = (case r of Some e \<Rightarrow> (sendStatus ''failed'' e k)\<lparr>kh_updating := False\<rparr> | None \<Rightarrow> k\<lparr>kh_updating := False\<rparr>)"
      using assms(1) True k by (auto simp: runUpdate_def)
    then show ?thesis using cases True
      by (cases r) (auto simp: kept_def installed_def set_aside_def last_sent split: option.splits)
  qed
qed

section \<open>A pushed update from the server to the restart\<close>

text \<open>The server's reply as it arrives at the client: the header and the bytes after it; \<open>e\<close> is the text of a read error.\<close>

fun refusal_message :: "string \<Rightarrow> refusal \<Rightarrow> string" where
  "refusal_message _ (UnknownRequest ty) = ''unknown request type '' @ ty"
| "refusal_message _ InvalidBinaryName = ''invalid binary name''"
| "refusal_message _ NotAvailable = ''downloads not available''"
| "refusal_message _ (NoBinary e) = e"
| "refusal_message e NotReadable = e"

fun as_response :: "string \<Rightarrow> download \<Rightarrow> download_response \<times> string" where
  "as_response e (Refused r) = (\<lparr>dr_OK = False, dr_Error = refusal_message e r, dr_Size = 0, dr_SHA256 = []\<rparr>, [])"
| "as_response e (Served sz sha body) = (\<lparr>dr_OK = True, dr_Error = [], dr_Size = sz, dr_SHA256 = sha\<rparr>, body)"

text \<open>A client whose file calls work and whose restart succeeds goes through the whole update.\<close>

lemma doUpdate_succeeds:
  assumes "ui_Version info \<noteq> []" "ui_Version info \<noteq> cc_Version cfg" "currentExecutable env = Inr exe"
    and "0 < ui_Size info" "ui_Size info \<le> maxBinarySize" "ui_Size info = int (length data)"
    and "ke_request env \<lparr>cr_Type = ''download'', cr_Name = ui_Name info\<rparr>
      = Inr (\<lparr>dr_OK = True, dr_Error = [], dr_Size = ui_Size info, dr_SHA256 = ui_SHA256 info\<rparr>, data)"
    and "ui_SHA256 info = hex_encode (ke_sha env data)" and "ke_call env = (\<lambda>_. None)" and "restart env exe = None"
    and "ke_exec env data = Inr out" "trim_space out = ui_Version info"
    and "kh_files h exe \<noteq> None" "tmp_path env \<noteq> exe" "tmp_path env \<noteq> exe @ ''.old''"
  shows "\<exists>h1. doUpdate env cfg info h = (None, h1) \<and> kh_files h1 exe = Some data \<and> kh_restarted h1 = Some (takeover_by env exe)
    \<and> map fst (kh_status h1) = map fst (kh_status h) @ [''downloading'', ''installing'', ''restarting'']"
proof -
  have d: "client_download env info p k = (Inr (), k\<lparr>kh_files := (kh_files k)(p \<mapsto> data)\<rparr>)" for p k
    using assms(4-9) by (simp add: client_download_def equal_fold_def)
  have v: "client_verifyBinary env p (ui_Version info) k = Inr ()" if "kh_files k p = Some data" for p k
    using that assms(1,9,11,12) by (simp add: client_verifyBinary_def)
  have i: "\<exists>fs. installBinary env (tmp_path env) exe k = (None, k\<lparr>kh_files := fs\<rparr>) \<and> fs exe = Some data"
    if "kh_files k (tmp_path env) = Some data" "kh_files k exe \<noteq> None" for k
    using that assms(9,14,15) by (auto simp: installBinary_def kh_rename_def kh_remove_def Let_def)
  define h3 where "h3 = sendStatus ''installing'' ''verifying the new binary''
    ((sendStatus ''downloading'' (''downloading '' @ ui_Name info @ '' ('' @ itoa (ui_Size info) @ '' bytes)'') h)
      \<lparr>kh_files := (kh_files h)(tmp_path env \<mapsto> data)\<rparr>)"
  have h3: "kh_files h3 (tmp_path env) = Some data" "kh_files h3 exe \<noteq> None"
    "map fst (kh_status h3) = map fst (kh_status h) @ [''downloading'', ''installing'']"
    using assms(13,14) by (simp_all add: h3_def sendStatus_def)
  from i[OF h3(1,2)] obtain fs where fs: "installBinary env (tmp_path env) exe h3 = (None, h3\<lparr>kh_files := fs\<rparr>)" "fs exe = Some data"
    by blast
  have "doUpdate env cfg info h = (None, (sendStatus ''restarting'' (''installed '' @ ui_Version info @ '', restarting'')
      (h3\<lparr>kh_files := fs\<rparr>))\<lparr>kh_restarted := Some (takeover_by env exe)\<rparr>)"
    using assms(1-3,10) fs(1) v[OF h3(1)] by (simp add: doUpdate_def d Let_def h3_def)
  then show ?thesis using h3(3) fs(2) by (simp add: sendStatus_def)
qed

lemma binary_info_of_readable:
  assumes "cache_ok env cache" "te_stat env path = Some (sz, mt)" "te_read env path = Some content"
  shows "\<exists>info cache'. binary_info_of env name path cache = (Inr info, cache') \<and> bi_size info = sz
    \<and> bi_sha256 info = hex_encode (te_sha env content)"
proof -
  have "\<exists>info cache'. binary_info_of env name path cache = (Inr info, cache')"
    using assms(2,3) by (auto simp: binary_info_of_def Let_def split: option.splits)
  then obtain info cache' where b: "binary_info_of env name path cache = (Inr info, cache')" by blast
  with binary_info_of_ok[OF assms(1) b] assms(2,3) show ?thesis by auto
qed

lemma binaryPath_name: "binaryPath benv name = Inr path \<Longrightarrow> downloadName name \<noteq> None"
  by (auto simp: binaryPath_def split: option.splits)

lemma download_answered:
  assumes "cache_ok env (tn_binaries t)" "te_binary env = Some (binaryPath benv)" "binaryPath benv name = Inr path"
    and "te_stat env path = Some (int (length content), mt)" "te_read env path = Some content"
  shows "fst (handleClientStream env \<lparr>cr_Type = ''download'', cr_Name = name\<rparr> t)
    = Served (int (length content)) (hex_encode (te_sha env content)) content"
proof -
  obtain info cache' where "binary_info_of env name path (tn_binaries t) = (Inr info, cache')"
    "bi_size info = int (length content)" "bi_sha256 info = hex_encode (te_sha env content)"
    using binary_info_of_readable[OF assms(1,4,5)] by blast
  with binaryPath_name[OF assms(3)] assms show ?thesis by (simp add: handleClientStream_def)
qed

text \<open>
  C4: A pushed update arrives. When \<open>PushUpdate\<close> accepts to update a client, the message it
  queues starts an update of that client; the client's download request is answered by the
  server's \<open>handleClientStream\<close> with the binary for the client's platform; and a client whose
  files can be written and on which that binary runs and prints the server's version ends with
  its executable replaced by exactly the server's file and restarts on it, reporting every phase
  and no failure. The server may have done anything between the push and the download that keeps
  its cache of hashes right; the binary itself is the same file.
\<close>

theorem pushed_update_is_installed:
  assumes push: "tunnel_step\<^sup>*\<^sup>* (new_tunnel v, sto0) (t, sto)" "cache_ok env (tn_binaries t)"
      "PushUpdate env i automatic t = (Inr (), t')" "te_binary env = Some (binaryPath benv)" "tn_version t \<noteq> []"
    and session: "session_of t i = Some s" "se_Hello s = client_hello denv cfg"
    and binary: "\<And>path content. te_read env path = Some content \<Longrightarrow> content \<noteq> [] \<and> int (length content) \<le> maxBinarySize
        \<and> (\<exists>mt. te_stat env path = Some (int (length content), mt))
        \<and> (\<exists>out. ke_exec cenv content = Inr out \<and> trim_space out = tn_version t)"
    and server: "cache_ok env (tn_binaries t2)" "\<And>q. ke_request cenv q = Inr (as_response e (fst (handleClientStream env q t2)))"
    and client: "currentExecutable cenv = Inr exe" "kh_files h exe \<noteq> None" "\<not> kh_updating h" "tmp_path cenv \<notin> {exe, exe @ ''.old''}"
      "ke_call cenv = (\<lambda>_. None)" "restart cenv exe = None" "ke_sha cenv = te_sha env"
  shows "\<exists>sid msg info path content.
      session_id t i = Some sid \<and> se_sent (tn_objs t' ! sid) = se_sent s @ [msg] \<and> client_control msg = RunUpdate info
    \<and> binaryPath benv (ui_Name info) = Inr path \<and> te_read env path = Some content
    \<and> kh_files (runUpdate cenv cfg info h) exe = Some content \<and> kh_restarted (runUpdate cenv cfg info h) = Some (takeover_by cenv exe)
    \<and> map fst (kh_status (runUpdate cenv cfg info h)) = map fst (kh_status h) @ [''downloading'', ''installing'', ''restarting'']"
proof -
  from PushUpdate_offers_current_binary[OF push(2,3)] obtain sid path content sz mt where
    p: "session_id t i = Some sid" "h_AllowUpdate (se_Hello (tn_objs t ! sid))" "h_ClientVersion (se_Hello (tn_objs t ! sid)) \<noteq> tn_version t"
      "binaryPath benv (assetName (h_OS (se_Hello (tn_objs t ! sid))) (h_Arch (se_Hello (tn_objs t ! sid)))) = Inr path"
      "te_stat env path = Some (sz, mt)" "te_read env path = Some content"
    and t': "t' = sendControl sid ((plain_message ''update'' [])\<lparr>cm_Update := Some
        \<lparr>ui_Version = tn_version t, ui_Name = assetName (h_OS (se_Hello (tn_objs t ! sid))) (h_Arch (se_Hello (tn_objs t ! sid))),
         ui_Size = sz, ui_SHA256 = hex_encode (te_sha env content)\<rparr>\<rparr>)
        (t\<lparr>tn_binaries := tn_binaries t', tn_updates := tn_updates t'\<rparr>)"
    using push(4) by auto
  have s: "s = tn_objs t ! sid" using session(1) p(1) by (simp add: session_of_def)
  have tab: "table_ok (tn_sessions t) (faces t)" using reachable_sessions_ok[OF push(1)] by (simp add: sessions_ok_def)
  have sid: "sid < length (tn_objs t)" "se_open s"
    using table_okD(1)[OF tab p(1)[unfolded session_id_def]] by (auto simp: faces_nth s)
  let ?name = "assetName (h_OS (se_Hello s)) (h_Arch (se_Hello s))"
  define info where "info = \<lparr>ui_Version = tn_version t, ui_Name = ?name, ui_Size = sz, ui_SHA256 = hex_encode (te_sha env content)\<rparr>"
  define msg where "msg = (plain_message ''update'' [])\<lparr>cm_Update := Some info\<rparr>"
  have sent: "se_sent (tn_objs t' ! sid) = se_sent s @ [msg]"
  proof -
    obtain T where T: "t' = sendControl sid msg T" "tn_objs T = tn_objs t"
      using t' by (simp add: s info_def msg_def)
    with sid show ?thesis by (simp add: sendControl_def upd_obj_nth s)
  qed
  have act: "client_control msg = RunUpdate info" by (simp add: msg_def client_control_def plain_message_def)
  from binary[OF p(6)] p(5) obtain out where
    b: "content \<noteq> []" "int (length content) \<le> maxBinarySize" "sz = int (length content)"
      "ke_exec cenv content = Inr out" "trim_space out = tn_version t" by auto
  have path: "binaryPath benv ?name = Inr path" using p(4) s by simp
  have req: "ke_request cenv \<lparr>cr_Type = ''download'', cr_Name = ?name\<rparr>
      = Inr (\<lparr>dr_OK = True, dr_Error = [], dr_Size = sz, dr_SHA256 = hex_encode (te_sha env content)\<rparr>, content)"
    using download_answered[OF server(1) push(4) path p(5)[unfolded b(3)] p(6)] by (simp add: server(2) b(3))
  have cfg: "cc_AllowUpdate cfg" "tn_version t \<noteq> cc_Version cfg"
    using p(2,3) session(2) s by (auto simp: client_hello_def)
  have "\<exists>h1. doUpdate cenv cfg info (h\<lparr>kh_updating := True\<rparr>) = (None, h1) \<and> kh_files h1 exe = Some content \<and> kh_restarted h1 = Some (takeover_by cenv exe)
      \<and> map fst (kh_status h1) = map fst (kh_status (h\<lparr>kh_updating := True\<rparr>)) @ [''downloading'', ''installing'', ''restarting'']"
    by (rule doUpdate_succeeds[where out = out]) (use push(5) cfg(2) client b req in \<open>auto simp: info_def\<close>)
  then obtain h1 where h1: "doUpdate cenv cfg info (h\<lparr>kh_updating := True\<rparr>) = (None, h1)" "kh_files h1 exe = Some content"
      "kh_restarted h1 = Some (takeover_by cenv exe)" "map fst (kh_status h1) = map fst (kh_status h) @ [''downloading'', ''installing'', ''restarting'']"
    by auto
  have run: "runUpdate cenv cfg info h = h1\<lparr>kh_updating := False\<rparr>" using cfg(1) client(3) h1(1) by (simp add: runUpdate_def)
  have "binaryPath benv (ui_Name info) = Inr path" using path by (simp add: info_def)
  moreover have "kh_files (runUpdate cenv cfg info h) exe = Some content" "kh_restarted (runUpdate cenv cfg info h) = Some (takeover_by cenv exe)"
    "map fst (kh_status (runUpdate cenv cfg info h)) = map fst (kh_status h) @ [''downloading'', ''installing'', ''restarting'']"
    using h1 by (simp_all add: run)
  ultimately show ?thesis using p(1,6) sent act by blast
qed

definition demo_host :: client_host where
  "demo_host = \<lparr>kh_files = [''/opt/spawnrelay'' \<mapsto> ''OLD''], kh_status = [], kh_updating = False, kh_restarted = None\<rparr>"

definition demo_bins :: binary_env where
  "demo_bins = \<lparr>be_DataDir = ''/data'', be_exists = (\<lambda>_. True), be_GOOS = ''linux'', be_GOARCH = ''amd64'', be_exe = None\<rparr>"

definition demo_serving :: tunnel_env where
  "demo_serving = demo_tenv\<lparr>te_binary := Some (binaryPath demo_bins)\<rparr>"

definition demo_cenv :: client_env where
  "demo_cenv = \<lparr>ke_executable = Inr ''/opt/spawnrelay'', ke_real = (\<lambda>_. None), ke_dir = ''/opt'', ke_pid = 7, ke_windows = False,
     ke_request = (\<lambda>q. Inr (as_response [] (fst (handleClientStream demo_serving q (new_tunnel ''v2''))))),
     ke_call = (\<lambda>_. None), ke_partial = [], ke_sha = te_sha demo_serving, ke_exec = (\<lambda>_. Inr (''v2'' @ [CHR 0x0A])), ke_args = [''spawnrelay'', ''client''], ke_start = (\<lambda>_. None)\<rparr>"

definition demo_ccfg :: client_config where
  "demo_ccfg = \<lparr>cc_Server = ''relay:7443'', cc_Token = ''sr_c_1'', cc_Fingerprint = [], cc_AllowUpdate = True, cc_Version = ''v1''\<rparr>"

lemma demo_cenv_facts:
  "currentExecutable demo_cenv = Inr ''/opt/spawnrelay''" "kh_files demo_host ''/opt/spawnrelay'' = Some ''OLD''"
  "tmp_path demo_cenv \<noteq> ''/opt/spawnrelay''" "tmp_path demo_cenv \<noteq> ''/opt/spawnrelay'' @ ''.old''"
  "kh_files (runUpdate demo_cenv demo_ccfg \<lparr>ui_Version = ''v2'', ui_Name = ''spawnrelay_linux_amd64'', ui_Size = 3, ui_SHA256 = ''454c46''\<rparr> demo_host)
    ''/opt/spawnrelay'' = Some ''ELF''"
  by code_simp+

theorem client_installs_only_the_announced_binary_witness:
  "installed demo_cenv \<lparr>ui_Version = ''v2'', ui_Name = ''spawnrelay_linux_amd64'', ui_Size = 3, ui_SHA256 = ''454c46''\<rparr> ''/opt/spawnrelay''
     (runUpdate demo_cenv demo_ccfg \<lparr>ui_Version = ''v2'', ui_Name = ''spawnrelay_linux_amd64'', ui_Size = 3, ui_SHA256 = ''454c46''\<rparr> demo_host)"
proof -
  have w: "\<not> ke_windows demo_cenv" by (simp add: demo_cenv_def)
  show ?thesis
    using client_installs_only_the_announced_binary[OF refl demo_cenv_facts(1-4),
        of demo_ccfg "\<lparr>ui_Version = ''v2'', ui_Name = ''spawnrelay_linux_amd64'', ui_Size = 3, ui_SHA256 = ''454c46''\<rparr>"]
      demo_cenv_facts(5) w
    by (auto simp: kept_def set_aside_def)
qed

lemma demo_push_facts:
  "fst (PushUpdate demo_serving ''c1'' False (fst demo_tunnel)) = Inr ()" "tn_binaries (fst demo_tunnel) = []"
  "tn_version (fst demo_tunnel) = ''v2''"
  "map_option (\<lambda>s. se_Hello s = client_hello (demo_dial\<lparr>de_Hostname := ''pc''\<rparr>) demo_ccfg) (session_of (fst demo_tunnel) ''c1'') = Some True"
  by code_simp+

theorem pushed_update_is_installed_witness:
  "\<exists>info. kh_files (runUpdate demo_cenv demo_ccfg info demo_host) ''/opt/spawnrelay'' = Some ''ELF''
     \<and> kh_restarted (runUpdate demo_cenv demo_ccfg info demo_host) = Some (Exec ''/opt/spawnrelay'' [''/opt/spawnrelay'', ''client''])"
proof -
  have reach: "tunnel_step\<^sup>*\<^sup>* (new_tunnel ''v2'', demo_store) (fst demo_tunnel, snd demo_tunnel)"
    unfolding demo_tunnel_def by (metis Connect prod.collapse r_into_rtranclp)
  obtain t' where push: "PushUpdate demo_serving ''c1'' False (fst demo_tunnel) = (Inr (), t')"
    using demo_push_facts(1) by (metis prod.collapse)
  obtain s where s: "session_of (fst demo_tunnel) ''c1'' = Some s" "se_Hello s = client_hello (demo_dial\<lparr>de_Hostname := ''pc''\<rparr>) demo_ccfg"
    using demo_push_facts(4) by auto
  have cache: "cache_ok demo_serving (tn_binaries (fst demo_tunnel))" "cache_ok demo_serving (tn_binaries (new_tunnel ''v2''))"
    by (simp_all add: demo_push_facts(2) new_tunnel_def)
  have over: "takeover_by demo_cenv ''/opt/spawnrelay'' = Exec ''/opt/spawnrelay'' [''/opt/spawnrelay'', ''client'']"
    by (simp add: takeover_by_def restart_unix_def demo_cenv_def)
  have trim: "trim_space (''v2'' @ [CHR 0x0A]) = ''v2''" by code_simp
  have read: "te_read demo_serving = (\<lambda>_. Some ''ELF'')" "te_stat demo_serving = (\<lambda>_. Some (3, 1))"
    "te_binary demo_serving = Some (binaryPath demo_bins)" by (simp_all add: demo_serving_def demo_tenv_def)
  have "(3::int) \<le> maxBinarySize" by (simp add: maxBinarySize_def)
  then have bin: "c \<noteq> [] \<and> int (length c) \<le> maxBinarySize \<and> (\<exists>mt. te_stat demo_serving p = Some (int (length c), mt))
      \<and> (\<exists>out. ke_exec demo_cenv c = Inr out \<and> trim_space out = tn_version (fst demo_tunnel))"
    if "te_read demo_serving p = Some c" for p c
    using that trim by (auto simp: read demo_cenv_def demo_push_facts(3))
  have "\<exists>sid msg info path content. session_id (fst demo_tunnel) ''c1'' = Some sid \<and> se_sent (tn_objs t' ! sid) = se_sent s @ [msg]
    \<and> client_control msg = RunUpdate info
    \<and> binaryPath demo_bins (ui_Name info) = Inr path \<and> te_read demo_serving path = Some content
    \<and> kh_files (runUpdate demo_cenv demo_ccfg info demo_host) ''/opt/spawnrelay'' = Some content
    \<and> kh_restarted (runUpdate demo_cenv demo_ccfg info demo_host) = Some (Exec ''/opt/spawnrelay'' [''/opt/spawnrelay'', ''client''])
    \<and> map fst (kh_status (runUpdate demo_cenv demo_ccfg info demo_host)) = map fst (kh_status demo_host) @ [''downloading'', ''installing'', ''restarting'']"
    unfolding over[symmetric]
    by (rule pushed_update_is_installed[OF reach cache(1) push read(3) _ s bin cache(2)])
      (use demo_cenv_facts in \<open>auto simp: demo_push_facts(3) demo_cenv_def demo_host_def\<close>)
  then show ?thesis by (auto simp: read)
qed

end
