(* ===== verification/Datapath.thy ===== *)
theory Datapath
  imports Client Listeners "HOL-Library.Sublist"
begin

text \<open>
  What a running forward does with traffic (\<open>internal/server/tunnel.go\<close> from \<open>openStream\<close> on, and
  \<open>internal/relay/pipe.go\<close>): the streams it opens to the client, the UDP peers with their readers
  and the reaper, and TCP connections. The goroutines of a runner are a step relation; each step
  is one round of a loop. The network is a parameter of every step: whether the client is online,
  whether a stream opens, how far a failing write gets. The logs \<open>dp_in\<close> and \<open>dp_out\<close> are the
  history of the public UDP socket.
\<close>

section \<open>State\<close>

text \<open>
  A data stream: its header, the header line and the bytes written after it, whether the server has
  closed its side, the bytes the client has sent, those of them not yet read, whether the client
  has closed its side, and whether a \<open>peerReadLoop\<close> runs on it.
\<close>

record data_stream =
  ds_header :: stream_header
  ds_line :: string
  ds_body :: string
  ds_open :: bool
  ds_got :: string
  ds_unread :: string
  ds_eof :: bool
  ds_reading :: bool

record datapath =
  dp_r :: runner
  dp_streams :: "data_stream list"
  dp_done :: bool
  dp_in :: "(string \<times> string) list"
  dp_out :: "(nat \<times> string \<times> string) list"

record stream_env =
  oe_online :: bool
  oe_stream :: bool
  oe_fail :: "nat option"

definition new_datapath :: "forward \<Rightarrow> datapath" where
  "new_datapath f = \<lparr>dp_r = newRunner f, dp_streams = [], dp_done = False, dp_in = [], dp_out = []\<rparr>"

section \<open>Streams\<close>

type_synonym header_codec = "stream_header \<Rightarrow> string option"

definition stream_hdr :: "forward \<Rightarrow> string \<Rightarrow> string \<Rightarrow> stream_header" where
  "stream_hdr f kind remote = \<lparr>sh_Type = kind, sh_ForwardID = f_ID f, sh_Target = Target f, sh_Remote = remote\<rparr>"

definition new_stream :: "stream_header \<Rightarrow> string \<Rightarrow> bool \<Rightarrow> data_stream" where
  "new_stream h written ok = \<lparr>ds_header = h, ds_line = written, ds_body = [], ds_open = ok, ds_got = [], ds_unread = [],
     ds_eof = False, ds_reading = False\<rparr>"

definition openStream :: "header_codec \<Rightarrow> stream_env \<Rightarrow> string \<Rightarrow> string \<Rightarrow> datapath \<Rightarrow> nat option \<times> datapath" where
  "openStream marshal env kind remote d =
     (if \<not> oe_online env \<or> \<not> oe_stream env then (None, d)
      else let h = stream_hdr (r_f (dp_r d)) kind remote in
        case WriteJSONLine marshal h of
          Inl _ \<Rightarrow> (None, d\<lparr>dp_streams := dp_streams d @ [new_stream h [] False]\<rparr>)
        | Inr b \<Rightarrow>
            (case oe_fail env of
               Some k \<Rightarrow> (None, d\<lparr>dp_streams := dp_streams d @ [new_stream h (take k b) False]\<rparr>)
             | None \<Rightarrow> (Some (length (dp_streams d)), d\<lparr>dp_streams := dp_streams d @ [new_stream h b True]\<rparr>)))"

definition upd_stream :: "nat \<Rightarrow> (data_stream \<Rightarrow> data_stream) \<Rightarrow> datapath \<Rightarrow> datapath" where
  "upd_stream sid g d = d\<lparr>dp_streams := (dp_streams d)[sid := g (dp_streams d ! sid)]\<rparr>"

definition closeStream :: "nat \<Rightarrow> datapath \<Rightarrow> datapath" where
  "closeStream sid = upd_stream sid (\<lambda>s. s\<lparr>ds_open := False\<rparr>)"

section \<open>UDP peers\<close>

definition set_peers :: "(string \<times> udp_peer) list \<Rightarrow> datapath \<Rightarrow> datapath" where
  "set_peers ps d = d\<lparr>dp_r := (dp_r d)\<lparr>r_peers := ps\<rparr>\<rparr>"

text \<open>A peer is told apart by its stream: the code compares the pointers.\<close>

definition removePeer :: "string \<Rightarrow> nat \<Rightarrow> datapath \<Rightarrow> datapath" where
  "removePeer key sid d =
     closeStream sid
       (case map_of (r_peers (dp_r d)) key of
          Some p \<Rightarrow> if up_stream p = sid then set_peers (AList.delete key (r_peers (dp_r d))) d else d
        | None \<Rightarrow> d)"

definition peer :: "header_codec \<Rightarrow> stream_env \<Rightarrow> time \<Rightarrow> string \<Rightarrow> datapath \<Rightarrow> nat option \<times> datapath" where
  "peer marshal env now key d =
     (case map_of (r_peers (dp_r d)) key of
        Some p \<Rightarrow> (Some (up_stream p), set_peers (AList.update key (p\<lparr>up_last := now\<rparr>) (r_peers (dp_r d))) d)
      | None \<Rightarrow>
          (case openStream marshal env ''udp'' key d of
             (None, d1) \<Rightarrow> (None, d1)
           | (Some sid, d1) \<Rightarrow>
               (Some sid, upd_stream sid (\<lambda>s. s\<lparr>ds_reading := True\<rparr>)
                  (d1\<lparr>dp_r := (dp_r d1)\<lparr>r_peers := AList.update key \<lparr>up_stream = sid, up_last = now\<rparr> (r_peers (dp_r d1)),
                                      r_totalConns := r_totalConns (dp_r d1) + 1\<rparr>\<rparr>))))"

text \<open>
  One round of \<open>udpLoop\<close>. \<open>fail\<close> is how many bytes a failing write gets out; a closed stream takes none.
\<close>

definition udp_datagram :: "header_codec \<Rightarrow> stream_env \<Rightarrow> nat option \<Rightarrow> time \<Rightarrow> string \<Rightarrow> string \<Rightarrow> datapath \<Rightarrow> datapath" where
  "udp_datagram marshal env fail now key payload d0 =
     (case peer marshal env now key (d0\<lparr>dp_in := dp_in d0 @ [(key, payload)]\<rparr>) of
        (None, d) \<Rightarrow> d
      | (Some sid, d) \<Rightarrow>
          (case WriteFrame payload of
             Inl _ \<Rightarrow> removePeer key sid d
           | Inr b \<Rightarrow>
               (case (if ds_open (dp_streams d ! sid) then fail else Some 0) of
                  Some k \<Rightarrow> removePeer key sid (upd_stream sid (\<lambda>s. s\<lparr>ds_body := ds_body s @ take k b\<rparr>) d)
                | None \<Rightarrow>
                    (let d1 = upd_stream sid (\<lambda>s. s\<lparr>ds_body := ds_body s @ b\<rparr>) d
                     in d1\<lparr>dp_r := (dp_r d1)\<lparr>r_bytesIn := r_bytesIn (dp_r d1) + int (length payload)\<rparr>\<rparr>))))"

text \<open>One round of \<open>peerReadLoop\<close>; \<open>ok\<close> is whether the public socket takes the datagram.\<close>

definition end_reader :: "string \<Rightarrow> nat \<Rightarrow> datapath \<Rightarrow> datapath" where
  "end_reader key sid d = removePeer key sid (upd_stream sid (\<lambda>s. s\<lparr>ds_reading := False\<rparr>) d)"

definition touch_peer :: "time \<Rightarrow> string \<Rightarrow> nat \<Rightarrow> datapath \<Rightarrow> datapath" where
  "touch_peer now key sid d =
     (case map_of (r_peers (dp_r d)) key of
        Some p \<Rightarrow> if up_stream p = sid then set_peers (AList.update key (p\<lparr>up_last := now\<rparr>) (r_peers (dp_r d))) d else d
      | None \<Rightarrow> d)"

definition peer_read :: "bool \<Rightarrow> time \<Rightarrow> string \<Rightarrow> nat \<Rightarrow> datapath \<Rightarrow> datapath" where
  "peer_read ok now key sid d =
     (case ReadFrame MaxDatagram (ds_unread (dp_streams d ! sid)) of
        Inl _ \<Rightarrow> end_reader key sid d
      | Inr (payload, rest) \<Rightarrow>
          (let d1 = upd_stream sid (\<lambda>s. s\<lparr>ds_unread := rest\<rparr>) d in
           if \<not> ok then end_reader key sid d1
           else let d2 = touch_peer now key sid d1
                in d2\<lparr>dp_r := (dp_r d2)\<lparr>r_bytesOut := r_bytesOut (dp_r d2) + int (length payload)\<rparr>,
                     dp_out := dp_out d2 @ [(sid, key, payload)]\<rparr>))"

definition udpIdle :: time where "udpIdle = 90 * 1000000000"

definition udpReaper :: "time \<Rightarrow> datapath \<Rightarrow> datapath" where
  "udpReaper now d =
     foldl (\<lambda>d (key, p). removePeer key (up_stream p) d) d (filter (\<lambda>(key, p). up_last p < now - udpIdle) (r_peers (dp_r d)))"

text \<open>\<open>stop\<close>, the part about the peers; the sockets are in \<open>Listeners\<close>.\<close>

definition stop_peers :: "datapath \<Rightarrow> datapath" where
  "stop_peers d =
     set_peers [] (foldl (\<lambda>d (key, p). closeStream (up_stream p) d) (d\<lparr>dp_done := True\<rparr>) (r_peers (dp_r d)))"

section \<open>TCP connections\<close>

text \<open>
  \<open>io.Copy\<close> into a \<open>countingWriter\<close>: each chunk read comes with how many of its bytes the writer
  takes and whether it fails. The result are the bytes written and the counter.
\<close>

definition counting_write :: "nat \<Rightarrow> int \<Rightarrow> int" where
  "counting_write n tally = (if n > 0 then tally + int n else tally)"

fun io_copy :: "(string \<times> nat \<times> bool) list \<Rightarrow> int \<Rightarrow> string \<times> int" where
  "io_copy [] tally = ([], tally)"
| "io_copy ((chunk, n, err) # rest) tally =
     (let m = min n (length chunk); tally1 = counting_write m tally in
      if err \<or> m \<noteq> length chunk then (take m chunk, tally1)
      else (case io_copy rest tally1 of (out, c) \<Rightarrow> (chunk @ out, c)))"

text \<open>\<open>PipeCounted\<close>: both directions, with their counters; both ends are closed after it.\<close>

definition PipeCounted :: "(string \<times> nat \<times> bool) list \<Rightarrow> (string \<times> nat \<times> bool) list \<Rightarrow> int \<Rightarrow> int \<Rightarrow> (string \<times> int) \<times> (string \<times> int)" where
  "PipeCounted ab ba countIn countOut = (io_copy ab countIn, io_copy ba countOut)"

text \<open>\<open>handleTCP\<close> up to the pipe, and from its end.\<close>

definition tcp_accept :: "header_codec \<Rightarrow> stream_env \<Rightarrow> string \<Rightarrow> datapath \<Rightarrow> datapath" where
  "tcp_accept marshal env remote d =
     (case openStream marshal env ''tcp'' remote d of
        (None, d1) \<Rightarrow> d1
      | (Some sid, d1) \<Rightarrow>
          d1\<lparr>dp_r := (dp_r d1)\<lparr>r_activeTCP := r_activeTCP (dp_r d1) + 1, r_totalConns := r_totalConns (dp_r d1) + 1\<rparr>\<rparr>)"

definition tcp_end :: "(string \<times> nat \<times> bool) list \<Rightarrow> (string \<times> nat \<times> bool) list \<Rightarrow> nat \<Rightarrow> datapath \<Rightarrow> datapath" where
  "tcp_end ab ba sid d =
     (case PipeCounted ab ba (r_bytesIn (dp_r d)) (r_bytesOut (dp_r d)) of
        ((sent, cin), (back, cout)) \<Rightarrow>
          closeStream sid (upd_stream sid (\<lambda>s. s\<lparr>ds_body := ds_body s @ sent\<rparr>)
            (d\<lparr>dp_r := (dp_r d)\<lparr>r_activeTCP := r_activeTCP (dp_r d) - 1, r_bytesIn := cin, r_bytesOut := cout\<rparr>\<rparr>)))"

section \<open>Steps\<close>

inductive dp_step :: "header_codec \<Rightarrow> datapath \<Rightarrow> datapath \<Rightarrow> bool" for marshal where
  Datagram: "\<not> dp_done d \<Longrightarrow> length payload \<le> MaxDatagram \<Longrightarrow> dp_step marshal d (udp_datagram marshal env fail now key payload d)"
| Arrive: "sid < length (dp_streams d) \<Longrightarrow> \<not> ds_eof (dp_streams d ! sid) \<Longrightarrow>
    dp_step marshal d (upd_stream sid (\<lambda>s. s\<lparr>ds_got := ds_got s @ bs, ds_unread := ds_unread s @ bs\<rparr>) d)"
| ClientCloses: "sid < length (dp_streams d) \<Longrightarrow> dp_step marshal d (upd_stream sid (\<lambda>s. s\<lparr>ds_eof := True\<rparr>) d)"
| Read: "sid < length (dp_streams d) \<Longrightarrow> ds_reading (dp_streams d ! sid) \<Longrightarrow> key = sh_Remote (ds_header (dp_streams d ! sid)) \<Longrightarrow>
    ds_eof (dp_streams d ! sid) \<or> (\<exists>x. ReadFrame MaxDatagram (ds_unread (dp_streams d ! sid)) = Inr x) \<Longrightarrow>
    ok \<longrightarrow> \<not> dp_done d \<Longrightarrow> dp_step marshal d (peer_read ok now key sid d)"
| Reap: "\<not> dp_done d \<Longrightarrow> dp_step marshal d (udpReaper now d)"
| Accept: "\<not> dp_done d \<Longrightarrow> dp_step marshal d (tcp_accept marshal env remote d)"
| TcpEnd: "sid < length (dp_streams d) \<Longrightarrow> ds_open (dp_streams d ! sid) \<Longrightarrow> sh_Type (ds_header (dp_streams d ! sid)) = ''tcp'' \<Longrightarrow>
    dp_step marshal d (tcp_end ab ba sid d)"
| Stop: "\<not> dp_done d \<Longrightarrow> dp_step marshal d (stop_peers d)"

end
