(* ===== verification/Datapath_Peers.thy ===== *)
theory Datapath_Peers
  imports Datapath
begin

text \<open>
  The peers of a running forward: every registered address has an open stream of its own, every open
  UDP stream is registered, and every step of \<open>Datapath\<close> keeps it so. The rules \<open>peer_cases\<close>,
  \<open>udp_datagram_cases\<close>, \<open>peer_read_cases\<close> and \<open>tcp_accept_cases\<close> say what a step comes to.
\<close>

section \<open>The table of peers\<close>

text \<open>What the peers and the streams look like from each other: headers with their open sides, and the stream of each address.\<close>

definition dview :: "datapath \<Rightarrow> (stream_header \<times> bool) list" where
  "dview d = map (\<lambda>s. (ds_header s, ds_open s)) (dp_streams d)"

definition pview :: "datapath \<Rightarrow> string \<rightharpoonup> nat" where
  "pview d key = map_option up_stream (map_of (r_peers (dp_r d)) key)"

definition peer_table :: "forward \<Rightarrow> (stream_header \<times> bool) list \<Rightarrow> (string \<rightharpoonup> nat) \<Rightarrow> bool" where
  "peer_table f hs m \<longleftrightarrow>
     (\<forall>x\<in>set hs. \<exists>kind key. fst x = stream_hdr f kind key)
     \<and> (\<forall>key sid. m key = Some sid \<longrightarrow> sid < length hs \<and> hs ! sid = (stream_hdr f ''udp'' key, True)
          \<and> (\<forall>j. sid < j \<and> j < length hs \<longrightarrow> fst (hs ! j) \<noteq> stream_hdr f ''udp'' key))
     \<and> (\<forall>sid<length hs. snd (hs ! sid) \<and> sh_Type (fst (hs ! sid)) = ''udp'' \<longrightarrow> m (sh_Remote (fst (hs ! sid))) = Some sid)"

definition peers_ok :: "forward \<Rightarrow> datapath \<Rightarrow> bool" where
  "peers_ok f d \<longleftrightarrow> r_f (dp_r d) = f \<and> peer_table f (dview d) (pview d)"

lemma nth_upd: "j < length xs \<Longrightarrow> xs[i := x] ! j = (if j = i then x else xs ! j)"
  by (cases "i < length xs") auto

lemma stream_hdr_simps [simp]:
  "sh_Type (stream_hdr f kind key) = kind" "sh_Remote (stream_hdr f kind key) = key"
  "stream_hdr f kind key = stream_hdr f kind' key' \<longleftrightarrow> kind = kind' \<and> key = key'"
  by (auto simp: stream_hdr_def)

lemma peer_tableD:
  assumes "peer_table f hs m"
  shows "x \<in> set hs \<Longrightarrow> \<exists>kind key. fst x = stream_hdr f kind key"
    and "m key = Some sid \<Longrightarrow> sid < length hs \<and> hs ! sid = (stream_hdr f ''udp'' key, True)
          \<and> (\<forall>j. sid < j \<and> j < length hs \<longrightarrow> fst (hs ! j) \<noteq> stream_hdr f ''udp'' key)"
    and "sid < length hs \<Longrightarrow> snd (hs ! sid) \<Longrightarrow> sh_Type (fst (hs ! sid)) = ''udp'' \<Longrightarrow> m (sh_Remote (fst (hs ! sid))) = Some sid"
  using assms unfolding peer_table_def by blast+

lemma peer_table_append:
  assumes "peer_table f hs m" and "kind = ''udp'' \<Longrightarrow> m key = None"
  shows "peer_table f (hs @ [(stream_hdr f kind key, opened)]) (if kind = ''udp'' \<and> opened then m(key \<mapsto> length hs) else m)"
proof -
  note T = peer_tableD[OF assms(1)]
  let ?hs = "hs @ [(stream_hdr f kind key, opened)]" and ?m = "if kind = ''udp'' \<and> opened then m(key \<mapsto> length hs) else m"
  show ?thesis
    unfolding peer_table_def
  proof (intro conjI)
    show "\<forall>x\<in>set ?hs. \<exists>k r. fst x = stream_hdr f k r" using T(1) by auto
    show "\<forall>ky sid. ?m ky = Some sid \<longrightarrow>
        sid < length ?hs \<and> ?hs ! sid = (stream_hdr f ''udp'' ky, True)
        \<and> (\<forall>j. sid < j \<and> j < length ?hs \<longrightarrow>
             fst (?hs ! j) \<noteq> stream_hdr f ''udp'' ky)"
    proof (intro allI impI)
      fix ky sid assume m: "?m ky = Some sid"
      show "sid < length ?hs \<and> ?hs ! sid = (stream_hdr f ''udp'' ky, True)
        \<and> (\<forall>j. sid < j \<and> j < length ?hs \<longrightarrow>
             fst (?hs ! j) \<noteq> stream_hdr f ''udp'' ky)"
      proof (cases "m ky = Some sid")
        case True
        with T(2)[OF this] assms(2) show ?thesis by (auto simp: nth_append less_Suc_eq)
      next
        case False
        with m have "kind = ''udp''" "opened" "ky = key" "sid = length hs" by (auto split: if_splits)
        then show ?thesis by auto
      qed
    qed
    show "\<forall>sid<length ?hs. snd (?hs ! sid)
        \<and> sh_Type (fst (?hs ! sid)) = ''udp'' \<longrightarrow>
        ?m (sh_Remote (fst (?hs ! sid))) = Some sid"
      using T(3) assms(2) by (auto simp: nth_append less_Suc_eq)
  qed
qed

lemma peer_table_close:
  assumes "peer_table f hs m" and "sid < length hs" and "fst (hs ! sid) = stream_hdr f kind key"
  shows "peer_table f (hs[sid := (fst (hs ! sid), False)]) (if m key = Some sid then m(key := None) else m)"
proof -
  note T = peer_tableD[OF assms(1)]
  let ?hs = "hs[sid := (fst (hs ! sid), False)]" and ?m = "if m key = Some sid then m(key := None) else m"
  have fst_same: "fst (?hs ! j) = fst (hs ! j)" if "j < length hs" for j
    using that by (simp add: nth_upd)
  show ?thesis
    unfolding peer_table_def
  proof (intro conjI)
    show "\<forall>x\<in>set ?hs. \<exists>k r. fst x = stream_hdr f k r"
      using T(1) by (simp add: all_set_conv_all_nth fst_same)
    show "\<forall>ky j. ?m ky = Some j \<longrightarrow>
        j < length ?hs \<and> ?hs ! j = (stream_hdr f ''udp'' ky, True)
        \<and> (\<forall>i. j < i \<and> i < length ?hs \<longrightarrow> fst (?hs ! i) \<noteq> stream_hdr f ''udp'' ky)"
    proof (intro allI impI)
      fix ky j assume m: "?m ky = Some j"
      then have mj: "m ky = Some j" by (auto split: if_splits)
      have "j \<noteq> sid"
      proof
        assume "j = sid"
        with T(2)[OF mj] assms(3) have "ky = key" by simp
        with m mj \<open>j = sid\<close> show False by simp
      qed
      with T(2)[OF mj] show "j < length ?hs \<and> ?hs ! j = (stream_hdr f ''udp'' ky, True)
        \<and> (\<forall>i. j < i \<and> i < length ?hs \<longrightarrow> fst (?hs ! i) \<noteq> stream_hdr f ''udp'' ky)"
        by (simp add: fst_same)
    qed
    show "\<forall>j<length ?hs. snd (?hs ! j)
        \<and> sh_Type (fst (?hs ! j)) = ''udp'' \<longrightarrow>
        ?m (sh_Remote (fst (?hs ! j))) = Some j"
      using T(3) by (auto simp: nth_upd split: if_splits)
  qed
qed

lemma length_dview [simp]: "length (dview d) = length (dp_streams d)"
  by (simp add: dview_def)

lemma dview_nth: "sid < length (dp_streams d) \<Longrightarrow> dview d ! sid = (ds_header (dp_streams d ! sid), ds_open (dp_streams d ! sid))"
  by (simp add: dview_def)

text \<open>Changes of a stream that keep its header and its open side do not show.\<close>

lemma upd_stream_view [simp]:
  assumes "\<And>s. ds_header (g s) = ds_header s" "\<And>s. ds_open (g s) = ds_open s"
  shows "dview (upd_stream sid g d) = dview d"
  by (rule nth_equalityI) (auto simp: dview_def upd_stream_def nth_upd assms)

lemma upd_stream_frame [simp]:
  "dp_r (upd_stream sid g d) = dp_r d" "dp_done (upd_stream sid g d) = dp_done d" "dp_in (upd_stream sid g d) = dp_in d"
  "dp_out (upd_stream sid g d) = dp_out d" "length (dp_streams (upd_stream sid g d)) = length (dp_streams d)"
  by (simp_all add: upd_stream_def)

lemma pview_frame [simp]: "pview (upd_stream sid g d) = pview d"
  by (simp add: pview_def fun_eq_iff)

lemma closeStream_view: "dview (closeStream sid d) = (dview d)[sid := (fst (dview d ! sid), False)]"
proof (cases "sid < length (dp_streams d)")
  case True
  then show ?thesis by (intro nth_equalityI) (auto simp: dview_def closeStream_def upd_stream_def nth_upd)
next
  case False
  then show ?thesis by (simp add: dview_def closeStream_def upd_stream_def list_update_beyond)
qed

lemma closeStream_frame [simp]:
  "dp_r (closeStream sid d) = dp_r d" "dp_done (closeStream sid d) = dp_done d" "dp_in (closeStream sid d) = dp_in d"
  "dp_out (closeStream sid d) = dp_out d" "length (dp_streams (closeStream sid d)) = length (dp_streams d)" "pview (closeStream sid d) = pview d"
  by (simp_all add: closeStream_def)

lemma set_peers_frame [simp]:
  "dp_streams (set_peers ps d) = dp_streams d" "dview (set_peers ps d) = dview d" "r_f (dp_r (set_peers ps d)) = r_f (dp_r d)"
  "dp_in (set_peers ps d) = dp_in d" "dp_out (set_peers ps d) = dp_out d" "dp_done (set_peers ps d) = dp_done d"
  "r_peers (dp_r (set_peers ps d)) = ps"
  by (simp_all add: set_peers_def dview_def)

lemma removePeer_view:
  "dview (removePeer key sid d) = (dview d)[sid := (fst (dview d ! sid), False)]"
  "pview (removePeer key sid d) = (if pview d key = Some sid then (pview d)(key := None) else pview d)"
  "r_f (dp_r (removePeer key sid d)) = r_f (dp_r d)"
  by (auto simp: removePeer_def closeStream_view pview_def fun_eq_iff delete_conv' split: option.splits)

lemma removePeer_frame [simp]:
  "dp_in (removePeer key sid d) = dp_in d" "dp_out (removePeer key sid d) = dp_out d" "dp_done (removePeer key sid d) = dp_done d"
  "length (dp_streams (removePeer key sid d)) = length (dp_streams d)"
  by (simp_all add: removePeer_def split: option.split)

lemma removePeer_ok:
  assumes "peers_ok f d" and "sid < length (dp_streams d)" and "ds_header (dp_streams d ! sid) = stream_hdr f ''udp'' key"
  shows "peers_ok f (removePeer key sid d)"
  using assms peer_table_close[of f "dview d" "pview d" sid "''udp''" key]
  by (simp add: peers_ok_def removePeer_view dview_nth)

lemma peers_ok_update [simp]:
  "peers_ok f (d\<lparr>dp_in := x\<rparr>) = peers_ok f d" "peers_ok f (d\<lparr>dp_out := y\<rparr>) = peers_ok f d"
  "peers_ok f (d\<lparr>dp_r := (dp_r d)\<lparr>r_bytesIn := n\<rparr>\<rparr>) = peers_ok f d" "peers_ok f (d\<lparr>dp_r := (dp_r d)\<lparr>r_bytesOut := n\<rparr>\<rparr>) = peers_ok f d"
  "peers_ok f (d\<lparr>dp_r := (dp_r d)\<lparr>r_bytesOut := n\<rparr>, dp_out := y\<rparr>) = peers_ok f d"
  by (simp_all add: peers_ok_def dview_def pview_def[abs_def])

text \<open>What opening a stream comes to: nothing, a closed stream, or a new open stream at the end.\<close>

lemma openStream_cases:
  assumes "openStream marshal env kind remote d = (r, d1)"
  obtains (none) "r = None" "d1 = d"
  | (broken) written where "r = None" "d1 = d\<lparr>dp_streams := dp_streams d @ [new_stream (stream_hdr (r_f (dp_r d)) kind remote) written False]\<rparr>"
      "written = [] \<or> (\<exists>b k. WriteJSONLine marshal (stream_hdr (r_f (dp_r d)) kind remote) = Inr b \<and> written = take k b)"
  | (opened) b where "r = Some (length (dp_streams d))" "WriteJSONLine marshal (stream_hdr (r_f (dp_r d)) kind remote) = Inr b"
      "d1 = d\<lparr>dp_streams := dp_streams d @ [new_stream (stream_hdr (r_f (dp_r d)) kind remote) b True]\<rparr>"
proof (cases "\<not> oe_online env \<or> \<not> oe_stream env")
  case True
  with assms none show thesis by (simp add: openStream_def)
next
  case False
  note e = assms[unfolded openStream_def if_not_P[OF False] Let_def]
  show thesis
  proof (cases "WriteJSONLine marshal (stream_hdr (r_f (dp_r d)) kind remote)")
    case (Inl x)
    with e broken[of "[]"] show thesis by simp
  next
    case (Inr b)
    then show thesis
    proof (cases "oe_fail env")
      case None
      with e Inr opened[of b] show thesis by simp
    next
      case (Some k)
      with e Inr show thesis by (intro broken[of "take k b"]) auto
    qed
  qed
qed

lemma dview_append: "dview (d\<lparr>dp_streams := dp_streams d @ [new_stream h w o1]\<rparr>) = dview d @ [(h, o1)]"
  by (simp add: dview_def new_stream_def)

lemma pview_append [simp]: "pview (d\<lparr>dp_streams := x\<rparr>) = pview d"
  by (simp add: pview_def fun_eq_iff)

text \<open>What finding the peer of an address comes to.\<close>

lemma peer_cases:
  assumes "peer marshal env now key d = (r, d1)" and "peers_ok f d"
  obtains (offline) "r = None" "d1 = d"
  | (broken) written where "r = None" "d1 = d\<lparr>dp_streams := dp_streams d @ [new_stream (stream_hdr f ''udp'' key) written False]\<rparr>"
      "written = [] \<or> (\<exists>b k. WriteJSONLine marshal (stream_hdr f ''udp'' key) = Inr b \<and> written = take k b)" "pview d key = None"
  | (known) sid ps where "r = Some sid" "pview d key = Some sid" "d1 = set_peers ps d" "pview d1 = pview d"
  | (fresh) b where "r = Some (length (dp_streams d))" "pview d key = None" "WriteJSONLine marshal (stream_hdr f ''udp'' key) = Inr b"
      "dp_streams d1 = dp_streams d @ [(new_stream (stream_hdr f ''udp'' key) b True)\<lparr>ds_reading := True\<rparr>]"
      "pview d1 = (pview d)(key \<mapsto> length (dp_streams d))" "r_f (dp_r d1) = f" "dp_in d1 = dp_in d" "dp_out d1 = dp_out d"
proof -
  have f: "r_f (dp_r d) = f" using assms(2) by (simp add: peers_ok_def)
  show thesis
  proof (cases "map_of (r_peers (dp_r d)) key")
    case (Some p)
    with assms(1) have "r = Some (up_stream p)" "d1 = set_peers (AList.update key (p\<lparr>up_last := now\<rparr>) (r_peers (dp_r d))) d"
      by (auto simp: peer_def)
    moreover from this Some have "pview d key = Some (up_stream p)" "pview d1 = pview d"
      by (auto simp: pview_def fun_eq_iff update_conv')
    ultimately show thesis using known by blast
  next
    case None
    then have free: "pview d key = None" by (simp add: pview_def)
    obtain r0 d0 where o: "openStream marshal env ''udp'' key d = (r0, d0)" by fastforce
    from o show thesis
    proof (cases rule: openStream_cases)
      case none
      with None assms(1) o show thesis by (intro offline) (simp_all add: peer_def)
    next
      case (broken written)
      with None assms(1) o f free that(2)[of written] show thesis by (simp add: peer_def)
    next
      case (opened b)
      have l: "length (dp_streams d0) = Suc (length (dp_streams d))" by (simp add: opened)
      from None assms(1) o opened(1) have e: "r = Some (length (dp_streams d))"
        "d1 = upd_stream (length (dp_streams d)) (\<lambda>s. s\<lparr>ds_reading := True\<rparr>)
           (d0\<lparr>dp_r := (dp_r d0)\<lparr>r_peers := AList.update key \<lparr>up_stream = length (dp_streams d), up_last = now\<rparr> (r_peers (dp_r d0)),
                               r_totalConns := r_totalConns (dp_r d0) + 1\<rparr>\<rparr>)"
        by (simp_all add: peer_def)
      have "dp_streams d1 = dp_streams d @ [(new_stream (stream_hdr f ''udp'' key) b True)\<lparr>ds_reading := True\<rparr>]"
        using opened f by (simp add: e(2) upd_stream_def list_update_append)
      moreover have "pview d1 = (pview d)(key \<mapsto> length (dp_streams d))"
        using opened by (auto simp: e(2) pview_def fun_eq_iff update_conv')
      ultimately show thesis using fresh[OF e(1) free] opened f by (simp add: e(2))
    qed
  qed
qed

text \<open>A datagram leaves the table in order; what it does to the streams is said once, here.\<close>

lemma peers_ok_append:
  assumes "peers_ok f d" and "kind = ''udp'' \<Longrightarrow> pview d key = None"
    and "dp_streams d1 = dp_streams d @ [s]" "ds_header s = stream_hdr f kind key" "r_f (dp_r d1) = f"
    and "pview d1 = (if kind = ''udp'' \<and> ds_open s then (pview d)(key \<mapsto> length (dp_streams d)) else pview d)"
  shows "peers_ok f d1"
proof -
  have "dview d1 = dview d @ [(stream_hdr f kind key, ds_open s)]" using assms(3,4) by (simp add: dview_def)
  then show ?thesis
    using peer_table_append[of f "dview d" "pview d" kind key "ds_open s"] assms(1,2,5,6) by (auto simp: peers_ok_def split: if_splits)
qed

lemma peer_ok:
  assumes "peer marshal env now key d = (r, d1)" and "peers_ok f d"
  shows "peers_ok f d1 \<and> (\<forall>sid. r = Some sid \<longrightarrow> pview d1 key = Some sid)"
  using assms
proof (cases rule: peer_cases)
  case (broken written)
  have "peers_ok f d1"
    by (rule peers_ok_append[OF assms(2), where kind = "''udp''" and key = key and s = "new_stream (stream_hdr f ''udp'' key) written False"])
      (use broken assms(2) in \<open>simp_all add: new_stream_def peers_ok_def\<close>)
  with broken show ?thesis by simp
next
  case (fresh b)
  have "peers_ok f d1"
    by (rule peers_ok_append[OF assms(2), where kind = "''udp''" and key = key
          and s = "(new_stream (stream_hdr f ''udp'' key) b True)\<lparr>ds_reading := True\<rparr>"])
      (use fresh in \<open>simp_all add: new_stream_def\<close>)
  with fresh show ?thesis by simp
qed (use assms(2) in \<open>auto simp: peers_ok_def\<close>)

lemma registered:
  assumes "peers_ok f d" and "pview d key = Some sid"
  shows "sid < length (dp_streams d)" "ds_header (dp_streams d ! sid) = stream_hdr f ''udp'' key" "ds_open (dp_streams d ! sid)"
    "\<And>j. sid < j \<Longrightarrow> j < length (dp_streams d) \<Longrightarrow> ds_header (dp_streams d ! j) \<noteq> stream_hdr f ''udp'' key"
  using peer_tableD(2)[of f "dview d" "pview d" key sid] assms by (auto simp: peers_ok_def dview_nth)

lemma WriteFrame_frame: "length p \<le> MaxDatagram \<Longrightarrow> WriteFrame p = Inr (frame p)"
  by (simp add: WriteFrame_def frame_def)

definition put_body :: "nat \<Rightarrow> string \<Rightarrow> datapath \<Rightarrow> datapath" where
  "put_body sid b = upd_stream sid (\<lambda>s. s\<lparr>ds_body := ds_body s @ b\<rparr>)"

lemma put_body_simps [simp]:
  "dview (put_body sid b d) = dview d" "pview (put_body sid b d) = pview d" "dp_r (put_body sid b d) = dp_r d"
  "dp_in (put_body sid b d) = dp_in d" "dp_out (put_body sid b d) = dp_out d"
  "length (dp_streams (put_body sid b d)) = length (dp_streams d)" "peers_ok f (put_body sid b d) = peers_ok f d"
  by (simp_all add: put_body_def peers_ok_def)

lemma put_body_nth:
  "j < length (dp_streams d) \<Longrightarrow> dp_streams (put_body sid b d) ! j =
     (if j = sid then (dp_streams d ! sid)\<lparr>ds_body := ds_body (dp_streams d ! sid) @ b\<rparr> else dp_streams d ! j)"
  by (simp add: put_body_def upd_stream_def nth_upd)

lemma udp_datagram_cases:
  assumes "peers_ok f d" and "length payload \<le> MaxDatagram"
    and "peer marshal env now key (d\<lparr>dp_in := dp_in d @ [(key, payload)]\<rparr>) = (r, d1)"
  obtains (dropped) "r = None" "udp_datagram marshal env fail now key payload d = d1"
  | (sent) sid where "r = Some sid" "udp_datagram marshal env fail now key payload d
      = (put_body sid (frame payload) d1)\<lparr>dp_r := (dp_r d1)\<lparr>r_bytesIn := r_bytesIn (dp_r d1) + int (length payload)\<rparr>\<rparr>"
  | (failed) sid k where "r = Some sid" "udp_datagram marshal env fail now key payload d
      = removePeer key sid (put_body sid (take k (frame payload)) d1)"
proof (cases r)
  case None
  with assms(3) dropped show thesis by (simp add: udp_datagram_def)
next
  case (Some sid)
  have ok: "peers_ok f d1" "pview d1 key = Some sid" using peer_ok[OF assms(3)] assms(1) Some by auto
  note o = registered(3)[OF ok]
  show thesis
  proof (cases fail)
    case None
    with Some o assms show thesis
      by (intro sent[OF Some]) (simp add: udp_datagram_def WriteFrame_frame put_body_def Let_def)
  next
    case (Some k)
    with \<open>r = Some sid\<close> o assms show thesis
      by (intro failed[of sid k]) (simp_all add: udp_datagram_def WriteFrame_frame put_body_def)
  qed
qed

lemma udp_datagram_ok:
  assumes "peers_ok f d" and "length payload \<le> MaxDatagram"
  shows "peers_ok f (udp_datagram marshal env fail now key payload d)"
proof -
  obtain r d1 where p: "peer marshal env now key (d\<lparr>dp_in := dp_in d @ [(key, payload)]\<rparr>) = (r, d1)" by fastforce
  have ok: "peers_ok f d1" "\<And>sid. r = Some sid \<Longrightarrow> pview d1 key = Some sid" using peer_ok[OF p] assms(1) by auto
  from assms p show ?thesis
  proof (cases rule: udp_datagram_cases[where fail = fail])
    case (sent sid)
    have "peers_ok f ((put_body sid (frame payload) d1)\<lparr>dp_r := (dp_r (put_body sid (frame payload) d1))\<lparr>r_bytesIn := r_bytesIn (dp_r d1) + int (length payload)\<rparr>\<rparr>)"
      unfolding peers_ok_update using ok(1) by simp
    with sent show ?thesis by simp
  next
    case (failed sid k)
    then show ?thesis using ok registered[OF ok(1), of key sid]
      by (simp add: removePeer_ok put_body_nth)
  qed (use ok in simp)
qed

lemma touch_peer_frame [simp]:
  "dp_streams (touch_peer now key sid d) = dp_streams d" "dp_in (touch_peer now key sid d) = dp_in d"
  "dp_out (touch_peer now key sid d) = dp_out d" "pview (touch_peer now key sid d) = pview d" "dview (touch_peer now key sid d) = dview d"
  "r_f (dp_r (touch_peer now key sid d)) = r_f (dp_r d)"
  by (auto simp: touch_peer_def pview_def fun_eq_iff update_conv' split: option.split)

lemma peers_ok_touch [simp]: "peers_ok f (touch_peer now key sid d) = peers_ok f d"
  by (simp add: peers_ok_def)

definition set_unread :: "nat \<Rightarrow> string \<Rightarrow> datapath \<Rightarrow> datapath" where
  "set_unread sid rest = upd_stream sid (\<lambda>s. s\<lparr>ds_unread := rest\<rparr>)"

definition stop_reading :: "nat \<Rightarrow> datapath \<Rightarrow> datapath" where
  "stop_reading sid = upd_stream sid (\<lambda>s. s\<lparr>ds_reading := False\<rparr>)"

lemma reader_frames [simp]:
  "dview (set_unread sid rest d) = dview d" "pview (set_unread sid rest d) = pview d" "dp_r (set_unread sid rest d) = dp_r d"
  "dview (stop_reading sid d) = dview d" "pview (stop_reading sid d) = pview d" "dp_r (stop_reading sid d) = dp_r d"
  "length (dp_streams (set_unread sid rest d)) = length (dp_streams d)" "length (dp_streams (stop_reading sid d)) = length (dp_streams d)"
  "peers_ok f (set_unread sid rest d) = peers_ok f d" "peers_ok f (stop_reading sid d) = peers_ok f d"
  "dp_in (set_unread sid rest d) = dp_in d" "dp_out (set_unread sid rest d) = dp_out d"
  "dp_in (stop_reading sid d) = dp_in d" "dp_out (stop_reading sid d) = dp_out d"
  by (simp_all add: set_unread_def stop_reading_def peers_ok_def)

lemma peer_read_cases:
  obtains (ended) "peer_read ok now key sid d = removePeer key sid (stop_reading sid d)"
  | (refused) payload rest where "ReadFrame MaxDatagram (ds_unread (dp_streams d ! sid)) = Inr (payload, rest)" "\<not> ok"
      "peer_read ok now key sid d = removePeer key sid (stop_reading sid (set_unread sid rest d))"
  | (passed) payload rest n where "ReadFrame MaxDatagram (ds_unread (dp_streams d ! sid)) = Inr (payload, rest)" "ok"
      "peer_read ok now key sid d = (touch_peer now key sid (set_unread sid rest d))
         \<lparr>dp_r := (dp_r (touch_peer now key sid (set_unread sid rest d)))\<lparr>r_bytesOut := n\<rparr>, dp_out := dp_out d @ [(sid, key, payload)]\<rparr>"
proof (cases "ReadFrame MaxDatagram (ds_unread (dp_streams d ! sid))")
  case (Inl e)
  then show thesis by (intro ended) (simp add: peer_read_def end_reader_def stop_reading_def)
next
  case (Inr x)
  obtain payload rest where x: "x = (payload, rest)" by fastforce
  show thesis
  proof (cases ok)
    case True
    with Inr x show thesis by (intro passed[of payload rest]) (simp_all add: peer_read_def set_unread_def Let_def)
  next
    case False
    with Inr x show thesis by (intro refused[of payload rest]) (simp_all add: peer_read_def end_reader_def set_unread_def stop_reading_def Let_def)
  qed
qed

lemma reader_headers [simp]:
  "j < length (dp_streams d) \<Longrightarrow> ds_header (dp_streams (set_unread sid rest d) ! j) = ds_header (dp_streams d ! j)"
  "j < length (dp_streams d) \<Longrightarrow> ds_header (dp_streams (stop_reading sid d) ! j) = ds_header (dp_streams d ! j)"
  by (simp_all add: set_unread_def stop_reading_def upd_stream_def nth_upd)

lemma peer_read_ok:
  assumes "peers_ok f d" and "sid < length (dp_streams d)" and "ds_header (dp_streams d ! sid) = stream_hdr f ''udp'' key"
  shows "peers_ok f (peer_read ok now key sid d)"
proof (cases rule: peer_read_cases[of ok now key sid d])
  case ended
  with assms show ?thesis by (simp add: removePeer_ok)
next
  case (refused payload rest)
  with assms show ?thesis by (simp add: removePeer_ok)
next
  case (passed payload rest n)
  then show ?thesis using assms(1) by simp
qed

lemma removePeer_header:
  "j < length (dp_streams d) \<Longrightarrow> ds_header (dp_streams (removePeer key sid d) ! j) = ds_header (dp_streams d ! j)"
  using removePeer_view(1)[of key sid d] dview_nth[of j "removePeer key sid d"] dview_nth[of j d] nth_upd[of j "dview d" sid]
  by (auto split: if_splits)

definition keys_ok :: "datapath \<Rightarrow> bool" where
  "keys_ok d \<longleftrightarrow> distinct (map fst (r_peers (dp_r d)))"

lemma udpReaper_ok:
  assumes "peers_ok f d" and "keys_ok d"
  shows "peers_ok f (udpReaper now d)"
proof -
  have fold: "peers_ok f (foldl (\<lambda>d (key, p). removePeer key (up_stream p) d) d ps)"
    if "peers_ok f d" "\<forall>(key, p)\<in>set ps. up_stream p < length (dp_streams d) \<and> ds_header (dp_streams d ! up_stream p) = stream_hdr f ''udp'' key"
    for d ps
    using that
  proof (induction ps arbitrary: d)
    case (Cons x ps)
    obtain key p where x: "x = (key, p)" by fastforce
    from Cons.prems x have "peers_ok f (removePeer key (up_stream p) d)" by (simp add: removePeer_ok)
    moreover have "\<forall>(k, q)\<in>set ps. up_stream q < length (dp_streams (removePeer key (up_stream p) d))
        \<and> ds_header (dp_streams (removePeer key (up_stream p) d) ! up_stream q) = stream_hdr f ''udp'' k"
      using Cons.prems(2) by (auto simp: removePeer_header)
    ultimately show ?case using Cons.IH by (simp add: x)
  qed simp
  have "up_stream p < length (dp_streams d) \<and> ds_header (dp_streams d ! up_stream p) = stream_hdr f ''udp'' key"
    if "(key, p) \<in> set (r_peers (dp_r d))" for key p
  proof -
    have "pview d key = Some (up_stream p)" using that assms(2) by (simp add: pview_def keys_ok_def)
    with registered[OF assms(1)] show ?thesis by blast
  qed
  then show ?thesis unfolding udpReaper_def by (intro fold[OF assms(1)]) auto
qed

lemma close_all_view:
  "dview (foldl (\<lambda>d (key, p). closeStream (up_stream p) d) d ps) =
     map (\<lambda>j. (fst (dview d ! j), snd (dview d ! j) \<and> j \<notin> up_stream ` snd ` set ps)) [0..<length (dp_streams d)]"
proof (induction ps arbitrary: d)
  case Nil
  then show ?case by (intro nth_equalityI) simp_all
next
  case (Cons x ps)
  obtain key p where x: "x = (key, p)" by fastforce
  show ?case
    by (simp add: x Cons.IH closeStream_view nth_upd)
qed

lemma stop_peers_ok:
  assumes "peers_ok f d"
  shows "peers_ok f (stop_peers d)"
proof -
  let ?ps = "r_peers (dp_r d)" and ?d = "d\<lparr>dp_done := True\<rparr>"
  have dv: "dview ?d = dview d" by (simp add: dview_def)
  have view: "dview (stop_peers d) = map (\<lambda>j. (fst (dview d ! j), snd (dview d ! j) \<and> j \<notin> up_stream ` snd ` set ?ps)) [0..<length (dp_streams d)]"
    by (simp add: stop_peers_def close_all_view dv)
  have dr: "dp_r (foldl (\<lambda>d (key, p). closeStream (up_stream p) d) e ps) = dp_r e" for e ps
    by (induction ps arbitrary: e) auto
  have none: "pview (stop_peers d) = Map.empty" by (simp add: stop_peers_def pview_def fun_eq_iff)
  note T = peer_tableD[OF assms[unfolded peers_ok_def, THEN conjunct2]]
  have "\<not> (snd (dview d ! j) \<and> j \<notin> up_stream ` snd ` set ?ps \<and> sh_Type (fst (dview d ! j)) = ''udp'')" if "j < length (dp_streams d)" for j
  proof
    assume h: "snd (dview d ! j) \<and> j \<notin> up_stream ` snd ` set ?ps \<and> sh_Type (fst (dview d ! j)) = ''udp''"
    then have "pview d (sh_Remote (fst (dview d ! j))) = Some j" using T(3)[of j] that by simp
    then obtain p where "map_of ?ps (sh_Remote (fst (dview d ! j))) = Some p" "up_stream p = j" by (auto simp: pview_def)
    then have "j \<in> up_stream ` snd ` set ?ps" by (force dest: map_of_SomeD)
    with h show False by blast
  qed
  then have "peer_table f (dview (stop_peers d)) Map.empty"
    using T(1) by (auto simp: peer_table_def view all_set_conv_all_nth)
  moreover have "r_f (dp_r (stop_peers d)) = f" using assms by (simp add: stop_peers_def dr peers_ok_def)
  ultimately show ?thesis by (simp add: peers_ok_def none)
qed

lemma tcp_accept_cases:
  assumes "peers_ok f d"
  obtains (none) "tcp_accept marshal env remote d = d"
  | (broken) written where "tcp_accept marshal env remote d = d\<lparr>dp_streams := dp_streams d @ [new_stream (stream_hdr f ''tcp'' remote) written False]\<rparr>"
      "written = [] \<or> (\<exists>b k. WriteJSONLine marshal (stream_hdr f ''tcp'' remote) = Inr b \<and> written = take k b)"
  | (opened) b r where "WriteJSONLine marshal (stream_hdr f ''tcp'' remote) = Inr b"
      "tcp_accept marshal env remote d = d\<lparr>dp_streams := dp_streams d @ [new_stream (stream_hdr f ''tcp'' remote) b True], dp_r := r\<rparr>"
      "r_peers r = r_peers (dp_r d)" "r_f r = f" "r_activeTCP r = r_activeTCP (dp_r d) + 1"
proof -
  have f: "r_f (dp_r d) = f" using assms by (simp add: peers_ok_def)
  obtain r d1 where o: "openStream marshal env ''tcp'' remote d = (r, d1)" by fastforce
  from o show thesis
  proof (cases rule: openStream_cases)
    case none
    with o \<open>\<lbrakk>tcp_accept marshal env remote d = d\<rbrakk> \<Longrightarrow> thesis\<close> show thesis by (simp add: tcp_accept_def)
  next
    case (broken written)
    with o f that(2)[of written] show thesis by (simp add: tcp_accept_def)
  next
    case (opened b)
    with o f show thesis by (intro that(3)[of b "(dp_r d)\<lparr>r_activeTCP := r_activeTCP (dp_r d) + 1, r_totalConns := r_totalConns (dp_r d) + 1\<rparr>"])
        (simp_all add: tcp_accept_def)
  qed
qed

lemma tcp_accept_ok:
  assumes "peers_ok f d"
  shows "peers_ok f (tcp_accept marshal env remote d)"
  using assms
proof (cases rule: tcp_accept_cases[where marshal = marshal and env = env and remote = remote])
  case (broken written)
  show ?thesis
    by (rule peers_ok_append[OF assms, where kind = "''tcp''" and key = remote and s = "new_stream (stream_hdr f ''tcp'' remote) written False"])
      (use broken assms in \<open>simp_all add: new_stream_def peers_ok_def\<close>)
next
  case (opened b r)
  show ?thesis
    by (rule peers_ok_append[OF assms, where kind = "''tcp''" and key = remote and s = "new_stream (stream_hdr f ''tcp'' remote) b True"])
      (use opened in \<open>simp_all add: new_stream_def pview_def fun_eq_iff\<close>)
qed (use assms in simp)

lemma tcp_end_split:
  "\<exists>sent r. tcp_end ab ba sid d = closeStream sid (put_body sid sent (d\<lparr>dp_r := r\<rparr>)) \<and> r_peers r = r_peers (dp_r d) \<and> r_f r = r_f (dp_r d)
     \<and> r_activeTCP r = r_activeTCP (dp_r d) - 1"
proof -
  obtain sent cin ret cout where "PipeCounted ab ba (r_bytesIn (dp_r d)) (r_bytesOut (dp_r d)) = ((sent, cin), (ret, cout))"
    by (metis prod.collapse)
  then show ?thesis
    by (intro exI[of _ sent] exI[of _ "(dp_r d)\<lparr>r_activeTCP := r_activeTCP (dp_r d) - 1, r_bytesIn := cin, r_bytesOut := cout\<rparr>"])
      (simp add: tcp_end_def put_body_def)
qed

lemma tcp_end_ok:
  assumes "peers_ok f d" and "sid < length (dp_streams d)" and "sh_Type (ds_header (dp_streams d ! sid)) = ''tcp''"
  shows "peers_ok f (tcp_end ab ba sid d)"
proof -
  obtain sent r where e: "tcp_end ab ba sid d = closeStream sid (put_body sid sent (d\<lparr>dp_r := r\<rparr>))"
    "r_peers r = r_peers (dp_r d)" "r_f r = r_f (dp_r d)" using tcp_end_split by blast
  have T: "peer_table f (dview d) (pview d)" "r_f (dp_r d) = f" using assms(1) by (simp_all add: peers_ok_def)
  obtain key where key: "ds_header (dp_streams d ! sid) = stream_hdr f ''tcp'' key"
    using peer_tableD(1)[OF T(1), OF nth_mem, of sid] assms(2,3) by (auto simp: dview_nth)
  have "pview d key \<noteq> Some sid"
    using registered(2)[OF assms(1), of key sid] key by auto
  moreover have "dview (d\<lparr>dp_r := r\<rparr>) = dview d" "pview (d\<lparr>dp_r := r\<rparr>) = pview d" by (simp_all add: dview_def pview_def fun_eq_iff e(2))
  ultimately show ?thesis
    using peer_table_close[OF T(1), of sid "''tcp''" key] assms(2) key T(2)
    by (simp add: peers_ok_def e closeStream_view dview_nth)
qed

end
