(* ===== verification/Datapath_Streams.thy ===== *)
theory Datapath_Streams
  imports Datapath_Peers
begin

text \<open>
  The bytes of a running forward: what its streams carry is what their addresses sent, in order,
  up to the target of the client; what comes back is what the client sent. The invariant \<open>dp_ok\<close>
  holds in every reachable state.
\<close>

section \<open>What the streams carry\<close>

text \<open>The datagrams a stream carries, and all those of the streams of one address.\<close>

definition delivered :: "data_stream \<Rightarrow> string list" where
  "delivered s = deliver_frames (\<lambda>_. True) (ds_body s)"

definition sview :: "datapath \<Rightarrow> (stream_header \<times> string list) list" where
  "sview d = map (\<lambda>s. (ds_header s, delivered s)) (dp_streams d)"

definition carried :: "stream_header \<Rightarrow> (stream_header \<times> string list) list \<Rightarrow> string list" where
  "carried h xs = concat (map snd (filter (\<lambda>x. fst x = h) xs))"

definition received :: "string \<Rightarrow> datapath \<Rightarrow> string list" where
  "received key d = map snd (filter (\<lambda>x. fst x = key) (dp_in d))"

definition order_ok :: "forward \<Rightarrow> datapath \<Rightarrow> bool" where
  "order_ok f d \<longleftrightarrow> (\<forall>key. subseq (carried (stream_hdr f ''udp'' key) (sview d)) (received key d))"

lemma carried_append [simp]: "carried h (xs @ ys) = carried h xs @ carried h ys"
  by (simp add: carried_def)

lemma carried_Cons [simp]: "carried h (x # xs) = (if fst x = h then snd x else []) @ carried h xs"
  by (simp add: carried_def)

lemma carried_Nil [simp]: "carried h [] = []"
  by (simp add: carried_def)

lemma carried_none: "\<forall>x\<in>set xs. fst x \<noteq> h \<Longrightarrow> carried h xs = []"
  by (induction xs) auto

lemma carried_extend:
  assumes "i < length xs" and "\<And>j. i < j \<Longrightarrow> j < length xs \<Longrightarrow> fst (xs ! j) \<noteq> fst (xs ! i)"
  shows "carried h (xs[i := (fst (xs ! i), snd (xs ! i) @ new)]) = carried h xs @ (if fst (xs ! i) = h then new else [])"
proof -
  have xs: "xs = take i xs @ xs ! i # drop (Suc i) xs" using assms(1) by (simp add: id_take_nth_drop)
  have "fst x \<noteq> fst (xs ! i)" if "x \<in> set (drop (Suc i) xs)" for x
  proof -
    obtain j where "x = xs ! (Suc i + j)" "Suc i + j < length xs" using \<open>x \<in> set (drop (Suc i) xs)\<close> by (auto simp: in_set_conv_nth)
    then show ?thesis using assms(2)[of "Suc i + j"] by simp
  qed
  then have rest: "carried h (drop (Suc i) xs) = []" if "fst (xs ! i) = h" using that by (intro carried_none) auto
  have "xs[i := (fst (xs ! i), snd (xs ! i) @ new)] = take i xs @ (fst (xs ! i), snd (xs ! i) @ new) # drop (Suc i) xs"
    using assms(1) by (simp add: upd_conv_take_nth_drop)
  moreover have "carried h xs = carried h (take i xs @ xs ! i # drop (Suc i) xs)" using xs by simp
  ultimately show ?thesis using rest by simp
qed

lemma carried_other:
  assumes "i < length xs" and "fst (xs ! i) \<noteq> h"
  shows "carried h (xs[i := (fst (xs ! i), v)]) = carried h xs"
proof -
  have xs: "xs = take i xs @ xs ! i # drop (Suc i) xs" using assms(1) by (simp add: id_take_nth_drop)
  have "carried h (take i xs @ (fst (xs ! i), v) # drop (Suc i) xs) = carried h (take i xs @ xs ! i # drop (Suc i) xs)"
    using assms(2) by simp
  then show ?thesis using xs assms(1) by (simp add: upd_conv_take_nth_drop)
qed

lemma length_sview [simp]: "length (sview d) = length (dp_streams d)"
  by (simp add: sview_def)

lemma sview_nth: "i < length (dp_streams d) \<Longrightarrow> sview d ! i = (ds_header (dp_streams d ! i), delivered (dp_streams d ! i))"
  by (simp add: sview_def)

lemma upd_stream_sview [simp]:
  assumes "\<And>s. ds_header (g s) = ds_header s" "\<And>s. ds_body (g s) = ds_body s"
  shows "sview (upd_stream sid g d) = sview d"
  by (rule nth_equalityI) (auto simp: sview_def upd_stream_def nth_upd assms delivered_def)

lemma sview_frames [simp]:
  "sview (closeStream sid d) = sview d" "sview (set_peers ps d) = sview d" "sview (removePeer key sid d) = sview d"
  "sview (set_unread sid rest d) = sview d" "sview (stop_reading sid d) = sview d" "sview (touch_peer now key sid d) = sview d"
  "sview (d\<lparr>dp_in := x\<rparr>) = sview d" "sview (d\<lparr>dp_out := y\<rparr>) = sview d" "sview (d\<lparr>dp_r := r\<rparr>) = sview d"
  "sview (d\<lparr>dp_r := r, dp_out := y\<rparr>) = sview d" "sview (d\<lparr>dp_done := b\<rparr>) = sview d"
  by (simp_all add: closeStream_def set_unread_def stop_reading_def removePeer_def) (simp_all add: sview_def split: option.split)

lemma sview_new [simp]: "sview (d\<lparr>dp_streams := dp_streams d @ [new_stream h w o1]\<rparr>) = sview d @ [(h, [])]"
  by (simp add: sview_def new_stream_def delivered_def)

lemma sview_fold [simp]:
  "sview (foldl (\<lambda>d (key, p). removePeer key (up_stream p) d) d ps) = sview d"
  "sview (foldl (\<lambda>d (key, p). closeStream (up_stream p) d) d ps) = sview d"
  by (induction ps arbitrary: d) auto

lemma received_frames [simp]:
  "dp_in (foldl (\<lambda>d (key, p). removePeer key (up_stream p) d) d ps) = dp_in d"
  "dp_in (foldl (\<lambda>d (key, p). closeStream (up_stream p) d) d ps) = dp_in d"
  by (induction ps arbitrary: d) auto

text \<open>A body is complete when it consists of whole frames.\<close>

definition complete :: "string \<Rightarrow> bool" where
  "complete b \<longleftrightarrow> (\<exists>ps. b = concat (map frame ps) \<and> (\<forall>p\<in>set ps. length p \<le> MaxDatagram))"

lemma complete_Nil [simp]: "complete []"
  unfolding complete_def by (intro exI[of _ "[]"]) simp

lemma complete_frame:
  assumes "complete b" and "length p \<le> MaxDatagram"
  shows "complete (b @ frame p)"
proof -
  obtain ps where "b = concat (map frame ps)" "\<forall>p\<in>set ps. length p \<le> MaxDatagram" using assms(1) by (auto simp: complete_def)
  with assms(2) show ?thesis unfolding complete_def by (intro exI[of _ "ps @ [p]"]) auto
qed

lemma deliver_partial:
  assumes "length p \<le> MaxDatagram" and "k < length (frame p)"
  shows "deliver_frames w (take k (frame p)) = []"
proof -
  have l: "length (frame p) = 2 + length p" by (simp add: frame_def PutUint16_def)
  show ?thesis
  proof (cases "k < 2")
    case True
    then show ?thesis using l by (subst deliver_frames.simps) (simp add: ReadFrame_def read_full_def)
  next
    case False
    then obtain j where j: "k = Suc (Suc j)" "j < length p" using assms(2) l by (metis add_2_eq_Suc le_add_diff_inverse not_less nat_add_left_cancel_less)
    have "take k (frame p) = byte_hi (of_nat (length p)) # byte_lo (of_nat (length p)) # take j p"
      by (simp add: j frame_def PutUint16_def)
    then show ?thesis using j assms(1)
      by (subst deliver_frames.simps) (simp add: ReadFrame_def read_full_def Uint16_bytes unat_of_length Let_def)
  qed
qed

lemma deliver_append:
  assumes "complete b"
  shows "deliver_frames (\<lambda>_. True) (b @ s) = deliver_frames (\<lambda>_. True) b @ deliver_frames (\<lambda>_. True) s"
proof -
  obtain ps where b: "b = concat (map frame ps)" "\<forall>p\<in>set ps. length p \<le> MaxDatagram" using assms by (auto simp: complete_def)
  have "deliver_frames (\<lambda>_. True) (concat (map frame ps) @ s) = ps @ deliver_frames (\<lambda>_. True) s"
    using b(2) by (induction ps) (simp_all add: deliver_frame)
  moreover have "deliver_frames (\<lambda>_. True) b = ps" unfolding b(1) by (rule deliver_all) (use b(2) in simp)
  ultimately show ?thesis by (simp add: b(1))
qed

lemma deliver_cut:
  assumes "complete b" and "length p \<le> MaxDatagram"
  shows "deliver_frames (\<lambda>_. True) (b @ take k (frame p)) = deliver_frames (\<lambda>_. True) b @ (if k < length (frame p) then [] else [p])"
  using deliver_partial[of p k] deliver_frame[of p "\<lambda>_. True" "[]"] assms by (simp add: deliver_append)

definition stream_ok :: "header_codec \<Rightarrow> data_stream \<Rightarrow> bool" where
  "stream_ok marshal s \<longleftrightarrow>
     (WriteJSONLine marshal (ds_header s) = Inr (ds_line s)
      \<or> ds_body s = [] \<and> (ds_line s = [] \<or> (\<exists>b k. WriteJSONLine marshal (ds_header s) = Inr b \<and> ds_line s = take k b)))
     \<and> (ds_open s \<longrightarrow> WriteJSONLine marshal (ds_header s) = Inr (ds_line s))
     \<and> (ds_open s \<and> sh_Type (ds_header s) = ''udp'' \<longrightarrow> complete (ds_body s))"

definition wire_ok :: "header_codec \<Rightarrow> datapath \<Rightarrow> bool" where
  "wire_ok marshal d \<longleftrightarrow> (\<forall>s\<in>set (dp_streams d). stream_ok marshal s)"

lemma wire_upd:
  assumes "wire_ok marshal d" and "\<And>s. stream_ok marshal s \<Longrightarrow> stream_ok marshal (g s)"
  shows "wire_ok marshal (upd_stream sid g d)"
proof (cases "sid < length (dp_streams d)")
  case True
  with assms show ?thesis by (simp add: wire_ok_def upd_stream_def all_set_conv_all_nth nth_upd)
next
  case False
  with assms(1) show ?thesis by (simp add: wire_ok_def upd_stream_def list_update_beyond)
qed

lemma wire_frames:
  "wire_ok marshal d \<Longrightarrow> wire_ok marshal (closeStream sid d)" "wire_ok marshal d \<Longrightarrow> wire_ok marshal (set_unread sid rest d)"
  "wire_ok marshal d \<Longrightarrow> wire_ok marshal (stop_reading sid d)" "wire_ok marshal (set_peers ps d) = wire_ok marshal d"
  "wire_ok marshal (touch_peer now key sid d) = wire_ok marshal d"
  unfolding closeStream_def set_unread_def stop_reading_def
  by (rule wire_upd; simp add: stream_ok_def)+ (simp_all add: wire_ok_def)

lemma wire_update [simp]:
  "wire_ok marshal (d\<lparr>dp_in := x\<rparr>) = wire_ok marshal d" "wire_ok marshal (d\<lparr>dp_r := r\<rparr>) = wire_ok marshal d"
  "wire_ok marshal (d\<lparr>dp_r := r, dp_out := y\<rparr>) = wire_ok marshal d" "wire_ok marshal (d\<lparr>dp_done := b\<rparr>) = wire_ok marshal d"
  by (simp_all add: wire_ok_def)

lemma wire_remove: "wire_ok marshal d \<Longrightarrow> wire_ok marshal (removePeer key sid d)"
  by (auto simp: removePeer_def wire_frames split: option.split)

lemma wire_folds:
  "wire_ok marshal d \<Longrightarrow> wire_ok marshal (foldl (\<lambda>d (key, p). removePeer key (up_stream p) d) d ps)"
  "wire_ok marshal d \<Longrightarrow> wire_ok marshal (foldl (\<lambda>d (key, p). closeStream (up_stream p) d) d ps)"
  by (induction ps arbitrary: d) (auto simp: wire_remove wire_frames)

lemma wire_append:
  assumes "wire_ok marshal d" and "dp_streams d1 = dp_streams d @ [s]" and "ds_body s = []"
    and "WriteJSONLine marshal (ds_header s) = Inr (ds_line s)
      \<or> \<not> ds_open s \<and> (ds_line s = [] \<or> (\<exists>b k. WriteJSONLine marshal (ds_header s) = Inr b \<and> ds_line s = take k b))"
  shows "wire_ok marshal d1"
  using assms by (auto simp: wire_ok_def stream_ok_def)

text \<open>Body writes: whole frames to an open stream, anything to one that is closed with it.\<close>

lemma wire_put_frame:
  assumes "wire_ok marshal d" and "sid < length (dp_streams d)" and "ds_open (dp_streams d ! sid)" and "length p \<le> MaxDatagram"
  shows "wire_ok marshal (put_body sid (frame p) d)"
  unfolding wire_ok_def all_set_conv_all_nth
proof (intro allI impI)
  fix j assume j: "j < length (dp_streams (put_body sid (frame p) d))"
  then have "stream_ok marshal (dp_streams d ! j)" using assms(1) by (simp add: wire_ok_def)
  then show "stream_ok marshal (dp_streams (put_body sid (frame p) d) ! j)"
    using j assms(3,4) by (auto simp: put_body_nth stream_ok_def complete_frame complete_frame[OF complete_Nil, simplified])
qed

lemma wire_put_close:
  assumes "wire_ok marshal d" and "sid < length (dp_streams d)" and "ds_open (dp_streams d ! sid)"
  shows "wire_ok marshal (closeStream sid (put_body sid b d))"
  unfolding wire_ok_def all_set_conv_all_nth
proof (intro allI impI)
  fix j assume j: "j < length (dp_streams (closeStream sid (put_body sid b d)))"
  then have "stream_ok marshal (dp_streams d ! j)" using assms(1) by (simp add: wire_ok_def)
  then show "stream_ok marshal (dp_streams (closeStream sid (put_body sid b d)) ! j)"
    using j assms(3) by (auto simp: closeStream_def upd_stream_def nth_upd put_body_def stream_ok_def)
qed

lemma removePeer_streams: "dp_streams (removePeer key sid d) = dp_streams (closeStream sid d)"
  by (auto simp: removePeer_def closeStream_def upd_stream_def split: option.split)

lemma peer_wire:
  assumes "peer marshal env now key d = (r, d1)" and "peers_ok f d" and "wire_ok marshal d"
  shows "wire_ok marshal d1 \<and> carried (stream_hdr f ''udp'' k) (sview d1) = carried (stream_hdr f ''udp'' k) (sview d) \<and> dp_in d1 = dp_in d"
  using assms
proof (cases rule: peer_cases)
  case (broken written)
  then have "wire_ok marshal d1" by (intro wire_append[OF assms(3)]) (auto simp: new_stream_def)
  with broken show ?thesis by simp
next
  case (fresh b)
  then have "wire_ok marshal d1" by (intro wire_append[OF assms(3)]) (auto simp: new_stream_def)
  with fresh show ?thesis by (simp add: sview_def new_stream_def delivered_def)
qed (use assms(3) in \<open>simp_all add: wire_frames\<close>)

lemma carried_put:
  assumes "peers_ok f d" and "pview d key = Some sid" and "wire_ok marshal d" and "length p \<le> MaxDatagram"
  shows "\<exists>new. subseq new [p] \<and>
    (\<forall>k. carried (stream_hdr f ''udp'' k) (sview (put_body sid (take n (frame p)) d))
       = carried (stream_hdr f ''udp'' k) (sview d) @ (if k = key then new else []))"
proof -
  note reg = registered[OF assms(1,2)]
  let ?s = "dp_streams d ! sid" and ?new = "if n < length (frame p) then [] else [p]"
  have "complete (ds_body ?s)" using assms(3) reg by (auto simp: wire_ok_def stream_ok_def)
  then have del: "delivered (?s\<lparr>ds_body := ds_body ?s @ take n (frame p)\<rparr>) = delivered ?s @ ?new"
    by (simp add: delivered_def deliver_cut assms(4))
  have v: "sview (put_body sid (take n (frame p)) d) = (sview d)[sid := (fst (sview d ! sid), snd (sview d ! sid) @ ?new)]"
  proof (rule nth_equalityI)
    fix i assume i: "i < length (sview (put_body sid (take n (frame p)) d))"
    then have "sview (put_body sid (take n (frame p)) d) ! i = (ds_header (dp_streams (put_body sid (take n (frame p)) d) ! i), delivered (dp_streams (put_body sid (take n (frame p)) d) ! i))"
      by (simp add: sview_nth)
    then show "sview (put_body sid (take n (frame p)) d) ! i = (sview d)[sid := (fst (sview d ! sid), snd (sview d ! sid) @ ?new)] ! i"
      using i reg(1) del by (auto simp: put_body_nth nth_upd sview_nth)
  qed simp
  have "carried (stream_hdr f ''udp'' k) (sview (put_body sid (take n (frame p)) d))
      = carried (stream_hdr f ''udp'' k) (sview d) @ (if k = key then ?new else [])" for k
    unfolding v using carried_extend[of sid "sview d" "stream_hdr f ''udp'' k" ?new] reg by (auto simp: sview_nth)
  then show ?thesis by (intro exI[of _ ?new]) auto
qed

lemma udp_datagram_order:
  assumes "peers_ok f d" and "wire_ok marshal d" and "order_ok f d" and "length payload \<le> MaxDatagram"
  shows "wire_ok marshal (udp_datagram marshal env fail now key payload d) \<and> order_ok f (udp_datagram marshal env fail now key payload d)"
proof -
  let ?d = "d\<lparr>dp_in := dp_in d @ [(key, payload)]\<rparr>" and ?D = "udp_datagram marshal env fail now key payload d"
  obtain r d1 where p: "peer marshal env now key ?d = (r, d1)" by fastforce
  have ok: "peers_ok f d1" "\<And>sid. r = Some sid \<Longrightarrow> pview d1 key = Some sid" using peer_ok[OF p] assms(1) by auto
  have pw: "wire_ok marshal d1" "\<And>k. carried (stream_hdr f ''udp'' k) (sview d1) = carried (stream_hdr f ''udp'' k) (sview d)"
    "dp_in d1 = dp_in d @ [(key, payload)]"
    using peer_wire[OF p] assms(1,2) by auto
  have rec: "received k ?D = received k d @ (if k = key then [payload] else [])" if "dp_in ?D = dp_in d1" for k
    using that pw(3) by (simp add: received_def)
  have order: "order_ok f ?D" if "dp_in ?D = dp_in d1" "subseq new [payload]"
    "\<And>k. carried (stream_hdr f ''udp'' k) (sview ?D) = carried (stream_hdr f ''udp'' k) (sview d1) @ (if k = key then new else [])" for new
    unfolding order_ok_def
  proof
    fix k
    have "subseq (carried (stream_hdr f ''udp'' k) (sview d)) (received k d)" using assms(3) by (simp add: order_ok_def)
    then show "subseq (carried (stream_hdr f ''udp'' k) (sview ?D)) (received k ?D)"
      using that(2) by (simp add: that(3) rec[OF that(1)] pw(2) list_emb_append_mono)
  qed
  from assms(1,4) p show ?thesis
  proof (cases rule: udp_datagram_cases[where fail = fail])
    case dropped
    then show ?thesis using pw(1) order[of "[]"] by simp
  next
    case (sent sid)
    note reg = registered[OF ok(1) ok(2)[OF sent(1)]]
    from carried_put[OF ok(1) ok(2)[OF sent(1)] pw(1) assms(4), of "length (frame payload)"] obtain new where
      "subseq new [payload]" "\<forall>k. carried (stream_hdr f ''udp'' k) (sview (put_body sid (frame payload) d1))
       = carried (stream_hdr f ''udp'' k) (sview d1) @ (if k = key then new else [])" by auto
    with sent order[of new] wire_put_frame[OF pw(1) reg(1,3) assms(4)] show ?thesis by simp
  next
    case (failed sid n)
    note reg = registered[OF ok(1) ok(2)[OF failed(1)]]
    from carried_put[OF ok(1) ok(2)[OF failed(1)] pw(1) assms(4), of n] obtain new where
      "subseq new [payload]" "\<forall>k. carried (stream_hdr f ''udp'' k) (sview (put_body sid (take n (frame payload)) d1))
       = carried (stream_hdr f ''udp'' k) (sview d1) @ (if k = key then new else [])" by auto
    moreover have "wire_ok marshal ?D"
      using wire_put_close[OF pw(1) reg(1,3), of "take n (frame payload)"] by (simp add: failed wire_ok_def removePeer_streams)
    ultimately show ?thesis using failed order[of new] by simp
  qed
qed

section \<open>What comes back\<close>

text \<open>The datagrams a reader has passed on are the first ones the client sent on its stream.\<close>

definition outs :: "nat \<Rightarrow> datapath \<Rightarrow> string list" where
  "outs sid d = map (\<lambda>x. snd (snd x)) (filter (\<lambda>x. fst x = sid) (dp_out d))"

definition reader_ok :: "string list \<Rightarrow> data_stream \<Rightarrow> bool" where
  "reader_ok os s \<longleftrightarrow>
     (\<exists>cs. read_many (ReadFrame MaxDatagram) (length cs) (ds_got s) = Inr (cs, ds_unread s) \<and> prefix os cs
        \<and> (ds_reading s \<longrightarrow> os = cs \<and> sh_Type (ds_header s) = ''udp''))"

definition readers_ok :: "datapath \<Rightarrow> bool" where
  "readers_ok d \<longleftrightarrow>
     (\<forall>sid<length (dp_streams d). reader_ok (outs sid d) (dp_streams d ! sid))
     \<and> (\<forall>x\<in>set (dp_out d). fst x < length (dp_streams d) \<and> fst (snd x) = sh_Remote (ds_header (dp_streams d ! fst x)))"

lemma read_full_append: "read_full n s = Inr (a, r) \<Longrightarrow> read_full n (s @ t) = Inr (a, r @ t)"
  by (auto simp: read_full_def split: if_splits)

lemma ReadFrame_append:
  assumes "ReadFrame n s = Inr (p, r)"
  shows "ReadFrame n (s @ t) = Inr (p, r @ t)"
proof -
  from assms obtain h s1 where h: "read_full 2 s = Inr (h, s1)"
    and r: "(let m = unat (Uint16 (h ! 0) (h ! 1)) in if m > n then Inl (FrameExceedsBuffer m) else read_full m s1) = Inr (p, r)"
    by (cases "read_full 2 s") (auto simp: ReadFrame_def)
  from r have "read_full (unat (Uint16 (h ! 0) (h ! 1))) s1 = Inr (p, r)" "\<not> unat (Uint16 (h ! 0) (h ! 1)) > n"
    by (auto simp: Let_def split: if_splits)
  then show ?thesis using read_full_append[OF h, of t] read_full_append[of _ s1 p r t] by (simp add: ReadFrame_def Let_def)
qed

lemma read_many_append:
  "read_many (ReadFrame n) k s = Inr (cs, r) \<Longrightarrow> read_many (ReadFrame n) k (s @ t) = Inr (cs, r @ t)"
proof (induction k arbitrary: s cs)
  case (Suc k)
  then obtain m s1 ms where h: "ReadFrame n s = Inr (m, s1)" "read_many (ReadFrame n) k s1 = Inr (ms, r)" "cs = m # ms"
    by (cases "ReadFrame n s"; cases "read_many (ReadFrame n) k (snd (projr (ReadFrame n s)))") auto
  with Suc.IH[OF h(2)] ReadFrame_append[OF h(1), of t] show ?case by simp
qed simp

lemma read_many_snoc:
  "read_many (ReadFrame n) k s = Inr (cs, r) \<Longrightarrow> ReadFrame n r = Inr (m, r') \<Longrightarrow> read_many (ReadFrame n) (Suc k) s = Inr (cs @ [m], r')"
proof (induction k arbitrary: s cs)
  case (Suc k)
  then obtain x s1 ms where h: "ReadFrame n s = Inr (x, s1)" "read_many (ReadFrame n) k s1 = Inr (ms, r)" "cs = x # ms"
    by (cases "ReadFrame n s"; cases "read_many (ReadFrame n) k (snd (projr (ReadFrame n s)))") auto
  with Suc.IH[OF h(2) Suc.prems(2)] show ?case by simp
qed simp

lemma read_many_deliver:
  "read_many (ReadFrame MaxDatagram) (length cs) s = Inr (cs, r) \<Longrightarrow> prefix cs (deliver_frames (\<lambda>_. True) s)"
proof (induction cs arbitrary: s)
  case (Cons c cs)
  then obtain s1 where h: "ReadFrame MaxDatagram s = Inr (c, s1)" "read_many (ReadFrame MaxDatagram) (length cs) s1 = Inr (cs, r)"
    by (cases "ReadFrame MaxDatagram s"; cases "read_many (ReadFrame MaxDatagram) (length cs) (snd (projr (ReadFrame MaxDatagram s)))") auto
  from Cons.IH[OF h(2)] h(1) show ?case by (subst deliver_frames.simps) simp
qed simp

lemma readers_upd:
  assumes "readers_ok d" and "\<And>s os. reader_ok os s \<Longrightarrow> reader_ok os (g s)" "\<And>s. ds_header (g s) = ds_header s"
  shows "readers_ok (upd_stream sid g d)"
proof (cases "sid < length (dp_streams d)")
  case True
  with assms show ?thesis by (auto simp: readers_ok_def upd_stream_def nth_upd outs_def)
next
  case False
  with assms(1) show ?thesis by (simp add: readers_ok_def upd_stream_def list_update_beyond outs_def)
qed

lemma readers_same: "dp_streams d1 = dp_streams d \<Longrightarrow> dp_out d1 = dp_out d \<Longrightarrow> readers_ok d1 = readers_ok d"
  by (simp add: readers_ok_def outs_def)

lemma readers_frames:
  "readers_ok d \<Longrightarrow> readers_ok (closeStream sid d)" "readers_ok d \<Longrightarrow> readers_ok (put_body sid b d)" "readers_ok d \<Longrightarrow> readers_ok (stop_reading sid d)"
  unfolding closeStream_def put_body_def stop_reading_def
  by (rule readers_upd; auto simp: reader_ok_def)+

lemma readers_remove: "readers_ok d \<Longrightarrow> readers_ok (removePeer key sid d)"
  using readers_same[of "removePeer key sid d" "closeStream sid d"] by (simp add: removePeer_streams readers_frames)

lemma readers_folds:
  "readers_ok d \<Longrightarrow> readers_ok (foldl (\<lambda>d (key, p). removePeer key (up_stream p) d) d ps)"
  "readers_ok d \<Longrightarrow> readers_ok (foldl (\<lambda>d (key, p). closeStream (up_stream p) d) d ps)"
  by (induction ps arbitrary: d) (auto simp: readers_remove readers_frames)

lemma readers_append:
  assumes "readers_ok d" and "dp_streams d1 = dp_streams d @ [s]" "dp_out d1 = dp_out d" "ds_got s = []" "ds_unread s = []"
    and "ds_reading s \<Longrightarrow> sh_Type (ds_header s) = ''udp''"
  shows "readers_ok d1"
proof -
  have "outs (length (dp_streams d)) d = []"
    using assms(1) by (auto simp: readers_ok_def outs_def filter_empty_conv)
  then have new: "reader_ok (outs (length (dp_streams d)) d) s"
    unfolding reader_ok_def by (intro exI[of _ "[]"]) (simp add: assms)
  have o: "outs sid d1 = outs sid d" for sid by (simp add: outs_def assms(3))
  have "reader_ok (outs sid d1) (dp_streams d1 ! sid)" if "sid < length (dp_streams d1)" for sid
  proof (cases "sid < length (dp_streams d)")
    case True
    then show ?thesis using assms(1) by (simp add: o assms(2) nth_append readers_ok_def)
  next
    case False
    with that new show ?thesis by (simp add: o assms(2) less_Suc_eq)
  qed
  moreover have "\<forall>x\<in>set (dp_out d1). fst x < length (dp_streams d1) \<and> fst (snd x) = sh_Remote (ds_header (dp_streams d1 ! fst x))"
    using assms(1) by (auto simp: readers_ok_def assms(2,3) nth_append less_Suc_eq)
  ultimately show ?thesis by (simp add: readers_ok_def)
qed

lemma udp_datagram_readers:
  assumes "peers_ok f d" and "readers_ok d" and "length payload \<le> MaxDatagram"
  shows "readers_ok (udp_datagram marshal env fail now key payload d)"
proof -
  obtain r d1 where p: "peer marshal env now key (d\<lparr>dp_in := dp_in d @ [(key, payload)]\<rparr>) = (r, d1)" by fastforce
  have ok: "peers_ok f (d\<lparr>dp_in := dp_in d @ [(key, payload)]\<rparr>)" "readers_ok (d\<lparr>dp_in := dp_in d @ [(key, payload)]\<rparr>)"
    using assms readers_same[of "d\<lparr>dp_in := dp_in d @ [(key, payload)]\<rparr>" d] by simp_all
  from p ok(1) have r1: "readers_ok d1"
  proof (cases rule: peer_cases)
    case (broken written)
    then show ?thesis by (intro readers_append[OF ok(2)]) (auto simp: new_stream_def)
  next
    case (known sid ps)
    then show ?thesis using assms(2) readers_same[of d1 d] by simp
  next
    case (fresh b)
    then show ?thesis by (intro readers_append[OF ok(2)]) (auto simp: new_stream_def)
  qed (use ok in simp)
  from assms(1,3) p show ?thesis
  proof (cases rule: udp_datagram_cases[where fail = fail])
    case (sent sid)
    then show ?thesis using readers_frames(2)[OF r1] by (simp add: readers_same[of "put_body sid (frame payload) d1\<lparr>dp_r := _\<rparr>" "put_body sid (frame payload) d1"])
  next
    case (failed sid k)
    then show ?thesis by (simp add: readers_remove readers_frames r1)
  qed (use r1 in simp)
qed

lemma peer_read_readers:
  assumes "readers_ok d" and "sid < length (dp_streams d)" and "ds_reading (dp_streams d ! sid)"
    and "key = sh_Remote (ds_header (dp_streams d ! sid))"
  shows "readers_ok (peer_read ok now key sid d)"
proof -
  let ?s = "dp_streams d ! sid"
  have "reader_ok (outs sid d) ?s" using assms(1,2) by (simp add: readers_ok_def)
  then have udp: "sh_Type (ds_header ?s) = ''udp''"
    and got: "read_many (ReadFrame MaxDatagram) (length (outs sid d)) (ds_got ?s) = Inr (outs sid d, ds_unread ?s)"
    using assms(3) by (auto simp: reader_ok_def)
  show ?thesis
  proof (cases rule: peer_read_cases[of ok now key sid d])
    case ended
    then show ?thesis using assms(1) by (simp add: readers_remove readers_frames)
  next
    case (refused payload rest)
    from read_many_snoc[OF got refused(1)]
    have "reader_ok (outs sid d) (?s\<lparr>ds_unread := rest, ds_reading := False\<rparr>)"
      unfolding reader_ok_def by (intro exI[of _ "outs sid d @ [payload]"]) simp
    then have "readers_ok (stop_reading sid (set_unread sid rest d))"
      using assms(1,2) by (auto simp: readers_ok_def stop_reading_def set_unread_def upd_stream_def nth_upd outs_def)
    with refused show ?thesis by (simp add: readers_remove)
  next
    case (passed payload rest n)
    define D where "D = peer_read ok now key sid d"
    have st: "dp_streams D = (dp_streams d)[sid := ?s\<lparr>ds_unread := rest\<rparr>]" "dp_out D = dp_out d @ [(sid, key, payload)]"
      by (simp_all add: D_def passed(3) set_unread_def upd_stream_def)
    have o: "outs j D = outs j d @ (if j = sid then [payload] else [])" for j by (simp add: outs_def st(2))
    from read_many_snoc[OF got passed(1)]
    have "reader_ok (outs sid d @ [payload]) (?s\<lparr>ds_unread := rest\<rparr>)"
      unfolding reader_ok_def by (intro exI[of _ "outs sid d @ [payload]"]) (simp add: udp)
    then show ?thesis unfolding D_def[symmetric] using assms by (auto simp: readers_ok_def st nth_upd o)
  qed
qed

section \<open>The invariant of the steps\<close>

definition tcp_streams :: "(stream_header \<times> bool) list \<Rightarrow> int" where
  "tcp_streams hs = int (length (filter (\<lambda>x. snd x \<and> sh_Type (fst x) = ''tcp'') hs))"

definition dp_ok :: "header_codec \<Rightarrow> forward \<Rightarrow> datapath \<Rightarrow> bool" where
  "dp_ok marshal f d \<longleftrightarrow> peers_ok f d \<and> keys_ok d \<and> wire_ok marshal d \<and> order_ok f d \<and> readers_ok d
     \<and> r_activeTCP (dp_r d) = tcp_streams (dview d)"

lemma tcp_streams_close:
  assumes "i < length hs"
  shows "tcp_streams (hs[i := (fst (hs ! i), False)]) = tcp_streams hs - (if snd (hs ! i) \<and> sh_Type (fst (hs ! i)) = ''tcp'' then 1 else 0)"
proof -
  have hs: "hs = take i hs @ hs ! i # drop (Suc i) hs" using assms by (simp add: id_take_nth_drop)
  have "tcp_streams (take i hs @ x # drop (Suc i) hs)
      = tcp_streams (take i hs) + tcp_streams (drop (Suc i) hs) + (if snd x \<and> sh_Type (fst x) = ''tcp'' then 1 else 0)" for x
    by (simp add: tcp_streams_def)
  from this[of "hs ! i"] this[of "(fst (hs ! i), False)"] hs assms show ?thesis by (simp add: upd_conv_take_nth_drop)
qed

lemma tcp_streams_append [simp]: "tcp_streams (hs @ [(h, o1)]) = tcp_streams hs + (if o1 \<and> sh_Type h = ''tcp'' then 1 else 0)"
  by (simp add: tcp_streams_def)

lemma active_frames [simp]:
  "r_activeTCP (dp_r (set_peers ps d)) = r_activeTCP (dp_r d)" "r_activeTCP (dp_r (removePeer key sid d)) = r_activeTCP (dp_r d)"
  "r_activeTCP (dp_r (touch_peer now key sid d)) = r_activeTCP (dp_r d)"
  "r_activeTCP (dp_r (foldl (\<lambda>d (key, p). removePeer key (up_stream p) d) d ps)) = r_activeTCP (dp_r d)"
  "r_activeTCP (dp_r (foldl (\<lambda>d (key, p). closeStream (up_stream p) d) d ps)) = r_activeTCP (dp_r d)"
  by (simp_all add: set_peers_def removePeer_def touch_peer_def split: option.split)
    (induction ps arbitrary: d; auto simp: set_peers_def removePeer_def split: option.split)+

lemma keys_frames [simp]:
  "keys_ok (upd_stream sid g d) = keys_ok d" "keys_ok (closeStream sid d) = keys_ok d" "keys_ok (put_body sid b d) = keys_ok d"
  "keys_ok (stop_reading sid d) = keys_ok d" "keys_ok (set_unread sid rest d) = keys_ok d"
  "keys_ok (set_peers ps d) = distinct (map fst ps)"
  "keys_ok (d\<lparr>dp_in := x\<rparr>) = keys_ok d" "keys_ok (d\<lparr>dp_streams := y\<rparr>) = keys_ok d" "keys_ok (d\<lparr>dp_done := z\<rparr>) = keys_ok d"
  by (simp_all add: keys_ok_def)

lemma keys_remove: "keys_ok d \<Longrightarrow> keys_ok (removePeer key sid d)"
  by (auto simp: removePeer_def distinct_delete split: option.split) (simp add: keys_ok_def distinct_delete)

lemma keys_touch: "keys_ok d \<Longrightarrow> keys_ok (touch_peer now key sid d)"
  by (auto simp: touch_peer_def split: option.split) (simp add: keys_ok_def distinct_update)

lemma dview_update [simp]: "dview (d\<lparr>dp_r := r, dp_out := y\<rparr>) = dview d" "dview (d\<lparr>dp_r := r\<rparr>) = dview d"
  "dview (d\<lparr>dp_in := x\<rparr>) = dview d" "dview (d\<lparr>dp_done := b\<rparr>) = dview d"
  by (simp_all add: dview_def)

lemma openStream_frame: "dp_r (snd (openStream marshal env kind remote d)) = dp_r d"
  by (simp add: openStream_def Let_def split: sum.split option.split)

lemma peer_frame:
  assumes "peer marshal env now key d = (r, d1)"
  shows "r_activeTCP (dp_r d1) = r_activeTCP (dp_r d)" "keys_ok d \<Longrightarrow> keys_ok d1"
proof -
  obtain r0 d0 where o: "openStream marshal env ''udp'' key d = (r0, d0)" by fastforce
  have "dp_r d0 = dp_r d" using openStream_frame[of marshal env "''udp''" key d] o by simp
  with assms o show "r_activeTCP (dp_r d1) = r_activeTCP (dp_r d)" "keys_ok d \<Longrightarrow> keys_ok d1"
    by (auto simp: peer_def keys_ok_def distinct_update split: option.splits)
qed

lemma tcp_remove:
  assumes "sid < length (dp_streams d)" and "ds_header (dp_streams d ! sid) = stream_hdr f ''udp'' key"
  shows "tcp_streams (dview (removePeer key sid d)) = tcp_streams (dview d)" "tcp_streams (dview (closeStream sid d)) = tcp_streams (dview d)"
  using assms tcp_streams_close[of sid "dview d"] by (simp_all add: removePeer_view closeStream_view dview_nth)

lemma peer_list_udp:
  assumes "peers_ok f d" and "keys_ok d" and "(key, p) \<in> set (r_peers (dp_r d))"
  shows "up_stream p < length (dp_streams d) \<and> ds_header (dp_streams d ! up_stream p) = stream_hdr f ''udp'' key"
proof -
  have "pview d key = Some (up_stream p)" using assms(2,3) by (simp add: pview_def keys_ok_def)
  with registered[OF assms(1)] show ?thesis by blast
qed

lemma fold_streams:
  "dp_streams d = dp_streams e \<Longrightarrow> dp_streams (foldl (\<lambda>d (key, p). removePeer key (up_stream p) d) d ps)
     = dp_streams (foldl (\<lambda>d (key, p). closeStream (up_stream p) d) e ps)"
proof (induction ps arbitrary: d e)
  case (Cons x ps)
  obtain key p where x: "x = (key, p)" by fastforce
  have "dp_streams (removePeer key (up_stream p) d) = dp_streams (closeStream (up_stream p) e)"
    using Cons.prems by (simp add: removePeer_streams closeStream_def upd_stream_def)
  from Cons.IH[OF this] show ?case by (simp add: x)
qed simp

lemma dview_streams: "dp_streams d = dp_streams e \<Longrightarrow> dview d = dview e"
  by (simp add: dview_def)

lemma tcp_close_fold:
  assumes "\<forall>(key, p)\<in>set ps. up_stream p < length (dp_streams d) \<and> ds_header (dp_streams d ! up_stream p) = stream_hdr f ''udp'' key"
  shows "tcp_streams (dview (foldl (\<lambda>d (key, p). closeStream (up_stream p) d) d ps)) = tcp_streams (dview d)"
  using assms
proof (induction ps arbitrary: d)
  case (Cons x ps)
  obtain key p where x: "x = (key, p)" by fastforce
  have "j < length (dp_streams d) \<Longrightarrow> ds_header (dp_streams (closeStream i d) ! j) = ds_header (dp_streams d ! j)" for i j
    using removePeer_header[of j d key i] by (simp add: removePeer_streams)
  then have "\<forall>(k, q)\<in>set ps. up_stream q < length (dp_streams (closeStream (up_stream p) d))
      \<and> ds_header (dp_streams (closeStream (up_stream p) d) ! up_stream q) = stream_hdr f ''udp'' k"
    using Cons.prems by auto
  from Cons.IH[OF this] Cons.prems tcp_remove(2) show ?case by (simp add: x)
qed simp

lemmas tcp_remove_fold = tcp_close_fold[folded dview_streams[OF fold_streams[OF refl]]]

lemma udp_datagram_dp_ok:
  assumes "dp_ok marshal f d" and "length payload \<le> MaxDatagram"
  shows "dp_ok marshal f (udp_datagram marshal env fail now key payload d)"
proof -
  let ?d = "d\<lparr>dp_in := dp_in d @ [(key, payload)]\<rparr>" and ?D = "udp_datagram marshal env fail now key payload d"
  have ok: "peers_ok f d" "keys_ok d" "wire_ok marshal d" "order_ok f d" "readers_ok d" "r_activeTCP (dp_r d) = tcp_streams (dview d)"
    using assms(1) by (simp_all add: dp_ok_def)
  obtain r d1 where p: "peer marshal env now key ?d = (r, d1)" by fastforce
  have dv: "dview ?d = dview d" by (simp add: dview_def)
  have p1: "peers_ok f d1" "\<And>sid. r = Some sid \<Longrightarrow> pview d1 key = Some sid" using peer_ok[OF p] ok(1) by auto
  have a1: "r_activeTCP (dp_r d1) = tcp_streams (dview d)" "keys_ok d1" using peer_frame[OF p] ok by simp_all
  have pd: "peers_ok f ?d" using ok(1) by simp
  from p pd have t1: "tcp_streams (dview d1) = tcp_streams (dview d)"
  proof (cases rule: peer_cases)
    case (fresh b)
    then have "dview d1 = dview d @ [(stream_hdr f ''udp'' key, True)]" by (simp add: dview_def new_stream_def)
    then show ?thesis by simp
  qed (use dv in \<open>simp_all add: dview_append[of ?d, simplified]\<close>)
  from ok(1) assms(2) p have "r_activeTCP (dp_r ?D) = tcp_streams (dview ?D) \<and> keys_ok ?D"
  proof (cases rule: udp_datagram_cases[where fail = fail])
    case dropped
    then show ?thesis using a1 t1 by simp
  next
    case (sent sid)
    then show ?thesis using a1 t1 put_body_simps(1)[of sid "frame payload" d1] by (simp add: dview_def keys_ok_def)
  next
    case (failed sid k)
    note reg = registered[OF p1(1) p1(2)[OF failed(1)]]
    have "tcp_streams (dview ?D) = tcp_streams (dview (put_body sid (take k (frame payload)) d1))"
      unfolding failed(2) by (rule tcp_remove(1)[where f = f]) (use reg in \<open>simp_all add: put_body_nth\<close>)
    then show ?thesis using a1 t1 by (simp add: failed keys_remove)
  qed
  then show ?thesis
    using udp_datagram_ok[OF ok(1) assms(2)] udp_datagram_order[OF ok(1,3,4) assms(2)] udp_datagram_readers[OF ok(1,5) assms(2)]
    by (simp add: dp_ok_def)
qed

lemma peer_read_dp_ok:
  assumes "dp_ok marshal f d" and "sid < length (dp_streams d)" and "ds_reading (dp_streams d ! sid)"
    and "ds_header (dp_streams d ! sid) = stream_hdr f ''udp'' key"
  shows "dp_ok marshal f (peer_read ok now key sid d)"
proof -
  let ?D = "peer_read ok now key sid d"
  have i: "peers_ok f d" "keys_ok d" "wire_ok marshal d" "order_ok f d" "readers_ok d" "r_activeTCP (dp_r d) = tcp_streams (dview d)"
    using assms(1) by (simp_all add: dp_ok_def)
  have "sview ?D = sview d \<and> dp_in ?D = dp_in d \<and> wire_ok marshal ?D \<and> keys_ok ?D \<and> r_activeTCP (dp_r ?D) = r_activeTCP (dp_r d)
    \<and> tcp_streams (dview ?D) = tcp_streams (dview d)"
  proof (cases rule: peer_read_cases[of ok now key sid d])
    case ended
    with i assms(2,4) show ?thesis by (simp add: wire_remove wire_frames keys_remove tcp_remove(1)[where f = f])
  next
    case (refused payload rest)
    with i assms(2,4) show ?thesis by (simp add: wire_remove wire_frames keys_remove tcp_remove(1)[where f = f])
  next
    case (passed payload rest n)
    have "keys_ok (touch_peer now key sid (set_unread sid rest d))" using i(2) by (simp add: keys_touch)
    moreover have "dview (touch_peer now key sid (set_unread sid rest d)) = dview d" by simp
    ultimately show ?thesis using i passed by (simp add: wire_frames keys_ok_def)
  qed
  then show ?thesis
    using i peer_read_ok[OF i(1) assms(2,4)] peer_read_readers[OF i(5) assms(2,3), of key] assms(4)
    by (simp add: dp_ok_def order_ok_def received_def)
qed

lemma upd_dp_ok:
  assumes "dp_ok marshal f d"
    and g: "\<And>s. ds_header (g s) = ds_header s" "\<And>s. ds_open (g s) = ds_open s" "\<And>s. ds_body (g s) = ds_body s" "\<And>s. ds_line (g s) = ds_line s"
    and "\<And>s os. reader_ok os s \<Longrightarrow> reader_ok os (g s)"
  shows "dp_ok marshal f (upd_stream sid g d)"
proof -
  have "wire_ok marshal (upd_stream sid g d)" using assms(1) g by (intro wire_upd) (simp_all add: dp_ok_def stream_ok_def)
  moreover have "readers_ok (upd_stream sid g d)" using assms by (intro readers_upd) (simp_all add: dp_ok_def)
  ultimately show ?thesis using assms(1) g by (simp add: dp_ok_def peers_ok_def order_ok_def received_def)
qed

lemma udpReaper_dp_ok:
  assumes "dp_ok marshal f d"
  shows "dp_ok marshal f (udpReaper now d)"
proof -
  have i: "peers_ok f d" "keys_ok d" "wire_ok marshal d" "order_ok f d" "readers_ok d" "r_activeTCP (dp_r d) = tcp_streams (dview d)"
    using assms by (simp_all add: dp_ok_def)
  let ?ps = "filter (\<lambda>(key, p). up_last p < now - udpIdle) (r_peers (dp_r d))"
  have "keys_ok (foldl (\<lambda>d (key, p). removePeer key (up_stream p) d) e ps)" if "keys_ok e" for e ps
    using that by (induction ps arbitrary: e) (auto simp: keys_remove)
  moreover have "tcp_streams (dview (foldl (\<lambda>d (key, p). removePeer key (up_stream p) d) d ?ps)) = tcp_streams (dview d)"
    by (rule tcp_remove_fold[where f = f]) (use peer_list_udp[OF i(1,2)] in auto)
  ultimately show ?thesis
    using i udpReaper_ok[OF i(1,2)]
    by (simp add: dp_ok_def order_ok_def received_def udpReaper_def wire_folds readers_folds)
qed

lemma stop_peers_dp_ok:
  assumes "dp_ok marshal f d"
  shows "dp_ok marshal f (stop_peers d)"
proof -
  have i: "peers_ok f d" "keys_ok d" "wire_ok marshal d" "order_ok f d" "readers_ok d" "r_activeTCP (dp_r d) = tcp_streams (dview d)"
    using assms by (simp_all add: dp_ok_def)
  let ?d = "d\<lparr>dp_done := True\<rparr>"
  let ?F = "foldl (\<lambda>d (key, p). closeStream (up_stream p) d) ?d (r_peers (dp_r d))"
  have "tcp_streams (dview ?F) = tcp_streams (dview ?d)"
    by (rule tcp_close_fold[where f = f]) (use peer_list_udp[OF i(1,2)] in auto)
  moreover have "readers_ok ?F" using i(5) readers_same[of ?d d] by (simp add: readers_folds)
  ultimately show ?thesis
    using i stop_peers_ok[OF i(1)] readers_same[of "set_peers [] ?F" ?F]
    by (simp add: dp_ok_def order_ok_def received_def stop_peers_def wire_folds wire_frames)
qed

lemma tcp_accept_dp_ok:
  assumes "dp_ok marshal f d"
  shows "dp_ok marshal f (tcp_accept marshal env remote d)"
proof -
  let ?D = "tcp_accept marshal env remote d"
  have i: "peers_ok f d" "keys_ok d" "wire_ok marshal d" "order_ok f d" "readers_ok d" "r_activeTCP (dp_r d) = tcp_streams (dview d)"
    using assms by (simp_all add: dp_ok_def)
  from i(1) have "(\<forall>k. carried (stream_hdr f ''udp'' k) (sview ?D) = carried (stream_hdr f ''udp'' k) (sview d)) \<and> dp_in ?D = dp_in d
    \<and> wire_ok marshal ?D \<and> readers_ok ?D \<and> keys_ok ?D \<and> r_activeTCP (dp_r ?D) = tcp_streams (dview ?D)"
  proof (cases rule: tcp_accept_cases[where marshal = marshal and env = env and remote = remote])
    case (broken w)
    let ?s = "new_stream (stream_hdr f ''tcp'' remote) w False"
    have "wire_ok marshal ?D" "readers_ok ?D"
      by (rule wire_append[OF i(3), where s = ?s]; use broken in \<open>auto simp: new_stream_def\<close>)
        (rule readers_append[OF i(5), where s = ?s]; use broken in \<open>auto simp: new_stream_def\<close>)
    with broken i show ?thesis by (simp add: dview_append)
  next
    case (opened b r)
    let ?s = "new_stream (stream_hdr f ''tcp'' remote) b True"
    have "wire_ok marshal ?D" "readers_ok ?D"
      by (rule wire_append[OF i(3), where s = ?s]; use opened in \<open>auto simp: new_stream_def\<close>)
        (rule readers_append[OF i(5), where s = ?s]; use opened in \<open>auto simp: new_stream_def\<close>)
    moreover have "dview ?D = dview d @ [(stream_hdr f ''tcp'' remote, True)]" "sview ?D = sview d @ [(stream_hdr f ''tcp'' remote, [])]"
      by (simp_all add: opened(2) dview_def sview_def new_stream_def delivered_def)
    ultimately show ?thesis using opened i by (simp add: keys_ok_def)
  qed (use i in simp)
  then show ?thesis using tcp_accept_ok[OF i(1)] i(4) by (simp add: dp_ok_def order_ok_def received_def)
qed

lemma tcp_end_dp_ok:
  assumes "dp_ok marshal f d" and "sid < length (dp_streams d)" and "ds_open (dp_streams d ! sid)" and "sh_Type (ds_header (dp_streams d ! sid)) = ''tcp''"
  shows "dp_ok marshal f (tcp_end ab ba sid d)"
proof -
  have i: "peers_ok f d" "keys_ok d" "wire_ok marshal d" "order_ok f d" "readers_ok d" "r_activeTCP (dp_r d) = tcp_streams (dview d)"
    using assms(1) by (simp_all add: dp_ok_def)
  obtain sent r where e: "tcp_end ab ba sid d = closeStream sid (put_body sid sent (d\<lparr>dp_r := r\<rparr>))"
    "r_peers r = r_peers (dp_r d)" "r_activeTCP r = r_activeTCP (dp_r d) - 1" using tcp_end_split by blast
  let ?d = "d\<lparr>dp_r := r\<rparr>"
  have "dview (tcp_end ab ba sid d) = (dview d)[sid := (fst (dview d ! sid), False)]" by (simp add: e closeStream_view)
  then have "tcp_streams (dview (tcp_end ab ba sid d)) = tcp_streams (dview d) - 1"
    using tcp_streams_close[of sid "dview d"] assms(2-4) by (simp add: dview_nth)
  moreover have "carried (stream_hdr f ''udp'' k) (sview (tcp_end ab ba sid d)) = carried (stream_hdr f ''udp'' k) (sview d)" for k
  proof -
    have "\<exists>v. sview (put_body sid sent ?d) = (sview d)[sid := (fst (sview d ! sid), v)]"
    proof
      show "sview (put_body sid sent ?d) = (sview d)[sid := (fst (sview d ! sid), snd (sview (put_body sid sent ?d) ! sid))]"
        by (rule nth_equalityI) (auto simp: sview_nth nth_upd put_body_nth)
    qed
    then obtain v where v: "sview (put_body sid sent ?d) = (sview d)[sid := (fst (sview d ! sid), v)]" ..
    moreover have "fst (sview d ! sid) \<noteq> stream_hdr f ''udp'' k" using assms(2,4) by (auto simp: sview_nth)
    ultimately show ?thesis
      using carried_other[of sid "sview d"] assms(2) by (simp add: e v)
  qed
  moreover have "wire_ok marshal (tcp_end ab ba sid d)" using i(3) assms(2,3) by (simp add: e wire_put_close)
  moreover have "readers_ok (tcp_end ab ba sid d)" using i(5) readers_same[of ?d d] by (simp add: e readers_frames)
  ultimately show ?thesis
    using i tcp_end_ok[OF i(1) assms(2,4), of ab ba] e by (simp add: dp_ok_def order_ok_def received_def keys_ok_def)
qed

lemma reader_arrive:
  "reader_ok os s \<Longrightarrow> reader_ok os (s\<lparr>ds_got := ds_got s @ bs, ds_unread := ds_unread s @ bs\<rparr>)"
  by (auto simp: reader_ok_def dest: read_many_append)

lemma dp_step_ok:
  assumes "dp_step marshal d d1" and "dp_ok marshal f d"
  shows "dp_ok marshal f d1"
  using assms
proof (induction rule: dp_step.induct)
  case (Datagram d payload env fail now key)
  then show ?case by (intro udp_datagram_dp_ok)
next
  case (Arrive sid d bs)
  then show ?case by (intro upd_dp_ok) (simp_all add: reader_arrive)
next
  case (ClientCloses sid d)
  then show ?case by (intro upd_dp_ok) (simp_all add: reader_ok_def)
next
  case (Read sid d key ok now)
  have "peers_ok f d" "readers_ok d" using Read.prems by (simp_all add: dp_ok_def)
  then obtain kind k where h: "ds_header (dp_streams d ! sid) = stream_hdr f kind k" "kind = ''udp''"
    using peer_tableD(1)[OF _ nth_mem, of f "dview d" "pview d" sid] Read.hyps(1,2) by (auto simp: peers_ok_def dview_nth readers_ok_def reader_ok_def)
  then show ?case using Read peer_read_dp_ok[OF Read.prems Read.hyps(1,2)] by simp
next
  case (Reap d now)
  then show ?case by (intro udpReaper_dp_ok)
next
  case (Accept d env remote)
  then show ?case by (intro tcp_accept_dp_ok)
next
  case (TcpEnd sid d ab ba)
  then show ?case by (intro tcp_end_dp_ok)
next
  case (Stop d)
  then show ?case by (intro stop_peers_dp_ok)
qed

lemma new_datapath_ok: "dp_ok marshal f (new_datapath f)"
  by (simp add: new_datapath_def newRunner_def dp_ok_def peers_ok_def peer_table_def dview_def pview_def keys_ok_def wire_ok_def
      order_ok_def sview_def readers_ok_def tcp_streams_def)

interpretation dp: step_system "dp_step marshal" "\<lambda>d. d = new_datapath f" "dp_ok marshal f" for marshal f
  by unfold_locales (auto simp: new_datapath_ok intro: dp_step_ok)

lemmas dp_reachable_ok = dp.reachable_inv[OF refl]

section \<open>The client's end\<close>

text \<open>What the client's \<open>handleStream\<close> hands to the target of a UDP stream.\<close>

definition to_target :: "target_env \<Rightarrow> (string \<Rightarrow> stream_header option) \<Rightarrow> data_stream \<Rightarrow> string list" where
  "to_target tenv unmarshal s =
     (case handleStream tenv unmarshal (ds_line s @ ds_body s) of UdpRelay target ps \<Rightarrow> ps | _ \<Rightarrow> [])"

lemma deliver_prefix: "prefix (deliver_frames w s) (deliver_frames (\<lambda>_. True) s)"
proof (induction w s rule: deliver_frames.induct)
  case (1 w s)
  show ?case
  proof (cases "ReadFrame MaxDatagram s")
    case (Inl e)
    then show ?thesis by (subst deliver_frames.simps) simp
  next
    case (Inr x)
    obtain payload rest where x: "x = (payload, rest)" by fastforce
    have "deliver_frames (\<lambda>_. True) s = payload # deliver_frames (\<lambda>_. True) rest"
      using Inr x by (subst deliver_frames.simps) simp
    moreover have "deliver_frames w s = (if w payload then payload # deliver_frames w rest else [])"
      using Inr x by (subst deliver_frames.simps) simp
    ultimately show ?thesis using 1[OF Inr x[symmetric]] by simp
  qed
qed

lemma broken_line:
  assumes "newline \<notin> set b" and "ReadJSONLine unmarshal (take k (b @ [newline])) = Inr (h, rest)"
  shows "rest = [] \<and> unmarshal b = Some h"
proof -
  from assms(2) obtain l where l: "read_slice maxLine (take k (b @ [newline])) = Inr (l, rest)" "unmarshal l = Some h"
    by (cases "read_slice maxLine (take k (b @ [newline]))") (auto simp: ReadJSONLine_def split: option.splits)
  have k: "length b < k"
  proof (rule ccontr)
    assume "\<not> length b < k"
    then have t: "take k (b @ [newline]) = take k b" by simp
    have "newline \<notin> set (take k b)" using assms(1) by (meson in_set_takeD)
    then have tw: "takeWhile (\<lambda>c. c \<noteq> newline) (take k b) = take k b" by (intro takeWhile_eq_all_conv[THEN iffD2]) auto
    have "read_slice maxLine (take k b) \<noteq> Inr (l, rest)" unfolding read_slice_def tw Let_def by simp
    with l(1) t show False by simp
  qed
  then have "read_slice maxLine (b @ newline # []) = Inr (l, rest)" using l(1) by simp
  then show ?thesis using l(2) read_slice_line[OF assms(1), of maxLine "[]"] read_slice_long[OF assms(1), of maxLine "[]"]
    by (cases "length b < maxLine") auto
qed

lemma to_target_prefix:
  assumes "json_codec marshal unmarshal" and "stream_ok marshal s"
  shows "prefix (to_target tenv unmarshal s) (delivered s)"
    and "handleStream tenv unmarshal (ds_line s @ ds_body s) = UdpRelay target ps \<Longrightarrow> target = sh_Target (ds_header s)"
proof -
  have read: "rest = ds_body s \<and> h = ds_header s" if "ReadJSONLine unmarshal (ds_line s @ ds_body s) = Inr (h, rest)" for h rest
  proof (cases "WriteJSONLine marshal (ds_header s)")
    case (Inl e)
    with assms(2) have "ds_line s @ ds_body s = []" by (auto simp: stream_ok_def)
    with that show ?thesis by (simp add: ReadJSONLine_def read_slice_def Let_def maxLine_def)
  next
    case (Inr line)
    then obtain b where b: "marshal (ds_header s) = Some b" "line = b @ [newline]" by (auto simp: WriteJSONLine_def split: option.splits)
    have nl: "newline \<notin> set b" "unmarshal b = Some (ds_header s)" using assms(1) b(1) by (auto simp: json_codec_def)
    from assms(2) Inr consider "ds_line s = line" | k where "ds_line s = take k line" "ds_body s = []"
      unfolding stream_ok_def by (metis Inr_inject take_0)
    then show ?thesis
    proof cases
      case 1
      with that nl b show ?thesis
        using read_slice_line[OF nl(1), of maxLine "ds_body s"] read_slice_long[OF nl(1), of maxLine "ds_body s"]
        by (cases "length b < maxLine") (auto simp: ReadJSONLine_def)
    next
      case (2 k)
      with that broken_line[OF nl(1), of unmarshal k h rest] nl(2) b(2) show ?thesis by simp
    qed
  qed
  show "prefix (to_target tenv unmarshal s) (delivered s)"
  proof (cases "handleStream tenv unmarshal (ds_line s @ ds_body s)")
    case (UdpRelay target ps)
    then obtain h rest where "ReadJSONLine unmarshal (ds_line s @ ds_body s) = Inr (h, rest)" "ps = deliver_frames (tg_written tenv) rest"
      by (auto simp: handleStream_def split: sum.splits if_splits)
    with read[of h rest] show ?thesis using deliver_prefix by (simp add: to_target_def UdpRelay delivered_def)
  qed (simp_all add: to_target_def)
  show "target = sh_Target (ds_header s)" if "handleStream tenv unmarshal (ds_line s @ ds_body s) = UdpRelay target ps"
    using that read by (auto simp: handleStream_def split: sum.splits if_splits)
qed

lemma subseq_concat: "(\<And>x. x \<in> set xs \<Longrightarrow> subseq (g x) (h x)) \<Longrightarrow> subseq (concat (map g xs)) (concat (map h xs))"
  by (induction xs) (auto intro: list_emb_append_mono)

text \<open>
  C8: A UDP forward keeps its conversations apart. In every state a running forward can reach,
  whatever arrives, fails, expires or is stopped in between: a public address has at most one open
  UDP stream; what the client writes to the forward's target for an address are datagrams that
  came from that address, each at most once and in their order; what goes back to an
  address are the first datagrams the client sent on a stream opened for that address; and the
  number of active TCP connections shown is the number of TCP streams that are open.
\<close>

theorem udp_conversations_stay_apart:
  assumes "json_codec marshal unmarshal" and "(dp_step marshal)\<^sup>*\<^sup>* (new_datapath f) d"
  shows "(\<forall>i<length (dp_streams d). \<forall>j<length (dp_streams d).
      ds_open (dp_streams d ! i) \<and> ds_open (dp_streams d ! j) \<and> sh_Type (ds_header (dp_streams d ! i)) = ''udp''
      \<and> ds_header (dp_streams d ! i) = ds_header (dp_streams d ! j) \<longrightarrow> i = j)
    \<and> (subseq (concat (map (to_target tenv unmarshal) (filter (\<lambda>s. ds_header s = stream_hdr f ''udp'' key) (dp_streams d)))) (received key d))
    \<and> (\<forall>s\<in>set (dp_streams d). \<forall>target ps.
      handleStream tenv unmarshal (ds_line s @ ds_body s) = UdpRelay target ps \<longrightarrow> target = Target f)
    \<and> (\<forall>(sid, addr, p)\<in>set (dp_out d). sid < length (dp_streams d) \<and> addr = sh_Remote (ds_header (dp_streams d ! sid)))
    \<and> (\<forall>sid<length (dp_streams d). prefix (outs sid d) (deliver_frames (\<lambda>_. True) (ds_got (dp_streams d ! sid))))
    \<and> (r_activeTCP (dp_r d) = int (length (filter (\<lambda>s. ds_open s \<and> sh_Type (ds_header s) = ''tcp'') (dp_streams d))))"
proof (intro conjI)
  have ok: "peers_ok f d" "wire_ok marshal d" "order_ok f d" "readers_ok d" "r_activeTCP (dp_r d) = tcp_streams (dview d)"
    using dp_reachable_ok[OF assms(2)] by (simp_all add: dp_ok_def)
  note T = peer_tableD[OF ok(1)[unfolded peers_ok_def, THEN conjunct2]]
  show "\<forall>i<length (dp_streams d). \<forall>j<length (dp_streams d).
      ds_open (dp_streams d ! i) \<and> ds_open (dp_streams d ! j) \<and> sh_Type (ds_header (dp_streams d ! i)) = ''udp''
      \<and> ds_header (dp_streams d ! i) = ds_header (dp_streams d ! j) \<longrightarrow> i = j"
  proof (intro allI impI)
    fix i j assume h: "i < length (dp_streams d)" "j < length (dp_streams d)"
      "ds_open (dp_streams d ! i) \<and> ds_open (dp_streams d ! j) \<and> sh_Type (ds_header (dp_streams d ! i)) = ''udp''
       \<and> ds_header (dp_streams d ! i) = ds_header (dp_streams d ! j)"
    from T(3)[of i] T(3)[of j] h have "Some i = Some j" by (simp add: dview_nth) metis
    then show "i = j" by simp
  qed
  have st: "stream_ok marshal s" if "s \<in> set (dp_streams d)" for s using ok(2) that by (simp add: wire_ok_def)
  have "subseq (to_target tenv unmarshal s) (delivered s)" if "s \<in> set (dp_streams d)" for s
    using to_target_prefix(1)[OF assms(1) st[OF that]] by (rule prefix_imp_subseq)
  then have "subseq (concat (map (to_target tenv unmarshal) (filter (\<lambda>s. ds_header s = stream_hdr f ''udp'' key) (dp_streams d))))
      (concat (map delivered (filter (\<lambda>s. ds_header s = stream_hdr f ''udp'' key) (dp_streams d))))"
    by (intro subseq_concat) simp
  moreover have "concat (map delivered (filter (\<lambda>s. ds_header s = stream_hdr f ''udp'' key) (dp_streams d))) = carried (stream_hdr f ''udp'' key) (sview d)"
    by (simp add: carried_def sview_def filter_map o_def)
  ultimately show "subseq (concat (map (to_target tenv unmarshal) (filter (\<lambda>s. ds_header s = stream_hdr f ''udp'' key) (dp_streams d)))) (received key d)"
    using ok(3) by (auto simp: order_ok_def intro: subseq_order.trans)
  show "\<forall>s\<in>set (dp_streams d). \<forall>target ps.
      handleStream tenv unmarshal (ds_line s @ ds_body s) = UdpRelay target ps \<longrightarrow> target = Target f"
  proof (intro ballI allI impI)
    fix s target ps assume s: "s \<in> set (dp_streams d)" "handleStream tenv unmarshal (ds_line s @ ds_body s) = UdpRelay target ps"
    have "\<exists>kind k. ds_header s = stream_hdr f kind k" using T(1)[of "(ds_header s, ds_open s)"] s(1) by (auto simp: dview_def)
    with to_target_prefix(2)[OF assms(1) st[OF s(1)] s(2)] show "target = Target f" by (auto simp: stream_hdr_def)
  qed
  show "\<forall>(sid, addr, p)\<in>set (dp_out d). sid < length (dp_streams d) \<and> addr = sh_Remote (ds_header (dp_streams d ! sid))"
    using ok(4) by (auto simp: readers_ok_def)
  show "\<forall>sid<length (dp_streams d). prefix (outs sid d) (deliver_frames (\<lambda>_. True) (ds_got (dp_streams d ! sid)))"
    using ok(4) by (auto simp: readers_ok_def reader_ok_def dest!: read_many_deliver intro: prefix_order.trans)
  show "r_activeTCP (dp_r d) = int (length (filter (\<lambda>s. ds_open s \<and> sh_Type (ds_header s) = ''tcp'') (dp_streams d)))"
    by (simp add: ok(5) tcp_streams_def dview_def filter_map o_def)
qed

text \<open>The counters of a pipe are the bytes that were written, which are the first bytes that were read.\<close>

lemma io_copy_counts:
  "io_copy chunks n = (out, c) \<Longrightarrow> prefix out (concat (map fst chunks)) \<and> c = n + int (length out)"
proof (induction chunks n arbitrary: out c rule: io_copy.induct)
  case (2 chunk m err rest n)
  let ?m = "min m (length chunk)"
  show ?case
  proof (cases "err \<or> ?m \<noteq> length chunk")
    case True
    with "2.prems" have "out = take ?m chunk" "c = n + int ?m" by (auto simp: counting_write_def Let_def split: if_splits)
    then show ?thesis by (simp add: take_is_prefix)
  next
    case False
    obtain o1 c1 where r: "io_copy rest (counting_write ?m n) = (o1, c1)" by fastforce
    from "2.IH"[OF refl refl False r] have "prefix o1 (concat (map fst rest))" "c1 = counting_write ?m n + int (length o1)" by simp_all
    moreover have "out = chunk @ o1" "c = c1" using "2.prems" False r by (auto simp: Let_def)
    ultimately show ?thesis using False by (auto simp: counting_write_def)
  qed
qed simp

text \<open>Two datagrams of one address and a TCP connection.\<close>

definition demo_udp :: forward where
  "demo_udp = \<lparr>f_ID = ''f1'', f_ClientID = ''c1'', f_GroupID = [], f_Name = ''dns'', f_Protocol = ''udp'', f_PublicPort = 53, f_TargetHost = ''10.0.0.2'', f_TargetPort = 53,
     f_Enabled = True, f_CreatedAt = 0, f_UpdatedAt = 0\<rparr>"

definition demo_marshal :: header_codec where
  "demo_marshal h = (if h = stream_hdr demo_udp ''udp'' ''1.2.3.4:5'' then Some ''u'' else None)"

definition demo_unmarshal :: "string \<Rightarrow> stream_header option" where
  "demo_unmarshal s = (if s = ''u'' then Some (stream_hdr demo_udp ''udp'' ''1.2.3.4:5'') else None)"

definition demo_dp :: datapath where
  "demo_dp = udp_datagram demo_marshal \<lparr>oe_online = True, oe_stream = True, oe_fail = None\<rparr> None 9 ''1.2.3.4:5'' ''ping'' (new_datapath demo_udp)"

theorem udp_conversations_stay_apart_witness:
  "subseq (concat (map (to_target \<lparr>tg_dial = (\<lambda>_. True), tg_resolve = (\<lambda>_. True), tg_written = (\<lambda>_. True)\<rparr> demo_unmarshal)
     (filter (\<lambda>s. ds_header s = stream_hdr demo_udp ''udp'' ''1.2.3.4:5'') (dp_streams demo_dp)))) [''ping'']
   \<and> length (dp_streams demo_dp) = 1 \<and> ds_body (dp_streams demo_dp ! 0) = frame ''ping''"
proof -
  have codec: "json_codec demo_marshal demo_unmarshal" by (auto simp: json_codec_def demo_marshal_def demo_unmarshal_def newline_def)
  have "(dp_step demo_marshal)\<^sup>*\<^sup>* (new_datapath demo_udp) demo_dp"
    unfolding demo_dp_def by (intro r_into_rtranclp Datagram) (simp_all add: new_datapath_def MaxDatagram_def)
  note T = udp_conversations_stay_apart[OF codec this, of "\<lparr>tg_dial = (\<lambda>_. True), tg_resolve = (\<lambda>_. True), tg_written = (\<lambda>_. True)\<rparr>" "''1.2.3.4:5''"]
  have "dp_in demo_dp = [(''1.2.3.4:5'', ''ping'')]" "length (dp_streams demo_dp) = 1" "ds_body (dp_streams demo_dp ! 0) = frame ''ping''"
    by (simp_all add: demo_dp_def udp_datagram_def peer_def openStream_def new_datapath_def newRunner_def Let_def WriteJSONLine_def demo_marshal_def
        WriteFrame_frame MaxDatagram_def upd_stream_def new_stream_def demo_udp_def)
  with T show ?thesis by (simp add: received_def)
qed

end
