(* ===== verification/Relay_Pipe.thy ===== *)
theory Relay_Pipe
  imports Datapath "HOL-Library.Sublist"
begin

text \<open>
  The relay pipe (\<open>internal/relay/pipe.go\<close>) with its half-closes: the two copying goroutines of
  \<open>PipeCounted\<close>, each ending with \<open>closeWrite\<close> on the connection it writes to, and the two
  \<open>Close\<close> calls after both. A step is one round of a copy loop, the end of one, the return, or
  something the peers do; the goroutines interleave freely. \<open>Datapath\<close> has the outcome of a pipe as
  one value, \<open>PipeCounted\<close>; the last section shows that every run of the steps has such an outcome.
\<close>

section \<open>Connections\<close>

text \<open>
  The connections a pipe is built on: a TCP connection has a \<open>CloseWrite\<close>, a stream of the
  multiplexer has none but its \<open>Close\<close> only ends its own direction, and a \<open>BufferedConn\<close> passes
  both calls on.
\<close>

datatype relay_conn = TCPConn | YamuxStream | OtherConn | BufferedConn relay_conn

fun halfCloser :: "relay_conn \<Rightarrow> bool" where
  "halfCloser TCPConn = True"
| "halfCloser YamuxStream = False"
| "halfCloser OtherConn = False"
| "halfCloser (BufferedConn c) = True"

text \<open>
  One end of a pipe: the bytes its peer has sent so far, how many of them the pipe has read, whether
  the peer has ended, the bytes the pipe has written, and which sides the pipe has shut.
\<close>

record pipe_end =
  en_conn :: relay_conn
  en_got :: string
  en_read :: nat
  en_eof :: bool
  en_out :: string
  en_wshut :: bool
  en_rshut :: bool

fun conn_Close :: "relay_conn \<Rightarrow> pipe_end \<Rightarrow> pipe_end" where
  "conn_Close (BufferedConn c) e = conn_Close c e"
| "conn_Close YamuxStream e = e\<lparr>en_wshut := True\<rparr>"
| "conn_Close TCPConn e = e\<lparr>en_wshut := True, en_rshut := True\<rparr>"
| "conn_Close OtherConn e = e\<lparr>en_wshut := True, en_rshut := True\<rparr>"

text \<open>The \<open>CloseWrite\<close> method; a connection without one is closed.\<close>

fun conn_CloseWrite :: "relay_conn \<Rightarrow> pipe_end \<Rightarrow> pipe_end" where
  "conn_CloseWrite TCPConn e = e\<lparr>en_wshut := True\<rparr>"
| "conn_CloseWrite (BufferedConn c) e = (if halfCloser c then conn_CloseWrite c e else conn_Close c e)"
| "conn_CloseWrite c e = conn_Close c e"

definition closeWrite :: "pipe_end \<Rightarrow> pipe_end" where
  "closeWrite e = (if halfCloser (en_conn e) then conn_CloseWrite (en_conn e) e else conn_Close (en_conn e) e)"

section \<open>The pipe\<close>

datatype copy_phase = Copying | AtEOF | Broken

record pipe =
  pi_a :: pipe_end
  pi_b :: pipe_end
  pi_ab :: copy_phase
  pi_ba :: copy_phase
  pi_countAB :: "int option"
  pi_countBA :: "int option"
  pi_aToB :: int
  pi_bToA :: int
  pi_returned :: bool

definition unread :: "pipe_end \<Rightarrow> string" where
  "unread e = drop (en_read e) (en_got e)"

text \<open>
  The two goroutines are the same code with the ends exchanged, so each step is defined for the
  direction from \<open>a\<close> to \<open>b\<close> and used on the exchanged pipe for the other.
\<close>

definition exchange :: "pipe \<Rightarrow> pipe" where
  "exchange p = \<lparr>pi_a = pi_b p, pi_b = pi_a p, pi_ab = pi_ba p, pi_ba = pi_ab p, pi_countAB = pi_countBA p,
     pi_countBA = pi_countAB p, pi_aToB = pi_bToA p, pi_bToA = pi_aToB p, pi_returned = pi_returned p\<rparr>"

text \<open>The copy loop ends: what the goroutine does after \<open>io.Copy\<close>.\<close>

definition end_copy :: "copy_phase \<Rightarrow> pipe \<Rightarrow> pipe" where
  "end_copy ph p = p\<lparr>pi_ab := ph, pi_b := closeWrite (pi_b p)\<rparr>"

text \<open>
  One round of \<open>io.Copy\<close>: \<open>k\<close> bytes are read, the \<open>countingWriter\<close> gets \<open>n\<close> of them written and
  adds them to its counter, if it has one; an error or a short write ends the loop.
\<close>

definition copy_round :: "nat \<Rightarrow> nat \<Rightarrow> bool \<Rightarrow> pipe \<Rightarrow> pipe" where
  "copy_round k n err p =
     (let chunk = take k (unread (pi_a p));
          p1 = p\<lparr>pi_a := (pi_a p)\<lparr>en_read := en_read (pi_a p) + length chunk\<rparr>,
                 pi_b := (pi_b p)\<lparr>en_out := en_out (pi_b p) @ take n chunk\<rparr>,
                 pi_countAB := map_option (counting_write n) (pi_countAB p),
                 pi_aToB := pi_aToB p + int n\<rparr>
      in if err \<or> n \<noteq> length chunk then end_copy Broken p1 else p1)"

inductive copy_step :: "pipe \<Rightarrow> pipe \<Rightarrow> bool" where
  Round: "pi_ab p = Copying \<Longrightarrow> \<not> en_rshut (pi_a p) \<Longrightarrow> 0 < k \<Longrightarrow> k \<le> length (unread (pi_a p)) \<Longrightarrow> n \<le> k \<Longrightarrow>
    (en_wshut (pi_b p) \<longrightarrow> n = 0 \<and> err) \<Longrightarrow> copy_step p (copy_round k n err p)"
| AtEnd: "pi_ab p = Copying \<Longrightarrow> \<not> en_rshut (pi_a p) \<Longrightarrow> unread (pi_a p) = [] \<Longrightarrow> en_eof (pi_a p) \<Longrightarrow> copy_step p (end_copy AtEOF p)"
| ReadFails: "pi_ab p = Copying \<Longrightarrow> copy_step p (end_copy Broken p)"

text \<open>What a peer does: it sends more, or it ends.\<close>

inductive peer_step :: "pipe \<Rightarrow> pipe \<Rightarrow> bool" where
  Sends: "\<not> en_eof (pi_a p) \<Longrightarrow> peer_step p (p\<lparr>pi_a := (pi_a p)\<lparr>en_got := en_got (pi_a p) @ bs\<rparr>\<rparr>)"
| Ends: "\<not> en_eof (pi_a p) \<Longrightarrow> peer_step p (p\<lparr>pi_a := (pi_a p)\<lparr>en_eof := True\<rparr>\<rparr>)"

text \<open>After \<open>wg.Wait()\<close>.\<close>

definition close_both :: "pipe \<Rightarrow> pipe" where
  "close_both p = p\<lparr>pi_a := conn_Close (en_conn (pi_a p)) (pi_a p), pi_b := conn_Close (en_conn (pi_b p)) (pi_b p), pi_returned := True\<rparr>"

inductive pipe_step :: "pipe \<Rightarrow> pipe \<Rightarrow> bool" where
  AB: "copy_step p q \<Longrightarrow> pipe_step p q"
| BA: "copy_step (exchange p) q \<Longrightarrow> pipe_step p (exchange q)"
| PeerA: "peer_step p q \<Longrightarrow> pipe_step p q"
| PeerB: "peer_step (exchange p) q \<Longrightarrow> pipe_step p (exchange q)"
| Return: "pi_ab p \<noteq> Copying \<Longrightarrow> pi_ba p \<noteq> Copying \<Longrightarrow> \<not> pi_returned p \<Longrightarrow> pipe_step p (close_both p)"

inductive_cases copy_stepE: "copy_step p q"
inductive_cases peer_stepE: "peer_step p q"

text \<open>\<open>PipeCounted\<close> is called; a \<open>BufferedConn\<close> may hold bytes that came with the header.\<close>

definition new_end :: "relay_conn \<Rightarrow> string \<Rightarrow> pipe_end" where
  "new_end c buffered = \<lparr>en_conn = c, en_got = buffered, en_read = 0, en_eof = False, en_out = [], en_wshut = False, en_rshut = False\<rparr>"

definition pipe_start :: "relay_conn \<Rightarrow> string \<Rightarrow> relay_conn \<Rightarrow> int option \<Rightarrow> int option \<Rightarrow> pipe" where
  "pipe_start a buffered b countAB countBA =
     \<lparr>pi_a = new_end a buffered, pi_b = new_end b [], pi_ab = Copying, pi_ba = Copying, pi_countAB = countAB, pi_countBA = countBA,
      pi_aToB = 0, pi_bToA = 0, pi_returned = False\<rparr>"

text \<open>The pipes of the program: \<open>handleTCP\<close> of the server and \<open>handleStream\<close> of the client.\<close>

definition server_pipe :: "int \<Rightarrow> int \<Rightarrow> pipe" where
  "server_pipe bytesIn bytesOut = pipe_start TCPConn [] YamuxStream (Some bytesIn) (Some bytesOut)"

definition client_pipe :: "string \<Rightarrow> pipe" where
  "client_pipe buffered = pipe_start (BufferedConn YamuxStream) buffered TCPConn None None"
section \<open>Invariant\<close>

text \<open>Connections whose write side the pipe can shut alone.\<close>

fun one_way :: "relay_conn \<Rightarrow> bool" where
  "one_way OtherConn = False"
| "one_way (BufferedConn c) = one_way c"
| "one_way c = True"

lemma conn_Close_frame [simp]:
  "en_conn (conn_Close c e) = en_conn e" "en_got (conn_Close c e) = en_got e" "en_read (conn_Close c e) = en_read e"
  "en_eof (conn_Close c e) = en_eof e" "en_out (conn_Close c e) = en_out e" "en_wshut (conn_Close c e)"
  by (induction c e rule: conn_Close.induct) auto

lemma conn_CloseWrite_one_way: "one_way c \<Longrightarrow> conn_CloseWrite c e = e\<lparr>en_wshut := True\<rparr>"
proof (induction c)
  case (BufferedConn c)
  then show ?case by (cases c) auto
qed auto

lemma closeWrite_one_way [simp]: "one_way (en_conn e) \<Longrightarrow> closeWrite e = e\<lparr>en_wshut := True\<rparr>"
  by (cases "en_conn e") (simp_all add: closeWrite_def conn_CloseWrite_one_way del: conn_CloseWrite.simps)

lemma exchange_exchange [simp]: "exchange (exchange p) = p"
  by (simp add: exchange_def)

lemma exchange_sel [simp]:
  "pi_a (exchange p) = pi_b p" "pi_b (exchange p) = pi_a p" "pi_ab (exchange p) = pi_ba p" "pi_ba (exchange p) = pi_ab p"
  "pi_countAB (exchange p) = pi_countBA p" "pi_countBA (exchange p) = pi_countAB p" "pi_aToB (exchange p) = pi_bToA p"
  "pi_bToA (exchange p) = pi_aToB p" "pi_returned (exchange p) = pi_returned p"
  by (simp_all add: exchange_def)

text \<open>The direction from \<open>a\<close> to \<open>b\<close>, with the counter at \<open>c0\<close> when the pipe started.\<close>

definition direction_ok :: "int option \<Rightarrow> pipe \<Rightarrow> bool" where
  "direction_ok c0 p \<longleftrightarrow>
     one_way (en_conn (pi_a p)) \<and> en_read (pi_a p) \<le> length (en_got (pi_a p))
     \<and> prefix (en_out (pi_b p)) (take (en_read (pi_a p)) (en_got (pi_a p)))
     \<and> (pi_ab p \<noteq> Broken \<longrightarrow> en_out (pi_b p) = take (en_read (pi_a p)) (en_got (pi_a p)))
     \<and> (pi_ab p = AtEOF \<longrightarrow> en_eof (pi_a p) \<and> en_read (pi_a p) = length (en_got (pi_a p)))
     \<and> pi_aToB p = int (length (en_out (pi_b p))) \<and> pi_countAB p = map_option (\<lambda>c. c + int (length (en_out (pi_b p)))) c0
     \<and> (en_wshut (pi_b p) \<longleftrightarrow> pi_ab p \<noteq> Copying) \<and> (en_rshut (pi_a p) \<longrightarrow> pi_returned p) \<and> (pi_returned p \<longrightarrow> pi_ab p \<noteq> Copying)"

definition pipe_ok :: "int option \<Rightarrow> int option \<Rightarrow> pipe \<Rightarrow> bool" where
  "pipe_ok c0 d0 p \<longleftrightarrow> direction_ok c0 p \<and> direction_ok d0 (exchange p)"

lemma pipe_ok_exchange: "pipe_ok c0 d0 (exchange p) \<longleftrightarrow> pipe_ok d0 c0 p"
  by (simp add: pipe_ok_def conj_commute)

lemma pipe_okI: "direction_ok c0 p \<Longrightarrow> direction_ok d0 (exchange p) \<Longrightarrow> pipe_ok c0 d0 p"
  by (simp add: pipe_ok_def)

lemma pipe_okD: "pipe_ok c0 d0 p \<Longrightarrow> direction_ok c0 p" "pipe_ok c0 d0 p \<Longrightarrow> direction_ok d0 (exchange p)"
  by (simp_all add: pipe_ok_def)

lemma end_copy_ok:
  assumes "pipe_ok c0 d0 p" "pi_ab p = Copying" "ph \<noteq> Copying"
    "ph = AtEOF \<Longrightarrow> en_eof (pi_a p) \<and> en_read (pi_a p) = length (en_got (pi_a p))"
  shows "pipe_ok c0 d0 (end_copy ph p)"
proof (rule pipe_okI)
  note d = pipe_okD[OF assms(1)]
  have b: "closeWrite (pi_b p) = (pi_b p)\<lparr>en_wshut := True\<rparr>" using d(2) by (simp add: direction_ok_def)
  show "direction_ok c0 (end_copy ph p)" using d(1) assms(2-4) by (simp add: direction_ok_def end_copy_def b) blast
  show "direction_ok d0 (exchange (end_copy ph p))" using d(2) by (simp add: direction_ok_def end_copy_def b)
qed

lemma take_read:
  assumes "r \<le> length got"
  shows "take (r + length (take k (drop r got))) got = take r got @ take k (drop r got)"
  using assms by (simp add: take_add min_def)

text \<open>The part of a round before its error is looked at.\<close>

definition moved :: "nat \<Rightarrow> nat \<Rightarrow> pipe \<Rightarrow> pipe" where
  "moved k n p = p\<lparr>pi_a := (pi_a p)\<lparr>en_read := en_read (pi_a p) + k\<rparr>,
     pi_b := (pi_b p)\<lparr>en_out := en_out (pi_b p) @ take n (unread (pi_a p))\<rparr>,
     pi_countAB := map_option (counting_write n) (pi_countAB p), pi_aToB := pi_aToB p + int n\<rparr>"

lemma copy_round_moved:
  "k \<le> length (unread (pi_a p)) \<Longrightarrow> n \<le> k \<Longrightarrow>
    copy_round k n err p = (if err \<or> n \<noteq> k then end_copy Broken (moved k n p) else moved k n p)"
  by (simp add: copy_round_def moved_def min_def Let_def)

lemma moved_out:
  assumes "direction_ok c0 p" "pi_ab p = Copying" "k \<le> length (unread (pi_a p))" "n \<le> k"
  shows "en_out (pi_b (moved k n p)) = take (en_read (pi_a p) + n) (en_got (pi_a p))"
    "en_read (pi_a p) + k \<le> length (en_got (pi_a p))"
    "pi_countAB (moved k n p) = map_option (\<lambda>c. c + int (length (en_out (pi_b (moved k n p))))) c0"
    "pi_aToB (moved k n p) = int (length (en_out (pi_b (moved k n p))))"
  using assms by (cases c0; auto simp: direction_ok_def moved_def unread_def take_add counting_write_def)+

lemma moved_ok:
  assumes "pipe_ok c0 d0 p" "pi_ab p = Copying" "k \<le> length (unread (pi_a p))"
  shows "pipe_ok c0 d0 (moved k k p)"
proof (rule pipe_okI)
  note d = pipe_okD[OF assms(1)]
  note m = moved_out[OF d(1) assms(2,3) order_refl]
  have "pi_a (moved k k p) = (pi_a p)\<lparr>en_read := en_read (pi_a p) + k\<rparr>" "pi_ab (moved k k p) = Copying"
    "pi_returned (moved k k p) = pi_returned p" "en_wshut (pi_b (moved k k p)) = en_wshut (pi_b p)"
    using assms(2) by (simp_all add: moved_def)
  with d(1) m assms(2) show "direction_ok c0 (moved k k p)" by (simp add: direction_ok_def) blast
  show "direction_ok d0 (exchange (moved k k p))" using d(2) by (simp add: direction_ok_def moved_def)
qed

text \<open>A round that fails is the end of the loop after what was written.\<close>

lemma broken_round_ok:
  assumes "pipe_ok c0 d0 p" "pi_ab p = Copying" "k \<le> length (unread (pi_a p))" "n \<le> k"
  shows "pipe_ok c0 d0 (end_copy Broken (moved k n p))"
proof (rule pipe_okI)
  note d = pipe_okD[OF assms(1)]
  note m = moved_out[OF d(1) assms(2,3,4)]
  have b: "closeWrite (pi_b (moved k n p)) = (pi_b (moved k n p))\<lparr>en_wshut := True\<rparr>"
    using d(2) by (simp add: direction_ok_def moved_def)
  have f: "pi_a (moved k n p) = (pi_a p)\<lparr>en_read := en_read (pi_a p) + k\<rparr>" "pi_returned (moved k n p) = pi_returned p"
    by (simp_all add: moved_def)
  have "prefix (take (en_read (pi_a p) + n) (en_got (pi_a p))) (take (en_read (pi_a p) + k) (en_got (pi_a p)))"
    using assms(4) by (simp add: take_is_prefix min_def prefix_def) (metis append_take_drop_id min.absorb1 nat_add_left_cancel_le take_take)
  with d(1) m assms(2) f show "direction_ok c0 (end_copy Broken (moved k n p))"
    by (simp add: direction_ok_def end_copy_def b) blast
  show "direction_ok d0 (exchange (end_copy Broken (moved k n p)))"
    using d(2) by (simp add: direction_ok_def end_copy_def b) (simp add: moved_def)
qed

lemma copy_step_ok: "pipe_ok c0 d0 p \<Longrightarrow> copy_step p q \<Longrightarrow> pipe_ok c0 d0 q"
proof (erule copy_stepE)
  assume ok: "pipe_ok c0 d0 p"
  show "pipe_ok c0 d0 q" if "q = copy_round k n err p" "pi_ab p = Copying" "k \<le> length (unread (pi_a p))" "n \<le> k" for k n err
    using that ok by (simp add: copy_round_moved moved_ok broken_round_ok)
  show "pipe_ok c0 d0 q" if "q = end_copy AtEOF p" "pi_ab p = Copying" "unread (pi_a p) = []" "en_eof (pi_a p)"
    using that end_copy_ok[OF ok] pipe_okD(1)[OF ok] by (simp add: unread_def direction_ok_def)
  show "pipe_ok c0 d0 q" if "q = end_copy Broken p" "pi_ab p = Copying"
    using that end_copy_ok[OF ok that(2), of Broken] by simp
qed

lemma peer_step_ok: "pipe_ok c0 d0 p \<Longrightarrow> peer_step p q \<Longrightarrow> pipe_ok c0 d0 q"
proof (erule peer_stepE)
  assume ok: "pipe_ok c0 d0 p"
  note d = pipe_okD[OF ok]
  show "pipe_ok c0 d0 q" if "q = p\<lparr>pi_a := (pi_a p)\<lparr>en_got := en_got (pi_a p) @ bs\<rparr>\<rparr>" "\<not> en_eof (pi_a p)" for bs
    using d that by (intro pipe_okI) (simp_all add: direction_ok_def)
  show "pipe_ok c0 d0 q" if "q = p\<lparr>pi_a := (pi_a p)\<lparr>en_eof := True\<rparr>\<rparr>" using d that by (intro pipe_okI) (simp_all add: direction_ok_def)
qed

lemma close_both_ok: "pipe_ok c0 d0 p \<Longrightarrow> pi_ab p \<noteq> Copying \<Longrightarrow> pi_ba p \<noteq> Copying \<Longrightarrow> pipe_ok c0 d0 (close_both p)"
  by (simp add: pipe_ok_def direction_ok_def close_both_def)

lemma pipe_step_ok: "pipe_ok c0 d0 p \<Longrightarrow> pipe_step p q \<Longrightarrow> pipe_ok c0 d0 q"
  by (erule pipe_step.cases)
    (use copy_step_ok peer_step_ok close_both_ok pipe_ok_exchange in metis)+

lemma pipe_start_ok: "one_way a \<Longrightarrow> one_way b \<Longrightarrow> pipe_ok c0 d0 (pipe_start a buffered b c0 d0)"
  by (cases c0; cases d0; simp add: pipe_ok_def direction_ok_def pipe_start_def new_end_def)

interpretation pipe: step_system pipe_step
  "\<lambda>p. \<exists>a buffered b. one_way a \<and> one_way b \<and> p = pipe_start a buffered b c0 d0" "pipe_ok c0 d0" for c0 d0
  by unfold_locales (auto intro: pipe_start_ok pipe_step_ok)

lemmas pipe_reachable_ok = pipe.reachable_inv[rotated]

section \<open>The end of a pipe\<close>

text \<open>Once both peers have ended, every step does some of the work that is left.\<close>

definition pipe_work :: "pipe \<Rightarrow> nat" where
  "pipe_work p = length (unread (pi_a p)) + length (unread (pi_b p)) + (if pi_ab p = Copying then 1 else 0)
     + (if pi_ba p = Copying then 1 else 0) + (if pi_returned p then 0 else 1)"

definition both_ended :: "int option \<Rightarrow> int option \<Rightarrow> pipe \<Rightarrow> bool" where
  "both_ended c0 d0 p \<longleftrightarrow> pipe_ok c0 d0 p \<and> en_eof (pi_a p) \<and> en_eof (pi_b p)"

lemma pipe_work_exchange [simp]: "pipe_work (exchange p) = pipe_work p"
  by (simp add: pipe_work_def)

lemma both_ended_exchange: "both_ended c0 d0 (exchange p) \<longleftrightarrow> both_ended d0 c0 p"
  by (auto simp: both_ended_def pipe_ok_exchange)

lemma end_copy_works:
  assumes "pipe_ok c0 d0 p" "pi_ab p = Copying" "ph \<noteq> Copying"
  shows "pipe_work (end_copy ph p) < pipe_work p" "en_eof (pi_a (end_copy ph p)) = en_eof (pi_a p)"
    "en_eof (pi_b (end_copy ph p)) = en_eof (pi_b p)"
  using assms by (auto simp: pipe_work_def end_copy_def unread_def pipe_ok_def direction_ok_def)

lemma moved_works:
  assumes "k \<le> length (unread (pi_a p))" "0 < k"
  shows "pipe_work (moved k n p) < pipe_work p" "en_eof (pi_a (moved k n p)) = en_eof (pi_a p)"
    "en_eof (pi_b (moved k n p)) = en_eof (pi_b p)"
  using assms by (auto simp: pipe_work_def moved_def unread_def)

lemma copy_step_works:
  assumes ok: "both_ended c0 d0 p" and s: "copy_step p q"
  shows "pipe_work q < pipe_work p \<and> both_ended c0 d0 q"
proof -
  have p: "pipe_ok c0 d0 p" using ok by (simp add: both_ended_def)
  have round: "pipe_work q < pipe_work p \<and> (en_eof (pi_a q) \<longleftrightarrow> en_eof (pi_a p)) \<and> (en_eof (pi_b q) \<longleftrightarrow> en_eof (pi_b p))"
    if "q = copy_round k n err p" "pi_ab p = Copying" "0 < k" "k \<le> length (unread (pi_a p))" "n \<le> k" for k n err
  proof -
    have "closeWrite (pi_b (moved k n p)) = (pi_b (moved k n p))\<lparr>en_wshut := True\<rparr>"
      using pipe_okD(2)[OF p] by (simp add: direction_ok_def moved_def)
    then have "pipe_work (end_copy Broken (moved k n p)) \<le> pipe_work (moved k n p)"
      "en_eof (pi_a (end_copy Broken (moved k n p))) = en_eof (pi_a p)" "en_eof (pi_b (end_copy Broken (moved k n p))) = en_eof (pi_b p)"
      by (simp_all add: pipe_work_def end_copy_def unread_def moved_def)
    with that moved_works[of k p n] show ?thesis by (auto simp: copy_round_moved)
  qed
  from s have "pipe_work q < pipe_work p \<and> (en_eof (pi_a q) \<longleftrightarrow> en_eof (pi_a p)) \<and> (en_eof (pi_b q) \<longleftrightarrow> en_eof (pi_b p))"
    by (rule copy_stepE) (use round end_copy_works[OF p] in auto)
  with copy_step_ok[OF p s] ok show ?thesis by (simp add: both_ended_def)
qed

lemma ended_no_peer: "both_ended c0 d0 p \<Longrightarrow> \<not> peer_step p q"
  by (auto simp: both_ended_def elim: peer_stepE)

lemma pipe_step_works:
  assumes "both_ended c0 d0 p" "pipe_step p q"
  shows "pipe_work q < pipe_work p \<and> both_ended c0 d0 q"
  using assms(2)
proof cases
  case (BA r)
  with copy_step_works[of d0 c0 "exchange p" r] assms(1) show ?thesis by (simp add: both_ended_exchange)
next
  case (PeerB r)
  with ended_no_peer[of d0 c0 "exchange p" r] assms(1) show ?thesis by (simp add: both_ended_exchange)
next
  case Return
  have "pipe_work q < pipe_work p" using Return by (simp add: pipe_work_def close_both_def unread_def)
  moreover have "pipe_ok c0 d0 q" using Return close_both_ok assms(1) by (simp add: both_ended_def)
  ultimately show ?thesis using Return assms(1) by (simp add: both_ended_def close_both_def)
qed (use copy_step_works ended_no_peer assms(1) in blast)+

lemma pipe_not_stuck: "\<not> pi_returned p \<Longrightarrow> \<exists>q. pipe_step p q"
  by (cases "pi_ab p = Copying"; cases "pi_ba p = Copying")
    (use pipe_step.intros ReadFails exchange_sel(3) in metis)+

interpretation ended: ending_system pipe_step "both_ended c0 d0" "both_ended c0 d0" pipe_work pi_returned for c0 d0
  by unfold_locales (use pipe_step_works pipe_not_stuck in blast)+

section \<open>A run without failures\<close>

text \<open>What is left of a direction whose peer has ended goes over in at most two steps.\<close>

definition drained :: "pipe \<Rightarrow> pipe" where
  "drained p = (if pi_ab p = Copying
     then end_copy AtEOF (if unread (pi_a p) = [] then p else moved (length (unread (pi_a p))) (length (unread (pi_a p))) p) else p)"

lemma drained_steps:
  assumes p: "pipe_ok c0 d0 p" "en_eof (pi_a p)"
  shows "copy_step\<^sup>*\<^sup>* p (drained p)"
proof (cases "pi_ab p = Copying")
  case True
  let ?k = "length (unread (pi_a p))"
  have open_ab: "\<not> en_rshut (pi_a p)" "\<not> en_wshut (pi_b p)" using pipe_okD(1)[OF p(1)] True by (auto simp: direction_ok_def)
  let ?m = "if unread (pi_a p) = [] then p else moved ?k ?k p"
  have "copy_step\<^sup>*\<^sup>* p ?m"
    using Round[OF True open_ab(1), of ?k ?k False] open_ab(2) by (auto simp: copy_round_moved)
  also have "copy_step ?m (end_copy AtEOF ?m)"
    using True open_ab p(2) by (intro AtEnd) (auto simp: moved_def unread_def)
  finally show ?thesis using True by (simp add: drained_def)
qed (simp add: drained_def)

lemma drained_result:
  assumes "both_ended c0 d0 p"
  shows "pi_ab (drained p) \<noteq> Copying" "pi_ba (drained p) = pi_ba p" "pi_returned (drained p) = pi_returned p"
    "en_got (pi_a (drained p)) = en_got (pi_a p)" "en_got (pi_b (drained p)) = en_got (pi_b p)"
    "en_out (pi_a (drained p)) = en_out (pi_a p)"
    "pi_ab (drained p) = Broken \<longleftrightarrow> pi_ab p = Broken"
proof -
  have b: "closeWrite (pi_b p) = (pi_b p)\<lparr>en_wshut := True\<rparr>"
    "closeWrite (pi_b (moved k n p)) = (pi_b (moved k n p))\<lparr>en_wshut := True\<rparr>" for k n
    using assms by (simp_all add: both_ended_def pipe_ok_def direction_ok_def moved_def)
  show "pi_ab (drained p) \<noteq> Copying" by (simp add: drained_def end_copy_def)
  show "pi_ab (drained p) = Broken \<longleftrightarrow> pi_ab p = Broken" by (simp add: drained_def end_copy_def)
  show "pi_ba (drained p) = pi_ba p" "pi_returned (drained p) = pi_returned p" "en_got (pi_a (drained p)) = en_got (pi_a p)"
    "en_got (pi_b (drained p)) = en_got (pi_b p)" "en_out (pi_a (drained p)) = en_out (pi_a p)"
    by (simp_all add: drained_def end_copy_def b) (simp_all add: moved_def)
qed

lemma copy_steps_pipe: "copy_step\<^sup>*\<^sup>* p q \<Longrightarrow> pipe_step\<^sup>*\<^sup>* p q"
  by (induction rule: rtranclp_induct) (auto dest: AB)

lemma copy_steps_exchanged: "copy_step\<^sup>*\<^sup>* p q \<Longrightarrow> pipe_step\<^sup>*\<^sup>* (exchange p) (exchange q)"
proof (induction rule: rtranclp_induct)
  case (step y z)
  then show ?case using BA[of "exchange y" z] by simp
qed simp

lemma direction_delivers:
  "direction_ok c0 p \<Longrightarrow> pi_ab p = AtEOF \<Longrightarrow> en_out (pi_b p) = en_got (pi_a p) \<and> en_eof (pi_a p)"
  by (simp add: direction_ok_def)

lemma pipe_delivers:
  assumes "both_ended c0 d0 p" "\<not> pi_returned p"
  shows "\<exists>q. pipe_step\<^sup>*\<^sup>* p q \<and> pi_returned q \<and> (pi_ab p \<noteq> Broken \<longrightarrow> en_out (pi_b q) = en_got (pi_a p))
    \<and> (pi_ba p \<noteq> Broken \<longrightarrow> en_out (pi_a q) = en_got (pi_b p))"
proof -
  let ?p1 = "drained p" and ?r = "drained (exchange (drained p))"
  have s1: "pipe_step\<^sup>*\<^sup>* p ?p1" 
    using assms(1) by (intro copy_steps_pipe drained_steps[of c0 d0 p]) (simp_all add: both_ended_def)
  note e1 = ended.steps_inv[OF s1 assms(1)]
  then have x1: "both_ended d0 c0 (exchange ?p1)" by (simp add: both_ended_exchange)
  have s2: "pipe_step\<^sup>*\<^sup>* ?p1 (exchange ?r)"
    using copy_steps_exchanged[OF drained_steps[of d0 c0 "exchange ?p1"]] x1 by (simp add: both_ended_def)
  note e2 = ended.steps_inv[OF s2 e1]
  note r1 = drained_result[OF assms(1)] and r2 = drained_result[OF x1]
  have "pipe_step (exchange ?r) (close_both (exchange ?r))"
    using r1(1,3) r2(1,2,3) assms(2) by (intro Return) simp_all
  with s1 s2 have "pipe_step\<^sup>*\<^sup>* p (close_both (exchange ?r))" by (meson rtranclp.rtrancl_into_rtrancl rtranclp_trans)
  moreover have "en_out (pi_b (exchange ?r)) = en_got (pi_a p)" if "pi_ab p \<noteq> Broken"
  proof -
    have "pi_ab (exchange ?r) = AtEOF" using r1(1,7) r2(2) that by (cases "pi_ab ?p1") auto
    with direction_delivers[of c0 "exchange ?r"] e2 r1(4) r2(5) show ?thesis by (simp add: both_ended_def pipe_ok_def)
  qed
  moreover have "en_out (pi_a (exchange ?r)) = en_got (pi_b p)" if "pi_ba p \<noteq> Broken"
  proof -
    have "pi_ab ?r = AtEOF" using r2(1,7) r1(2) that by (cases "pi_ab ?r") auto
    with direction_delivers[of d0 ?r] e2 r1(5) r2(4) show ?thesis by (simp add: both_ended_def pipe_ok_def)
  qed
  ultimately show ?thesis by (auto simp: close_both_def intro!: exI[of _ "close_both (exchange ?r)"])
qed

text \<open>What a pipe that has returned did is an outcome of \<open>PipeCounted\<close>.\<close>

lemma pipe_outcome:
  assumes "pipe_ok (Some n) (Some m) p"
  shows "\<exists>ab ba. PipeCounted ab ba n m =
    ((en_out (pi_b p), the (pi_countAB p)), (en_out (pi_a p), the (pi_countBA p)))"
proof -
  have one: "io_copy [(out, length out, True)] c = (out, c + int (length out))" for out c
    by (simp add: counting_write_def)
  have "PipeCounted [(en_out (pi_b p), length (en_out (pi_b p)), True)] [(en_out (pi_a p), length (en_out (pi_a p)), True)] n m =
      ((en_out (pi_b p), the (pi_countAB p)), (en_out (pi_a p), the (pi_countBA p)))"
    using pipe_okD[OF assms] unfolding PipeCounted_def one by (simp add: direction_ok_def)
  then show ?thesis by blast
qed

section \<open>Properties of the pipes\<close>

lemma server_pipe_ok: "pipe_ok (Some n) (Some m) (server_pipe n m)"
  by (simp add: server_pipe_def pipe_start_ok)

lemma client_pipe_ok: "pipe_ok None None (client_pipe buffered)"
  by (simp add: client_pipe_def pipe_start_ok)


text \<open>A visitor says hi and ends; the target has not answered yet.\<close>

definition hear :: "string \<Rightarrow> pipe \<Rightarrow> pipe" where
  "hear msg p = p\<lparr>pi_a := (pi_a p)\<lparr>en_got := msg, en_eof := True\<rparr>\<rparr>"

lemma heard_and_drained:
  assumes ok: "pipe_ok c0 d0 p" and "\<not> en_eof (pi_a p)" "en_got (pi_a p) @ bs = msg"
  shows "pipe_step\<^sup>*\<^sup>* p (drained (hear msg p))"
proof -
  let ?p1 = "p\<lparr>pi_a := (pi_a p)\<lparr>en_got := en_got (pi_a p) @ bs\<rparr>\<rparr>"
  let ?p2 = "?p1\<lparr>pi_a := (pi_a ?p1)\<lparr>en_eof := True\<rparr>\<rparr>"
  have "pipe_step p ?p1" using assms(2) by (intro PeerA Sends)
  moreover have "pipe_step ?p1 ?p2" using assms(2) by (intro PeerA Ends) simp
  moreover have "?p2 = hear msg p" using assms(3) by (simp add: hear_def)
  ultimately have s: "pipe_step\<^sup>*\<^sup>* p (hear msg p)" by auto
  with copy_steps_pipe[OF drained_steps[OF pipe.steps_inv[OF s ok]]] show ?thesis by (auto simp: hear_def)
qed




end
