(* ===== verification/Command_Line.thy ===== *)
theory Command_Line
  imports Client Self_Update
begin

text \<open>
  The command (\<open>cmd/spawnrelay/main.go\<close>): the environment file, the flags with their defaults from
  the environment, and the configurations of server, client and agent. The parser of the \<open>flag\<close>
  package, \<open>bufio.Scanner\<close> and \<open>os.Setenv\<close> are modelled as far as they are used. The host (platform,
  user, home, files) is a parameter; signals and the log output are left out.
\<close>

section \<open>The environment\<close>

type_synonym environ = "string \<rightharpoonup> string"

record cli_host =
  ho_GOOS :: string
  ho_euid :: int
  ho_home :: "string option"
  ho_exe :: "string option"
  ho_file :: "string \<Rightarrow> (string, string) result"

datatype cli_error = EnvFile string | BadEnvLine string | LineTooLongInFile | BadFlagSyntax string | UndefinedFlag string | HelpWanted
  | BadBool string string | MissingArgument string | BadLogLevel string | BadLogFormat string

definition getenv :: "environ \<Rightarrow> string \<Rightarrow> string" where
  "getenv m k = (case m k of None \<Rightarrow> [] | Some v \<Rightarrow> v)"

definition envOr :: "environ \<Rightarrow> string \<Rightarrow> string \<Rightarrow> string" where
  "envOr m k d = (if getenv m k \<noteq> [] then getenv m k else d)"

definition envBool :: "environ \<Rightarrow> string \<Rightarrow> bool" where
  "envBool m k \<longleftrightarrow> to_lower (getenv m k) \<in> {''1'', ''true'', ''yes'', ''on''}"

definition envBoolDefault :: "environ \<Rightarrow> string \<Rightarrow> bool \<Rightarrow> bool" where
  "envBoolDefault m k d = (if getenv m k = [] then d else envBool m k)"

definition defaultDataDir :: "cli_host \<Rightarrow> string" where
  "defaultDataDir ho =
     (if ho_GOOS ho = ''linux'' \<and> ho_euid ho = 0 then ''/var/lib/spawnrelay''
      else case ho_home ho of None \<Rightarrow> ''spawnrelay-data'' | Some home \<Rightarrow> path_join [home, ''.spawnrelay''])"

text \<open>\<open>os.Setenv\<close> refuses an empty key and zero bytes; a key from \<open>Cut\<close> has no equals sign.\<close>

definition setenv :: "string \<Rightarrow> string \<Rightarrow> environ \<Rightarrow> (cli_error, environ) result" where
  "setenv k v m = (if k = [] \<or> CHR 0x00 \<in> set k \<or> CHR 0x00 \<in> set v then Inl (BadEnvLine k) else Inr (m(k \<mapsto> v)))"

definition unquoted :: "string \<Rightarrow> string" where
  "unquoted v =
     (if length v \<ge> 2 \<and> (hd v = CHR 0x22 \<and> last v = CHR 0x22 \<or> hd v = CHR 0x27 \<and> last v = CHR 0x27)
      then butlast (tl v) else v)"

definition env_line :: "string \<Rightarrow> environ \<Rightarrow> (cli_error, environ) result" where
  "env_line text m =
     (let line = trim_space text in
      if line = [] \<or> has_prefix ''#'' line then Inr m
      else case cut CHR ''='' (trim_prefix ''export '' line) of
        (k, v, ok) \<Rightarrow> if \<not> ok then Inr m else setenv (trim_space k) (unquoted (trim_space v)) m)"

text \<open>The scanner ends at a line that does not fit in its buffer of 64 KiB.\<close>

fun env_lines :: "string list \<Rightarrow> environ \<Rightarrow> (cli_error, environ) result" where
  "env_lines [] m = Inr m"
| "env_lines (l # ls) m = (if length l \<ge> 65536 then Inl LineTooLongInFile else rbind (env_line l m) (env_lines ls))"

definition loadEnvFile :: "cli_host \<Rightarrow> string \<Rightarrow> environ \<Rightarrow> (cli_error, environ) result" where
  "loadEnvFile ho path m =
     (case ho_file ho path of
        Inl e \<Rightarrow> Inl (EnvFile e)
      | Inr content \<Rightarrow> env_lines (split_on CHR 0x0A content) m)"

fun preloadEnvFile :: "cli_host \<Rightarrow> string list \<Rightarrow> environ \<Rightarrow> (cli_error, environ) result" where
  "preloadEnvFile ho [] m = Inr m"
| "preloadEnvFile ho (a # args) m =
     (if a = ''--env-file'' \<or> a = ''-env-file'' then
        (case args of p # _ \<Rightarrow> loadEnvFile ho p m | [] \<Rightarrow> Inr m)
      else if has_prefix ''--env-file='' a \<or> has_prefix ''-env-file='' a then loadEnvFile ho (fst (snd (cut CHR ''='' a))) m
      else preloadEnvFile ho args m)"

section \<open>Flags\<close>

datatype flag_kind = StringFlag | BoolFlag

type_synonym flags = "(string \<times> flag_kind) list"

definition parse_bool :: "string \<Rightarrow> bool option" where
  "parse_bool s =
     (if s \<in> {''1'', ''t'', ''T'', ''TRUE'', ''true'', ''True''} then Some True
      else if s \<in> {''0'', ''f'', ''F'', ''FALSE'', ''false'', ''False''} then Some False else None)"

definition bool_string :: "bool \<Rightarrow> string" where
  "bool_string b = (if b then ''true'' else ''false'')"

text \<open>
  \<open>FlagSet.Parse\<close>: the assignments in order, or the error it ends with. The name of an argument with
  an equals sign after its first character is what stands before it.
\<close>

definition flag_name :: "string \<Rightarrow> string" where
  "flag_name s = (if has_prefix ''--'' s then drop 2 s else drop 1 s)"

fun parse_flags :: "flags \<Rightarrow> string list \<Rightarrow> (cli_error, (string \<times> string) list) result" where
  "parse_flags fs [] = Inr []"
| "parse_flags fs (s # args) =
     (if length s < 2 \<or> hd s \<noteq> CHR ''-'' \<or> s = ''--'' then Inr []
      else let word = flag_name s in
        if word = [] \<or> hd word = CHR ''-'' \<or> hd word = CHR ''='' then Inl (BadFlagSyntax s)
        else case cut CHR ''='' word of
          (name, v, hasValue) \<Rightarrow>
            (case map_of fs name of
               None \<Rightarrow> if name = ''help'' \<or> name = ''h'' then Inl HelpWanted else Inl (UndefinedFlag name)
             | Some BoolFlag \<Rightarrow>
                 (case (if hasValue then parse_bool v else Some True) of
                    None \<Rightarrow> Inl (BadBool name v)
                  | Some b \<Rightarrow> rbind (parse_flags fs args) (\<lambda>as. Inr ((name, bool_string b) # as)))
             | Some StringFlag \<Rightarrow>
                 (if hasValue then rbind (parse_flags fs args) (\<lambda>as. Inr ((name, v) # as))
                  else case args of
                    [] \<Rightarrow> Inl (MissingArgument name)
                  | w # rest \<Rightarrow> rbind (parse_flags fs rest) (\<lambda>as. Inr ((name, w) # as)))))"

text \<open>A variable has its default until a flag bound to it is given; several flags may share it.\<close>

definition flag_value :: "string list \<Rightarrow> string \<Rightarrow> (string \<times> string) list \<Rightarrow> string" where
  "flag_value names d as = foldl (\<lambda>v (n, x). if n \<in> set names then x else v) d as"

definition flag_bool :: "string \<Rightarrow> bool \<Rightarrow> (string \<times> string) list \<Rightarrow> bool" where
  "flag_bool name d as = (flag_value [name] (bool_string d) as = ''true'')"

section \<open>Logging\<close>

text \<open>\<open>slog.Level.UnmarshalText\<close>: a name with an optional offset.\<close>

definition parse_level :: "string \<Rightarrow> int option" where
  "parse_level s =
     (let name = takeWhile (\<lambda>c. c \<noteq> CHR ''+'' \<and> c \<noteq> CHR ''-'') s; r = drop (length name) s;
          offset = (if r = [] then Some 0 else case atoi r of (n, ok) \<Rightarrow> if ok then Some n else None)
      in case (map_of [(''debug'', - 4), (''info'', 0), (''warn'', 4), (''error'', 8)] (to_lower name), offset) of
           (Some l, Some n) \<Rightarrow> Some (l + n)
         | _ \<Rightarrow> None)"

definition newLogger :: "string \<Rightarrow> string \<Rightarrow> (cli_error, int \<times> bool) result" where
  "newLogger level fmt =
     (case parse_level level of
        None \<Rightarrow> Inl (BadLogLevel level)
      | Some l \<Rightarrow>
          if fmt = ''json'' then Inr (l, True)
          else if fmt = ''text'' \<or> fmt = [] then Inr (l, False)
          else Inl (BadLogFormat fmt))"

definition logger_flags :: flags where
  "logger_flags = [(''env-file'', StringFlag), (''log-level'', StringFlag), (''log-format'', StringFlag)]"

definition logger_of :: "environ \<Rightarrow> (string \<times> string) list \<Rightarrow> (cli_error, int \<times> bool) result" where
  "logger_of m as =
     newLogger (flag_value [''log-level''] (envOr m ''SPAWNRELAY_LOG_LEVEL'' ''info'') as)
       (flag_value [''log-format''] (envOr m ''SPAWNRELAY_LOG_FORMAT'' ''text'') as)"

section \<open>The commands\<close>

definition runClient :: "cli_host \<Rightarrow> string \<Rightarrow> string list \<Rightarrow> environ \<Rightarrow> (cli_error, client_config) result" where
  "runClient ho version args m0 =
     rbind (preloadEnvFile ho args m0) (\<lambda>m.
     rbind (parse_flags (logger_flags @ [(''server'', StringFlag), (''token'', StringFlag), (''fingerprint'', StringFlag),
              (''allow-update'', BoolFlag)]) args) (\<lambda>as.
     rbind (logger_of m as) (\<lambda>_.
       Inr \<lparr>cc_Server = flag_value [''server''] (envOr m ''SPAWNRELAY_SERVER'' []) as,
            cc_Token = flag_value [''token''] (envOr m ''SPAWNRELAY_TOKEN'' []) as,
            cc_Fingerprint = flag_value [''fingerprint''] (envOr m ''SPAWNRELAY_FINGERPRINT'' []) as,
            cc_AllowUpdate = flag_bool ''allow-update'' (envBoolDefault m ''SPAWNRELAY_ALLOW_UPDATE'' True) as,
            cc_Version = version\<rparr>)))"

record server_options = server_config +
  cfg_UpdateRepo :: string

definition runServer :: "cli_host \<Rightarrow> string \<Rightarrow> string list \<Rightarrow> environ \<Rightarrow> (cli_error, server_options) result" where
  "runServer ho version args m0 =
     rbind (preloadEnvFile ho args m0) (\<lambda>m.
     rbind (parse_flags (logger_flags @ (''reset-admin-password'', BoolFlag) # map (\<lambda>n. (n, StringFlag))
              [''data-dir'', ''tunnel-addr'', ''admin-addr'', ''public-host'', ''admin-cert'', ''admin-key'', ''agent-socket'',
               ''firewall-socket'', ''update-repo'']) args) (\<lambda>as.
     rbind (logger_of m as) (\<lambda>_.
       Inr \<lparr>cfg_DataDir = flag_value [''data-dir''] (envOr m ''SPAWNRELAY_DATA_DIR'' (defaultDataDir ho)) as,
            cfg_TunnelAddr = flag_value [''tunnel-addr''] (envOr m ''SPAWNRELAY_TUNNEL_ADDR'' '':7443'') as,
            cfg_AdminAddr = flag_value [''admin-addr''] (envOr m ''SPAWNRELAY_ADMIN_ADDR'' '':8443'') as,
            cfg_PublicHost = flag_value [''public-host''] (envOr m ''SPAWNRELAY_PUBLIC_HOST'' []) as,
            cfg_AdminCert = flag_value [''admin-cert''] (envOr m ''SPAWNRELAY_ADMIN_CERT'' []) as,
            cfg_AdminKey = flag_value [''admin-key''] (envOr m ''SPAWNRELAY_ADMIN_KEY'' []) as,
            cfg_AgentSocket = flag_value [''agent-socket'', ''firewall-socket'']
              (envOr m ''SPAWNRELAY_AGENT_SOCKET'' (envOr m ''SPAWNRELAY_FIREWALL_SOCKET'' [])) as,
            cfg_ResetAdminPassword = flag_bool ''reset-admin-password'' (envBool m ''SPAWNRELAY_RESET_ADMIN_PASSWORD'') as,
            cfg_Version = version,
            cfg_UpdateRepo = flag_value [''update-repo''] (envOr m ''SPAWNRELAY_REPO'' DefaultUpdateRepo) as\<rparr>)))"

text \<open>The agent gets its updater unless updates are off or the platform has none.\<close>

record updater_options =
  uc_Repo :: string
  uc_BinPath :: string
  uc_ServerUnit :: string
  uc_AgentUnit :: string
  uc_AdminAddr :: string

record agent_options =
  ac_Socket :: string
  ac_DataDir :: string
  ac_Version :: string
  ac_Updater :: "updater_options option"

definition runAgent :: "cli_host \<Rightarrow> string \<Rightarrow> string list \<Rightarrow> environ \<Rightarrow> (cli_error, agent_options) result" where
  "runAgent ho version args m0 =
     rbind (preloadEnvFile ho args m0) (\<lambda>m.
     rbind (parse_flags (logger_flags @ (''no-updates'', BoolFlag) # map (\<lambda>n. (n, StringFlag))
              [''data-dir'', ''socket'', ''update-repo'', ''admin-addr'', ''binary'', ''server-unit'', ''agent-unit'']) args) (\<lambda>as.
     rbind (logger_of m as) (\<lambda>_.
       let dataDir = flag_value [''data-dir''] (envOr m ''SPAWNRELAY_DATA_DIR'' (defaultDataDir ho)) as;
           socket = flag_value [''socket''] (envOr m ''SPAWNRELAY_AGENT_SOCKET'' (envOr m ''SPAWNRELAY_FIREWALL_SOCKET'' [])) as;
           binary = flag_value [''binary''] (envOr m ''SPAWNRELAY_BINARY_PATH'' []) as
       in Inr \<lparr>ac_Socket = (if socket = [] then path_join [dataDir, ''agent.sock''] else socket), ac_DataDir = dataDir, ac_Version = version,
               ac_Updater =
                 (if \<not> flag_bool ''no-updates'' (envBool m ''SPAWNRELAY_NO_UPDATES'') as \<and> ho_GOOS ho = ''linux''
                  then Some \<lparr>uc_Repo = flag_value [''update-repo''] (envOr m ''SPAWNRELAY_REPO'' DefaultUpdateRepo) as,
                    uc_BinPath = (if binary = [] then (case ho_exe ho of Some real \<Rightarrow> real | None \<Rightarrow> []) else binary),
                    uc_ServerUnit = flag_value [''server-unit''] (envOr m ''SPAWNRELAY_SERVER_UNIT'' ''spawnrelay-server.service'') as,
                    uc_AgentUnit = flag_value [''agent-unit''] (envOr m ''SPAWNRELAY_AGENT_UNIT'' ''spawnrelay-agent.service'') as,
                    uc_AdminAddr = flag_value [''admin-addr''] (envOr m ''SPAWNRELAY_ADMIN_ADDR'' '':8443'') as\<rparr>
                  else None)\<rparr>)))"

datatype command = Usage | ServerCommand "string list" | ClientCommand "string list" | AgentCommand "string list"
  | PrintVersion | PrintHelp | UnknownCommand string

fun main_command :: "string list \<Rightarrow> command" where
  "main_command (self # c # args) =
     (if c = ''server'' then ServerCommand args
      else if c = ''client'' then ClientCommand args
      else if c = ''agent'' \<or> c = ''firewall-agent'' then AgentCommand args
      else if c \<in> {''version'', ''--version'', ''-v''} then PrintVersion
      else if c \<in> {''help'', ''-h'', ''--help''} then PrintHelp
      else UnknownCommand c)"
| "main_command _ = Usage"

section \<open>Where a setting comes from\<close>

lemma takeWhile_at: "c \<notin> set n \<Longrightarrow> takeWhile (\<lambda>x. x \<noteq> c) (n @ c # v) = n"
  by (induction n) auto

lemma cut_at: "c \<notin> set n \<Longrightarrow> cut c (n @ c # v) = (n, v, True)"
proof -
  assume "c \<notin> set n"
  then have "takeWhile (\<lambda>x. x \<noteq> c) (n @ c # v) = n" "dropWhile (\<lambda>x. x \<noteq> c) (n @ c # v) = c # v"
    by (induction n) auto
  then show ?thesis by (simp add: cut_def)
qed

lemma flag_value_last: "flag_value [n] d as = (case map_of (rev as) n of Some v \<Rightarrow> v | None \<Rightarrow> d)"
proof (induction as rule: rev_induct)
  case (snoc x as)
  then show ?case by (cases x) (simp add: flag_value_def)
qed (simp add: flag_value_def)

lemma flag_value_other: "\<forall>(n, v)\<in>set as. n \<notin> set names \<Longrightarrow> flag_value names d as = d"
  by (induction as) (auto simp: flag_value_def)

definition assign :: "string \<times> string \<Rightarrow> string" where
  "assign nv = ''--'' @ fst nv @ CHR ''='' # snd nv"

definition plain_name :: "string \<Rightarrow> bool" where
  "plain_name n \<longleftrightarrow> n \<noteq> [] \<and> hd n \<noteq> CHR ''-'' \<and> CHR ''='' \<notin> set n"

lemma parse_assign:
  assumes "plain_name n" and "map_of fs n = Some StringFlag"
  shows "parse_flags fs (assign (n, v) # args) = rbind (parse_flags fs args) (\<lambda>as. Inr ((n, v) # as))"
proof -
  have w: "flag_name (assign (n, v)) = n @ CHR ''='' # v" by (simp add: flag_name_def assign_def has_prefix_def)
  have c: "cut CHR ''='' (n @ CHR ''='' # v) = (n, v, True)" using assms(1) by (simp add: cut_at plain_name_def)
  have h: "hd (n @ CHR ''='' # v) \<noteq> CHR ''-''" "hd (n @ CHR ''='' # v) \<noteq> CHR ''=''" "n @ CHR ''='' # v \<noteq> []"
    using assms(1) by (cases n; auto simp: plain_name_def)+
  have s: "\<not> (length (assign (n, v)) < 2 \<or> hd (assign (n, v)) \<noteq> CHR ''-'' \<or> assign (n, v) = ''--'')"
    using assms(1) by (simp add: assign_def)
  show ?thesis unfolding parse_flags.simps if_not_P[OF s] Let_def w c using h assms(2) by simp
qed

declare parse_flags.simps(2) [simp del]

lemma parse_assigns:
  "\<forall>(n, v)\<in>set kvs. plain_name n \<and> map_of fs n = Some StringFlag \<Longrightarrow> parse_flags fs (map assign kvs) = Inr kvs"
  by (induction kvs) (auto simp: parse_assign)

lemma parse_env_file:
  assumes "map_of fs ''env-file'' = Some StringFlag"
  shows "parse_flags fs (''--env-file'' # path # args) = rbind (parse_flags fs args) (\<lambda>as. Inr ((''env-file'', path) # as))"
proof -
  have "flag_name ''--env-file'' = ''env-file''" "cut CHR ''='' ''env-file'' = (''env-file'', [], False)" by code_simp+
  then show ?thesis using assms by (simp add: parse_flags.simps(2))
qed

text \<open>Lines of an environment file that only assign.\<close>

definition clean :: "string \<Rightarrow> bool" where
  "clean s \<longleftrightarrow> CHR 0x00 \<notin> set s \<and> (\<forall>c\<in>set s. \<not> is_space c) \<and> CHR 0x22 \<notin> set s \<and> CHR 0x27 \<notin> set s"

lemma clean_trim: "clean s \<Longrightarrow> trim_space s = s"
proof -
  assume s: "clean s"
  then have "dropWhile is_space s = s" by (cases s) (auto simp: clean_def)
  moreover from s have "dropWhile is_space (rev s) = rev s" by (cases "rev s") (auto simp: clean_def in_set_conv_decomp dest: arg_cong[where f = set])
  ultimately show ?thesis by (simp add: trim_space_def)
qed

definition env_assign :: "string \<times> string \<Rightarrow> string" where
  "env_assign kv = fst kv @ CHR ''='' # snd kv"

definition env_key :: "string \<Rightarrow> bool" where
  "env_key k \<longleftrightarrow> clean k \<and> k \<noteq> [] \<and> hd k \<noteq> CHR ''#'' \<and> CHR ''='' \<notin> set k"

lemma env_line_assign:
  assumes "env_key k" and "clean v"
  shows "env_line (env_assign (k, v)) m = Inr (m(k \<mapsto> v))"
proof -
  have c: "clean k" "clean v" using assms by (simp_all add: env_key_def)
  let ?l = "k @ CHR ''='' # v"
  have t: "trim_space ?l = ?l"
  proof -
    have sp: "\<not> is_space CHR ''=''" by (simp add: is_space_def)
    have "dropWhile is_space ?l = ?l" using assms(1) by (cases k) (auto simp: env_key_def clean_def)
    moreover have "dropWhile is_space (rev ?l) = rev ?l"
    proof -
      have "\<forall>c\<in>set (rev v). \<not> is_space c" using c(2) by (simp add: clean_def)
      then have "dropWhile is_space (rev v @ CHR ''='' # rev k) = rev v @ CHR ''='' # rev k" using sp by (cases "rev v") simp_all
      then show ?thesis by simp
    qed
    ultimately show ?thesis by (simp add: trim_space_def)
  qed
  have e: "\<not> (?l = [] \<or> has_prefix ''#'' ?l)" using assms(1) by (cases k) (auto simp: env_key_def has_prefix_def)
  have x: "trim_prefix ''export '' ?l = ?l"
  proof -
    have "\<not> has_prefix ''export '' ?l"
    proof
      assume "has_prefix ''export '' ?l"
      then obtain r where r: "?l = ''export '' @ r" unfolding has_prefix_def by (metis append_take_drop_id)
      have "k = takeWhile (\<lambda>x. x \<noteq> CHR ''='') ?l" using takeWhile_at[of "CHR ''=''" k v] assms(1) unfolding env_key_def by metis
      then have "CHR '' '' \<in> set k" unfolding r by simp
      moreover have "is_space CHR '' ''" by (simp add: is_space_def)
      ultimately show False using c(1) by (auto simp: clean_def)
    qed
    then show ?thesis by (simp add: trim_prefix_def)
  qed
  have u: "unquoted v = v" using c(2) by (cases v) (auto simp: unquoted_def clean_def)
  have k: "k \<noteq> []" "CHR 0x00 \<notin> set k" "CHR 0x00 \<notin> set v" "CHR ''='' \<notin> set k" using assms by (auto simp: env_key_def clean_def)
  show ?thesis
    unfolding env_line_def env_assign_def fst_conv snd_conv Let_def t x if_not_P[OF e] cut_at[OF k(4)]
    using k by (simp add: clean_trim c u setenv_def)
qed

lemma env_lines_assign:
  "\<forall>(k, v)\<in>set kvs. env_key k \<and> clean v \<and> length k + length v < 65535 \<Longrightarrow> env_lines (map env_assign kvs) m = Inr (m ++ map_of (rev kvs))"
proof (induction kvs arbitrary: m)
  case (Cons kv kvs)
  obtain k v where kv: "kv = (k, v)" by fastforce
  have c: "env_key k" "clean v" "length k + length v < 65535" using Cons.prems by (simp_all add: kv)
  have "env_line (env_assign (k, v)) m = Inr (m(k \<mapsto> v))" by (rule env_line_assign) (rule c)+
  moreover have "\<not> length (env_assign (k, v)) \<ge> 65536" using c(3) by (simp add: env_assign_def)
  ultimately show ?case using Cons by (simp add: kv map_add_def fun_eq_iff split: option.split)
qed simp

lemma split_lines: "\<forall>l\<in>set ls. c \<notin> set l \<Longrightarrow> ls \<noteq> [] \<Longrightarrow> split_on c (join [c] ls) = ls"
proof (induction ls)
  case (Cons l ls)
  show ?case
  proof (cases "ls = []")
    case True
    with Cons.prems show ?thesis by (simp add: split_on_no_sep)
  next
    case False
    then have "join [c] (l # ls) = l @ c # join [c] ls" by (cases ls) simp_all
    with Cons False show ?thesis by (simp add: split_on_append_sep split_on_no_sep)
  qed
qed simp

text \<open>
  C36: The settings of a client come from the nearest source: a flag that is given (the last one, when
  repeated), else the last line of the environment file that sets the variable, else the process
  environment, else empty; updates stay allowed unless a variable turns them off. So a client whose
  file names a pinned server keeps that pin unless a flag says otherwise.
\<close>

theorem client_settings_come_from_the_nearest_source:
  assumes "ho_file ho path = Inr (join [CHR 0x0A] (map env_assign file))" and "file \<noteq> []"
    and "\<forall>(k, v)\<in>set file. env_key k \<and> clean v \<and> length k + length v < 65535"
    and "\<forall>(n, v)\<in>set cmdline. n \<in> {''server'', ''token'', ''fingerprint''}"
    and "m = m0 ++ map_of (rev file)" and "logger_of m [] = Inr lg"
  shows "runClient ho version (''--env-file'' # path # map assign cmdline) m0 = Inr
    \<lparr>cc_Server = (case map_of (rev cmdline) ''server'' of Some v \<Rightarrow> v | None \<Rightarrow> getenv m ''SPAWNRELAY_SERVER''),
     cc_Token = (case map_of (rev cmdline) ''token'' of Some v \<Rightarrow> v | None \<Rightarrow> getenv m ''SPAWNRELAY_TOKEN''),
     cc_Fingerprint = (case map_of (rev cmdline) ''fingerprint'' of Some v \<Rightarrow> v | None \<Rightarrow> getenv m ''SPAWNRELAY_FINGERPRINT''),
     cc_AllowUpdate = (getenv m ''SPAWNRELAY_ALLOW_UPDATE'' = [] \<or> envBool m ''SPAWNRELAY_ALLOW_UPDATE''),
     cc_Version = version\<rparr>"
proof -
  have nl: "CHR 0x0A \<notin> set (env_assign (k, v))" if "(k, v) \<in> set file" for k v
  proof -
    have "is_space CHR 0x0A" by (simp add: is_space_def)
    with assms(3) that show ?thesis by (auto simp: env_assign_def env_key_def clean_def)
  qed
  have "split_on CHR 0x0A (join [CHR 0x0A] (map env_assign file)) = map env_assign file"
    by (rule split_lines) (use nl assms(2) in auto)
  then have pre: "preloadEnvFile ho (''--env-file'' # path # map assign cmdline) m0 = Inr m"
    using assms(1,3,5) by (simp add: loadEnvFile_def env_lines_assign)
  let ?fs = "logger_flags @ [(''server'', StringFlag), (''token'', StringFlag), (''fingerprint'', StringFlag), (''allow-update'', BoolFlag)]"
  have "plain_name n \<and> map_of ?fs n = Some StringFlag" if "n \<in> {''server'', ''token'', ''fingerprint''}" for n
    using that by (auto simp: plain_name_def logger_flags_def)
  with assms(4) have "parse_flags ?fs (map assign cmdline) = Inr cmdline" by (intro parse_assigns) blast
  then have parse: "parse_flags ?fs (''--env-file'' # path # map assign cmdline) = Inr ((''env-file'', path) # cmdline)"
    by (subst parse_env_file) (simp_all add: logger_flags_def)
  have log: "logger_of m ((''env-file'', path) # cmdline) = Inr lg"
  proof -
    have "flag_value [n] d ((''env-file'', path) # cmdline) = d" if "n \<in> {''log-level'', ''log-format''}" for n d
      by (rule flag_value_other) (use assms(4) that in auto)
    then show ?thesis using assms(6) flag_value_other[of "[]"] by (simp add: logger_of_def)
  qed
  have env: "envOr m k [] = getenv m k" for k by (simp add: envOr_def)
  have val: "flag_value [n] (getenv m k) ((''env-file'', path) # cmdline) = (case map_of (rev cmdline) n of Some v \<Rightarrow> v | None \<Rightarrow> getenv m k)"
    if "n \<noteq> ''env-file''" for n k
    using that by (simp add: flag_value_last map_add_def split: option.split)
  have allow: "flag_bool ''allow-update'' d ((''env-file'', path) # cmdline) = d" for d
    using assms(4) by (subst flag_bool_def, subst flag_value_other) (auto simp: bool_string_def)
  show ?thesis
    unfolding runClient_def pre parse log rbind.simps(2) env allow
    by (simp add: val envBoolDefault_def)
qed

definition demo_file :: "(string \<times> string) list" where
  "demo_file = [(''SPAWNRELAY_SERVER'', ''relay:7443''), (''SPAWNRELAY_TOKEN'', ''sr_a'')]"

definition demo_ho :: cli_host where
  "demo_ho = \<lparr>ho_GOOS = ''linux'', ho_euid = 1, ho_home = None, ho_exe = None,
     ho_file = (\<lambda>_. Inr (join [CHR 0x0A] (map env_assign demo_file)))\<rparr>"

theorem client_settings_come_from_the_nearest_source_witness:
  "runClient demo_ho ''v1'' (''--env-file'' # ''client.env'' # map assign [(''token'', ''sr_b'')]) Map.empty
     = Inr \<lparr>cc_Server = ''relay:7443'', cc_Token = ''sr_b'', cc_Fingerprint = [], cc_AllowUpdate = True, cc_Version = ''v1''\<rparr>"
proof -
  have f: "ho_file demo_ho ''client.env'' = Inr (join [CHR 0x0A] (map env_assign demo_file))" by (simp add: demo_ho_def)
  have k: "\<forall>(k, v)\<in>set demo_file. env_key k \<and> clean v \<and> length k + length v < 65535"
    by (simp add: demo_file_def env_key_def clean_def is_space_def)
  have g: "\<forall>(n, v)\<in>set [(''token'', ''sr_b'')]. n \<in> {''server'', ''token'', ''fingerprint''}" by simp
  let ?m = "Map.empty ++ map_of (rev demo_file)"
  have m: "getenv ?m ''SPAWNRELAY_SERVER'' = ''relay:7443''" "getenv ?m ''SPAWNRELAY_FINGERPRINT'' = []" "getenv ?m ''SPAWNRELAY_ALLOW_UPDATE'' = []"
    "getenv ?m ''SPAWNRELAY_LOG_LEVEL'' = []" "getenv ?m ''SPAWNRELAY_LOG_FORMAT'' = []"
    by (simp_all add: getenv_def demo_file_def)
  have "to_lower ''info'' = ''info''" by code_simp
  then have lvl: "newLogger ''info'' ''text'' = Inr (0, False)" by (simp add: newLogger_def parse_level_def Let_def)
  have l: "logger_of ?m [] = Inr (0, False)" using m lvl by (simp add: logger_of_def flag_value_def envOr_def)
  have ne: "demo_file \<noteq> []" by (simp add: demo_file_def)
  show ?thesis
    using client_settings_come_from_the_nearest_source[OF f ne k g refl l, of "''v1''"] m by simp
qed

end
